(* ===== verification/Prelude.thy ===== *)
theory Prelude
  imports Main "HOL-Library.Word" "HOL-Library.Monad_Syntax"
begin

text \<open>
  Shared vocabulary of the development: the machine integer types of the C sources, single-bit
  masks (the \<^verbatim>\<open>_BV(n)\<close> and \<^verbatim>\<open>(1 << n)\<close> idioms), byte splitting of 16 and 32 bit values, and the
  generic facts on words, lists and options that the component theories use. The collections
  \<open>reg_simps\<close> (register accesses) and \<open>code_defs\<close> (straight-line functions that proofs unfold)
  are filled by the component theories.
\<close>

unbundle bit_operations_syntax

section \<open>Machine integers\<close>

type_synonym u8 = "8 word"
type_synonym u16 = "16 word"
type_synonym u32 = "32 word"

named_theorems reg_simps \<open>register reads and writes\<close>
named_theorems code_defs \<open>definitions of straight-line firmware functions\<close>

text \<open>The byte with only bit \<open>n\<close> set, C's \<^verbatim>\<open>1 << n\<close> stored in an 8 bit object.\<close>

definition BV :: "nat \<Rightarrow> u8" where
  "BV n = push_bit n 1"

lemma bit_BV [simp]: "bit (BV n) k \<longleftrightarrow> k = n \<and> n < 8"
  by (auto simp: BV_def bit_push_bit_iff bit_simps)

lemma BV_eval:
  "BV 0 = 1" "BV 1 = 2" "BV (Suc 0) = 2" "BV 2 = 4" "BV 3 = 8" "BV 4 = 16" "BV 5 = 32" "BV 6 = 64" "BV 7 = 128"
  by (simp_all add: BV_def)

text \<open>Tests of the form \<^verbatim>\<open>if (REG & _BV(n))\<close>.\<close>

definition tst :: "u8 \<Rightarrow> nat \<Rightarrow> bool" where
  "tst v n = bit v n"

lemma tst_mask: "n < 8 \<Longrightarrow> tst v n \<longleftrightarrow> v AND BV n \<noteq> 0"
proof -
  assume n: "n < 8"
  have "bit (v AND BV n) n \<longleftrightarrow> bit v n" using n by (simp add: bit_and_iff)
  moreover have "v AND BV n \<noteq> 0" if "bit v n"
    using that calculation by auto
  moreover have "v AND BV n = 0" if "\<not> bit v n"
    by (rule bit_eqI) (use that in \<open>auto simp: bit_and_iff\<close>)
  ultimately show ?thesis by (auto simp: tst_def)
qed

lemma tst_or [simp]: "tst (v OR w) n \<longleftrightarrow> tst v n \<or> tst w n"
  by (simp add: tst_def bit_or_iff)

lemma tst_and [simp]: "tst (v AND w) n \<longleftrightarrow> tst v n \<and> tst w n"
  by (simp add: tst_def bit_and_iff)

lemma tst_not [simp]: "n < 8 \<Longrightarrow> tst (NOT v) n \<longleftrightarrow> \<not> tst v n"
  by (simp add: tst_def bit_not_iff_eq)

lemma tst_xor [simp]: "tst (v XOR w) n \<longleftrightarrow> tst v n \<noteq> tst w n"
  by (simp add: tst_def bit_xor_iff)

lemma tst_BV [simp]: "tst (BV n) k \<longleftrightarrow> k = n \<and> n < 8"
  by (simp add: tst_def)

lemma tst_0 [simp]: "\<not> tst 0 n"
  by (simp add: tst_def)

lemma and_FF: "0xFF AND v = (v :: u8)"
proof -
  have "(0xFF :: u8) = - 1" by simp
  then show ?thesis by (simp only: and.left_neutral)
qed

section \<open>Bytes of wider values\<close>

definition lo8 :: "u16 \<Rightarrow> u8" where
  "lo8 w = ucast w"

definition hi8 :: "u16 \<Rightarrow> u8" where
  "hi8 w = ucast (drop_bit 8 w)"

definition mk16 :: "u8 \<Rightarrow> u8 \<Rightarrow> u16" where
  "mk16 h l = push_bit 8 (ucast h) OR ucast l"

lemma lo8_mk16 [simp]: "lo8 (mk16 h l) = l"
  by (rule bit_word_eqI) (auto simp: lo8_def mk16_def bit_simps)

lemma hi8_mk16 [simp]: "hi8 (mk16 h l) = h"
  by (rule bit_word_eqI) (auto simp: hi8_def mk16_def bit_simps dest: bit_imp_le_length)

lemma mk16_split [simp]: "mk16 (hi8 w) (lo8 w) = w"
  by (rule bit_word_eqI) (auto simp: hi8_def lo8_def mk16_def bit_simps)

lemma mk16_add: "mk16 h l = 256 * ucast h + ucast l"
proof -
  have "push_bit 8 (ucast h) OR (ucast l :: u16) = push_bit 8 (ucast h) + ucast l"
    by (rule disjunctive_add [symmetric]) (auto simp: bit_simps dest: bit_imp_le_length)
  then show ?thesis by (simp add: mk16_def push_bit_eq_mult)
qed

lemma unat_mk16: "unat (mk16 h l) = 256 * unat h + unat l"
proof -
  have h: "unat h < 256" and l: "unat l < 256"
    using unsigned_less [of h] unsigned_less [of l] by simp_all
  then have "(256 * unat h + unat l) mod 65536 = 256 * unat h + unat l" by simp
  then show ?thesis
    by (simp add: mk16_add unat_word_ariths unsigned_ucast_eq take_bit_eq_mod)
qed

section \<open>Lists and options\<close>

lemma bind_Some_iff: "(m \<bind> f) = Some y \<longleftrightarrow> (\<exists>x. m = Some x \<and> f x = Some y)"
  by (cases m) auto

lemma length_concat_le:
  "(\<And>x. x \<in> set xs \<Longrightarrow> length x \<le> n) \<Longrightarrow> length (concat xs) \<le> n * length xs"
  by (induction xs) (auto intro!: add_mono)

text \<open>C's \<^verbatim>\<open>memcpy\<close> of \<open>bs\<close> into an array at offset \<open>i\<close>.\<close>

definition blit :: "nat \<Rightarrow> 'a list \<Rightarrow> 'a list \<Rightarrow> 'a list" where
  "blit i bs xs = take i xs @ bs @ drop (i + length bs) xs"

lemma nth_blit:
  "i + length bs \<le> length xs \<Longrightarrow> p < length xs \<Longrightarrow> blit i bs xs ! p = (if i \<le> p \<and> p < i + length bs then bs ! (p - i) else xs ! p)"
  by (auto simp: blit_def nth_append min_def)

lemma length_blit: "i + length bs \<le> length xs \<Longrightarrow> length (blit i bs xs) = length xs"
  by (simp add: blit_def)

lemma take_blit: "i \<le> length xs \<Longrightarrow> take (i + length bs) (blit i bs xs) = take i xs @ bs"
  by (simp add: blit_def)

end
