(* ===== verification/Mcu.thy ===== *)
theory Mcu
  imports Prelude
begin

text \<open>
  The platform boundary. The firmware runs on an ATmega32U4: it reads and writes I/O registers,
  is preempted by interrupts, waits, and reprograms flash through avr-libc's \<^verbatim>\<open><avr/boot.h>\<close> and
  \<^verbatim>\<open><avr/pgmspace.h>\<close>. None of that is code of the repository, so it is a parameter: every
  definition that touches the hardware takes a record \<open>m :: 'h mcu\<close> of operations on an unspecified
  hardware state \<open>'h\<close>. Theories that need something of the hardware state it as the laws of a locale
  over \<open>m\<close>. Registers that are plain read/write storage for the firmware (port and direction
  latches, mask registers, \<^verbatim>\<open>UENUM\<close>) are also kept in the firmware state, so that reading one gives
  what was last written.
\<close>

section \<open>Registers, bits and vectors of the ATmega32U4\<close>

datatype reg =
    PORTB | DDRB | PORTC | DDRC | PORTD | DDRD | PIND | PORTE | DDRE
  | UCSR1A | UCSR1B | UCSR1C | UBRR1H | UBRR1L | UDR1
  | TIMSK1 | TCCR1B | TCNT1H | TCNT1L | OCR1AH | OCR1AL
  | MCUCR | MCUSR | WDTCSR | CLKPR
  | UHWCON | USBCON | USBSTA | USBINT | UDCON | UDINT | UDIEN | UDADDR | UDFNUMH | UDFNUML
  | UENUM | UERST | UECONX | UECFG0X | UECFG1X | UESTA0X | UEINTX | UEIENX | UEDATX
  | UEBCLX | UEBCHX | UEINT | PLLCSR | PLLFRQ

datatype vect = TIMER1_COMPA_vect | USART1_RX_vect | USB_GEN_vect

text \<open>Bit positions, as \<^verbatim>\<open><avr/io.h>\<close> gives them for the part.\<close>

abbreviation (input) UDRE1 :: nat where "UDRE1 \<equiv> 5"
abbreviation (input) U2X1 :: nat where "U2X1 \<equiv> 1"
abbreviation (input) RXCIE1 :: nat where "RXCIE1 \<equiv> 7"
abbreviation (input) RXEN1 :: nat where "RXEN1 \<equiv> 4"
abbreviation (input) TXEN1 :: nat where "TXEN1 \<equiv> 3"
abbreviation (input) UCSZ10 :: nat where "UCSZ10 \<equiv> 1"
abbreviation (input) UCSZ11 :: nat where "UCSZ11 \<equiv> 2"
abbreviation (input) OCIE1A :: nat where "OCIE1A \<equiv> 1"
abbreviation (input) CS10 :: nat where "CS10 \<equiv> 0"
abbreviation (input) CS11 :: nat where "CS11 \<equiv> 1"
abbreviation (input) WGM12 :: nat where "WGM12 \<equiv> 3"
abbreviation (input) IVCE :: nat where "IVCE \<equiv> 0"
abbreviation (input) IVSEL :: nat where "IVSEL \<equiv> 1"
abbreviation (input) PORF :: nat where "PORF \<equiv> 0"
abbreviation (input) EXTRF :: nat where "EXTRF \<equiv> 1"
abbreviation (input) WDRF :: nat where "WDRF \<equiv> 3"
abbreviation (input) WDE :: nat where "WDE \<equiv> 3"
abbreviation (input) WDCE :: nat where "WDCE \<equiv> 4"
abbreviation (input) CLKPCE :: nat where "CLKPCE \<equiv> 7"
abbreviation (input) TXINI :: nat where "TXINI \<equiv> 0"
abbreviation (input) RXOUTI :: nat where "RXOUTI \<equiv> 2"
abbreviation (input) RXSTPI :: nat where "RXSTPI \<equiv> 3"
abbreviation (input) RWAL :: nat where "RWAL \<equiv> 5"
abbreviation (input) FIFOCON :: nat where "FIFOCON \<equiv> 7"
abbreviation (input) EPEN :: nat where "EPEN \<equiv> 0"
abbreviation (input) RSTDT :: nat where "RSTDT \<equiv> 3"
abbreviation (input) STALLRQC :: nat where "STALLRQC \<equiv> 4"
abbreviation (input) STALLRQ :: nat where "STALLRQ \<equiv> 5"
abbreviation (input) EPDIR :: nat where "EPDIR \<equiv> 0"
abbreviation (input) EPTYPE0 :: nat where "EPTYPE0 \<equiv> 6"
abbreviation (input) ALLOC :: nat where "ALLOC \<equiv> 1"
abbreviation (input) EPBK0 :: nat where "EPBK0 \<equiv> 2"
abbreviation (input) EPSIZE0 :: nat where "EPSIZE0 \<equiv> 4"
abbreviation (input) NBUSYBK0 :: nat where "NBUSYBK0 \<equiv> 0"
abbreviation (input) CFGOK :: nat where "CFGOK \<equiv> 7"
abbreviation (input) ADDEN :: nat where "ADDEN \<equiv> 7"
abbreviation (input) SUSPI :: nat where "SUSPI \<equiv> 0"
abbreviation (input) SOFI :: nat where "SOFI \<equiv> 2"
abbreviation (input) EORSTI :: nat where "EORSTI \<equiv> 3"
abbreviation (input) WAKEUPI :: nat where "WAKEUPI \<equiv> 4"
abbreviation (input) SUSPE :: nat where "SUSPE \<equiv> 0"
abbreviation (input) SOFE :: nat where "SOFE \<equiv> 2"
abbreviation (input) EORSTE :: nat where "EORSTE \<equiv> 3"
abbreviation (input) WAKEUPE :: nat where "WAKEUPE \<equiv> 4"
abbreviation (input) RXSTPE :: nat where "RXSTPE \<equiv> 3"
abbreviation (input) VBUSTI :: nat where "VBUSTI \<equiv> 0"
abbreviation (input) VBUSTE :: nat where "VBUSTE \<equiv> 0"
abbreviation (input) OTGPADE :: nat where "OTGPADE \<equiv> 4"
abbreviation (input) FRZCLK :: nat where "FRZCLK \<equiv> 5"
abbreviation (input) USBE :: nat where "USBE \<equiv> 7"
abbreviation (input) VBUS :: nat where "VBUS \<equiv> 0"
abbreviation (input) DETACH :: nat where "DETACH \<equiv> 0"
abbreviation (input) LSM :: nat where "LSM \<equiv> 2"
abbreviation (input) UVREGE :: nat where "UVREGE \<equiv> 0"
abbreviation (input) PLOCK :: nat where "PLOCK \<equiv> 0"
abbreviation (input) PLLE :: nat where "PLLE \<equiv> 1"
abbreviation (input) PINDIV :: nat where "PINDIV \<equiv> 4"
abbreviation (input) PLLUSB :: nat where "PLLUSB \<equiv> 6"
abbreviation (input) PDIV3 :: nat where "PDIV3 \<equiv> 3"
abbreviation (input) PDIV1 :: nat where "PDIV1 \<equiv> 1"

text \<open>Constants of the part: flash page size and the end of the vector table, in bytes.\<close>

abbreviation (input) SPM_PAGESIZE :: nat where "SPM_PAGESIZE \<equiv> 128"
abbreviation (input) VECTORS_SIZE :: nat where "VECTORS_SIZE \<equiv> 172"

section \<open>The hardware parameter\<close>

text \<open>
  \<open>rd_reg\<close> and \<open>wr_reg\<close> are volatile register accesses; a read may change the hardware (the data
  registers pop a FIFO). \<open>irq_line i h\<close> lets time pass at a preemption point and gives the vector the
  interrupt controller requests, \<open>i\<close> being the global interrupt flag. The remaining fields are
  avr-libc operations.
\<close>

record 'h mcu =
  rd_reg :: "reg \<Rightarrow> 'h \<Rightarrow> u8 \<times> 'h"
  wr_reg :: "reg \<Rightarrow> u8 \<Rightarrow> 'h \<Rightarrow> 'h"
  irq_line :: "bool \<Rightarrow> 'h \<Rightarrow> vect option \<times> 'h"
  hw_delay_ms :: "nat \<Rightarrow> 'h \<Rightarrow> 'h"
  hw_wdt_disable :: "'h \<Rightarrow> 'h"
  hw_pgm_byte :: "u16 \<Rightarrow> 'h \<Rightarrow> u8"
  hw_boot_page_erase :: "u32 \<Rightarrow> 'h \<Rightarrow> 'h"
  hw_boot_page_fill :: "u32 \<Rightarrow> u16 \<Rightarrow> 'h \<Rightarrow> 'h"
  hw_boot_page_write :: "u32 \<Rightarrow> 'h \<Rightarrow> 'h"
  hw_boot_spm_busy_wait :: "'h \<Rightarrow> 'h"
  hw_boot_rww_enable :: "'h \<Rightarrow> 'h"
  hw_boot_rww_enable_safe :: "'h \<Rightarrow> 'h"

end
