(* ===== verification/Usb_Types.thy ===== *)
theory Usb_Types
  imports Prelude
begin

text \<open>
  The data of the USB stack: request header, device states, request and descriptor constants,
  descriptor structures and the CDC line coding, with the constructors and fields of LUFA's
  \<^verbatim>\<open>Core/Device.h\<close>, \<^verbatim>\<open>Core/StdRequestType.h\<close>, \<^verbatim>\<open>Core/StdDescriptors.h\<close>, \<^verbatim>\<open>Core/USBController.h\<close> and
  \<^verbatim>\<open>Class/Common/CDC.h\<close>. All structures are \<^verbatim>\<open>ATTR_PACKED\<close> on a little-endian machine: their memory
  image is given by the \<open>bytes_of_\<close> functions, and the two structures that are also filled from
  bytes received over USB have a parser with a round-trip law.
\<close>

section \<open>Device states and requests\<close>

datatype USB_Device_States_t =
    DEVICE_STATE_Unattached
  | DEVICE_STATE_Powered
  | DEVICE_STATE_Default
  | DEVICE_STATE_Addressed
  | DEVICE_STATE_Configured
  | DEVICE_STATE_Suspended

record USB_Request_Header_t =
  bmRequestType :: u8
  bRequest :: u8
  wValue :: u16
  wIndex :: u16
  wLength :: u16

abbreviation (input) CONTROL_REQTYPE_DIRECTION :: u8 where "CONTROL_REQTYPE_DIRECTION \<equiv> 0x80"
abbreviation (input) CONTROL_REQTYPE_TYPE :: u8 where "CONTROL_REQTYPE_TYPE \<equiv> 0x60"
abbreviation (input) CONTROL_REQTYPE_RECIPIENT :: u8 where "CONTROL_REQTYPE_RECIPIENT \<equiv> 0x1F"
abbreviation (input) REQDIR_HOSTTODEVICE :: u8 where "REQDIR_HOSTTODEVICE \<equiv> 0"
abbreviation (input) REQDIR_DEVICETOHOST :: u8 where "REQDIR_DEVICETOHOST \<equiv> 0x80"
abbreviation (input) REQTYPE_STANDARD :: u8 where "REQTYPE_STANDARD \<equiv> 0"
abbreviation (input) REQTYPE_CLASS :: u8 where "REQTYPE_CLASS \<equiv> 0x20"
abbreviation (input) REQTYPE_VENDOR :: u8 where "REQTYPE_VENDOR \<equiv> 0x40"
abbreviation (input) REQREC_DEVICE :: u8 where "REQREC_DEVICE \<equiv> 0"
abbreviation (input) REQREC_INTERFACE :: u8 where "REQREC_INTERFACE \<equiv> 1"
abbreviation (input) REQREC_ENDPOINT :: u8 where "REQREC_ENDPOINT \<equiv> 2"
abbreviation (input) REQREC_OTHER :: u8 where "REQREC_OTHER \<equiv> 3"

abbreviation (input) REQ_GetStatus :: u8 where "REQ_GetStatus \<equiv> 0"
abbreviation (input) REQ_ClearFeature :: u8 where "REQ_ClearFeature \<equiv> 1"
abbreviation (input) REQ_SetFeature :: u8 where "REQ_SetFeature \<equiv> 3"
abbreviation (input) REQ_SetAddress :: u8 where "REQ_SetAddress \<equiv> 5"
abbreviation (input) REQ_GetDescriptor :: u8 where "REQ_GetDescriptor \<equiv> 6"
abbreviation (input) REQ_GetConfiguration :: u8 where "REQ_GetConfiguration \<equiv> 8"
abbreviation (input) REQ_SetConfiguration :: u8 where "REQ_SetConfiguration \<equiv> 9"
abbreviation (input) FEATURE_SEL_EndpointHalt :: u8 where "FEATURE_SEL_EndpointHalt \<equiv> 0"

abbreviation (input) CDC_REQ_SetLineEncoding :: u8 where "CDC_REQ_SetLineEncoding \<equiv> 0x20"
abbreviation (input) CDC_REQ_GetLineEncoding :: u8 where "CDC_REQ_GetLineEncoding \<equiv> 0x21"
abbreviation (input) CDC_REQ_SetControlLineState :: u8 where "CDC_REQ_SetControlLineState \<equiv> 0x22"
abbreviation (input) CDC_CONTROL_LINE_OUT_RTS :: u16 where "CDC_CONTROL_LINE_OUT_RTS \<equiv> 2"

abbreviation (input) ENDPOINT_DIR_OUT :: u8 where "ENDPOINT_DIR_OUT \<equiv> 0"
abbreviation (input) ENDPOINT_DIR_IN :: u8 where "ENDPOINT_DIR_IN \<equiv> 0x80"
abbreviation (input) EP_TYPE_CONTROL :: u8 where "EP_TYPE_CONTROL \<equiv> 0"
abbreviation (input) EP_TYPE_BULK :: u8 where "EP_TYPE_BULK \<equiv> 2"
abbreviation (input) EP_TYPE_INTERRUPT :: u8 where "EP_TYPE_INTERRUPT \<equiv> 3"
abbreviation (input) ENDPOINT_EPNUM_MASK :: u8 where "ENDPOINT_EPNUM_MASK \<equiv> 7"
abbreviation (input) ENDPOINT_CONTROLEP :: u8 where "ENDPOINT_CONTROLEP \<equiv> 0"

abbreviation (input) DTYPE_Device :: u8 where "DTYPE_Device \<equiv> 1"
abbreviation (input) DTYPE_Configuration :: u8 where "DTYPE_Configuration \<equiv> 2"
abbreviation (input) DTYPE_String :: u8 where "DTYPE_String \<equiv> 3"
abbreviation (input) DTYPE_Interface :: u8 where "DTYPE_Interface \<equiv> 4"
abbreviation (input) DTYPE_Endpoint :: u8 where "DTYPE_Endpoint \<equiv> 5"
abbreviation (input) DTYPE_CSInterface :: u8 where "DTYPE_CSInterface \<equiv> 0x24"
abbreviation (input) NO_DESCRIPTOR :: u8 where "NO_DESCRIPTOR \<equiv> 0"

definition bytes16 :: "u16 \<Rightarrow> u8 list" where
  "bytes16 w = [lo8 w, hi8 w]"

definition bytes32 :: "u32 \<Rightarrow> u8 list" where
  "bytes32 w = [ucast w, ucast (drop_bit 8 w), ucast (drop_bit 16 w), ucast (drop_bit 24 w)]"

definition mk32 :: "u8 \<Rightarrow> u8 \<Rightarrow> u8 \<Rightarrow> u8 \<Rightarrow> u32" where
  "mk32 b3 b2 b1 b0 =
     push_bit 24 (ucast b3) OR push_bit 16 (ucast b2) OR push_bit 8 (ucast b1) OR ucast b0"

lemma length_bytes16 [simp]: "length (bytes16 w) = 2"
  by (simp add: bytes16_def)

lemma length_bytes32 [simp]: "length (bytes32 w) = 4"
  by (simp add: bytes32_def)

lemma bytes32_mk32 [simp]: "bytes32 (mk32 b3 b2 b1 b0) = [b0, b1, b2, b3]"
proof -
  have "ucast (mk32 b3 b2 b1 b0) = b0"
    by (rule bit_word_eqI) (auto simp: mk32_def bit_simps)
  moreover have "ucast (drop_bit 8 (mk32 b3 b2 b1 b0)) = b1"
    by (rule bit_word_eqI) (auto simp: mk32_def bit_simps dest: bit_imp_le_length)
  moreover have "ucast (drop_bit 16 (mk32 b3 b2 b1 b0)) = b2"
    by (rule bit_word_eqI) (auto simp: mk32_def bit_simps dest: bit_imp_le_length)
  moreover have "ucast (drop_bit 24 (mk32 b3 b2 b1 b0)) = b3"
    by (rule bit_word_eqI) (auto simp: mk32_def bit_simps dest: bit_imp_le_length)
  ultimately show ?thesis by (simp add: bytes32_def)
qed

lemma mk32_bytes32:
  "mk32 (ucast (drop_bit 24 w)) (ucast (drop_bit 16 w)) (ucast (drop_bit 8 w)) (ucast w) = w"
proof (rule bit_word_eqI)
  fix n assume n: "n < LENGTH(32)"
  consider "n < 8" | "8 \<le> n" "n < 16" | "16 \<le> n" "n < 24" | "24 \<le> n" "n < 32" using n by fastforce
  then show "bit (mk32 (ucast (drop_bit 24 w)) (ucast (drop_bit 16 w)) (ucast (drop_bit 8 w)) (ucast w)) n = bit w n"
    by cases (auto simp: mk32_def bit_simps)
qed

text \<open>
  The request header read byte by byte into the packed structure. Only the first eight bytes
  matter; the function is total because the source always supplies exactly eight.
\<close>

definition request_of_bytes :: "u8 list \<Rightarrow> USB_Request_Header_t" where
  "request_of_bytes bs = \<lparr>bmRequestType = bs ! 0, bRequest = bs ! 1,
     wValue = mk16 (bs ! 3) (bs ! 2), wIndex = mk16 (bs ! 5) (bs ! 4),
     wLength = mk16 (bs ! 7) (bs ! 6)\<rparr>"

definition bytes_of_request :: "USB_Request_Header_t \<Rightarrow> u8 list" where
  "bytes_of_request r = [bmRequestType r, bRequest r] @ bytes16 (wValue r) @ bytes16 (wIndex r) @ bytes16 (wLength r)"

lemma request_roundtrip [simp]: "request_of_bytes (bytes_of_request r) = r"
  by (simp add: request_of_bytes_def bytes_of_request_def bytes16_def)

section \<open>CDC line coding\<close>

record CDC_LineEncoding_t =
  BaudRateBPS :: u32
  CharFormat :: u8
  ParityType :: u8
  DataBits :: u8

definition bytes_of_LineEncoding :: "CDC_LineEncoding_t \<Rightarrow> u8 list" where
  "bytes_of_LineEncoding e = bytes32 (BaudRateBPS e) @ [CharFormat e, ParityType e, DataBits e]"

definition LineEncoding_of_bytes :: "u8 list \<Rightarrow> CDC_LineEncoding_t" where
  "LineEncoding_of_bytes bs = \<lparr>BaudRateBPS = mk32 (bs ! 3) (bs ! 2) (bs ! 1) (bs ! 0),
     CharFormat = bs ! 4, ParityType = bs ! 5, DataBits = bs ! 6\<rparr>"

lemma LineEncoding_roundtrip [simp]: "LineEncoding_of_bytes (bytes_of_LineEncoding e) = e"
  by (simp add: LineEncoding_of_bytes_def bytes_of_LineEncoding_def bytes32_def mk32_bytes32)

lemma length_bytes_of_LineEncoding [simp]: "length (bytes_of_LineEncoding e) = 7"
  by (simp add: bytes_of_LineEncoding_def)

lemma bytes_of_LineEncoding_of_bytes:
  assumes "length bs = 7"
  shows "bytes_of_LineEncoding (LineEncoding_of_bytes bs) = bs"
proof -
  obtain a b c d e f g where "bs = [a, b, c, d, e, f, g]"
    using assms by (auto simp: numeral_eq_Suc length_Suc_conv)
  then show ?thesis by (simp add: bytes_of_LineEncoding_def LineEncoding_of_bytes_def)
qed

section \<open>Descriptors\<close>

record USB_Descriptor_Device_t =
  Dev_Size :: u8
  Dev_Type :: u8
  USBSpecification :: u16
  Dev_Class :: u8
  Dev_SubClass :: u8
  Dev_Protocol :: u8
  Endpoint0Size :: u8
  VendorID :: u16
  ProductID :: u16
  ReleaseNumber :: u16
  ManufacturerStrIndex :: u8
  ProductStrIndex :: u8
  SerialNumStrIndex :: u8
  NumberOfConfigurations :: u8

definition bytes_of_Device :: "USB_Descriptor_Device_t \<Rightarrow> u8 list" where
  "bytes_of_Device d = [Dev_Size d, Dev_Type d] @ bytes16 (USBSpecification d)
     @ [Dev_Class d, Dev_SubClass d, Dev_Protocol d, Endpoint0Size d]
     @ bytes16 (VendorID d) @ bytes16 (ProductID d) @ bytes16 (ReleaseNumber d)
     @ [ManufacturerStrIndex d, ProductStrIndex d, SerialNumStrIndex d, NumberOfConfigurations d]"

record USB_Descriptor_Configuration_Header_t =
  Cfg_Size :: u8
  Cfg_Type :: u8
  TotalConfigurationSize :: u16
  Cfg_TotalInterfaces :: u8
  ConfigurationNumber :: u8
  ConfigurationStrIndex :: u8
  ConfigAttributes :: u8
  MaxPowerConsumption :: u8

definition bytes_of_Configuration_Header :: "USB_Descriptor_Configuration_Header_t \<Rightarrow> u8 list" where
  "bytes_of_Configuration_Header d = [Cfg_Size d, Cfg_Type d] @ bytes16 (TotalConfigurationSize d)
     @ [Cfg_TotalInterfaces d, ConfigurationNumber d, ConfigurationStrIndex d, ConfigAttributes d,
        MaxPowerConsumption d]"

record USB_Descriptor_Interface_t =
  If_Size :: u8
  If_Type :: u8
  InterfaceNumber :: u8
  AlternateSetting :: u8
  TotalEndpoints :: u8
  If_Class :: u8
  If_SubClass :: u8
  If_Protocol :: u8
  InterfaceStrIndex :: u8

definition bytes_of_Interface :: "USB_Descriptor_Interface_t \<Rightarrow> u8 list" where
  "bytes_of_Interface d = [If_Size d, If_Type d, InterfaceNumber d, AlternateSetting d,
     TotalEndpoints d, If_Class d, If_SubClass d, If_Protocol d, InterfaceStrIndex d]"

record USB_Descriptor_Endpoint_t =
  Ep_Size :: u8
  Ep_Type :: u8
  EndpointAddress :: u8
  Ep_Attributes :: u8
  EndpointSize :: u16
  PollingIntervalMS :: u8

definition bytes_of_Endpoint :: "USB_Descriptor_Endpoint_t \<Rightarrow> u8 list" where
  "bytes_of_Endpoint d = [Ep_Size d, Ep_Type d, EndpointAddress d, Ep_Attributes d]
     @ bytes16 (EndpointSize d) @ [PollingIntervalMS d]"

record USB_CDC_Descriptor_FunctionalHeader_t =
  FH_Size :: u8
  FH_Type :: u8
  FH_Subtype :: u8
  CDCSpecification :: u16

definition bytes_of_FunctionalHeader :: "USB_CDC_Descriptor_FunctionalHeader_t \<Rightarrow> u8 list" where
  "bytes_of_FunctionalHeader d = [FH_Size d, FH_Type d, FH_Subtype d] @ bytes16 (CDCSpecification d)"

record USB_CDC_Descriptor_FunctionalACM_t =
  FA_Size :: u8
  FA_Type :: u8
  FA_Subtype :: u8
  Capabilities :: u8

definition bytes_of_FunctionalACM :: "USB_CDC_Descriptor_FunctionalACM_t \<Rightarrow> u8 list" where
  "bytes_of_FunctionalACM d = [FA_Size d, FA_Type d, FA_Subtype d, Capabilities d]"

record USB_CDC_Descriptor_FunctionalUnion_t =
  FU_Size :: u8
  FU_Type :: u8
  FU_Subtype :: u8
  MasterInterfaceNumber :: u8
  SlaveInterfaceNumber :: u8

definition bytes_of_FunctionalUnion :: "USB_CDC_Descriptor_FunctionalUnion_t \<Rightarrow> u8 list" where
  "bytes_of_FunctionalUnion d = [FU_Size d, FU_Type d, FU_Subtype d, MasterInterfaceNumber d, SlaveInterfaceNumber d]"

record USB_Descriptor_String_t =
  Str_Size :: u8
  Str_Type :: u8
  UnicodeString :: "u16 list"

definition bytes_of_String :: "USB_Descriptor_String_t \<Rightarrow> u8 list" where
  "bytes_of_String d = [Str_Size d, Str_Type d] @ concat (map bytes16 (UnicodeString d))"

text \<open>The packed sizes, C's \<^verbatim>\<open>sizeof\<close> of each structure.\<close>

lemma descriptor_sizes [simp]:
  "length (bytes_of_Device d1) = 18"
  "length (bytes_of_Configuration_Header d2) = 9"
  "length (bytes_of_Interface d3) = 9"
  "length (bytes_of_Endpoint d4) = 7"
  "length (bytes_of_FunctionalHeader d5) = 5"
  "length (bytes_of_FunctionalACM d6) = 4"
  "length (bytes_of_FunctionalUnion d7) = 5"
  by (simp_all add: bytes_of_Device_def bytes_of_Configuration_Header_def bytes_of_Interface_def
      bytes_of_Endpoint_def bytes_of_FunctionalHeader_def bytes_of_FunctionalACM_def
      bytes_of_FunctionalUnion_def)

lemma length_bytes_of_String [simp]:
  "length (bytes_of_String d) = 2 + 2 * length (UnicodeString d)"
proof -
  have "length (concat (map bytes16 xs)) = 2 * length xs" for xs by (induction xs) auto
  then show ?thesis by (simp add: bytes_of_String_def)
qed

text \<open>\<^verbatim>\<open>USB_STRING_LEN(n)\<close>: the two header bytes and two bytes per character.\<close>

definition USB_STRING_LEN :: "nat \<Rightarrow> nat" where
  "USB_STRING_LEN n = 2 + 2 * n"

end
