(* ===== verification/Fw_State.thy ===== *)
theory Fw_State
  imports Mcu Usb_Types
begin

text \<open>
  The state of the bootloader image: the static and global variables of \<^verbatim>\<open>Adelino.c\<close>, \<^verbatim>\<open>Descriptors.c\<close>
  and of the linked LUFA files, the global interrupt flag, the register latches and the hardware
  state. \<open>at_sketch\<close> records that control has been handed to address 0 by \<^verbatim>\<open>start_sketch\<close>, which
  never returns. With the makefile's \<^verbatim>\<open>DEVICE_STATE_AS_GPIOR=0\<close>, \<^verbatim>\<open>USB_DeviceState\<close> lives in a general
  purpose register; it is an ordinary field here.
\<close>

record 'h fw =
  io :: "reg \<Rightarrow> u8"
  hw :: 'h
  I_flag :: bool
  at_sketch :: bool
  \<comment> \<open>Adelino.c\<close>
  LineEncoding :: CDC_LineEncoding_t
  CurrAddress :: u32
  Timeout :: u8
  rts_pulse :: u8
  boot_mode :: u8
  bootKeyMem :: u16
  led_counter :: u16
  led_control :: u8
  leds_enabled :: u8
  buffer :: "u8 list"
  buffer_in :: u8
  buffer_out :: u8
  \<comment> \<open>Descriptors.c\<close>
  DeviceDescriptor :: USB_Descriptor_Device_t
  \<comment> \<open>LUFA\<close>
  USB_IsInitialized :: bool
  USB_ControlRequest :: USB_Request_Header_t
  USB_DeviceState :: USB_Device_States_t
  USB_Device_ConfigurationNumber :: u8

text \<open>The state at the entry of \<^verbatim>\<open>main\<close>: the C start-up code has cleared the statics without initialiser
  and copied the others; \<^verbatim>\<open>bootKeyMem\<close> is the word at \<^verbatim>\<open>0x0800\<close>, which is not initialised.\<close>

definition LineEncoding_init :: CDC_LineEncoding_t where
  "LineEncoding_init = \<lparr>BaudRateBPS = 0, CharFormat = 0, ParityType = 0, DataBits = 8\<rparr>"

definition startup :: "USB_Descriptor_Device_t \<Rightarrow> u16 \<Rightarrow> 'h \<Rightarrow> 'h fw" where
  "startup d key h = \<lparr>io = (\<lambda>_. 0), hw = h, I_flag = False, at_sketch = False,
     LineEncoding = LineEncoding_init, CurrAddress = 0, Timeout = 0, rts_pulse = 0, boot_mode = 0,
     bootKeyMem = key, led_counter = 0, led_control = 0xFF, leds_enabled = 0,
     buffer = replicate 256 0, buffer_in = 0, buffer_out = 0, DeviceDescriptor = d,
     USB_IsInitialized = False,
     USB_ControlRequest = \<lparr>bmRequestType = 0, bRequest = 0, wValue = 0, wIndex = 0, wLength = 0\<rparr>,
     USB_DeviceState = DEVICE_STATE_Unattached, USB_Device_ConfigurationNumber = 0\<rparr>"

section \<open>Register access\<close>

text \<open>Registers that the hardware never changes behind the firmware's back.\<close>

fun latched :: "reg \<Rightarrow> bool" where
  "latched PORTB = True" | "latched DDRB = True" | "latched PORTC = True" | "latched DDRC = True"
| "latched PORTD = True" | "latched DDRD = True" | "latched PORTE = True" | "latched DDRE = True"
| "latched UCSR1B = True" | "latched UCSR1C = True" | "latched TIMSK1 = True"
| "latched TCCR1B = True" | "latched MCUCR = True" | "latched WDTCSR = True"
| "latched CLKPR = True" | "latched UHWCON = True" | "latched USBCON = True"
| "latched UDIEN = True"
| "latched UENUM = True" | "latched PLLFRQ = True" | "latched _ = False"

definition rd :: "'h mcu \<Rightarrow> reg \<Rightarrow> 'h fw \<Rightarrow> u8 \<times> 'h fw" where
  "rd m r s = (if latched r then (io s r, s)
     else (let (v, h) = rd_reg m r (hw s) in (v, s\<lparr>hw := h\<rparr>)))"

definition wr :: "'h mcu \<Rightarrow> reg \<Rightarrow> u8 \<Rightarrow> 'h fw \<Rightarrow> 'h fw" where
  "wr m r v s = s\<lparr>io := (io s)(r := v), hw := wr_reg m r v (hw s)\<rparr>"

text \<open>\<^verbatim>\<open>REG |= v\<close>, \<^verbatim>\<open>REG &= ~v\<close> and \<^verbatim>\<open>REG ^= v\<close>.\<close>

definition wr_or :: "'h mcu \<Rightarrow> reg \<Rightarrow> u8 \<Rightarrow> 'h fw \<Rightarrow> 'h fw" where
  "wr_or m r v s = (let (x, s) = rd m r s in wr m r (x OR v) s)"

definition wr_clr :: "'h mcu \<Rightarrow> reg \<Rightarrow> u8 \<Rightarrow> 'h fw \<Rightarrow> 'h fw" where
  "wr_clr m r v s = (let (x, s) = rd m r s in wr m r (x AND NOT v) s)"

definition wr_xor :: "'h mcu \<Rightarrow> reg \<Rightarrow> u8 \<Rightarrow> 'h fw \<Rightarrow> 'h fw" where
  "wr_xor m r v s = (let (x, s) = rd m r s in wr m r (x XOR v) s)"

definition cli :: "'h fw \<Rightarrow> 'h fw" where
  "cli s = s\<lparr>I_flag := False\<rparr>"

definition sei :: "'h fw \<Rightarrow> 'h fw" where
  "sei s = s\<lparr>I_flag := True\<rparr>"

text \<open>Apply an operation of the hardware to the firmware state.\<close>

definition hwop :: "('h \<Rightarrow> 'h) \<Rightarrow> 'h fw \<Rightarrow> 'h fw" where
  "hwop f s = s\<lparr>hw := f (hw s)\<rparr>"

lemma rd_latched [reg_simps]: "latched r \<Longrightarrow> rd m r s = (io s r, s)"
  by (simp add: rd_def)

lemma rd_device [reg_simps]:
  "\<not> latched r \<Longrightarrow> rd m r s = (fst (rd_reg m r (hw s)), s\<lparr>hw := snd (rd_reg m r (hw s))\<rparr>)"
  by (simp add: rd_def split: prod.split)

lemmas [reg_simps] = wr_def wr_or_def wr_clr_def wr_xor_def cli_def sei_def hwop_def

text \<open>A sequence of register writes, in order: the observable behaviour of a driver routine.\<close>

primrec apply_writes :: "'h mcu \<Rightarrow> (reg \<times> u8) list \<Rightarrow> 'h \<Rightarrow> 'h" where
  "apply_writes m [] h = h"
| "apply_writes m (w # ws) h = apply_writes m ws (wr_reg m (fst w) (snd w) h)"

text \<open>Driver routines change only the register latches and the hardware: all variables of the program
  are as they were.\<close>

definition io_only :: "'h fw \<Rightarrow> 'h fw \<Rightarrow> bool" where
  "io_only s t \<longleftrightarrow> I_flag t = I_flag s \<and> at_sketch t = at_sketch s \<and> LineEncoding t = LineEncoding s
    \<and> CurrAddress t = CurrAddress s \<and> Timeout t = Timeout s \<and> rts_pulse t =
    rts_pulse s \<and> boot_mode t = boot_mode s \<and> bootKeyMem t = bootKeyMem s \<and>
    led_counter t = led_counter s \<and> led_control t = led_control s \<and> leds_enabled t =
    leds_enabled s \<and> buffer t = buffer s \<and> buffer_in t = buffer_in s \<and> buffer_out t
    = buffer_out s \<and> DeviceDescriptor t = DeviceDescriptor s \<and> USB_IsInitialized t =
    USB_IsInitialized s \<and> USB_ControlRequest t = USB_ControlRequest s \<and> USB_DeviceState t
    = USB_DeviceState s \<and> USB_Device_ConfigurationNumber t = USB_Device_ConfigurationNumber s"

lemma io_only_refl [simp]: "io_only s s"
  by (simp add: io_only_def)

lemma io_only_trans: "io_only s t \<Longrightarrow> io_only t u \<Longrightarrow> io_only s u"
  by (simp add: io_only_def)

lemma io_only_rd [simp]: "io_only s (snd (rd m r s))"
  by (simp add: io_only_def rd_def split: prod.split)

lemma io_only_wr [simp]:
  "io_only s (wr m r v s)" "io_only s (wr_or m r v s)" "io_only s (wr_clr m r v s)"
  "io_only s (wr_xor m r v s)" "io_only s (hwop f s)"
  by (simp_all add: io_only_def wr_def wr_or_def wr_clr_def wr_xor_def hwop_def rd_def split: prod.split)

lemma io_only_fields:
  assumes "io_only s t"
  shows "I_flag t = I_flag s" "at_sketch t = at_sketch s" "LineEncoding t = LineEncoding s"
    "CurrAddress t = CurrAddress s" "Timeout t = Timeout s" "rts_pulse t = rts_pulse s" "boot_mode
    t = boot_mode s" "bootKeyMem t = bootKeyMem s" "led_counter t = led_counter s" "led_control t =
    led_control s" "leds_enabled t = leds_enabled s" "buffer t = buffer s" "buffer_in t = buffer_in
    s" "buffer_out t = buffer_out s" "DeviceDescriptor t = DeviceDescriptor s" "USB_IsInitialized t
    = USB_IsInitialized s" "USB_ControlRequest t = USB_ControlRequest s" "USB_DeviceState t =
    USB_DeviceState s" "USB_Device_ConfigurationNumber t = USB_Device_ConfigurationNumber s"
  using assms by (simp_all add: io_only_def)

end
