(* ===== verification/Descriptors.thy ===== *)
theory Descriptors
  imports Fw_State
begin

text \<open>
  \<^verbatim>\<open>Firmware/adelino/Descriptors.c\<close> and \<^verbatim>\<open>Descriptors.h\<close>: the constant configuration and string
  descriptors, the device descriptor (a variable, patched once from the sketch in flash) and the
  callback that serves them. A pointer to a descriptor is modelled by the memory image it points to.
  Shown here: every descriptor served has exactly the announced size, the configuration descriptor
  parses into its nine parts and its total length, and the VID/PID patch takes the first match in
  the scanned window and runs once.
\<close>

section \<open>Constants\<close>

abbreviation (input) CDC_NOTIFICATION_EPNUM :: u8 where "CDC_NOTIFICATION_EPNUM \<equiv> 2"
abbreviation (input) CDC_TX_EPNUM :: u8 where "CDC_TX_EPNUM \<equiv> 3"
abbreviation (input) CDC_RX_EPNUM :: u8 where "CDC_RX_EPNUM \<equiv> 4"
abbreviation (input) CDC_TXRX_EPSIZE :: u16 where "CDC_TXRX_EPSIZE \<equiv> 16"
abbreviation (input) CDC_NOTIFICATION_EPSIZE :: u16 where "CDC_NOTIFICATION_EPSIZE \<equiv> 8"
abbreviation (input) FIXED_CONTROL_ENDPOINT_SIZE :: u8 where "FIXED_CONTROL_ENDPOINT_SIZE \<equiv> 8"
abbreviation (input) FIXED_NUM_CONFIGURATIONS :: u8 where "FIXED_NUM_CONFIGURATIONS \<equiv> 1"
abbreviation (input) DEVICE_VID :: u16 where "DEVICE_VID \<equiv> 0x04D8"
abbreviation (input) DEVICE_PID :: u16 where "DEVICE_PID \<equiv> 0xEDDF"

definition AVR_SIGNATURE :: "u8 list" where
  "AVR_SIGNATURE = [0x1E, 0x95, 0x87]"

section \<open>The descriptors\<close>

definition DeviceDescriptor_init :: USB_Descriptor_Device_t where
  "DeviceDescriptor_init = \<lparr>Dev_Size = 0, Dev_Type = DTYPE_Device,
     USBSpecification = 0x0110, Dev_Class = 0x02, Dev_SubClass = 0x00, Dev_Protocol = 0x00,
     Endpoint0Size = FIXED_CONTROL_ENDPOINT_SIZE,
     VendorID = DEVICE_VID, ProductID = DEVICE_PID, ReleaseNumber = 0x0001,
     ManufacturerStrIndex = 0x01, ProductStrIndex = 0x02, SerialNumStrIndex = NO_DESCRIPTOR,
     NumberOfConfigurations = FIXED_NUM_CONFIGURATIONS\<rparr>"

record USB_Descriptor_Configuration_t =
  Config :: USB_Descriptor_Configuration_Header_t
  CDC_CCI_Interface :: USB_Descriptor_Interface_t
  CDC_Functional_Header :: USB_CDC_Descriptor_FunctionalHeader_t
  CDC_Functional_ACM :: USB_CDC_Descriptor_FunctionalACM_t
  CDC_Functional_Union :: USB_CDC_Descriptor_FunctionalUnion_t
  CDC_NotificationEndpoint :: USB_Descriptor_Endpoint_t
  CDC_DCI_Interface :: USB_Descriptor_Interface_t
  CDC_DataOutEndpoint :: USB_Descriptor_Endpoint_t
  CDC_DataInEndpoint :: USB_Descriptor_Endpoint_t

definition bytes_of_Configuration :: "USB_Descriptor_Configuration_t \<Rightarrow> u8 list" where
  "bytes_of_Configuration c = bytes_of_Configuration_Header (Config c)
     @ bytes_of_Interface (CDC_CCI_Interface c)
     @ bytes_of_FunctionalHeader (CDC_Functional_Header c)
     @ bytes_of_FunctionalACM (CDC_Functional_ACM c)
     @ bytes_of_FunctionalUnion (CDC_Functional_Union c)
     @ bytes_of_Endpoint (CDC_NotificationEndpoint c)
     @ bytes_of_Interface (CDC_DCI_Interface c)
     @ bytes_of_Endpoint (CDC_DataOutEndpoint c)
     @ bytes_of_Endpoint (CDC_DataInEndpoint c)"

lemma length_bytes_of_Configuration [simp]: "length (bytes_of_Configuration c) = 62"
  by (simp add: bytes_of_Configuration_def)

text \<open>C's \<^verbatim>\<open>sizeof\<close> of the structures, which are packed: the number of bytes of the image, which is the same for
  every value of the structure.\<close>

definition sizeof_Device :: nat where
  "sizeof_Device = length (bytes_of_Device DeviceDescriptor_init)"

definition sizeof_Configuration_Header :: nat where
  "sizeof_Configuration_Header = length (bytes_of_Configuration_Header \<lparr>Cfg_Size = 0, Cfg_Type = 0,
     TotalConfigurationSize = 0, Cfg_TotalInterfaces = 0, ConfigurationNumber = 0, ConfigurationStrIndex = 0,
     ConfigAttributes = 0, MaxPowerConsumption = 0\<rparr>)"

definition sizeof_Interface :: nat where
  "sizeof_Interface = length (bytes_of_Interface \<lparr>If_Size = 0, If_Type = 0, InterfaceNumber = 0,
     AlternateSetting = 0, TotalEndpoints = 0, If_Class = 0, If_SubClass = 0, If_Protocol = 0, InterfaceStrIndex = 0\<rparr>)"

definition sizeof_Endpoint :: nat where
  "sizeof_Endpoint = length (bytes_of_Endpoint \<lparr>Ep_Size = 0, Ep_Type = 0, EndpointAddress = 0, Ep_Attributes = 0,
     EndpointSize = 0, PollingIntervalMS = 0\<rparr>)"

definition sizeof_FunctionalHeader :: nat where
  "sizeof_FunctionalHeader = length (bytes_of_FunctionalHeader
     \<lparr>FH_Size = 0, FH_Type = 0, FH_Subtype = 0, CDCSpecification = 0\<rparr>)"

definition sizeof_FunctionalACM :: nat where
  "sizeof_FunctionalACM = length (bytes_of_FunctionalACM \<lparr>FA_Size = 0, FA_Type = 0, FA_Subtype = 0, Capabilities = 0\<rparr>)"

definition sizeof_FunctionalUnion :: nat where
  "sizeof_FunctionalUnion = length (bytes_of_FunctionalUnion \<lparr>FU_Size = 0, FU_Type = 0, FU_Subtype = 0,
     MasterInterfaceNumber = 0, SlaveInterfaceNumber = 0\<rparr>)"

text \<open>The members of \<^verbatim>\<open>USB_Descriptor_Configuration_t\<close>, in order.\<close>

definition sizeof_Configuration :: nat where
  "sizeof_Configuration = sizeof_Configuration_Header + sizeof_Interface + sizeof_FunctionalHeader
     + sizeof_FunctionalACM + sizeof_FunctionalUnion + sizeof_Endpoint + sizeof_Interface + sizeof_Endpoint
     + sizeof_Endpoint"

lemmas sizeof_defs = sizeof_Device_def sizeof_Configuration_Header_def sizeof_Interface_def sizeof_Endpoint_def
  sizeof_FunctionalHeader_def sizeof_FunctionalACM_def sizeof_FunctionalUnion_def

lemma sizeof_images:
  "length (bytes_of_Device d1) = sizeof_Device"
  "length (bytes_of_Configuration_Header d2) = sizeof_Configuration_Header"
  "length (bytes_of_Interface d3) = sizeof_Interface"
  "length (bytes_of_Endpoint d4) = sizeof_Endpoint"
  "length (bytes_of_FunctionalHeader d5) = sizeof_FunctionalHeader"
  "length (bytes_of_FunctionalACM d6) = sizeof_FunctionalACM"
  "length (bytes_of_FunctionalUnion d7) = sizeof_FunctionalUnion"
  "length (bytes_of_Configuration c) = sizeof_Configuration"
  by (simp_all add: sizeof_defs sizeof_Configuration_def)

lemma sizeof_values [simp]:
  "sizeof_Device = 18" "sizeof_Configuration_Header = 9" "sizeof_Interface = 9" "sizeof_Endpoint = 7"
  "sizeof_FunctionalHeader = 5" "sizeof_FunctionalACM = 4" "sizeof_FunctionalUnion = 5" "sizeof_Configuration = 62"
  by (simp_all add: sizeof_defs sizeof_Configuration_def)

definition ConfigurationDescriptor :: USB_Descriptor_Configuration_t where
  "ConfigurationDescriptor = \<lparr>
     Config = \<lparr>Cfg_Size = of_nat sizeof_Configuration_Header, Cfg_Type = DTYPE_Configuration, TotalConfigurationSize = of_nat sizeof_Configuration,
       Cfg_TotalInterfaces = 2, ConfigurationNumber = 1, ConfigurationStrIndex = NO_DESCRIPTOR,
       ConfigAttributes = 0x80 OR 0x40, MaxPowerConsumption = 50\<rparr>,
     CDC_CCI_Interface = \<lparr>If_Size = of_nat sizeof_Interface, If_Type = DTYPE_Interface, InterfaceNumber = 0,
       AlternateSetting = 0, TotalEndpoints = 1, If_Class = 0x02, If_SubClass = 0x02,
       If_Protocol = 0x01, InterfaceStrIndex = NO_DESCRIPTOR\<rparr>,
     CDC_Functional_Header = \<lparr>FH_Size = of_nat sizeof_FunctionalHeader, FH_Type = DTYPE_CSInterface, FH_Subtype = 0x00,
       CDCSpecification = 0x0110\<rparr>,
     CDC_Functional_ACM = \<lparr>FA_Size = of_nat sizeof_FunctionalACM, FA_Type = DTYPE_CSInterface, FA_Subtype = 0x02,
       Capabilities = 0x04\<rparr>,
     CDC_Functional_Union = \<lparr>FU_Size = of_nat sizeof_FunctionalUnion, FU_Type = DTYPE_CSInterface, FU_Subtype = 0x06,
       MasterInterfaceNumber = 0, SlaveInterfaceNumber = 1\<rparr>,
     CDC_NotificationEndpoint = \<lparr>Ep_Size = of_nat sizeof_Endpoint, Ep_Type = DTYPE_Endpoint,
       EndpointAddress = ENDPOINT_DIR_IN OR CDC_NOTIFICATION_EPNUM,
       Ep_Attributes = EP_TYPE_INTERRUPT, EndpointSize = CDC_NOTIFICATION_EPSIZE,
       PollingIntervalMS = 0xFF\<rparr>,
     CDC_DCI_Interface = \<lparr>If_Size = of_nat sizeof_Interface, If_Type = DTYPE_Interface, InterfaceNumber = 1,
       AlternateSetting = 0, TotalEndpoints = 2, If_Class = 0x0A, If_SubClass = 0x00,
       If_Protocol = 0x00, InterfaceStrIndex = NO_DESCRIPTOR\<rparr>,
     CDC_DataOutEndpoint = \<lparr>Ep_Size = of_nat sizeof_Endpoint, Ep_Type = DTYPE_Endpoint,
       EndpointAddress = ENDPOINT_DIR_OUT OR CDC_RX_EPNUM,
       Ep_Attributes = EP_TYPE_BULK, EndpointSize = CDC_TXRX_EPSIZE, PollingIntervalMS = 0x01\<rparr>,
     CDC_DataInEndpoint = \<lparr>Ep_Size = of_nat sizeof_Endpoint, Ep_Type = DTYPE_Endpoint,
       EndpointAddress = ENDPOINT_DIR_IN OR CDC_TX_EPNUM,
       Ep_Attributes = EP_TYPE_BULK, EndpointSize = CDC_TXRX_EPSIZE, PollingIntervalMS = 0x01\<rparr>\<rparr>"

text \<open>A wide string literal: \<^verbatim>\<open>wchar_t\<close> has 16 bits on this target.\<close>

definition wide :: "string \<Rightarrow> u16 list" where
  "wide cs = map (\<lambda>c. word_of_nat (of_char c)) cs"

definition LanguageString :: USB_Descriptor_String_t where
  "LanguageString = \<lparr>Str_Size = of_nat (USB_STRING_LEN 1), Str_Type = DTYPE_String, UnicodeString = [0x0409]\<rparr>"

definition ProductString :: USB_Descriptor_String_t where
  "ProductString = \<lparr>Str_Size = of_nat (USB_STRING_LEN 23), Str_Type = DTYPE_String,
     UnicodeString = wide ''Adelino M1 [Bootloader]''\<rparr>"

definition ManufNameString :: USB_Descriptor_String_t where
  "ManufNameString = \<lparr>Str_Size = of_nat (USB_STRING_LEN 13), Str_Type = DTYPE_String,
     UnicodeString = wide ''Neoautus Ltd.''\<rparr>"

section \<open>VID/PID shadowing and the descriptor callback\<close>

definition pgm_read_byte :: "'h mcu \<Rightarrow> u16 \<Rightarrow> 'h fw \<Rightarrow> u8" where
  "pgm_read_byte m a s = hw_pgm_byte m a (hw s)"

definition pgm_read_word :: "'h mcu \<Rightarrow> u16 \<Rightarrow> 'h fw \<Rightarrow> u16" where
  "pgm_read_word m a s = mk16 (pgm_read_byte m (a + 1) s) (pgm_read_byte m a s)"

text \<open>The test in the loop body: the first bytes of the sketch's own device descriptor.\<close>

definition sketch_desc_at :: "'h mcu \<Rightarrow> nat \<Rightarrow> 'h fw \<Rightarrow> bool" where
  "sketch_desc_at m i s \<longleftrightarrow> pgm_read_byte m (of_nat i) s = 0xef
     \<and> pgm_read_byte m (of_nat (i + 1)) s = 0x02
     \<and> pgm_read_byte m (of_nat (i + 2)) s = 0x01
     \<and> pgm_read_byte m (of_nat (i + 3)) s = 0x40"

function shadow_loop :: "'h mcu \<Rightarrow> nat \<Rightarrow> 'h fw \<Rightarrow> 'h fw" where
  "shadow_loop m i s = (if i < 0x200 then
     (if sketch_desc_at m i s
      then s\<lparr>DeviceDescriptor := DeviceDescriptor s\<lparr>
             VendorID := pgm_read_word m (of_nat (i + 4)) s,
             ProductID := pgm_read_word m (of_nat (i + 6)) s\<rparr>\<rparr>
      else shadow_loop m (i + 1) s)
     else s)"
  by pat_completeness auto
termination
  by (relation "measure (\<lambda>(m, i, s). 0x200 - i)") auto

declare shadow_loop.simps [simp del]

definition shadow_vid_pid_from_sketch :: "'h mcu \<Rightarrow> 'h fw \<Rightarrow> 'h fw" where
  "shadow_vid_pid_from_sketch m s =
     (if Dev_Size (DeviceDescriptor s) \<noteq> 0 then s
      else shadow_loop m VECTORS_SIZE (s\<lparr>DeviceDescriptor := DeviceDescriptor s\<lparr>Dev_Size := of_nat sizeof_Device\<rparr>\<rparr>))"

text \<open>The result is the returned size and the image behind \<^verbatim>\<open>*DescriptorAddress\<close>, empty for \<^verbatim>\<open>NULL\<close>.\<close>

definition CALLBACK_USB_GetDescriptor ::
    "'h mcu \<Rightarrow> u16 \<Rightarrow> u8 \<Rightarrow> 'h fw \<Rightarrow> (u16 \<times> u8 list) \<times> 'h fw" where
  "CALLBACK_USB_GetDescriptor m wval widx s =
     (let DescriptorType = hi8 wval; DescriptorNumber = lo8 wval;
          s = shadow_vid_pid_from_sketch m s
      in (if DescriptorType = DTYPE_Device then (of_nat sizeof_Device, bytes_of_Device (DeviceDescriptor s))
          else if DescriptorType = DTYPE_Configuration then (of_nat sizeof_Configuration, bytes_of_Configuration ConfigurationDescriptor)
          else if DescriptorType = DTYPE_String then
            (if DescriptorNumber = 0 then (ucast (Str_Size LanguageString), bytes_of_String LanguageString)
             else if DescriptorNumber = ProductStrIndex (DeviceDescriptor s)
             then (ucast (Str_Size ProductString), bytes_of_String ProductString)
             else if DescriptorNumber = ManufacturerStrIndex (DeviceDescriptor s)
             then (ucast (Str_Size ManufNameString), bytes_of_String ManufNameString)
             else (0, []))
          else (0, []), s))"

section \<open>Properties\<close>

text \<open>The scan changes the two identifiers only.\<close>

lemma shadow_loop_frame:
  "shadow_loop m i s = s\<lparr>DeviceDescriptor := DeviceDescriptor s\<lparr>
     VendorID := VendorID (DeviceDescriptor (shadow_loop m i s)),
     ProductID := ProductID (DeviceDescriptor (shadow_loop m i s))\<rparr>\<rparr>"
proof (induction m i s rule: shadow_loop.induct)
  case (1 m i s)
  show ?case
  proof (cases "i < 0x200 \<and> \<not> sketch_desc_at m i s")
    case True
    then have eq: "shadow_loop m i s = shadow_loop m (i + 1) s" by (subst shadow_loop.simps) simp
    from True have "i < 0x200" "\<not> sketch_desc_at m i s" by auto
    then show ?thesis unfolding eq by (rule 1)
  next
    case False
    then show ?thesis by (simp add: shadow_loop.simps [of m i s])
  qed
qed

lemma shadow_loop_fields [simp]:
  "Dev_Type (DeviceDescriptor (shadow_loop m i s)) = Dev_Type (DeviceDescriptor s)"
  "Dev_Size (DeviceDescriptor (shadow_loop m i s)) = Dev_Size (DeviceDescriptor s)"
  "ManufacturerStrIndex (DeviceDescriptor (shadow_loop m i s)) = ManufacturerStrIndex (DeviceDescriptor s)"
  "ProductStrIndex (DeviceDescriptor (shadow_loop m i s)) = ProductStrIndex (DeviceDescriptor s)"
  by (subst shadow_loop_frame, simp)+

lemma shadow_loop_first:
  assumes "i \<le> k" "k < 0x200" "sketch_desc_at m k s" "\<forall>j. i \<le> j \<and> j < k \<longrightarrow> \<not> sketch_desc_at m j s"
  shows "shadow_loop m i s = s\<lparr>DeviceDescriptor := DeviceDescriptor s\<lparr>
    VendorID := pgm_read_word m (of_nat (k + 4)) s, ProductID := pgm_read_word m (of_nat (k + 6)) s\<rparr>\<rparr>"
  using assms
proof (induction m i s rule: shadow_loop.induct)
  case (1 m i s)
  then show ?case
  proof (cases "i = k")
    case True
    with 1 show ?thesis by (subst shadow_loop.simps) simp
  next
    case False
    with 1 have "\<not> sketch_desc_at m i s" "i < 0x200" by auto
    with 1 False show ?thesis by (subst shadow_loop.simps) simp
  qed
qed

lemma shadow_loop_none:
  assumes "\<forall>j. i \<le> j \<and> j < 0x200 \<longrightarrow> \<not> sketch_desc_at m j s"
  shows "shadow_loop m i s = s"
  using assms
proof (induction m i s rule: shadow_loop.induct)
  case (1 m i s)
  then show ?case by (subst shadow_loop.simps) auto
qed

text \<open>So the whole patch sets the size and the two identifiers, once.\<close>

definition shadowed :: "'h mcu \<Rightarrow> 'h fw \<Rightarrow> USB_Descriptor_Device_t" where
  "shadowed m s = DeviceDescriptor (shadow_vid_pid_from_sketch m s)"

lemma shadow_frame: "shadow_vid_pid_from_sketch m s = s\<lparr>DeviceDescriptor := shadowed m s\<rparr>"
proof (cases "Dev_Size (DeviceDescriptor s) = 0")
  case True
  let ?s = "s\<lparr>DeviceDescriptor := DeviceDescriptor s\<lparr>Dev_Size := 18\<rparr>\<rparr>"
  from True have eq: "shadow_vid_pid_from_sketch m s = shadow_loop m VECTORS_SIZE ?s"
    by (simp add: shadow_vid_pid_from_sketch_def)
  show ?thesis unfolding shadowed_def eq
    by (subst (1 2) shadow_loop_frame) simp
qed (simp add: shadow_vid_pid_from_sketch_def shadowed_def)

lemma shadowed_fields [simp]:
  "Dev_Type (shadowed m s) = Dev_Type (DeviceDescriptor s)"
  "ManufacturerStrIndex (shadowed m s) = ManufacturerStrIndex (DeviceDescriptor s)"
  "ProductStrIndex (shadowed m s) = ProductStrIndex (DeviceDescriptor s)"
  "Dev_Size (shadowed m s) = (if Dev_Size (DeviceDescriptor s) = 0 then 18 else Dev_Size (DeviceDescriptor s))"
  by (simp_all add: shadowed_def shadow_vid_pid_from_sketch_def)

lemma shadow_idem [simp]:
  "shadow_vid_pid_from_sketch m (shadow_vid_pid_from_sketch m s) = shadow_vid_pid_from_sketch m s"
proof -
  have "Dev_Size (DeviceDescriptor (shadow_vid_pid_from_sketch m s)) \<noteq> 0"
    by (simp add: shadow_frame)
  then show ?thesis by (subst shadow_vid_pid_from_sketch_def) simp
qed

lemma string_lengths [simp]:
  "length (UnicodeString LanguageString) = 1"
  "length (UnicodeString ProductString) = 23"
  "length (UnicodeString ManufNameString) = 13"
  by (simp_all add: LanguageString_def ProductString_def ManufNameString_def wide_def)

lemma string_sizes [simp]:
  "Str_Size LanguageString = 4" "Str_Size ProductString = 48" "Str_Size ManufNameString = 28"
  by (simp_all add: LanguageString_def ProductString_def ManufNameString_def USB_STRING_LEN_def)

text \<open>
  A host walks a configuration by the length byte of each descriptor. \<open>walk n bs\<close> does that, with \<open>n\<close>
  bounding the number of descriptors; it fails on a zero or overlong length.
\<close>

fun walk :: "nat \<Rightarrow> u8 list \<Rightarrow> u8 list list option" where
  "walk n [] = Some []"
| "walk 0 (b # bs) = None"
| "walk (Suc n) (b # bs) =
     (if b = 0 \<or> length (b # bs) < unat b then None
      else map_option ((#) (take (unat b) (b # bs))) (walk n (drop (unat b) (b # bs))))"

lemma walk_append:
  assumes "d \<noteq> []" "unat (hd d) = length d"
  shows "walk (Suc n) (d @ bs) = map_option ((#) d) (walk n bs)"
proof -
  obtain x xs where d: "d = x # xs" using assms(1) by (cases d) auto
  with assms(2) have "unat x = Suc (length xs)" by simp
  moreover from this have "x \<noteq> 0" by auto
  ultimately show ?thesis by (simp add: d)
qed

lemma callback_image:
  assumes "CALLBACK_USB_GetDescriptor m v i s = ((sz, img), s')"
  shows "unat sz = length img" "sz = 0 \<longleftrightarrow> img = []" "s' = shadow_vid_pid_from_sketch m s"
proof -
  have "bytes_of_Device d \<noteq> []" "bytes_of_Configuration c \<noteq> []" "bytes_of_String t \<noteq> []" for d c t
    by (simp_all add: bytes_of_Device_def bytes_of_Configuration_def bytes_of_Configuration_Header_def bytes_of_String_def)
  then show "unat sz = length img" "sz = 0 \<longleftrightarrow> img = []" "s' = shadow_vid_pid_from_sketch m s"
    using assms by (auto simp: CALLBACK_USB_GetDescriptor_def Let_def split: if_splits)
qed

text \<open>Every answer of the descriptor callback announces exactly the bytes it points to: the
  returned size is the length of the image, and it is zero exactly when there is no descriptor.\<close>

theorem descriptor_size_matches_image:
  "case CALLBACK_USB_GetDescriptor m v i s of ((sz, img), s') \<Rightarrow>
     unat sz = length img \<and> (sz = 0 \<longleftrightarrow> img = [])"
  using callback_image [of m v i s] by (cases "CALLBACK_USB_GetDescriptor m v i s") auto

text \<open>(C38) The identifiers of the sketch: at the first request the loader reports the vendor and product that follow
  the first marker \<open>EF 02 01 40\<close> in the first 512 bytes of flash behind the vectors, and its own when there is
  none; nothing else of the descriptor changes. Later requests keep these identifiers, whatever the flash
  holds by then.\<close>

theorem sketch_identifiers:
  assumes "Dev_Size (DeviceDescriptor s) = 0"
  shows "(\<forall>i. VECTORS_SIZE \<le> i \<and> i < 0x200 \<and> sketch_desc_at m i s
        \<and> (\<forall>j. VECTORS_SIZE \<le> j \<and> j < i \<longrightarrow> \<not> sketch_desc_at m j s) \<longrightarrow>
      shadowed m s = DeviceDescriptor s\<lparr>Dev_Size := 18, VendorID := pgm_read_word m (of_nat (i + 4)) s,
        ProductID := pgm_read_word m (of_nat (i + 6)) s\<rparr>)
    \<and> ((\<forall>i. VECTORS_SIZE \<le> i \<and> i < 0x200 \<longrightarrow> \<not> sketch_desc_at m i s) \<longrightarrow>
      shadowed m s = DeviceDescriptor s\<lparr>Dev_Size := 18\<rparr>)
    \<and> (\<forall>m' u. DeviceDescriptor u = shadowed m s \<longrightarrow> shadow_vid_pid_from_sketch m' u = u)"
proof -
  let ?s = "s\<lparr>DeviceDescriptor := DeviceDescriptor s\<lparr>Dev_Size := 18\<rparr>\<rparr>"
  have at: "sketch_desc_at m i ?s = sketch_desc_at m i s" for i
    by (simp add: sketch_desc_at_def pgm_read_byte_def)
  have eq: "shadowed m s = DeviceDescriptor (shadow_loop m VECTORS_SIZE ?s)"
    using assms by (simp add: shadowed_def shadow_vid_pid_from_sketch_def)
  have "Dev_Size (shadowed m s) \<noteq> 0" using assms by simp
  then have "\<forall>m' u. DeviceDescriptor u = shadowed m s \<longrightarrow> shadow_vid_pid_from_sketch m' u = u"
    by (simp add: shadow_vid_pid_from_sketch_def)
  then show ?thesis
    using shadow_loop_first [of VECTORS_SIZE _ m ?s] shadow_loop_none [of VECTORS_SIZE m ?s]
    by (auto simp: eq at pgm_read_word_def pgm_read_byte_def)
qed

text \<open>The endpoints announced by the interface descriptors of a walk, against those that follow each.\<close>

fun endpoint_counts :: "u8 list list \<Rightarrow> (nat \<times> nat) list" where
  "endpoint_counts [] = []"
| "endpoint_counts (d # ds) =
     (if d ! 1 = DTYPE_Interface
      then (unat (d ! 4), length (filter (\<lambda>e. e ! 1 = DTYPE_Endpoint) (takeWhile (\<lambda>e. e ! 1 \<noteq> DTYPE_Interface) ds)))
           # endpoint_counts ds
      else endpoint_counts ds)"

lemma configuration_walk: "walk 9 (bytes_of_Configuration ConfigurationDescriptor) =
    Some [[9, 2, 62, 0, 2, 1, 0, 192, 50], [9, 4, 0, 0, 1, 2, 2, 1, 0], [5, 36, 0, 16, 1], [4, 36, 2, 4],
     [5, 36, 6, 0, 1], [7, 5, 130, 3, 8, 0, 255], [9, 4, 1, 0, 2, 10, 0, 0, 0], [7, 5, 4, 2, 16, 0, 1],
     [7, 5, 131, 2, 16, 0, 1]]"
  by code_simp

lemma walk_concat: "walk n bs = Some ds \<Longrightarrow> concat ds = bs"
  by (induction n bs arbitrary: ds rule: walk.induct) (auto split: if_splits)

lemma walk_one: "d \<noteq> [] \<Longrightarrow> unat (hd d) = length d \<Longrightarrow> walk (Suc n) d = Some [d]"
  using walk_append [of d n "[]"] by simp

text \<open>The device descriptor as the loader holds it, before and after the patch.\<close>

definition device_ok :: "USB_Descriptor_Device_t \<Rightarrow> bool" where
  "device_ok d \<longleftrightarrow> Dev_Type d = DTYPE_Device \<and> (Dev_Size d = 0 \<or> Dev_Size d = of_nat sizeof_Device)
     \<and> ManufacturerStrIndex d = 1 \<and> ProductStrIndex d = 2"

lemma string_image:
  "length (bytes_of_String d) = unat (Str_Size d) \<Longrightarrow> Str_Type d = t \<Longrightarrow> walk (Suc n) (bytes_of_String d) = Some [bytes_of_String d]
     \<and> bytes_of_String d ! 1 = t"
  by (intro conjI walk_one) (simp_all add: bytes_of_String_def)

lemma u8_le_2: "(x :: u8) \<le> 2 \<longleftrightarrow> x = 0 \<or> x = 1 \<or> x = 2"
  by (auto simp: word_le_nat_alt word_unat_eq_iff)

text \<open>(C37) What a host that parses a descriptor by its length bytes makes of the answer to any request: the size
  returned is that of the image, and there is one exactly for the device, the configuration and the
  strings 0 to 2. It then splits into whole descriptors, the first of the type asked for: into that one,
  or, for the configuration, into nine that end at the total length announced, with as many interfaces as
  announced, each followed by as many endpoints as it announces; these are the three endpoints the boot
  loader uses, in their directions, with their sizes.\<close>

theorem descriptors_well_formed:
  assumes "device_ok (DeviceDescriptor s)" "CALLBACK_USB_GetDescriptor m v i s = ((sz, img), s')"
  shows "unat sz = length img \<and> device_ok (DeviceDescriptor s')
    \<and> (img \<noteq> [] \<longleftrightarrow> hi8 v = DTYPE_Device \<or> hi8 v = DTYPE_Configuration \<or> hi8 v = DTYPE_String \<and> lo8 v \<le> 2)
    \<and> (img \<noteq> [] \<longrightarrow> (\<exists>ds. walk 9 img = Some ds \<and> concat ds = img \<and> hd ds ! 1 = hi8 v
        \<and> (if hi8 v \<noteq> DTYPE_Configuration then ds = [img]
           else length ds = 9 \<and> sz = mk16 (img ! 3) (img ! 2)
             \<and> length (filter (\<lambda>d. d ! 1 = DTYPE_Interface) ds) = unat (img ! 4)
             \<and> list_all (\<lambda>(n, k). n = k) (endpoint_counts ds)
             \<and> [(d ! 2, d ! 4). d \<leftarrow> ds, d ! 1 = DTYPE_Endpoint] =
                 [(ENDPOINT_DIR_IN OR CDC_NOTIFICATION_EPNUM, lo8 CDC_NOTIFICATION_EPSIZE),
                  (ENDPOINT_DIR_OUT OR CDC_RX_EPNUM, lo8 CDC_TXRX_EPSIZE),
                  (ENDPOINT_DIR_IN OR CDC_TX_EPNUM, lo8 CDC_TXRX_EPSIZE)])))"
proof -
  let ?d = "shadowed m s"
  have s': "s' = s\<lparr>DeviceDescriptor := ?d\<rparr>" using callback_image(3) [OF assms(2)] shadow_frame [of m s] by simp
  have d: "Dev_Size ?d = of_nat sizeof_Device" "Dev_Type ?d = DTYPE_Device" "ManufacturerStrIndex ?d = 1" "ProductStrIndex ?d = 2"
    using assms(1) by (auto simp: device_ok_def)
  have cb: "((sz, img), s') = CALLBACK_USB_GetDescriptor m v i s" using assms(2) by simp
  note cb = cb [unfolded CALLBACK_USB_GetDescriptor_def Let_def shadow_frame, simplified]
  have sz: "unat sz = length img" by (rule callback_image(1) [OF assms(2)])
  have ok: "device_ok (DeviceDescriptor s')" using d by (simp add: s' device_ok_def)
  consider (device) "hi8 v = DTYPE_Device" | (config) "hi8 v = DTYPE_Configuration" | (str) "hi8 v = DTYPE_String"
    | (none) "hi8 v \<notin> {DTYPE_Device, DTYPE_Configuration, DTYPE_String}" by auto
  then show ?thesis
  proof cases
    case device
    then have img: "img = bytes_of_Device ?d" using cb by simp
    have "walk 9 img = Some [img]" using walk_one [of img 8] d(1) by (simp add: img bytes_of_Device_def)
    then show ?thesis using sz ok device d(2) by (simp add: img bytes_of_Device_def)
  next
    case config
    then have img: "img = bytes_of_Configuration ConfigurationDescriptor" "sz = 62" using cb by simp_all
    obtain ds where ds: "walk 9 img = Some ds" "ds = [[9, 2, 62, 0, 2, 1, 0, 192, 50], [9, 4, 0, 0, 1, 2, 2, 1, 0],
       [5, 36, 0, 16, 1], [4, 36, 2, 4], [5, 36, 6, 0, 1], [7, 5, 130, 3, 8, 0, 255], [9, 4, 1, 0, 2, 10, 0, 0, 0],
       [7, 5, 4, 2, 16, 0, 1], [7, 5, 131, 2, 16, 0, 1]]" using configuration_walk img(1) by blast
    have ci: "concat ds = img" by (rule walk_concat [OF ds(1)])
    then have n: "img \<noteq> []" "img ! 2 = 62" "img ! 3 = 0" "img ! 4 = 2" using ds(2) by auto
    have "list_all (\<lambda>(n, k). n = k) (endpoint_counts ds)" unfolding ds(2) by simp
    then show ?thesis using sz ok config ds ci n img(2) by (simp add: mk16_def lo8_def)
  next
    case str
    have "img = [] \<and> \<not> lo8 v \<le> 2 \<or> lo8 v \<le> 2 \<and> (\<exists>t \<in> {LanguageString, ProductString, ManufNameString}. img = bytes_of_String t)"
      using cb str d(3,4) by (auto simp: u8_le_2 split: if_splits)
    moreover have "walk 9 (bytes_of_String t) = Some [bytes_of_String t] \<and> bytes_of_String t ! 1 = DTYPE_String \<and> bytes_of_String t \<noteq> []"
      if "t \<in> {LanguageString, ProductString, ManufNameString}" for t
    proof -
      have "length (bytes_of_String t) = unat (Str_Size t)" "Str_Type t = DTYPE_String"
        using that by (auto simp: LanguageString_def ProductString_def ManufNameString_def USB_STRING_LEN_def wide_def)
      from string_image [OF this, of 8] show ?thesis using length_bytes_of_String [of t] by auto
    qed
    ultimately show ?thesis using sz ok str by auto
  next
    case none
    then show ?thesis using cb sz ok by simp
  qed
qed

end
