(* ===== verification/Lufa_Endpoint.thy ===== *)
theory Lufa_Endpoint
  imports Fw_State
begin

text \<open>
  LUFA's endpoint layer for the AVR8 architecture, as compiled for this image (\<^verbatim>\<open>USB_SERIES_4_AVR\<close>,
  \<^verbatim>\<open>ORDERED_EP_CONFIG\<close>): the inline functions of \<^verbatim>\<open>Core/AVR8/Endpoint_AVR8.h\<close> and the straight-line
  functions of \<^verbatim>\<open>Core/AVR8/Endpoint_AVR8.c\<close>. Each is a sequence of accesses to the endpoint registers
  of the endpoint selected by \<^verbatim>\<open>UENUM\<close>. The one loop, the size mask of an endpoint, is shown to
  return the least size code that fits.
\<close>

section \<open>Selection, enabling, status\<close>

definition Endpoint_GetCurrentEndpoint :: "'h mcu \<Rightarrow> 'h fw \<Rightarrow> u8 \<times> 'h fw" where
  "Endpoint_GetCurrentEndpoint m s = (let (v, s) = rd m UENUM s in (v AND ENDPOINT_EPNUM_MASK, s))"

definition Endpoint_SelectEndpoint :: "'h mcu \<Rightarrow> u8 \<Rightarrow> 'h fw \<Rightarrow> 'h fw" where
  "Endpoint_SelectEndpoint m n s = wr m UENUM n s"

definition Endpoint_ResetEndpoint :: "'h mcu \<Rightarrow> u8 \<Rightarrow> 'h fw \<Rightarrow> 'h fw" where
  "Endpoint_ResetEndpoint m n s = wr m UERST 0 (wr m UERST (push_bit (unat n) 1) s)"

definition Endpoint_EnableEndpoint :: "'h mcu \<Rightarrow> 'h fw \<Rightarrow> 'h fw" where
  "Endpoint_EnableEndpoint m s = wr_or m UECONX (BV EPEN) s"

definition Endpoint_DisableEndpoint :: "'h mcu \<Rightarrow> 'h fw \<Rightarrow> 'h fw" where
  "Endpoint_DisableEndpoint m s = wr_clr m UECONX (BV EPEN) s"

definition Endpoint_IsEnabled :: "'h mcu \<Rightarrow> 'h fw \<Rightarrow> bool \<times> 'h fw" where
  "Endpoint_IsEnabled m s = (let (v, s) = rd m UECONX s in (tst v EPEN, s))"

definition Endpoint_GetBusyBanks :: "'h mcu \<Rightarrow> 'h fw \<Rightarrow> u8 \<times> 'h fw" where
  "Endpoint_GetBusyBanks m s = (let (v, s) = rd m UESTA0X s in (v AND push_bit NBUSYBK0 3, s))"

definition Endpoint_BytesInEndpoint :: "'h mcu \<Rightarrow> 'h fw \<Rightarrow> u16 \<times> 'h fw" where
  "Endpoint_BytesInEndpoint m s =
     (let (h, s) = rd m UEBCHX s; (l, s) = rd m UEBCLX s in (mk16 h l, s))"

definition Endpoint_IsReadWriteAllowed :: "'h mcu \<Rightarrow> 'h fw \<Rightarrow> bool \<times> 'h fw" where
  "Endpoint_IsReadWriteAllowed m s = (let (v, s) = rd m UEINTX s in (tst v RWAL, s))"

definition Endpoint_IsConfigured :: "'h mcu \<Rightarrow> 'h fw \<Rightarrow> bool \<times> 'h fw" where
  "Endpoint_IsConfigured m s = (let (v, s) = rd m UESTA0X s in (tst v CFGOK, s))"

definition Endpoint_GetEndpointInterrupts :: "'h mcu \<Rightarrow> 'h fw \<Rightarrow> u8 \<times> 'h fw" where
  "Endpoint_GetEndpointInterrupts m s = rd m UEINT s"

definition Endpoint_HasEndpointInterrupted :: "'h mcu \<Rightarrow> u8 \<Rightarrow> 'h fw \<Rightarrow> bool \<times> 'h fw" where
  "Endpoint_HasEndpointInterrupted m n s =
     (let (v, s) = Endpoint_GetEndpointInterrupts m s in (v AND push_bit (unat n) 1 \<noteq> 0, s))"

definition Endpoint_IsINReady :: "'h mcu \<Rightarrow> 'h fw \<Rightarrow> bool \<times> 'h fw" where
  "Endpoint_IsINReady m s = (let (v, s) = rd m UEINTX s in (tst v TXINI, s))"

definition Endpoint_IsOUTReceived :: "'h mcu \<Rightarrow> 'h fw \<Rightarrow> bool \<times> 'h fw" where
  "Endpoint_IsOUTReceived m s = (let (v, s) = rd m UEINTX s in (tst v RXOUTI, s))"

definition Endpoint_IsSETUPReceived :: "'h mcu \<Rightarrow> 'h fw \<Rightarrow> bool \<times> 'h fw" where
  "Endpoint_IsSETUPReceived m s = (let (v, s) = rd m UEINTX s in (tst v RXSTPI, s))"

definition Endpoint_ClearSETUP :: "'h mcu \<Rightarrow> 'h fw \<Rightarrow> 'h fw" where
  "Endpoint_ClearSETUP m s = wr_clr m UEINTX (BV RXSTPI) s"

definition Endpoint_ClearIN :: "'h mcu \<Rightarrow> 'h fw \<Rightarrow> 'h fw" where
  "Endpoint_ClearIN m s = wr_clr m UEINTX (BV TXINI OR BV FIFOCON) s"

definition Endpoint_ClearOUT :: "'h mcu \<Rightarrow> 'h fw \<Rightarrow> 'h fw" where
  "Endpoint_ClearOUT m s = wr_clr m UEINTX (BV RXOUTI OR BV FIFOCON) s"

definition Endpoint_StallTransaction :: "'h mcu \<Rightarrow> 'h fw \<Rightarrow> 'h fw" where
  "Endpoint_StallTransaction m s = wr_or m UECONX (BV STALLRQ) s"

definition Endpoint_ClearStall :: "'h mcu \<Rightarrow> 'h fw \<Rightarrow> 'h fw" where
  "Endpoint_ClearStall m s = wr_or m UECONX (BV STALLRQC) s"

definition Endpoint_IsStalled :: "'h mcu \<Rightarrow> 'h fw \<Rightarrow> bool \<times> 'h fw" where
  "Endpoint_IsStalled m s = (let (v, s) = rd m UECONX s in (tst v STALLRQ, s))"

definition Endpoint_ResetDataToggle :: "'h mcu \<Rightarrow> 'h fw \<Rightarrow> 'h fw" where
  "Endpoint_ResetDataToggle m s = wr_or m UECONX (BV RSTDT) s"

definition Endpoint_GetEndpointDirection :: "'h mcu \<Rightarrow> 'h fw \<Rightarrow> u8 \<times> 'h fw" where
  "Endpoint_GetEndpointDirection m s =
     (let (v, s) = rd m UECFG0X s in (if tst v EPDIR then ENDPOINT_DIR_IN else ENDPOINT_DIR_OUT, s))"

definition Endpoint_SetEndpointDirection :: "'h mcu \<Rightarrow> u8 \<Rightarrow> 'h fw \<Rightarrow> 'h fw" where
  "Endpoint_SetEndpointDirection m dir s =
     (let (v, s) = rd m UECFG0X s
      in wr m UECFG0X ((v AND NOT (BV EPDIR)) OR (if dir \<noteq> 0 then BV EPDIR else 0)) s)"

section \<open>Data access\<close>

definition Endpoint_Read_8 :: "'h mcu \<Rightarrow> 'h fw \<Rightarrow> u8 \<times> 'h fw" where
  "Endpoint_Read_8 m s = rd m UEDATX s"

definition Endpoint_Write_8 :: "'h mcu \<Rightarrow> u8 \<Rightarrow> 'h fw \<Rightarrow> 'h fw" where
  "Endpoint_Write_8 m d s = wr m UEDATX d s"

definition Endpoint_Discard_8 :: "'h mcu \<Rightarrow> 'h fw \<Rightarrow> 'h fw" where
  "Endpoint_Discard_8 m s = snd (rd m UEDATX s)"

definition Endpoint_Read_16_LE :: "'h mcu \<Rightarrow> 'h fw \<Rightarrow> u16 \<times> 'h fw" where
  "Endpoint_Read_16_LE m s = (let (b0, s) = rd m UEDATX s; (b1, s) = rd m UEDATX s in (mk16 b1 b0, s))"

definition Endpoint_Read_16_BE :: "'h mcu \<Rightarrow> 'h fw \<Rightarrow> u16 \<times> 'h fw" where
  "Endpoint_Read_16_BE m s = (let (b1, s) = rd m UEDATX s; (b0, s) = rd m UEDATX s in (mk16 b1 b0, s))"

definition Endpoint_Write_16_LE :: "'h mcu \<Rightarrow> u16 \<Rightarrow> 'h fw \<Rightarrow> 'h fw" where
  "Endpoint_Write_16_LE m d s = wr m UEDATX (hi8 d) (wr m UEDATX (lo8 d) s)"

definition Endpoint_Write_16_BE :: "'h mcu \<Rightarrow> u16 \<Rightarrow> 'h fw \<Rightarrow> 'h fw" where
  "Endpoint_Write_16_BE m d s = wr m UEDATX (lo8 d) (wr m UEDATX (hi8 d) s)"

definition Endpoint_Discard_16 :: "'h mcu \<Rightarrow> 'h fw \<Rightarrow> 'h fw" where
  "Endpoint_Discard_16 m s = snd (rd m UEDATX (snd (rd m UEDATX s)))"

definition Endpoint_Read_32_LE :: "'h mcu \<Rightarrow> 'h fw \<Rightarrow> u32 \<times> 'h fw" where
  "Endpoint_Read_32_LE m s = (let (b0, s) = rd m UEDATX s; (b1, s) = rd m UEDATX s;
     (b2, s) = rd m UEDATX s; (b3, s) = rd m UEDATX s in (mk32 b3 b2 b1 b0, s))"

definition Endpoint_Read_32_BE :: "'h mcu \<Rightarrow> 'h fw \<Rightarrow> u32 \<times> 'h fw" where
  "Endpoint_Read_32_BE m s = (let (b3, s) = rd m UEDATX s; (b2, s) = rd m UEDATX s;
     (b1, s) = rd m UEDATX s; (b0, s) = rd m UEDATX s in (mk32 b3 b2 b1 b0, s))"

definition Endpoint_Write_32_LE :: "'h mcu \<Rightarrow> u32 \<Rightarrow> 'h fw \<Rightarrow> 'h fw" where
  "Endpoint_Write_32_LE m d s = wr m UEDATX (ucast (drop_bit 24 d)) (wr m UEDATX (ucast (drop_bit 16 d))
     (wr m UEDATX (ucast (drop_bit 8 d)) (wr m UEDATX (ucast d) s)))"

definition Endpoint_Write_32_BE :: "'h mcu \<Rightarrow> u32 \<Rightarrow> 'h fw \<Rightarrow> 'h fw" where
  "Endpoint_Write_32_BE m d s = wr m UEDATX (ucast d) (wr m UEDATX (ucast (drop_bit 8 d))
     (wr m UEDATX (ucast (drop_bit 16 d)) (wr m UEDATX (ucast (drop_bit 24 d)) s)))"

definition Endpoint_Discard_32 :: "'h mcu \<Rightarrow> 'h fw \<Rightarrow> 'h fw" where
  "Endpoint_Discard_32 m s = Endpoint_Discard_16 m (Endpoint_Discard_16 m s)"

section \<open>Configuration\<close>

text \<open>The loop of the size mask: \<open>CheckBytes\<close> doubles in 16 bits, so it returns only when some power of two
  that fits in 16 bits reaches the requested size.\<close>

partial_function (option) size_mask_loop :: "u16 \<Rightarrow> u8 \<Rightarrow> u16 \<Rightarrow> u8 option" where
  "size_mask_loop Bytes MaskVal CheckBytes =
     (if CheckBytes < Bytes then size_mask_loop Bytes (MaskVal + 1) (push_bit 1 CheckBytes) else Some MaskVal)"

definition Endpoint_BytesToEPSizeMask :: "u16 \<Rightarrow> u8 option" where
  "Endpoint_BytesToEPSizeMask bytes = do {
     MaskVal \<leftarrow> size_mask_loop bytes 0 8;
     Some (push_bit EPSIZE0 MaskVal) }"

definition Endpoint_ConfigureEndpoint_Prv :: "'h mcu \<Rightarrow> u8 \<Rightarrow> u8 \<Rightarrow> u8 \<Rightarrow> 'h fw \<Rightarrow> bool \<times> 'h fw" where
  "Endpoint_ConfigureEndpoint_Prv m n cfg0 cfg1 s =
     (let s = Endpoint_SelectEndpoint m n s;
          s = Endpoint_EnableEndpoint m s;
          s = wr m UECFG1X 0 s;
          s = wr m UECFG0X cfg0 s;
          s = wr m UECFG1X cfg1 s
      in Endpoint_IsConfigured m s)"

definition Endpoint_ConfigureEndpoint ::
    "'h mcu \<Rightarrow> u8 \<Rightarrow> u8 \<Rightarrow> u8 \<Rightarrow> u16 \<Rightarrow> u8 \<Rightarrow> 'h fw \<Rightarrow> (bool \<times> 'h fw) option" where
  "Endpoint_ConfigureEndpoint m n type dir bytes banks s = do {
     MaskVal \<leftarrow> Endpoint_BytesToEPSizeMask bytes;
     Some (Endpoint_ConfigureEndpoint_Prv m n
       (push_bit EPTYPE0 type OR (if dir \<noteq> 0 then BV EPDIR else 0))
       (BV ALLOC OR banks OR MaskVal) s) }"

abbreviation (input) ENDPOINT_BANK_SINGLE :: u8 where "ENDPOINT_BANK_SINGLE \<equiv> 0"
abbreviation (input) ENDPOINT_TOTAL_ENDPOINTS :: nat where "ENDPOINT_TOTAL_ENDPOINTS \<equiv> 7"

definition clear_endpoint :: "'h mcu \<Rightarrow> u8 \<Rightarrow> 'h fw \<Rightarrow> 'h fw" where
  "clear_endpoint m n s =
     (let s = Endpoint_SelectEndpoint m n s; s = wr m UEIENX 0 s; s = wr m UEINTX 0 s; s = wr m UECFG1X 0 s
      in Endpoint_DisableEndpoint m s)"

definition Endpoint_ClearEndpoints :: "'h mcu \<Rightarrow> 'h fw \<Rightarrow> 'h fw" where
  "Endpoint_ClearEndpoints m s =
     fold (\<lambda>n. clear_endpoint m (of_nat n)) [0..<ENDPOINT_TOTAL_ENDPOINTS] (wr m UEINT 0 s)"

lemmas [code_defs] = Endpoint_GetCurrentEndpoint_def Endpoint_SelectEndpoint_def
  Endpoint_ResetEndpoint_def Endpoint_EnableEndpoint_def Endpoint_DisableEndpoint_def
  Endpoint_IsEnabled_def Endpoint_BytesInEndpoint_def Endpoint_IsReadWriteAllowed_def
  Endpoint_IsConfigured_def Endpoint_IsINReady_def Endpoint_IsOUTReceived_def
  Endpoint_IsSETUPReceived_def Endpoint_ClearSETUP_def Endpoint_ClearIN_def Endpoint_ClearOUT_def
  Endpoint_StallTransaction_def Endpoint_ClearStall_def Endpoint_IsStalled_def
  Endpoint_ResetDataToggle_def Endpoint_GetEndpointDirection_def Endpoint_Read_8_def
  Endpoint_Write_8_def Endpoint_Write_16_LE_def Endpoint_ConfigureEndpoint_Prv_def

section \<open>The size mask\<close>

lemma size_mask_loop_step:
  assumes k: "k \<le> 12"
  shows "size_mask_loop bytes (of_nat k) (push_bit (k + 3) 1) =
    (if unat bytes \<le> 2 ^ (k + 3) then Some (of_nat k)
     else size_mask_loop bytes (of_nat (k + 1)) (push_bit (k + 4) 1))"
proof -
  have lt: "2 ^ (k + 3) < (2::nat) ^ 16" using k by (intro power_strict_increasing) auto
  have pw: "push_bit (k + 3) (1::u16) = word_of_nat (2 ^ (k + 3))"
    by (simp add: push_bit_eq_mult)
  have un: "unat (push_bit (k + 3) (1::u16)) = 2 ^ (k + 3)"
    unfolding pw unat_of_nat using lt by simp
  have cmp: "push_bit (k + 3) (1::u16) < bytes \<longleftrightarrow> 2 ^ (k + 3) < unat bytes"
    unfolding word_less_nat_alt un ..
  have dbl: "push_bit 1 (push_bit (k + 3) (1::u16)) = push_bit (k + 4) 1"
    by (simp add: push_bit_eq_mult power_add)
  have inc: "of_nat k + 1 = (of_nat (k + 1) :: u8)" by simp
  show ?thesis
    by (subst size_mask_loop.simps, unfold cmp dbl inc, cases "unat bytes \<le> 2 ^ (k + 3)")
      (simp_all only: not_less [symmetric] not_not not_True_eq_False not_False_eq_True if_True if_False)
qed

lemma size_mask_loop_from:
  assumes "k \<le> 12" "unat bytes \<le> 2 ^ 15"
  shows "\<exists>n. k \<le> n \<and> n \<le> 12 \<and> size_mask_loop bytes (of_nat k) (push_bit (k + 3) 1) = Some (of_nat n)
      \<and> unat bytes \<le> 2 ^ (n + 3) \<and> (k < n \<longrightarrow> 2 ^ (n + 2) < unat bytes)"
  using assms
proof (induction "12 - k" arbitrary: k)
  case 0
  then have k: "k = 12" by simp
  then have "size_mask_loop bytes (of_nat k) (push_bit (k + 3) 1) = Some (of_nat k)"
    using size_mask_loop_step [of 12 bytes] 0 by simp
  with k 0 show ?case by (intro exI [of _ 12]) simp
next
  case (Suc d)
  show ?case
  proof (cases "unat bytes \<le> 2 ^ (k + 3)")
    case True
    with Suc.prems size_mask_loop_step [of k bytes] show ?thesis by (intro exI [of _ k]) simp
  next
    case False
    from Suc have k: "k < 12" and d: "d = 12 - (k + 1)" by simp_all
    with False size_mask_loop_step [of k bytes]
    have step: "size_mask_loop bytes (of_nat k) (push_bit (k + 3) 1) =
        size_mask_loop bytes (of_nat (k + 1)) (push_bit (k + 1 + 3) 1)" by (simp add: add.commute)
    obtain n where n: "k + 1 \<le> n" "n \<le> 12"
      "size_mask_loop bytes (of_nat (k + 1)) (push_bit (k + 1 + 3) 1) = Some (of_nat n)"
      "unat bytes \<le> 2 ^ (n + 3)" "k + 1 < n \<longrightarrow> 2 ^ (n + 2) < unat bytes"
      using Suc.hyps(1) [of "k + 1"] d Suc.prems(2) k by (metis Suc_eq_plus1 Suc_leI)
    have "2 ^ (n + 2) < unat bytes"
      using n(1,5) False by (cases "n = k + 1") (auto simp: power_add)
    with n step show ?thesis by (intro exI [of _ n]) simp
  qed
qed

text \<open>The endpoint size code. For every request of at most 32768 bytes the loop returns, with
  the code \<open>n\<close> in bits 4 and up such that \<open>8 * 2 ^ n\<close> is the least power of two, from 8 on, that
  is not below the request.\<close>

theorem size_mask_least:
  assumes "unat bytes \<le> 32768"
  shows "\<exists>n. Endpoint_BytesToEPSizeMask bytes = Some (push_bit EPSIZE0 (of_nat n)) \<and> n \<le> 12
    \<and> unat bytes \<le> 8 * 2 ^ n \<and> (\<forall>k. unat bytes \<le> 8 * 2 ^ k \<longrightarrow> n \<le> k)"
proof -
  have "unat bytes \<le> 2 ^ 15" using assms by simp
  then obtain n where n: "n \<le> 12" "size_mask_loop bytes 0 8 = Some (of_nat n)"
    "unat bytes \<le> 2 ^ (n + 3)" "0 < n \<longrightarrow> 2 ^ (n + 2) < unat bytes"
    using size_mask_loop_from [of 0 bytes] by auto
  have "n \<le> k" if k: "unat bytes \<le> 8 * 2 ^ k" for k
  proof (rule ccontr)
    assume "\<not> n \<le> k"
    then have "k + 3 \<le> n + 2" "0 < n" by auto
    then have "(2::nat) ^ (k + 3) < unat bytes"
      using n(4) power_increasing [of "k + 3" "n + 2" "2::nat"] by linarith
    with k show False by (simp add: power_add)
  qed
  with n show ?thesis
    by (intro exI [of _ n]) (simp add: Endpoint_BytesToEPSizeMask_def power_add)
qed

theorem size_mask_least_witness:
  "unat (16 :: u16) \<le> 32768 \<and> (\<exists>n. Endpoint_BytesToEPSizeMask 16 = Some (push_bit EPSIZE0 (of_nat n))
     \<and> n \<le> 12 \<and> unat (16 :: u16) \<le> 8 * 2 ^ n \<and> (\<forall>k. unat (16 :: u16) \<le> 8 * 2 ^ k \<longrightarrow> n \<le> k))"
proof -
  have h: "unat (16 :: u16) \<le> 32768" by simp
  show ?thesis using h size_mask_least [OF h] by blast
qed

text \<open>The values used by the firmware.\<close>

lemma size_mask_eval [simp]:
  "Endpoint_BytesToEPSizeMask 8 = Some 0"
  "Endpoint_BytesToEPSizeMask 16 = Some 16"
  by (simp_all add: Endpoint_BytesToEPSizeMask_def size_mask_loop.simps)

lemma Endpoint_ConfigureEndpoint_8_16:
  "Endpoint_ConfigureEndpoint m n type dir 8 banks s = Some (Endpoint_ConfigureEndpoint_Prv m n
     (push_bit EPTYPE0 type OR (if dir \<noteq> 0 then BV EPDIR else 0)) (BV ALLOC OR banks) s)"
  "Endpoint_ConfigureEndpoint m n type dir 16 banks s = Some (Endpoint_ConfigureEndpoint_Prv m n
     (push_bit EPTYPE0 type OR (if dir \<noteq> 0 then BV EPDIR else 0)) (BV ALLOC OR banks OR 16) s)"
  by (simp_all add: Endpoint_ConfigureEndpoint_def)

end
