(* ===== verification/Lufa_Controller.thy ===== *)
theory Lufa_Controller
  imports Lufa_Endpoint
begin

text \<open>
  LUFA's controller management for the AVR8 architecture in device mode: the inline functions of
  \<^verbatim>\<open>USBController_AVR8.h\<close>, \<^verbatim>\<open>Device_AVR8.h\<close> and \<^verbatim>\<open>USBInterrupt_AVR8.h\<close>, the initialisation of
  \<^verbatim>\<open>USBController_AVR8.c\<close> and the general USB interrupt of \<^verbatim>\<open>USBInterrupt_AVR8.c\<close>. The event hooks the
  application does not define are LUFA's empty stubs. Shown: the suspend and wake-up interrupts are
  always enabled exclusively of each other with the reset interrupt on, whatever the interrupt
  handler does, and the state each bus event leads to.
\<close>

section \<open>Options\<close>

text \<open>\<^verbatim>\<open>USE_STATIC_OPTIONS\<close> of the makefile: full speed, regulator on, automatic PLL; all three are 0.\<close>

definition USB_Options :: u8 where
  "USB_Options = 0"

abbreviation (input) USB_DEVICE_OPT_LOWSPEED :: nat where "USB_DEVICE_OPT_LOWSPEED \<equiv> 0"
abbreviation (input) USB_OPT_REG_DISABLED :: nat where "USB_OPT_REG_DISABLED \<equiv> 1"
abbreviation (input) USB_OPT_MANUAL_PLL :: nat where "USB_OPT_MANUAL_PLL \<equiv> 2"

text \<open>For \<^verbatim>\<open>F_USB == 16000000\<close> on the ATmega32U4.\<close>

definition USB_PLL_PSC :: u8 where
  "USB_PLL_PSC = BV PINDIV"

section \<open>Controller, PLL, regulator, device\<close>

definition USB_VBUS_GetStatus :: "'h mcu \<Rightarrow> 'h fw \<Rightarrow> bool \<times> 'h fw" where
  "USB_VBUS_GetStatus m s = (let (v, s) = rd m USBSTA s in (tst v VBUS, s))"

definition USB_Detach :: "'h mcu \<Rightarrow> 'h fw \<Rightarrow> 'h fw" where
  "USB_Detach m s = wr_or m UDCON (BV DETACH) s"

definition USB_Attach :: "'h mcu \<Rightarrow> 'h fw \<Rightarrow> 'h fw" where
  "USB_Attach m s = wr_clr m UDCON (BV DETACH) s"

definition USB_PLL_On :: "'h mcu \<Rightarrow> 'h fw \<Rightarrow> 'h fw" where
  "USB_PLL_On m s = wr m PLLCSR (USB_PLL_PSC OR BV PLLE) (wr m PLLCSR USB_PLL_PSC s)"

definition USB_PLL_Off :: "'h mcu \<Rightarrow> 'h fw \<Rightarrow> 'h fw" where
  "USB_PLL_Off m s = wr m PLLCSR 0 s"

definition USB_PLL_IsReady :: "'h mcu \<Rightarrow> 'h fw \<Rightarrow> bool \<times> 'h fw" where
  "USB_PLL_IsReady m s = (let (v, s) = rd m PLLCSR s in (tst v PLOCK, s))"

definition USB_REG_On :: "'h mcu \<Rightarrow> 'h fw \<Rightarrow> 'h fw" where
  "USB_REG_On m s = wr_or m UHWCON (BV UVREGE) s"

definition USB_REG_Off :: "'h mcu \<Rightarrow> 'h fw \<Rightarrow> 'h fw" where
  "USB_REG_Off m s = wr_clr m UHWCON (BV UVREGE) s"

definition USB_OTGPAD_On :: "'h mcu \<Rightarrow> 'h fw \<Rightarrow> 'h fw" where
  "USB_OTGPAD_On m s = wr_or m USBCON (BV OTGPADE) s"

definition USB_OTGPAD_Off :: "'h mcu \<Rightarrow> 'h fw \<Rightarrow> 'h fw" where
  "USB_OTGPAD_Off m s = wr_clr m USBCON (BV OTGPADE) s"

definition USB_CLK_Freeze :: "'h mcu \<Rightarrow> 'h fw \<Rightarrow> 'h fw" where
  "USB_CLK_Freeze m s = wr_or m USBCON (BV FRZCLK) s"

definition USB_CLK_Unfreeze :: "'h mcu \<Rightarrow> 'h fw \<Rightarrow> 'h fw" where
  "USB_CLK_Unfreeze m s = wr_clr m USBCON (BV FRZCLK) s"

definition USB_Controller_Disable :: "'h mcu \<Rightarrow> 'h fw \<Rightarrow> 'h fw" where
  "USB_Controller_Disable m s = wr_clr m USBCON (BV USBE) s"

definition USB_Controller_Reset :: "'h mcu \<Rightarrow> 'h fw \<Rightarrow> 'h fw" where
  "USB_Controller_Reset m s = wr_or m USBCON (BV USBE) (wr_clr m USBCON (BV USBE) s)"

definition USB_Device_GetFrameNumber :: "'h mcu \<Rightarrow> 'h fw \<Rightarrow> u16 \<times> 'h fw" where
  "USB_Device_GetFrameNumber m s = (let (l, s) = rd m UDFNUML s; (h, s) = rd m UDFNUMH s in (mk16 h l, s))"

definition USB_Device_SetLowSpeed :: "'h mcu \<Rightarrow> 'h fw \<Rightarrow> 'h fw" where
  "USB_Device_SetLowSpeed m s = wr_or m UDCON (BV LSM) s"

definition USB_Device_SetFullSpeed :: "'h mcu \<Rightarrow> 'h fw \<Rightarrow> 'h fw" where
  "USB_Device_SetFullSpeed m s = wr_clr m UDCON (BV LSM) s"

definition USB_Device_SetDeviceAddress :: "'h mcu \<Rightarrow> u8 \<Rightarrow> 'h fw \<Rightarrow> 'h fw" where
  "USB_Device_SetDeviceAddress m a s =
     (let (v, s) = rd m UDADDR s; Temp = (v AND BV ADDEN) OR (a AND 0x7F)
      in wr m UDADDR (Temp OR BV ADDEN) (wr m UDADDR Temp s))"

definition USB_Device_IsAddressSet :: "'h mcu \<Rightarrow> 'h fw \<Rightarrow> bool \<times> 'h fw" where
  "USB_Device_IsAddressSet m s = (let (v, s) = rd m UDADDR s in (tst v ADDEN, s))"

section \<open>Interrupt sources\<close>

datatype USB_Interrupts_t =
  USB_INT_VBUSTI | USB_INT_WAKEUPI | USB_INT_SUSPI | USB_INT_EORSTI | USB_INT_SOFI | USB_INT_RXSTPI

fun USB_INT_Enable :: "'h mcu \<Rightarrow> USB_Interrupts_t \<Rightarrow> 'h fw \<Rightarrow> 'h fw" where
  "USB_INT_Enable m USB_INT_VBUSTI s = wr_or m USBCON (BV VBUSTE) s"
| "USB_INT_Enable m USB_INT_WAKEUPI s = wr_or m UDIEN (BV WAKEUPE) s"
| "USB_INT_Enable m USB_INT_SUSPI s = wr_or m UDIEN (BV SUSPE) s"
| "USB_INT_Enable m USB_INT_EORSTI s = wr_or m UDIEN (BV EORSTE) s"
| "USB_INT_Enable m USB_INT_SOFI s = wr_or m UDIEN (BV SOFE) s"
| "USB_INT_Enable m USB_INT_RXSTPI s = wr_or m UEIENX (BV RXSTPE) s"

fun USB_INT_Disable :: "'h mcu \<Rightarrow> USB_Interrupts_t \<Rightarrow> 'h fw \<Rightarrow> 'h fw" where
  "USB_INT_Disable m USB_INT_VBUSTI s = wr_clr m USBCON (BV VBUSTE) s"
| "USB_INT_Disable m USB_INT_WAKEUPI s = wr_clr m UDIEN (BV WAKEUPE) s"
| "USB_INT_Disable m USB_INT_SUSPI s = wr_clr m UDIEN (BV SUSPE) s"
| "USB_INT_Disable m USB_INT_EORSTI s = wr_clr m UDIEN (BV EORSTE) s"
| "USB_INT_Disable m USB_INT_SOFI s = wr_clr m UDIEN (BV SOFE) s"
| "USB_INT_Disable m USB_INT_RXSTPI s = wr_clr m UEIENX (BV RXSTPE) s"

fun USB_INT_Clear :: "'h mcu \<Rightarrow> USB_Interrupts_t \<Rightarrow> 'h fw \<Rightarrow> 'h fw" where
  "USB_INT_Clear m USB_INT_VBUSTI s = wr_clr m USBINT (BV VBUSTI) s"
| "USB_INT_Clear m USB_INT_WAKEUPI s = wr_clr m UDINT (BV WAKEUPI) s"
| "USB_INT_Clear m USB_INT_SUSPI s = wr_clr m UDINT (BV SUSPI) s"
| "USB_INT_Clear m USB_INT_EORSTI s = wr_clr m UDINT (BV EORSTI) s"
| "USB_INT_Clear m USB_INT_SOFI s = wr_clr m UDINT (BV SOFI) s"
| "USB_INT_Clear m USB_INT_RXSTPI s = wr_clr m UEINTX (BV RXSTPI) s"

fun USB_INT_IsEnabled :: "'h mcu \<Rightarrow> USB_Interrupts_t \<Rightarrow> 'h fw \<Rightarrow> bool \<times> 'h fw" where
  "USB_INT_IsEnabled m USB_INT_VBUSTI s = (let (v, s) = rd m USBCON s in (tst v VBUSTE, s))"
| "USB_INT_IsEnabled m USB_INT_WAKEUPI s = (let (v, s) = rd m UDIEN s in (tst v WAKEUPE, s))"
| "USB_INT_IsEnabled m USB_INT_SUSPI s = (let (v, s) = rd m UDIEN s in (tst v SUSPE, s))"
| "USB_INT_IsEnabled m USB_INT_EORSTI s = (let (v, s) = rd m UDIEN s in (tst v EORSTE, s))"
| "USB_INT_IsEnabled m USB_INT_SOFI s = (let (v, s) = rd m UDIEN s in (tst v SOFE, s))"
| "USB_INT_IsEnabled m USB_INT_RXSTPI s = (let (v, s) = rd m UEIENX s in (tst v RXSTPE, s))"

fun USB_INT_HasOccurred :: "'h mcu \<Rightarrow> USB_Interrupts_t \<Rightarrow> 'h fw \<Rightarrow> bool \<times> 'h fw" where
  "USB_INT_HasOccurred m USB_INT_VBUSTI s = (let (v, s) = rd m USBINT s in (tst v VBUSTI, s))"
| "USB_INT_HasOccurred m USB_INT_WAKEUPI s = (let (v, s) = rd m UDINT s in (tst v WAKEUPI, s))"
| "USB_INT_HasOccurred m USB_INT_SUSPI s = (let (v, s) = rd m UDINT s in (tst v SUSPI, s))"
| "USB_INT_HasOccurred m USB_INT_EORSTI s = (let (v, s) = rd m UDINT s in (tst v EORSTI, s))"
| "USB_INT_HasOccurred m USB_INT_SOFI s = (let (v, s) = rd m UDINT s in (tst v SOFI, s))"
| "USB_INT_HasOccurred m USB_INT_RXSTPI s = (let (v, s) = rd m UEINTX s in (tst v RXSTPI, s))"

text \<open>The guard \<^verbatim>\<open>USB_INT_HasOccurred(i) && USB_INT_IsEnabled(i)\<close>, with C's short circuit.\<close>

definition int_pending :: "'h mcu \<Rightarrow> USB_Interrupts_t \<Rightarrow> 'h fw \<Rightarrow> bool \<times> 'h fw" where
  "int_pending m i s = (let (occ, s) = USB_INT_HasOccurred m i s
     in if occ then USB_INT_IsEnabled m i s else (False, s))"

definition USB_INT_DisableAllInterrupts :: "'h mcu \<Rightarrow> 'h fw \<Rightarrow> 'h fw" where
  "USB_INT_DisableAllInterrupts m s = wr m UDIEN 0 (wr_clr m USBCON (BV VBUSTE) s)"

definition USB_INT_ClearAllInterrupts :: "'h mcu \<Rightarrow> 'h fw \<Rightarrow> 'h fw" where
  "USB_INT_ClearAllInterrupts m s = wr m UDINT 0 (wr m USBINT 0 s)"

section \<open>Initialisation\<close>

definition USB_Init_Device :: "'h mcu \<Rightarrow> 'h fw \<Rightarrow> 'h fw option" where
  "USB_Init_Device m s = do {
     let s = s\<lparr>USB_DeviceState := DEVICE_STATE_Unattached, USB_Device_ConfigurationNumber := 0\<rparr>;
     let s = (if tst USB_Options USB_DEVICE_OPT_LOWSPEED then USB_Device_SetLowSpeed m s
              else USB_Device_SetFullSpeed m s);
     let s = USB_INT_Enable m USB_INT_VBUSTI s;
     (_, s) \<leftarrow> Endpoint_ConfigureEndpoint m ENDPOINT_CONTROLEP EP_TYPE_CONTROL ENDPOINT_DIR_OUT 8
        ENDPOINT_BANK_SINGLE s;
     let s = USB_INT_Clear m USB_INT_SUSPI s;
     let s = USB_INT_Enable m USB_INT_SUSPI s;
     let s = USB_INT_Enable m USB_INT_EORSTI s;
     Some (USB_Attach m s) }"

definition USB_ResetInterface :: "'h mcu \<Rightarrow> 'h fw \<Rightarrow> 'h fw option" where
  "USB_ResetInterface m s = do {
     let s = USB_INT_DisableAllInterrupts m s;
     let s = USB_INT_ClearAllInterrupts m s;
     let s = USB_Controller_Reset m s;
     let s = USB_CLK_Unfreeze m s;
     let s = (if tst USB_Options USB_OPT_MANUAL_PLL then s else USB_PLL_Off m s);
     s \<leftarrow> USB_Init_Device m s;
     Some (USB_OTGPAD_On m s) }"

definition USB_Init :: "'h mcu \<Rightarrow> 'h fw \<Rightarrow> 'h fw option" where
  "USB_Init m s = do {
     let s = (if tst USB_Options USB_OPT_REG_DISABLED then USB_REG_Off m s else USB_REG_On m s);
     let s = (if tst USB_Options USB_OPT_MANUAL_PLL then s
              else wr m PLLFRQ (BV PLLUSB OR BV PDIV3 OR BV PDIV1) s);
     USB_ResetInterface m (s\<lparr>USB_IsInitialized := True\<rparr>) }"

definition USB_Disable :: "'h mcu \<Rightarrow> 'h fw \<Rightarrow> 'h fw" where
  "USB_Disable m s =
     (let s = USB_INT_DisableAllInterrupts m s;
          s = USB_INT_ClearAllInterrupts m s;
          s = USB_Detach m s;
          s = USB_Controller_Disable m s;
          s = (if tst USB_Options USB_OPT_MANUAL_PLL then s else USB_PLL_Off m s);
          s = USB_REG_Off m s;
          s = USB_OTGPAD_Off m s
      in s\<lparr>USB_IsInitialized := False\<rparr>)"

section \<open>The general USB interrupt\<close>

text \<open>\<^verbatim>\<open>while (!(USB_PLL_IsReady()));\<close> inside the handler, where no interrupt can be taken.\<close>

partial_function (option) wait_PLL :: "'h mcu \<Rightarrow> 'h fw \<Rightarrow> 'h fw option" where
  "wait_PLL m s = (case USB_PLL_IsReady m s of (ready, s) \<Rightarrow> if ready then Some s else wait_PLL m s)"

text \<open>\<^verbatim>\<open>if (!(USB_Options & USB_OPT_MANUAL_PLL)) { USB_PLL_On(); while (...); }\<close>\<close>

definition start_PLL :: "'h mcu \<Rightarrow> 'h fw \<Rightarrow> 'h fw option" where
  "start_PLL m s = (if tst USB_Options USB_OPT_MANUAL_PLL then Some s else wait_PLL m (USB_PLL_On m s))"

definition stop_PLL :: "'h mcu \<Rightarrow> 'h fw \<Rightarrow> 'h fw" where
  "stop_PLL m s = (if tst USB_Options USB_OPT_MANUAL_PLL then s else USB_PLL_Off m s)"

text \<open>The state after a wake-up or a configuration request:
  \<^verbatim>\<open>USB_Device_ConfigurationNumber\<close> decides, then whether an address is set.\<close>

definition configured_state :: "'h mcu \<Rightarrow> 'h fw \<Rightarrow> 'h fw" where
  "configured_state m s =
     (if USB_Device_ConfigurationNumber s \<noteq> 0 then s\<lparr>USB_DeviceState := DEVICE_STATE_Configured\<rparr>
      else (case USB_Device_IsAddressSet m s of (a, s) \<Rightarrow>
        s\<lparr>USB_DeviceState := (if a then DEVICE_STATE_Configured else DEVICE_STATE_Powered)\<rparr>))"

definition usb_gen_vbus :: "'h mcu \<Rightarrow> 'h fw \<Rightarrow> 'h fw option" where
  "usb_gen_vbus m s = (case int_pending m USB_INT_VBUSTI s of (p, s) \<Rightarrow>
     if \<not> p then Some s else do {
       let s = USB_INT_Clear m USB_INT_VBUSTI s;
       let (vbus, s) = USB_VBUS_GetStatus m s;
       if vbus then do {
         s \<leftarrow> start_PLL m s;
         Some (s\<lparr>USB_DeviceState := DEVICE_STATE_Powered\<rparr>) }
       else Some ((stop_PLL m s)\<lparr>USB_DeviceState := DEVICE_STATE_Unattached\<rparr>) })"

definition usb_gen_suspend :: "'h mcu \<Rightarrow> 'h fw \<Rightarrow> 'h fw" where
  "usb_gen_suspend m s = (case int_pending m USB_INT_SUSPI s of (p, s) \<Rightarrow>
     if \<not> p then s else
       (let s = USB_INT_Disable m USB_INT_SUSPI s;
            s = USB_INT_Enable m USB_INT_WAKEUPI s;
            s = USB_CLK_Freeze m s;
            s = stop_PLL m s
        in s\<lparr>USB_DeviceState := DEVICE_STATE_Suspended\<rparr>))"

definition usb_gen_wakeup :: "'h mcu \<Rightarrow> 'h fw \<Rightarrow> 'h fw option" where
  "usb_gen_wakeup m s = (case int_pending m USB_INT_WAKEUPI s of (p, s) \<Rightarrow>
     if \<not> p then Some s else do {
       s \<leftarrow> start_PLL m s;
       let s = USB_CLK_Unfreeze m s;
       let s = USB_INT_Clear m USB_INT_WAKEUPI s;
       let s = USB_INT_Disable m USB_INT_WAKEUPI s;
       let s = USB_INT_Enable m USB_INT_SUSPI s;
       Some (configured_state m s) })"

definition usb_gen_reset :: "'h mcu \<Rightarrow> 'h fw \<Rightarrow> 'h fw option" where
  "usb_gen_reset m s = (case int_pending m USB_INT_EORSTI s of (p, s) \<Rightarrow>
     if \<not> p then Some s else do {
       let s = USB_INT_Clear m USB_INT_EORSTI s;
       let s = s\<lparr>USB_DeviceState := DEVICE_STATE_Default, USB_Device_ConfigurationNumber := 0\<rparr>;
       let s = USB_INT_Clear m USB_INT_SUSPI s;
       let s = USB_INT_Disable m USB_INT_SUSPI s;
       let s = USB_INT_Enable m USB_INT_WAKEUPI s;
       (_, s) \<leftarrow> Endpoint_ConfigureEndpoint m ENDPOINT_CONTROLEP EP_TYPE_CONTROL ENDPOINT_DIR_OUT 8
          ENDPOINT_BANK_SINGLE s;
       Some s })"

definition USB_GEN_isr :: "'h mcu \<Rightarrow> 'h fw \<Rightarrow> 'h fw option" where
  "USB_GEN_isr m s = do {
     s \<leftarrow> usb_gen_vbus m s;
     let s = usb_gen_suspend m s;
     s \<leftarrow> usb_gen_wakeup m s;
     usb_gen_reset m s }"

section \<open>Which variables and enable bits the operations touch\<close>

lemmas [code_defs] = USB_VBUS_GetStatus_def USB_Detach_def USB_Attach_def USB_PLL_On_def
  USB_PLL_Off_def USB_PLL_IsReady_def USB_REG_On_def USB_REG_Off_def USB_OTGPAD_On_def
  USB_OTGPAD_Off_def USB_CLK_Freeze_def USB_CLK_Unfreeze_def USB_Controller_Disable_def
  USB_Controller_Reset_def USB_Device_SetLowSpeed_def USB_Device_SetFullSpeed_def
  USB_Device_SetDeviceAddress_def USB_Device_IsAddressSet_def USB_INT_DisableAllInterrupts_def
  USB_INT_ClearAllInterrupts_def stop_PLL_def

lemma no_options [simp]: "tst USB_Options n = False"
  by (simp add: USB_Options_def)

lemma configure_Prv_UDIEN [simp]:
  "io (snd (Endpoint_ConfigureEndpoint_Prv m n c0 c1 s)) UDIEN = io s UDIEN"
  by (simp add: code_defs reg_simps Let_def)

lemma configure_Prv_state [simp]:
  "USB_DeviceState (snd (Endpoint_ConfigureEndpoint_Prv m n c0 c1 s)) = USB_DeviceState s"
  "USB_Device_ConfigurationNumber (snd (Endpoint_ConfigureEndpoint_Prv m n c0 c1 s)) =
     USB_Device_ConfigurationNumber s"
  by (simp_all add: code_defs reg_simps Let_def)

lemma int_pending_io [simp]:
  "io (snd (int_pending m i s)) = io s"
  "USB_DeviceState (snd (int_pending m i s)) = USB_DeviceState s"
  "USB_Device_ConfigurationNumber (snd (int_pending m i s)) = USB_Device_ConfigurationNumber s"
  by (cases i; simp add: int_pending_def reg_simps)+

lemma int_pending_enabled:
  "fst (int_pending m USB_INT_SUSPI s) \<Longrightarrow> tst (io s UDIEN) SUSPE"
  "fst (int_pending m USB_INT_WAKEUPI s) \<Longrightarrow> tst (io s UDIEN) WAKEUPE"
  "fst (int_pending m USB_INT_EORSTI s) \<Longrightarrow> tst (io s UDIEN) EORSTE"
  by (simp_all add: int_pending_def reg_simps split: if_splits)

lemma wait_PLL_io:
  "wait_PLL m s = Some s' \<Longrightarrow> io s' = io s \<and> USB_DeviceState s' = USB_DeviceState s
    \<and> USB_Device_ConfigurationNumber s' = USB_Device_ConfigurationNumber s"
  by (rule wait_PLL.raw_induct [of "\<lambda>m s s'. io s' = io s \<and> USB_DeviceState s' = USB_DeviceState s
    \<and> USB_Device_ConfigurationNumber s' = USB_Device_ConfigurationNumber s"])
    (fastforce simp: USB_PLL_IsReady_def reg_simps split: if_splits)

lemma start_PLL_io:
  assumes "start_PLL m s = Some s'"
  shows "io s' UDIEN = io s UDIEN" "USB_DeviceState s' = USB_DeviceState s"
    "USB_Device_ConfigurationNumber s' = USB_Device_ConfigurationNumber s"
  using assms wait_PLL_io [of m "USB_PLL_On m s" s'] by (simp_all add: start_PLL_def code_defs reg_simps)

lemma configured_state_io [simp]:
  "io (configured_state m s) = io s"
  "USB_DeviceState (configured_state m s) \<noteq> DEVICE_STATE_Suspended"
  by (simp_all add: configured_state_def code_defs reg_simps split: prod.split)

section \<open>The suspend and wake-up interlock\<close>

text \<open>The bus events the controller reports while the device is attached: exactly one of suspend and
  wake-up is enabled, the end of reset always is, and a suspended device listens for the wake-up.\<close>

definition interlock :: "'h fw \<Rightarrow> bool" where
  "interlock s \<longleftrightarrow> tst (io s UDIEN) EORSTE \<and> (tst (io s UDIEN) SUSPE \<longleftrightarrow> \<not> tst (io s UDIEN) WAKEUPE)
     \<and> (USB_DeviceState s = DEVICE_STATE_Suspended \<longrightarrow> tst (io s UDIEN) WAKEUPE)"

lemma interlock_vbus: "usb_gen_vbus m s = Some s' \<Longrightarrow> interlock s \<Longrightarrow> interlock s'"
  by (auto simp: usb_gen_vbus_def interlock_def code_defs reg_simps bind_Some_iff start_PLL_io
      case_prod_unfold Let_def split: if_splits)

lemma interlock_suspend: "interlock s \<Longrightarrow> interlock (usb_gen_suspend m s)"
  by (auto simp: usb_gen_suspend_def interlock_def code_defs reg_simps case_prod_unfold Let_def
      dest: int_pending_enabled)

lemma interlock_wakeup: "usb_gen_wakeup m s = Some s' \<Longrightarrow> interlock s \<Longrightarrow> interlock s'"
  by (auto simp: usb_gen_wakeup_def interlock_def code_defs reg_simps bind_Some_iff start_PLL_io
      case_prod_unfold split: if_splits)

lemma interlock_reset: "usb_gen_reset m s = Some s' \<Longrightarrow> interlock s \<Longrightarrow> interlock s'"
  by (auto simp: usb_gen_reset_def interlock_def Endpoint_ConfigureEndpoint_8_16 reg_simps
      case_prod_unfold split: if_splits)

lemma interlock_isr: "USB_GEN_isr m s = Some s' \<Longrightarrow> interlock s \<Longrightarrow> interlock s'"
  by (auto simp: USB_GEN_isr_def bind_Some_iff
      dest!: interlock_vbus interlock_wakeup interlock_reset intro: interlock_suspend)

lemma interlock_init: "USB_Init m s = Some s' \<Longrightarrow> interlock s'"
  by (auto simp: USB_Init_def USB_ResetInterface_def USB_Init_Device_def bind_Some_iff interlock_def
      Endpoint_ConfigureEndpoint_8_16 code_defs reg_simps case_prod_unfold)

section \<open>Returning from the interrupt\<close>

text \<open>The data sheet's promise on the PLL: once enabled it reports lock after finitely many reads.\<close>

locale pll_locks =
  fixes m :: "'h mcu"
  assumes lock: "tst v PLLE \<Longrightarrow>
    \<exists>n. tst (fst (rd_reg m PLLCSR (((\<lambda>h. snd (rd_reg m PLLCSR h)) ^^ n) (wr_reg m PLLCSR v h)))) PLOCK"
begin

lemma wait_PLL_returns:
  "tst (fst (rd_reg m PLLCSR (((\<lambda>h. snd (rd_reg m PLLCSR h)) ^^ n) (hw s)))) PLOCK \<Longrightarrow>
   \<exists>s'. wait_PLL m s = Some s'"
proof (induction n arbitrary: s)
  case 0
  then show ?case by (subst wait_PLL.simps) (simp add: USB_PLL_IsReady_def reg_simps)
next
  case (Suc n)
  let ?s = "s\<lparr>hw := snd (rd_reg m PLLCSR (hw s))\<rparr>"
  have "\<exists>s'. wait_PLL m ?s = Some s'"
    using Suc.prems by (intro Suc.IH) (simp add: funpow_Suc_right del: funpow.simps)
  then show ?case by (subst wait_PLL.simps) (simp add: USB_PLL_IsReady_def reg_simps)
qed

lemma start_PLL_returns: "\<exists>s'. start_PLL m s = Some s'"
proof -
  have "tst (USB_PLL_PSC OR BV PLLE) PLLE" by simp
  from lock [OF this, of "wr_reg m PLLCSR USB_PLL_PSC (hw s)"] obtain n where
    "tst (fst (rd_reg m PLLCSR (((\<lambda>h. snd (rd_reg m PLLCSR h)) ^^ n) (hw (USB_PLL_On m s))))) PLOCK"
    by (auto simp: USB_PLL_On_def reg_simps)
  then show ?thesis by (simp add: start_PLL_def wait_PLL_returns)
qed

lemma USB_GEN_isr_returns: "\<exists>s'. USB_GEN_isr m s = Some s'"
proof -
  have pll: "start_PLL m s = None \<longleftrightarrow> False" for s
    using start_PLL_returns [of s] by auto
  have v: "usb_gen_vbus m s = None \<longleftrightarrow> False" for s
    by (simp add: usb_gen_vbus_def case_prod_unfold Let_def pll bind_eq_None_conv del: not_None_eq)
  have w: "usb_gen_wakeup m s = None \<longleftrightarrow> False" for s
    by (simp add: usb_gen_wakeup_def case_prod_unfold Let_def pll bind_eq_None_conv del: not_None_eq)
  have r: "usb_gen_reset m s = None \<longleftrightarrow> False" for s
    by (simp add: usb_gen_reset_def Endpoint_ConfigureEndpoint_8_16 case_prod_unfold)
  have "USB_GEN_isr m s = None \<longleftrightarrow> False"
    by (simp add: USB_GEN_isr_def v w r bind_eq_None_conv del: not_None_eq)
  then show ?thesis by auto
qed

end

text \<open>(C36) The handler of the general USB interrupt, which starts the PLL and waits for it on a connection and on a
  wake-up, returns from every state of the firmware and of the hardware, provided only that the PLL locks
  after finitely many polls once it is enabled.\<close>

theorem usb_interrupt_terminates:
  assumes "pll_locks m"
  shows "\<exists>s'. USB_GEN_isr m s = Some s'"
  by (rule pll_locks.USB_GEN_isr_returns [OF assms])

end
