(* ===== verification/Bounded_Queue.thy ===== *)
theory Bounded_Queue
  imports Prelude "HOL-Library.Sublist"
begin

text \<open>
  The contract of the byte queues of the repository (the ring buffer of the boot loader, LUFA's ring buffer, the
  circular buffer of the ESP8266 core, the serial port of the AVR core) and what every client may rely
  on: a queue with room for \<open>cap\<close> items that keeps the order and ignores an item that does not fit. The last
  section is about items stored in a circle, on which the implementations rest.
\<close>

section \<open>Bounded queues\<close>

text \<open>Items arrive and are taken, in any order.\<close>

datatype 'a queue_event = Arrive 'a | Take

fun queue_run :: "('a \<Rightarrow> 's \<Rightarrow> 's) \<Rightarrow> ('s \<Rightarrow> bool) \<Rightarrow> ('s \<Rightarrow> 'a \<times> 's) \<Rightarrow> 'a queue_event list \<Rightarrow> 's \<Rightarrow> 'a list \<times> 's" where
  "queue_run put ne get [] s = ([], s)"
| "queue_run put ne get (Arrive x # es) s = queue_run put ne get es (put x s)"
| "queue_run put ne get (Take # es) s =
     (if ne s then case get s of (x, s) \<Rightarrow> case queue_run put ne get es s of (xs, s) \<Rightarrow> (x # xs, s)
      else queue_run put ne get es s)"

text \<open>The same events on a list with a capacity.\<close>

definition list_put :: "nat \<Rightarrow> 'a \<Rightarrow> 'a list \<Rightarrow> 'a list" where
  "list_put cap x q = (if length q < cap then q @ [x] else q)"

definition list_run :: "nat \<Rightarrow> 'a queue_event list \<Rightarrow> 'a list \<Rightarrow> 'a list \<times> 'a list" where
  "list_run cap = queue_run (list_put cap) (\<lambda>q. q \<noteq> []) (\<lambda>q. (hd q, tl q))"

fun arrivals :: "'a queue_event list \<Rightarrow> 'a list" where
  "arrivals [] = []"
| "arrivals (Arrive x # es) = x # arrivals es"
| "arrivals (Take # es) = arrivals es"

lemma list_run_simps [simp]:
  "list_run cap [] q = ([], q)"
  "list_run cap (Arrive x # es) q = list_run cap es (list_put cap x q)"
  "list_run cap (Take # es) q = (if q = [] then list_run cap es q
     else case list_run cap es (tl q) of (xs, r) \<Rightarrow> (hd q # xs, r))"
  by (simp_all add: list_run_def)

lemma list_run_order:
  "\<exists>as. subseq as (arrivals es) \<and> fst (list_run cap es q) @ snd (list_run cap es q) = q @ as"
proof (induction es arbitrary: q rule: arrivals.induct)
  case (2 x es)
  from "2.IH" [of "list_put cap x q"] obtain as where as: "subseq as (arrivals es)"
    "fst (list_run cap es (list_put cap x q)) @ snd (list_run cap es (list_put cap x q)) =
     list_put cap x q @ as" by blast
  then show ?case
    by (cases "length q < cap") (auto simp: list_put_def intro: exI [of _ "x # as"] exI [of _ as])
next
  case (3 es)
  show ?case using "3.IH" [of "tl q"] "3.IH" [of q] by (cases q) (auto split: prod.splits)
qed auto

lemma list_run_room:
  "length q + length (arrivals es) \<le> cap \<Longrightarrow>
   fst (list_run cap es q) @ snd (list_run cap es q) = q @ arrivals es"
proof (induction es arbitrary: q rule: arrivals.induct)
  case (2 x es)
  then show ?case using "2.IH" [of "q @ [x]"] by (simp add: list_put_def)
next
  case (3 es)
  then show ?case using "3.IH" [of "tl q"] "3.IH" [of q] by (cases q) (auto simp: case_prod_unfold)
qed auto

lemma list_run_takes: "list_run cap (replicate k Take) q = (take k q, drop k q)"
  by (induction k arbitrary: q) (auto simp: take_Suc drop_Suc)

lemma list_run_arrivals: "list_run cap (map Arrive xs) q = ([], q @ take (cap - length q) xs)"
proof (induction xs arbitrary: q)
  case (Cons x xs)
  then show ?case by (cases "length q < cap") (auto simp: list_put_def take_Cons' Suc_diff_Suc)
qed simp

locale bounded_queue =
  fixes put :: "'a \<Rightarrow> 's \<Rightarrow> 's" and ne :: "'s \<Rightarrow> bool" and get :: "'s \<Rightarrow> 'a \<times> 's"
    and abs :: "'s \<Rightarrow> 'a list" and inv :: "'s \<Rightarrow> bool" and cap :: nat
  assumes put_abs: "inv s \<Longrightarrow> abs (put x s) = list_put cap x (abs s)"
    and put_inv: "inv s \<Longrightarrow> inv (put x s)"
    and ne_abs: "inv s \<Longrightarrow> ne s \<longleftrightarrow> abs s \<noteq> []"
    and get_fst: "inv s \<Longrightarrow> abs s \<noteq> [] \<Longrightarrow> fst (get s) = hd (abs s)"
    and get_abs: "inv s \<Longrightarrow> abs s \<noteq> [] \<Longrightarrow> abs (snd (get s)) = tl (abs s)"
    and get_inv: "inv s \<Longrightarrow> abs s \<noteq> [] \<Longrightarrow> inv (snd (get s))"
begin

lemma run_refines:
  "inv s \<Longrightarrow> fst (queue_run put ne get es s) = fst (list_run cap es (abs s))
    \<and> abs (snd (queue_run put ne get es s)) = snd (list_run cap es (abs s))
    \<and> inv (snd (queue_run put ne get es s))"
proof (induction es arbitrary: s)
  case (Cons e es)
  show ?case
  proof (cases e)
    case (Arrive x)
    then show ?thesis using Cons.IH [of "put x s"] Cons.prems by (simp add: put_abs put_inv)
  next
    case Take
    then show ?thesis
      using Cons.IH [of s] Cons.IH [of "snd (get s)"] Cons.prems get_fst [of s] get_abs [of s]
      by (auto simp: ne_abs get_inv case_prod_unfold)
  qed
qed simp

end

section \<open>Storage in a circle\<close>

text \<open>The \<open>k\<close> items from index \<open>out\<close> on in an array that is closed to a circle.\<close>

definition circ :: "'a list \<Rightarrow> nat \<Rightarrow> nat \<Rightarrow> 'a list" where
  "circ buf out k = map (\<lambda>i. buf ! ((out + i) mod length buf)) [0..<k]"

lemma length_circ [simp]: "length (circ buf out k) = k"
  by (simp add: circ_def)

lemma circ_0 [simp]: "circ buf out 0 = []"
  by (simp add: circ_def)

lemma mod_neq: "i < j \<Longrightarrow> j < n \<Longrightarrow> (out + i) mod n \<noteq> (out + j) mod (n :: nat)"
proof
  assume ij: "i < j" "j < n" and eq: "(out + i) mod n = (out + j) mod n"
  then have "n dvd j - i" using mod_eq_dvd_iff_nat [of "out + i" "out + j" n] by simp
  with ij show False by (auto dest: dvd_imp_le)
qed

lemma circ_put:
  assumes "k < length buf"
  shows "circ (buf[(out + k) mod length buf := x]) out (Suc k) = circ buf out k @ [x]"
proof -
  have "(out + k) mod length buf < length buf" using assms by (intro mod_less_divisor) auto
  moreover have "(out + k) mod length buf \<noteq> (out + i) mod length buf" if "i < k" for i
    using mod_neq [OF that assms, of out] by simp
  ultimately show ?thesis by (auto simp: circ_def)
qed

lemma circ_get: "circ buf out (Suc k) = buf ! (out mod length buf) # circ buf (Suc out mod length buf) k"
proof -
  have "[0..<Suc k] = 0 # map Suc [0..<k]" by (simp add: upt_conv_Cons map_Suc_upt del: upt_Suc)
  then show ?thesis by (simp add: circ_def mod_add_left_eq del: upt_Suc)
qed

lemma circ_split: "circ buf out (j + k) = circ buf out j @ circ buf ((out + j) mod length buf) k"
proof (induction j arbitrary: out)
  case (Suc j)
  have "(Suc out mod length buf + j) mod length buf = (out + Suc j) mod length buf"
    by (simp add: mod_add_left_eq)
  then show ?case
    using Suc.IH [of "Suc out mod length buf"] circ_get [of buf out "j + k"] circ_get [of buf out j] by simp
qed (simp add: circ_def mod_add_left_eq)

lemma circ_straight: "out + k \<le> length buf \<Longrightarrow> circ buf out k = take k (drop out buf)"
  by (rule nth_equalityI) (auto simp: circ_def)

lemma circ_take: "j \<le> k \<Longrightarrow> take j (circ buf out k) = circ buf out j"
  by (auto simp: circ_def take_map)

lemma circ_drop: "j \<le> k \<Longrightarrow> drop j (circ buf out k) = circ buf ((out + j) mod length buf) (k - j)"
  using circ_split [of buf out j "k - j"] by simp

text \<open>Items written behind the others, in one piece or two.\<close>

lemma circ_append:
  assumes "length b = length buf" "a + k \<le> length buf" "k \<le> length src"
    and b: "\<And>i. i < length buf \<Longrightarrow> b ! ((out + a + i) mod length buf) = (if i < k then src ! i else buf ! ((out + a + i) mod length buf))"
  shows "circ b out (a + k) = circ buf out a @ take k src"
proof -
  have "circ b ((out + a) mod length buf) k = take k src"
    by (rule nth_equalityI) (use assms in \<open>auto simp: circ_def mod_add_left_eq\<close>)
  moreover have "circ b out a = circ buf out a"
  proof (rule nth_equalityI)
    fix j assume "j < length (circ b out a)"
    then have j: "j < a" by simp
    define i where "i = length buf - a + j"
    have e: "out + a + i = out + j + length buf" and i: "i < length buf" "k \<le> i" using j assms(2) by (auto simp: i_def)
    have "(out + a + i) mod length buf = (out + j) mod length buf" unfolding e by simp
    then show "circ b out a ! j = circ buf out a ! j" using j b [OF i(1)] i(2) assms(1) by (simp add: circ_def)
  qed simp
  ultimately show ?thesis using circ_split [of b out a k] assms(1) by simp
qed

end
