(* ===== verification/Interrupts.thy ===== *)
theory Interrupts
  imports Descriptors Lufa_Controller Bounded_Queue
begin

text \<open>
  The interrupt handlers of \<^verbatim>\<open>Adelino.c\<close> (UART receive into the ring buffer, the 50 ms timer) and the
  preemption points of the model. The ring buffer of 256 bytes with one-byte indices, written by
  the handler and read by the main program, is shown to be a bounded queue of 255 bytes that keeps
  the order and drops only what arrives when it is full, for every interleaving of the two sides.
\<close>

section \<open>The ring buffer\<close>

text \<open>The body of \<^verbatim>\<open>ISR(USART1_RX_vect)\<close> after the data register has been read.\<close>

definition ring_put :: "u8 \<Rightarrow> 'h fw \<Rightarrow> 'h fw" where
  "ring_put ch s =
     (let next = buffer_in s + 1
      in if next \<noteq> buffer_out s
         then s\<lparr>buffer := (buffer s)[unat (buffer_in s) := ch], buffer_in := next\<rparr>
         else s)"

definition USART1_RX_isr :: "'h mcu \<Rightarrow> 'h fw \<Rightarrow> 'h fw" where
  "USART1_RX_isr m s = (let (ch, s) = rd m UDR1 s in ring_put ch s)"

text \<open>The main program's side: \<^verbatim>\<open>buffer_in != buffer_out\<close> and \<^verbatim>\<open>buffer [buffer_out++]\<close>.\<close>

definition ring_nonempty :: "'h fw \<Rightarrow> bool" where
  "ring_nonempty s \<longleftrightarrow> buffer_in s \<noteq> buffer_out s"

definition ring_get :: "'h fw \<Rightarrow> u8 \<times> 'h fw" where
  "ring_get s = (buffer s ! unat (buffer_out s), s\<lparr>buffer_out := buffer_out s + 1\<rparr>)"

section \<open>The timer\<close>

definition TIMER1_COMPA_isr :: "'h fw \<Rightarrow> 'h fw" where
  "TIMER1_COMPA_isr s =
     (let s = (if leds_enabled s \<noteq> 0 then s\<lparr>led_counter := led_counter s + 1\<rparr> else s)
      in if Timeout s \<noteq> 0 then s\<lparr>Timeout := Timeout s - 1\<rparr> else s)"

section \<open>Preemption\<close>

text \<open>At a preemption point time passes and at most one handler runs: the one the interrupt controller
  requests, if interrupts are enabled globally and for the source. The points stand in every busy
  wait of the program and at every poll of the USB stack. The value is \<open>None\<close> when the handler does
  not return.\<close>

definition irq_point :: "'h mcu \<Rightarrow> 'h fw \<Rightarrow> 'h fw option" where
  "irq_point m s = (case irq_line m (I_flag s) (hw s) of (v, h) \<Rightarrow>
     let s = s\<lparr>hw := h\<rparr> in
     if \<not> I_flag s then Some s else
     case v of
       None \<Rightarrow> Some s
     | Some TIMER1_COMPA_vect \<Rightarrow> Some (if tst (io s TIMSK1) OCIE1A then TIMER1_COMPA_isr s else s)
     | Some USART1_RX_vect \<Rightarrow> Some (if tst (io s UCSR1B) RXCIE1 then USART1_RX_isr m s else s)
     | Some USB_GEN_vect \<Rightarrow> USB_GEN_isr m s)"

section \<open>The ring buffer is a bounded queue\<close>

definition ring_inv :: "'h fw \<Rightarrow> bool" where
  "ring_inv s \<longleftrightarrow> length (buffer s) = 256"

text \<open>The bytes between the indices, in the order of arrival.\<close>

definition ring_list :: "'h fw \<Rightarrow> u8 list" where
  "ring_list s = map (\<lambda>i. buffer s ! unat (buffer_out s + of_nat i)) [0..<unat (buffer_in s - buffer_out s)]"

lemma length_ring_list [simp]: "length (ring_list s) = unat (buffer_in s - buffer_out s)"
  by (simp add: ring_list_def)

lemma u8_lt: "unat (x :: u8) < 256"
  using unsigned_less [of x] by simp

lemma u8_unat_inc: "unat (x :: u8) < 255 \<Longrightarrow> unat (x + 1) = Suc (unat x)"
  by (simp add: unat_word_ariths)

lemma u8_inc_zero: "(x :: u8) + 1 = 0 \<longleftrightarrow> \<not> unat x < 255"
proof (cases "unat x < 255")
  case True
  then have "unat (x + 1) \<noteq> unat (0 :: u8)" by (simp add: u8_unat_inc)
  then show ?thesis using True by metis
next
  case False
  moreover have "unat x < 256" by (rule u8_lt)
  ultimately have "unat x = unat (255 :: u8)" by simp
  then have "x = 255" by (rule word_unat_eq_iff [THEN iffD2])
  then show ?thesis by simp
qed

lemma ring_full: "buffer_in s + 1 = buffer_out s \<longleftrightarrow> \<not> length (ring_list s) < 255"
proof -
  have "buffer_in s + 1 = buffer_out s \<longleftrightarrow> (buffer_in s - buffer_out s) + 1 = 0"
    by (subst eq_iff_diff_eq_0) (simp add: algebra_simps)
  then show ?thesis by (simp only: u8_inc_zero length_ring_list)
qed

lemma ring_index_ne: "i < unat (a - b) \<Longrightarrow> b + word_of_nat i \<noteq> (a :: u8)"
proof
  assume i: "i < unat (a - b)" and "b + word_of_nat i = a"
  then have "word_of_nat i = a - b" by (simp add: algebra_simps)
  then have "unat (word_of_nat i :: u8) = unat (a - b)" by simp
  moreover have "unat (word_of_nat i :: u8) = i"
    using order.strict_trans [OF i u8_lt] by (simp add: unat_of_nat)
  ultimately show False using i by simp
qed

lemma ring_put_list:
  assumes "ring_inv s" shows "ring_list (ring_put ch s) = list_put 255 ch (ring_list s)"
proof (cases "buffer_in s + 1 = buffer_out s")
  case True
  then show ?thesis by (simp add: ring_put_def list_put_def ring_full)
next
  case False
  let ?n = "unat (buffer_in s - buffer_out s)"
  from False have n: "?n < 255" by (simp add: ring_full)
  have n1: "unat (buffer_in s + 1 - buffer_out s) = Suc ?n"
    using u8_unat_inc [OF n] by (simp add: algebra_simps)
  have last: "buffer_out s + word_of_nat ?n = buffer_in s" by simp
  have old: "(buffer s)[unat (buffer_in s) := ch] ! unat (buffer_out s + word_of_nat i) =
      buffer s ! unat (buffer_out s + word_of_nat i)" if "i < ?n" for i
  proof (rule nth_list_update_neq)
    show "unat (buffer_in s) \<noteq> unat (buffer_out s + word_of_nat i)"
      using ring_index_ne [OF that] by (metis word_unat_eq_iff)
  qed
  have "map (\<lambda>i. (buffer s)[unat (buffer_in s) := ch] ! unat (buffer_out s + word_of_nat i)) [0..<?n] =
      map (\<lambda>i. buffer s ! unat (buffer_out s + word_of_nat i)) [0..<?n]"
    by (rule map_cong [OF refl]) (simp only: old set_upt atLeastLessThan_iff)
  with False n n1 last assms show ?thesis
    by (simp add: ring_put_def list_put_def ring_list_def ring_inv_def u8_lt)
qed

lemma ring_get_list:
  assumes "ring_list s \<noteq> []"
  shows "fst (ring_get s) = hd (ring_list s)" "ring_list (snd (ring_get s)) = tl (ring_list s)"
proof -
  let ?n = "unat (buffer_in s - buffer_out s)"
  from assms have n: "0 < ?n" by (metis length_greater_0_conv length_ring_list)
  then have ne: "buffer_in s - buffer_out s \<noteq> 0" by (metis less_irrefl unat_0)
  have n1: "unat (buffer_in s - (buffer_out s + 1)) = ?n - 1"
    using unat_minus_one [OF ne] by (simp add: algebra_simps)
  have up: "[0..<?n] = 0 # map Suc [0..<?n - 1]"
    using n by (simp add: map_Suc_upt upt_conv_Cons)
  show "fst (ring_get s) = hd (ring_list s)"
    unfolding ring_list_def ring_get_def up by simp
  have "map (\<lambda>i. buffer s ! unat (buffer_out s + 1 + word_of_nat i)) [0..<?n - 1] =
      tl (map (\<lambda>i. buffer s ! unat (buffer_out s + word_of_nat i)) (0 # map Suc [0..<?n - 1]))"
    by (simp add: o_def add.assoc)
  note tail = this
  have e: "ring_list (snd (ring_get s)) =
      map (\<lambda>i. buffer s ! unat (buffer_out s + 1 + word_of_nat i))
        [0..<unat (buffer_in s - (buffer_out s + 1))]"
    by (simp add: ring_list_def ring_get_def)
  show "ring_list (snd (ring_get s)) = tl (ring_list s)"
    unfolding e n1 unfolding ring_list_def up by (rule tail)
qed

interpretation rq: bounded_queue ring_put ring_nonempty ring_get ring_list ring_inv 255
proof
  fix s :: "'h fw" and x
  assume inv: "ring_inv s"
  show "ring_list (ring_put x s) = list_put 255 x (ring_list s)" by (rule ring_put_list [OF inv])
  show "ring_inv (ring_put x s)" using inv by (simp add: ring_inv_def ring_put_def Let_def)
  show "ring_nonempty s \<longleftrightarrow> ring_list s \<noteq> []"
    by (metis eq_iff_diff_eq_0 length_0_conv length_ring_list ring_nonempty_def unat_eq_zero)
  assume ne: "ring_list s \<noteq> []"
  show "fst (ring_get s) = hd (ring_list s)" "ring_list (snd (ring_get s)) = tl (ring_list s)"
    by (rule ring_get_list [OF ne])+
  show "ring_inv (snd (ring_get s))" using inv by (simp add: ring_inv_def ring_get_def)
qed

text \<open>(C15) The UART ring buffer as a queue. For every interleaving of received bytes and takes by the
  main program, the bytes handed to the program, and those still held, are those of a queue with
  room for 255 bytes that refuses a byte only when it is full.\<close>

theorem ring_refines_queue:
  assumes "ring_inv s"
  shows "fst (queue_run ring_put ring_nonempty ring_get es s) = fst (list_run 255 es (ring_list s))
    \<and> ring_list (snd (queue_run ring_put ring_nonempty ring_get es s)) = snd (list_run 255 es (ring_list s))"
  using rq.run_refines [OF assms] by blast

theorem ring_refines_queue_witness:
  "ring_inv (startup DeviceDescriptor_init 0 ()) \<and>
   fst (queue_run ring_put ring_nonempty ring_get [Arrive 7, Arrive 9, Take, Take, Take] (startup DeviceDescriptor_init 0 ())) = [7, 9]"
proof -
  have inv: "ring_inv (startup DeviceDescriptor_init 0 ())" by (simp add: ring_inv_def startup_def)
  moreover have "ring_list (startup DeviceDescriptor_init 0 ()) = []" by (simp add: ring_list_def startup_def)
  ultimately show ?thesis
    using ring_refines_queue [OF inv, of "[Arrive 7, Arrive 9, Take, Take, Take]"]
    by (simp add: list_put_def)
qed

text \<open>Nothing is lost, duplicated or reordered. What the program has taken followed by what the
  buffer still holds is the old content followed by a subsequence of the arrivals, and by all of
  them as long as old content and arrivals together stay within 255 bytes.\<close>

theorem ring_order_and_loss:
  assumes "ring_inv s" "queue_run ring_put ring_nonempty ring_get es s = (taken, s')"
  shows "\<exists>as. subseq as (arrivals es) \<and> taken @ ring_list s' = ring_list s @ as
    \<and> (length (ring_list s) + length (arrivals es) \<le> 255 \<longrightarrow> as = arrivals es)"
proof -
  have r: "taken = fst (list_run 255 es (ring_list s))" "ring_list s' = snd (list_run 255 es (ring_list s))"
    using rq.run_refines [OF assms(1), of es] assms(2) by simp_all
  show ?thesis
  proof (cases "length (ring_list s) + length (arrivals es) \<le> 255")
    case True
    from list_run_room [OF this] r show ?thesis by auto
  next
    case False
    with list_run_order [of es 255 "ring_list s"] r show ?thesis by auto
  qed
qed

theorem ring_order_and_loss_witness:
  "\<exists>as. subseq as [7, 9 :: u8] \<and> [7] @ ring_list ((startup DeviceDescriptor_init 0 ())\<lparr>buffer := [7, 9] @ replicate 254 0,
       buffer_in := 2, buffer_out := 1\<rparr>) = [] @ as \<and> as = [7, 9]"
proof -
  let ?s = "startup DeviceDescriptor_init 0 ()"
  let ?s' = "?s\<lparr>buffer := [7, 9] @ replicate 254 0, buffer_in := 2, buffer_out := 1\<rparr>"
  have inv: "ring_inv ?s" by (simp add: ring_inv_def startup_def)
  have e: "ring_list ?s = []" by (simp add: ring_list_def startup_def)
  have run: "queue_run ring_put ring_nonempty ring_get [Arrive 7, Arrive 9, Take] ?s = ([7], ?s')"
    by (simp add: ring_put_def ring_nonempty_def ring_get_def startup_def numeral_eq_Suc)
  show ?thesis using ring_order_and_loss [OF inv run] e by simp
qed

lemma timer_isr_Timeout: "unat (Timeout (TIMER1_COMPA_isr s)) = unat (Timeout s) - 1"
  by (simp add: TIMER1_COMPA_isr_def Let_def unat_minus_one)

lemma timer_isr_iter: "unat (Timeout ((TIMER1_COMPA_isr ^^ n) s)) = unat (Timeout s) - n"
  by (induction n) (simp_all add: timer_isr_Timeout)

text \<open>The timer handler. It counts the time-out down to zero and keeps it there, and touches
  nothing else than the LED counter, which advances only while the LEDs are enabled.\<close>

theorem timer_isr_counts:
  "unat (Timeout ((TIMER1_COMPA_isr ^^ n) s)) = unat (Timeout s) - n
   \<and> TIMER1_COMPA_isr s =
       s\<lparr>Timeout := (if Timeout s = 0 then 0 else Timeout s - 1),
         led_counter := led_counter s + (if leds_enabled s = 0 then 0 else 1)\<rparr>"
  by (simp add: timer_isr_iter) (simp add: TIMER1_COMPA_isr_def)

end
