(* ===== verification/Lufa_Control.thy ===== *)
theory Lufa_Control
  imports Interrupts
begin

text \<open>
  The control endpoint: waiting (\<^verbatim>\<open>Endpoint_AVR8.c\<close>), the control streams
  (\<^verbatim>\<open>Template_Endpoint_Control_R.c\<close> and \<^verbatim>\<open>_W.c\<close> as instantiated for RAM buffers), the standard requests
  (\<^verbatim>\<open>DeviceStandardReq.c\<close>), the poll (\<^verbatim>\<open>USBTask.c\<close>) and the two event handlers of \<^verbatim>\<open>Adelino.c\<close> that they
  call. Busy waits are partial functions with a preemption point per turn: \<open>None\<close> means that the
  call never returns.
\<close>

section \<open>Waiting on the control endpoint\<close>

partial_function (option) wait_status_OUT :: "'h mcu \<Rightarrow> 'h fw \<Rightarrow> 'h fw option" where
  "wait_status_OUT m s = (case Endpoint_IsOUTReceived m s of (r, s) \<Rightarrow>
     if r then Some (Endpoint_ClearOUT m s)
     else if USB_DeviceState s = DEVICE_STATE_Unattached then Some s
     else irq_point m s \<bind> wait_status_OUT m)"

partial_function (option) wait_status_IN :: "'h mcu \<Rightarrow> 'h fw \<Rightarrow> 'h fw option" where
  "wait_status_IN m s = (case Endpoint_IsINReady m s of (r, s) \<Rightarrow>
     if r then Some (Endpoint_ClearIN m s)
     else if USB_DeviceState s = DEVICE_STATE_Unattached then Some s
     else irq_point m s \<bind> wait_status_IN m)"

definition Endpoint_ClearStatusStage :: "'h mcu \<Rightarrow> 'h fw \<Rightarrow> 'h fw option" where
  "Endpoint_ClearStatusStage m s =
     (if bmRequestType (USB_ControlRequest s) AND REQDIR_DEVICETOHOST \<noteq> 0
      then wait_status_OUT m s else wait_status_IN m s)"

datatype Endpoint_WaitUntilReady_ErrorCodes_t =
    ENDPOINT_READYWAIT_NoError
  | ENDPOINT_READYWAIT_EndpointStalled
  | ENDPOINT_READYWAIT_DeviceDisconnected
  | ENDPOINT_READYWAIT_BusSuspended
  | ENDPOINT_READYWAIT_Timeout

abbreviation (input) USB_STREAM_TIMEOUT_MS :: u8 where "USB_STREAM_TIMEOUT_MS \<equiv> 100"

text \<open>The test at the top of the loop, by the direction of the endpoint.\<close>

definition endpoint_ready :: "'h mcu \<Rightarrow> 'h fw \<Rightarrow> bool \<times> 'h fw" where
  "endpoint_ready m s = (case Endpoint_GetEndpointDirection m s of (d, s) \<Rightarrow>
     if d = ENDPOINT_DIR_IN then Endpoint_IsINReady m s else Endpoint_IsOUTReceived m s)"

partial_function (option) wait_ready_loop ::
    "'h mcu \<Rightarrow> u8 \<Rightarrow> u16 \<Rightarrow> 'h fw \<Rightarrow> (Endpoint_WaitUntilReady_ErrorCodes_t \<times> 'h fw) option" where
  "wait_ready_loop m TimeoutMSRem PreviousFrameNumber s = (case endpoint_ready m s of (r, s) \<Rightarrow>
     if r then Some (ENDPOINT_READYWAIT_NoError, s)
     else if USB_DeviceState s = DEVICE_STATE_Unattached then Some (ENDPOINT_READYWAIT_DeviceDisconnected, s)
     else if USB_DeviceState s = DEVICE_STATE_Suspended then Some (ENDPOINT_READYWAIT_BusSuspended, s)
     else case Endpoint_IsStalled m s of (stalled, s) \<Rightarrow>
       if stalled then Some (ENDPOINT_READYWAIT_EndpointStalled, s)
       else case USB_Device_GetFrameNumber m s of (CurrentFrameNumber, s) \<Rightarrow>
         if CurrentFrameNumber \<noteq> PreviousFrameNumber then
           (if TimeoutMSRem = 0 then Some (ENDPOINT_READYWAIT_Timeout, s)
            else irq_point m s \<bind> wait_ready_loop m (TimeoutMSRem - 1) CurrentFrameNumber)
         else irq_point m s \<bind> wait_ready_loop m TimeoutMSRem PreviousFrameNumber)"

definition Endpoint_WaitUntilReady ::
    "'h mcu \<Rightarrow> 'h fw \<Rightarrow> (Endpoint_WaitUntilReady_ErrorCodes_t \<times> 'h fw) option" where
  "Endpoint_WaitUntilReady m s = (case USB_Device_GetFrameNumber m s of (f, s) \<Rightarrow>
     wait_ready_loop m USB_STREAM_TIMEOUT_MS f s)"

section \<open>Control streams\<close>

datatype Endpoint_ControlStream_RW_ErrorCodes_t =
    ENDPOINT_RWCSTREAM_NoError
  | ENDPOINT_RWCSTREAM_HostAborted
  | ENDPOINT_RWCSTREAM_DeviceDisconnected
  | ENDPOINT_RWCSTREAM_BusSuspended

text \<open>The early returns at the top of a stream loop.\<close>

definition stream_abort :: "'h mcu \<Rightarrow> 'h fw \<Rightarrow> Endpoint_ControlStream_RW_ErrorCodes_t option \<times> 'h fw" where
  "stream_abort m s =
     (if USB_DeviceState s = DEVICE_STATE_Unattached then (Some ENDPOINT_RWCSTREAM_DeviceDisconnected, s)
      else if USB_DeviceState s = DEVICE_STATE_Suspended then (Some ENDPOINT_RWCSTREAM_BusSuspended, s)
      else case Endpoint_IsSETUPReceived m s of (r, s) \<Rightarrow>
        (if r then Some ENDPOINT_RWCSTREAM_HostAborted else None, s))"

text \<open>The final wait for the status packet, \<open>ready\<close> being the flag it waits for.\<close>

partial_function (option) stream_status ::
    "('h mcu \<Rightarrow> 'h fw \<Rightarrow> bool \<times> 'h fw) \<Rightarrow> 'h mcu \<Rightarrow> 'h fw \<Rightarrow> (Endpoint_ControlStream_RW_ErrorCodes_t \<times> 'h fw) option" where
  "stream_status ready m s = (case ready m s of (r, s) \<Rightarrow>
     if r then Some (ENDPOINT_RWCSTREAM_NoError, s)
     else if USB_DeviceState s = DEVICE_STATE_Unattached then Some (ENDPOINT_RWCSTREAM_DeviceDisconnected, s)
     else if USB_DeviceState s = DEVICE_STATE_Suspended then Some (ENDPOINT_RWCSTREAM_BusSuspended, s)
     else irq_point m s \<bind> stream_status ready m)"

text \<open>Filling one packet: \<open>ds\<close> is the memory from the pointer \<^verbatim>\<open>DataStream\<close> on. The caller guarantees that at
  least \<open>Length\<close> bytes are there.\<close>

function fill_packet :: "'h mcu \<Rightarrow> u8 list \<Rightarrow> u16 \<Rightarrow> u16 \<Rightarrow> 'h fw \<Rightarrow> u8 list \<times> u16 \<times> u16 \<times> 'h fw" where
  "fill_packet m ds Length BytesInEndpoint s =
     (if Length \<noteq> 0 \<and> BytesInEndpoint < ucast FIXED_CONTROL_ENDPOINT_SIZE
      then fill_packet m (tl ds) (Length - 1) (BytesInEndpoint + 1) (Endpoint_Write_8 m (hd ds) s)
      else (ds, Length, BytesInEndpoint, s))"
  by pat_completeness auto
termination
  by (relation "measure (\<lambda>(m, ds, l, n, s). unat l)") (auto simp: unat_minus_one word_neq_0_conv unat_gt_0)

declare fill_packet.simps [simp del]

partial_function (option) write_stream_loop ::
    "'h mcu \<Rightarrow> u8 list \<Rightarrow> u16 \<Rightarrow> bool \<Rightarrow> 'h fw \<Rightarrow> (Endpoint_ControlStream_RW_ErrorCodes_t option \<times> 'h fw) option" where
  "write_stream_loop m ds Length LastPacketFull s =
     (if Length \<noteq> 0 \<or> LastPacketFull then
        (case stream_abort m s of (e, s) \<Rightarrow>
           if e \<noteq> None then Some (e, s)
           else case Endpoint_IsOUTReceived m s of (r, s) \<Rightarrow>
             if r then Some (None, s)
             else case Endpoint_IsINReady m s of (r, s) \<Rightarrow>
               if r then
                 (case Endpoint_BytesInEndpoint m s of (n, s) \<Rightarrow>
                  case fill_packet m ds Length n s of (ds, Length, n, s) \<Rightarrow>
                  irq_point m (Endpoint_ClearIN m s) \<bind>
                    write_stream_loop m ds Length (n = ucast FIXED_CONTROL_ENDPOINT_SIZE))
               else irq_point m s \<bind> write_stream_loop m ds Length LastPacketFull)
      else Some (None, s))"

definition Endpoint_Write_Control_Stream_LE ::
    "'h mcu \<Rightarrow> u8 list \<Rightarrow> u16 \<Rightarrow> 'h fw \<Rightarrow> (Endpoint_ControlStream_RW_ErrorCodes_t \<times> 'h fw) option" where
  "Endpoint_Write_Control_Stream_LE m Buffer Length s =
     (let (Length, s) =
            (if Length > wLength (USB_ControlRequest s) then (wLength (USB_ControlRequest s), s)
             else if Length = 0 then (Length, Endpoint_ClearIN m s) else (Length, s))
      in do {
        (e, s) \<leftarrow> write_stream_loop m Buffer Length False s;
        case e of Some c \<Rightarrow> Some (c, s) | None \<Rightarrow> stream_status Endpoint_IsOUTReceived m s })"

text \<open>Emptying one packet into the buffer; \<open>got\<close> collects the bytes stored, in order.\<close>

function drain_packet :: "'h mcu \<Rightarrow> u8 list \<Rightarrow> u16 \<Rightarrow> 'h fw \<Rightarrow> u8 list \<times> u16 \<times> 'h fw" where
  "drain_packet m got Length s =
     (if Length = 0 then (got, Length, s)
      else case Endpoint_BytesInEndpoint m s of (n, s) \<Rightarrow>
        if n = 0 then (got, Length, s)
        else case Endpoint_Read_8 m s of (b, s) \<Rightarrow> drain_packet m (got @ [b]) (Length - 1) s)"
  by pat_completeness auto
termination
  by (relation "measure (\<lambda>(m, got, l, s). unat l)") (auto simp: unat_minus_one word_neq_0_conv unat_gt_0)

declare drain_packet.simps [simp del]

partial_function (option) read_stream_loop ::
    "'h mcu \<Rightarrow> u8 list \<Rightarrow> u16 \<Rightarrow> 'h fw \<Rightarrow> (Endpoint_ControlStream_RW_ErrorCodes_t option \<times> u8 list \<times> 'h fw) option" where
  "read_stream_loop m got Length s =
     (if Length \<noteq> 0 then
        (case stream_abort m s of (e, s) \<Rightarrow>
           if e \<noteq> None then Some (e, got, s)
           else case Endpoint_IsOUTReceived m s of (r, s) \<Rightarrow>
             if r then
               (case drain_packet m got Length s of (got, Length, s) \<Rightarrow>
                irq_point m (Endpoint_ClearOUT m s) \<bind> read_stream_loop m got Length)
             else irq_point m s \<bind> read_stream_loop m got Length)
      else Some (None, got, s))"

definition Endpoint_Read_Control_Stream_LE ::
    "'h mcu \<Rightarrow> u16 \<Rightarrow> 'h fw \<Rightarrow> (Endpoint_ControlStream_RW_ErrorCodes_t \<times> u8 list \<times> 'h fw) option" where
  "Endpoint_Read_Control_Stream_LE m Length s =
     (let s = (if Length = 0 then Endpoint_ClearOUT m s else s)
      in do {
        (e, got, s) \<leftarrow> read_stream_loop m [] Length s;
        case e of Some c \<Rightarrow> Some (c, got, s)
        | None \<Rightarrow> do { (c, s) \<leftarrow> stream_status Endpoint_IsINReady m s; Some (c, got, s) } })"

section \<open>The application's event handlers\<close>

definition EVENT_USB_Device_ConfigurationChanged :: "'h mcu \<Rightarrow> 'h fw \<Rightarrow> 'h fw option" where
  "EVENT_USB_Device_ConfigurationChanged m s = do {
     (_, s) \<leftarrow> Endpoint_ConfigureEndpoint m CDC_NOTIFICATION_EPNUM EP_TYPE_INTERRUPT
        ENDPOINT_DIR_IN CDC_NOTIFICATION_EPSIZE ENDPOINT_BANK_SINGLE s;
     (_, s) \<leftarrow> Endpoint_ConfigureEndpoint m CDC_TX_EPNUM EP_TYPE_BULK
        ENDPOINT_DIR_IN CDC_TXRX_EPSIZE ENDPOINT_BANK_SINGLE s;
     (_, s) \<leftarrow> Endpoint_ConfigureEndpoint m CDC_RX_EPNUM EP_TYPE_BULK
        ENDPOINT_DIR_OUT CDC_TXRX_EPSIZE ENDPOINT_BANK_SINGLE s;
     Some s }"

text \<open>\<^verbatim>\<open>Endpoint_Read_Control_Stream_LE(&LineEncoding, ...)\<close> overwrites the structure byte by byte, so an
  aborted transfer leaves the bytes received so far.\<close>

definition store_LineEncoding :: "u8 list \<Rightarrow> CDC_LineEncoding_t \<Rightarrow> CDC_LineEncoding_t" where
  "store_LineEncoding got e = LineEncoding_of_bytes (got @ drop (length got) (bytes_of_LineEncoding e))"

definition EVENT_USB_Device_ControlRequest :: "'h mcu \<Rightarrow> 'h fw \<Rightarrow> 'h fw option" where
  "EVENT_USB_Device_ControlRequest m s =
     (let r = USB_ControlRequest s in
      if bmRequestType r AND (CONTROL_REQTYPE_TYPE OR CONTROL_REQTYPE_RECIPIENT)
           \<noteq> (REQTYPE_CLASS OR REQREC_INTERFACE)
      then Some s
      else if bRequest r = CDC_REQ_GetLineEncoding then
        (if bmRequestType r = (REQDIR_DEVICETOHOST OR REQTYPE_CLASS OR REQREC_INTERFACE) then do {
           let s = Endpoint_ClearSETUP m s;
           (_, s) \<leftarrow> Endpoint_Write_Control_Stream_LE m (bytes_of_LineEncoding (LineEncoding s)) 7 s;
           Some (Endpoint_ClearOUT m s) }
         else Some s)
      else if bRequest r = CDC_REQ_SetLineEncoding then
        (if bmRequestType r = (REQDIR_HOSTTODEVICE OR REQTYPE_CLASS OR REQREC_INTERFACE) then do {
           let s = Endpoint_ClearSETUP m s;
           (_, got, s) \<leftarrow> Endpoint_Read_Control_Stream_LE m 7 s;
           let s = s\<lparr>LineEncoding := store_LineEncoding got (LineEncoding s)\<rparr>;
           Some (Endpoint_ClearIN m s) }
         else Some s)
      else if bRequest r = CDC_REQ_SetControlLineState then
        (if bmRequestType r = (REQDIR_HOSTTODEVICE OR REQTYPE_CLASS OR REQREC_INTERFACE) then do {
           let s = Endpoint_ClearSETUP m s;
           s \<leftarrow> Endpoint_ClearStatusStage m s;
           Some (s\<lparr>rts_pulse := rts_pulse s OR
             lo8 (wValue (USB_ControlRequest s) AND CDC_CONTROL_LINE_OUT_RTS)\<rparr>) }
         else Some s)
      else Some s)"

section \<open>Standard requests\<close>

partial_function (option) wait_INReady :: "'h mcu \<Rightarrow> 'h fw \<Rightarrow> 'h fw option" where
  "wait_INReady m s = (case Endpoint_IsINReady m s of (r, s) \<Rightarrow>
     if r then Some s else irq_point m s \<bind> wait_INReady m)"

definition USB_Device_SetAddress :: "'h mcu \<Rightarrow> 'h fw \<Rightarrow> 'h fw option" where
  "USB_Device_SetAddress m s = do {
     let DeviceAddress = lo8 (wValue (USB_ControlRequest s) AND 0x7F);
     let CurrentGlobalInt = I_flag s;
     let s = cli s;
     let s = Endpoint_ClearSETUP m s;
     s \<leftarrow> Endpoint_ClearStatusStage m s;
     s \<leftarrow> wait_INReady m s;
     let s = USB_Device_SetDeviceAddress m DeviceAddress s;
     let s = s\<lparr>USB_DeviceState := (if DeviceAddress \<noteq> 0 then DEVICE_STATE_Addressed else DEVICE_STATE_Default)\<rparr>;
     Some (s\<lparr>I_flag := CurrentGlobalInt\<rparr>) }"

definition USB_Device_SetConfiguration :: "'h mcu \<Rightarrow> 'h fw \<Rightarrow> 'h fw option" where
  "USB_Device_SetConfiguration m s =
     (if lo8 (wValue (USB_ControlRequest s)) > FIXED_NUM_CONFIGURATIONS then Some s
      else do {
        let s = Endpoint_ClearSETUP m s;
        let s = s\<lparr>USB_Device_ConfigurationNumber := lo8 (wValue (USB_ControlRequest s))\<rparr>;
        s \<leftarrow> Endpoint_ClearStatusStage m s;
        EVENT_USB_Device_ConfigurationChanged m (configured_state m s) })"

definition USB_Device_GetConfiguration :: "'h mcu \<Rightarrow> 'h fw \<Rightarrow> 'h fw option" where
  "USB_Device_GetConfiguration m s =
     (let s = Endpoint_ClearSETUP m s;
          s = Endpoint_Write_8 m (USB_Device_ConfigurationNumber s) s;
          s = Endpoint_ClearIN m s
      in Endpoint_ClearStatusStage m s)"

definition USB_Device_GetDescriptor :: "'h mcu \<Rightarrow> 'h fw \<Rightarrow> 'h fw option" where
  "USB_Device_GetDescriptor m s =
     (case CALLBACK_USB_GetDescriptor m (wValue (USB_ControlRequest s)) (lo8 (wIndex (USB_ControlRequest s))) s of
        ((DescriptorSize, DescriptorPointer), s) \<Rightarrow>
          if DescriptorSize = ucast NO_DESCRIPTOR then Some s
          else do {
            let s = Endpoint_ClearSETUP m s;
            (_, s) \<leftarrow> Endpoint_Write_Control_Stream_LE m DescriptorPointer DescriptorSize s;
            Some (Endpoint_ClearOUT m s) })"

text \<open>Self power and remote wake-up are compiled out, so the device status has no case of its own.\<close>

definition USB_Device_GetStatus :: "'h mcu \<Rightarrow> 'h fw \<Rightarrow> 'h fw option" where
  "USB_Device_GetStatus m s =
     (if bmRequestType (USB_ControlRequest s) = (REQDIR_DEVICETOHOST OR REQTYPE_STANDARD OR REQREC_ENDPOINT)
      then
        (let s = Endpoint_SelectEndpoint m (lo8 (wIndex (USB_ControlRequest s)) AND ENDPOINT_EPNUM_MASK) s;
             (stalled, s) = Endpoint_IsStalled m s;
             s = Endpoint_SelectEndpoint m ENDPOINT_CONTROLEP s;
             s = Endpoint_ClearSETUP m s;
             s = Endpoint_Write_16_LE m (if stalled then 1 else 0) s;
             s = Endpoint_ClearIN m s
         in Endpoint_ClearStatusStage m s)
      else Some s)"

text \<open>The endpoint case of the feature request; \<open>None\<close> is the early return.\<close>

definition set_endpoint_halt :: "'h mcu \<Rightarrow> 'h fw \<Rightarrow> 'h fw option" where
  "set_endpoint_halt m s =
     (if lo8 (wValue (USB_ControlRequest s)) = FEATURE_SEL_EndpointHalt then
        (let EndpointIndex = lo8 (wIndex (USB_ControlRequest s)) AND ENDPOINT_EPNUM_MASK
         in if EndpointIndex = ENDPOINT_CONTROLEP then None
            else
              (let s = Endpoint_SelectEndpoint m EndpointIndex s;
                   (en, s) = Endpoint_IsEnabled m s
               in if \<not> en then Some s
                  else if bRequest (USB_ControlRequest s) = REQ_SetFeature
                  then Some (Endpoint_StallTransaction m s)
                  else Some (Endpoint_ResetDataToggle m (Endpoint_ResetEndpoint m EndpointIndex
                    (Endpoint_ClearStall m s)))))
      else Some s)"

definition USB_Device_ClearSetFeature :: "'h mcu \<Rightarrow> 'h fw \<Rightarrow> 'h fw option" where
  "USB_Device_ClearSetFeature m s =
     (if bmRequestType (USB_ControlRequest s) AND CONTROL_REQTYPE_RECIPIENT = REQREC_ENDPOINT then
        (case set_endpoint_halt m s of
           None \<Rightarrow> Some s
         | Some s \<Rightarrow>
             (let s = Endpoint_SelectEndpoint m ENDPOINT_CONTROLEP s;
                  s = Endpoint_ClearSETUP m s
              in Endpoint_ClearStatusStage m s))
      else Some s)"

text \<open>The \<^verbatim>\<open>switch\<close> on the request, run if the application has not handled it.\<close>

definition standard_request :: "'h mcu \<Rightarrow> 'h fw \<Rightarrow> 'h fw option" where
  "standard_request m s =
     (let bmRequestType = bmRequestType (USB_ControlRequest s); bRequest = bRequest (USB_ControlRequest s) in
      if bRequest = REQ_GetStatus then
        (if bmRequestType = (REQDIR_DEVICETOHOST OR REQTYPE_STANDARD OR REQREC_DEVICE)
          \<or> bmRequestType = (REQDIR_DEVICETOHOST OR REQTYPE_STANDARD OR REQREC_ENDPOINT)
         then USB_Device_GetStatus m s else Some s)
      else if bRequest = REQ_ClearFeature \<or> bRequest = REQ_SetFeature then
        (if bmRequestType = (REQDIR_HOSTTODEVICE OR REQTYPE_STANDARD OR REQREC_DEVICE)
          \<or> bmRequestType = (REQDIR_HOSTTODEVICE OR REQTYPE_STANDARD OR REQREC_ENDPOINT)
         then USB_Device_ClearSetFeature m s else Some s)
      else if bRequest = REQ_SetAddress then
        (if bmRequestType = (REQDIR_HOSTTODEVICE OR REQTYPE_STANDARD OR REQREC_DEVICE)
         then USB_Device_SetAddress m s else Some s)
      else if bRequest = REQ_GetDescriptor then
        (if bmRequestType = (REQDIR_DEVICETOHOST OR REQTYPE_STANDARD OR REQREC_DEVICE)
          \<or> bmRequestType = (REQDIR_DEVICETOHOST OR REQTYPE_STANDARD OR REQREC_INTERFACE)
         then USB_Device_GetDescriptor m s else Some s)
      else if bRequest = REQ_GetConfiguration then
        (if bmRequestType = (REQDIR_DEVICETOHOST OR REQTYPE_STANDARD OR REQREC_DEVICE)
         then USB_Device_GetConfiguration m s else Some s)
      else if bRequest = REQ_SetConfiguration then
        (if bmRequestType = (REQDIR_HOSTTODEVICE OR REQTYPE_STANDARD OR REQREC_DEVICE)
         then USB_Device_SetConfiguration m s else Some s)
      else Some s)"

primrec read_bytes :: "'h mcu \<Rightarrow> nat \<Rightarrow> 'h fw \<Rightarrow> u8 list \<times> 'h fw" where
  "read_bytes m 0 s = ([], s)"
| "read_bytes m (Suc n) s =
     (case Endpoint_Read_8 m s of (b, s) \<Rightarrow> case read_bytes m n s of (bs, s) \<Rightarrow> (b # bs, s))"

definition USB_Device_ProcessControlRequest :: "'h mcu \<Rightarrow> 'h fw \<Rightarrow> 'h fw option" where
  "USB_Device_ProcessControlRequest m s = do {
     let (hdr, s) = read_bytes m 8 s;
     let s = s\<lparr>USB_ControlRequest := request_of_bytes hdr\<rparr>;
     s \<leftarrow> EVENT_USB_Device_ControlRequest m s;
     let (setup, s) = Endpoint_IsSETUPReceived m s;
     s \<leftarrow> (if setup then standard_request m s else Some s);
     let (setup, s) = Endpoint_IsSETUPReceived m s;
     Some (if setup then Endpoint_ClearSETUP m (Endpoint_StallTransaction m s) else s) }"

definition USB_DeviceTask :: "'h mcu \<Rightarrow> 'h fw \<Rightarrow> 'h fw option" where
  "USB_DeviceTask m s =
     (if USB_DeviceState s \<noteq> DEVICE_STATE_Unattached then do {
        let (PrevEndpoint, s) = Endpoint_GetCurrentEndpoint m s;
        let s = Endpoint_SelectEndpoint m ENDPOINT_CONTROLEP s;
        let (setup, s) = Endpoint_IsSETUPReceived m s;
        s \<leftarrow> (if setup then USB_Device_ProcessControlRequest m s else Some s);
        Some (Endpoint_SelectEndpoint m PrevEndpoint s) }
      else Some s)"

text \<open>The poll; it is one of the model's preemption points.\<close>

definition USB_USBTask :: "'h mcu \<Rightarrow> 'h fw \<Rightarrow> 'h fw option" where
  "USB_USBTask m s = irq_point m s \<bind> USB_DeviceTask m"

end
