(* ===== verification/Usb_Port.thy ===== *)
theory Usb_Port
  imports Lufa_Control
begin

text \<open>
  The byte stream over the CDC data endpoints (\<^verbatim>\<open>usb_byte_available\<close> to \<^verbatim>\<open>usb_write_byte\<close> of
  \<^verbatim>\<open>Adelino.c\<close>). The laws of the endpoint hardware that the code relies on are the locale \<open>cdc_link\<close>;
  under them reading takes the next byte the host sent, writing appends to what the host receives,
  and flushing ends the transfer with a short packet. That is the contract \<open>cdc_port\<close> on which the
  programmers are verified.
\<close>

section \<open>Operations\<close>

definition usb_byte_available :: "'h mcu \<Rightarrow> 'h fw \<Rightarrow> (bool \<times> 'h fw) option" where
  "usb_byte_available m s = do {
     s \<leftarrow> USB_USBTask m s;
     let s = Endpoint_SelectEndpoint m CDC_RX_EPNUM s;
     let (r, s) = Endpoint_IsOUTReceived m s;
     if r then
       (case Endpoint_BytesInEndpoint m s of (n, s) \<Rightarrow>
          if n \<noteq> 0 then Some (True, s) else Some (False, Endpoint_ClearOUT m s))
     else Some (False, s) }"

definition endpoint_detached :: "'h fw \<Rightarrow> bool" where
  "endpoint_detached s \<longleftrightarrow> Timeout s = 0 \<or> USB_DeviceState s = DEVICE_STATE_Unattached"

partial_function (option) usb_read_byte :: "'h mcu \<Rightarrow> 'h fw \<Rightarrow> (u8 \<times> 'h fw) option" where
  "usb_read_byte m s = do {
     (r, s) \<leftarrow> usb_byte_available m s;
     if r then Some (Endpoint_Read_8 m s)
     else if endpoint_detached s then Some (0, s)
     else usb_read_byte m s }"

partial_function (option) flush_wait :: "'h mcu \<Rightarrow> 'h fw \<Rightarrow> 'h fw option" where
  "flush_wait m s = (case Endpoint_IsINReady m s of (r, s) \<Rightarrow>
     if r then Some s
     else if endpoint_detached s then Some s
     else irq_point m s \<bind> flush_wait m)"

definition usb_flush_endpoint :: "'h mcu \<Rightarrow> 'h fw \<Rightarrow> 'h fw option" where
  "usb_flush_endpoint m s = flush_wait m (Endpoint_ClearIN m s)"

definition usb_flush :: "'h mcu \<Rightarrow> 'h fw \<Rightarrow> 'h fw option" where
  "usb_flush m s = do {
     let s = Endpoint_SelectEndpoint m CDC_TX_EPNUM s;
     let (n, s) = Endpoint_BytesInEndpoint m s;
     if n = 0 then Some s
     else do {
       let (rw, s) = Endpoint_IsReadWriteAllowed m s;
       s \<leftarrow> (if rw then Some s else usb_flush_endpoint m s);
       usb_flush_endpoint m s } }"

definition usb_write_byte :: "'h mcu \<Rightarrow> u8 \<Rightarrow> 'h fw \<Rightarrow> 'h fw option" where
  "usb_write_byte m Response s = do {
     s \<leftarrow> USB_USBTask m s;
     let s = Endpoint_SelectEndpoint m CDC_TX_EPNUM s;
     let (rw, s) = Endpoint_IsReadWriteAllowed m s;
     s \<leftarrow> (if rw then Some s else usb_flush_endpoint m s);
     Some (Endpoint_Write_8 m Response s) }"

text \<open>Several calls of \<^verbatim>\<open>usb_write_byte\<close> in a row.\<close>

primrec usb_write_bytes :: "'h mcu \<Rightarrow> u8 list \<Rightarrow> 'h fw \<Rightarrow> 'h fw option" where
  "usb_write_bytes m [] s = Some s"
| "usb_write_bytes m (b # bs) s = usb_write_byte m b s \<bind> usb_write_bytes m bs"

section \<open>What preemption may change\<close>

text \<open>What the code of the main program may rely on across a call of the port: everything but the USB
  registers, the clocks, and the producer's end of the ring buffer.\<close>

definition quiet :: "'h fw \<Rightarrow> 'h fw \<Rightarrow> bool" where
  "quiet s t \<longleftrightarrow> I_flag t = I_flag s \<and> at_sketch t = at_sketch s \<and> LineEncoding t = LineEncoding s
     \<and> CurrAddress t = CurrAddress s \<and> rts_pulse t = rts_pulse s \<and> boot_mode t = boot_mode s
     \<and> bootKeyMem t = bootKeyMem s \<and> led_control t = led_control s \<and> leds_enabled t = leds_enabled s
     \<and> DeviceDescriptor t = DeviceDescriptor s \<and> USB_DeviceState t = USB_DeviceState s
     \<and> USB_Device_ConfigurationNumber t = USB_Device_ConfigurationNumber s
     \<and> buffer_out t = buffer_out s
     \<and> (ring_inv s \<longrightarrow> ring_inv t \<and> prefix (ring_list s) (ring_list t))
     \<and> (\<forall>r. r \<notin> {UENUM, UEINTX, UEDATX} \<longrightarrow> io t r = io s r)"

lemma quiet_refl [simp]: "quiet s s"
  by (simp add: quiet_def)

lemma quiet_trans [trans]: "quiet s t \<Longrightarrow> quiet t u \<Longrightarrow> quiet s u"
  unfolding quiet_def by (auto intro: prefix_order.trans)

lemma quiet_ring_inv: "quiet s t \<Longrightarrow> ring_inv s \<Longrightarrow> ring_inv t"
  by (simp add: quiet_def)

lemma ring_hw [simp]: "ring_inv (s\<lparr>hw := h\<rparr>) = ring_inv s" "ring_list (s\<lparr>hw := h\<rparr>) = ring_list s"
  by (simp_all add: ring_inv_def ring_list_def)

lemma ring_list_wr [simp]: "ring_list (wr m r v s) = ring_list s"
  by (simp add: ring_list_def wr_def)

lemma ring_list_timer [simp]: "ring_list (TIMER1_COMPA_isr s) = ring_list s"
  by (simp add: ring_list_def TIMER1_COMPA_isr_def)

lemma quiet_hw [simp]: "quiet s (t\<lparr>hw := h\<rparr>) = quiet s t" "quiet (s\<lparr>hw := h\<rparr>) t = quiet s t"
  by (simp_all add: quiet_def ring_inv_def ring_list_def)

lemma quiet_wr: "r \<in> {UENUM, UEINTX, UEDATX} \<Longrightarrow> quiet s (wr m r v s)"
  by (auto simp: quiet_def reg_simps ring_inv_def ring_list_def)

lemma quiet_timer: "quiet s (TIMER1_COMPA_isr s)"
  by (simp add: quiet_def TIMER1_COMPA_isr_def ring_inv_def ring_list_def)

lemma quiet_put: "quiet s (ring_put ch s)"
proof -
  have "prefix (ring_list s) (ring_list (ring_put ch s))" if "ring_inv s"
    using ring_put_list [OF that, of ch] by (simp add: list_put_def)
  then show ?thesis
    using rq.put_inv [of s ch] unfolding quiet_def by (auto simp: ring_put_def Let_def)
qed

section \<open>The endpoint hardware\<close>

text \<open>The link is up: the hardware is calm, the device attached, and the time-out will not run out, because
  fewer timer interrupts are to come than it allows or because the timer interrupt is off. A step
  of the port keeps it up, and keeps the rest of the hardware and everything \<open>quiet\<close> keeps. \<open>arr\<close> are the
  bytes that the UART has still to hand over: each enters the ring buffer as it arrives, in order,
  and is dropped only when the buffer is full.\<close>

definition arrivals_kept :: "('h \<Rightarrow> u8 list) \<Rightarrow> 'h fw \<Rightarrow> 'h fw \<Rightarrow> bool" where
  "arrivals_kept arr s t \<longleftrightarrow> subseq (ring_list t @ arr (hw t)) (ring_list s @ arr (hw s))
     \<and> (length (ring_list s) + length (arr (hw s)) \<le> 255 \<longrightarrow>
          ring_list t @ arr (hw t) = ring_list s @ arr (hw s))"

lemma arrivals_refl: "ring_list t = ring_list s \<Longrightarrow> arr (hw t) = arr (hw s) \<Longrightarrow> arrivals_kept arr s t"
  by (simp add: arrivals_kept_def)

lemma arrivals_trans: "arrivals_kept arr s t \<Longrightarrow> arrivals_kept arr t u \<Longrightarrow> arrivals_kept arr s u"
  unfolding arrivals_kept_def
  by (metis length_append subseq_order.order_trans)

lemma arrivals_put:
  assumes "ring_inv s" "arr (hw s) = ch # bs" "arr h = bs"
  shows "arrivals_kept arr s ((ring_put ch s)\<lparr>hw := h\<rparr>)"
proof -
  have "ring_list ((ring_put ch s)\<lparr>hw := h\<rparr>) = list_put 255 ch (ring_list s)"
    using ring_put_list [OF assms(1), of ch] by (simp add: ring_list_def)
  moreover have "subseq (ring_list s @ bs) (ring_list s @ ch # bs)" by (intro list_emb_append_mono) auto
  ultimately show ?thesis using assms(2,3) by (auto simp: arrivals_kept_def list_put_def)
qed

definition timely :: "('h \<Rightarrow> nat) \<Rightarrow> 'h fw \<Rightarrow> bool" where
  "timely ticks s \<longleftrightarrow> ticks (hw s) < unat (Timeout s)"

definition link_up :: "('h \<Rightarrow> nat) \<Rightarrow> ('h \<Rightarrow> bool) \<Rightarrow> 'h fw \<Rightarrow> bool" where
  "link_up ticks calm s \<longleftrightarrow> calm (hw s) \<and> USB_DeviceState s \<noteq> DEVICE_STATE_Unattached
     \<and> Timeout s \<noteq> 0 \<and> (timely ticks s \<or> \<not> tst (io s TIMSK1) OCIE1A)"

definition link_step :: "('h \<Rightarrow> 'r) \<Rightarrow> ('h \<Rightarrow> nat) \<Rightarrow> ('h \<Rightarrow> u8 list) \<Rightarrow> ('h \<Rightarrow> bool) \<Rightarrow> 'h fw \<Rightarrow> 'h fw \<Rightarrow> bool" where
  "link_step rest ticks arr calm s t \<longleftrightarrow> (link_up ticks calm s \<longrightarrow> link_up ticks calm t)
     \<and> (timely ticks s \<longrightarrow> timely ticks t) \<and> ticks (hw t) \<le> ticks (hw s)
     \<and> rest (hw t) = rest (hw s) \<and> quiet s t
     \<and> (ring_inv s \<longrightarrow> arrivals_kept arr s t)"

lemma timely_hw [simp]: "timely ticks (s\<lparr>hw := h\<rparr>) \<longleftrightarrow> ticks h < unat (Timeout s)"
  by (simp add: timely_def)

lemma u8_pos: "(n :: nat) < unat (x :: u8) \<Longrightarrow> x \<noteq> 0"
  by auto

record usb_view =
  sel :: u8
  rxq :: "u8 list list"
  txb :: "u8 list"
  sent :: "u8 list list"
  busy :: nat

text \<open>The byte streams: what the host has sent and is not yet read, what it has received or will on a flush;
  and that the port is ready for the next call.\<close>

definition rx_stream :: "('h \<Rightarrow> usb_view) \<Rightarrow> 'h fw \<Rightarrow> u8 list" where
  "rx_stream view s = concat (rxq (view (hw s)))"

definition tx_stream :: "('h \<Rightarrow> usb_view) \<Rightarrow> 'h fw \<Rightarrow> u8 list" where
  "tx_stream view s = concat (sent (view (hw s))) @ txb (view (hw s))"

definition port_ready :: "('h \<Rightarrow> usb_view) \<Rightarrow> ('h \<Rightarrow> nat) \<Rightarrow> ('h \<Rightarrow> bool) \<Rightarrow> 'h fw \<Rightarrow> bool" where
  "port_ready view ticks calm s \<longleftrightarrow> link_up ticks calm s \<and> busy (view (hw s)) = 0"

text \<open>
  The laws, for hardware that is \<open>calm\<close>: the device is configured and the host sends no control
  request and no bus event. \<open>sel\<close> is the endpoint selected, \<open>rxq\<close> the packets received on the OUT
  endpoint (the first may be partly read), \<open>txb\<close> the bank of the IN endpoint, \<open>sent\<close> the packets the
  host has been given, \<open>busy\<close> how often the IN endpoint will still be polled before the host has
  taken the bank. \<open>ticks\<close> bounds the timer interrupts to come, \<open>arr\<close> are the
  bytes the UART will hand over, one at each receive interrupt through its data register, \<open>rest\<close> is
  the rest of the hardware.
\<close>

locale cdc_link =
  fixes m :: "'h mcu" and view :: "'h \<Rightarrow> usb_view" and rest :: "'h \<Rightarrow> 'r"
    and ticks :: "'h \<Rightarrow> nat" and arr :: "'h \<Rightarrow> u8 list" and calm :: "'h \<Rightarrow> bool"
  assumes packet_size: "calm h \<Longrightarrow> p \<in> set (rxq (view h)) \<Longrightarrow> length p \<le> 16"
    and bank_size: "calm h \<Longrightarrow> length (txb (view h)) \<le> 16"
    and quiet_read: "calm h \<Longrightarrow> r \<in> {UEINTX, UEBCHX, UEBCLX, UEDATX, UDR1} \<Longrightarrow>
      calm (snd (rd_reg m r h)) \<and> rest (snd (rd_reg m r h)) = rest h \<and> ticks (snd (rd_reg m r h)) = ticks h
      \<and> (r \<noteq> UDR1 \<longrightarrow> arr (snd (rd_reg m r h)) = arr h)"
    and data_uart: "calm h \<Longrightarrow> arr h = b # bs \<Longrightarrow> fst (rd_reg m UDR1 h) = b \<and> arr (snd (rd_reg m UDR1 h)) = bs"
    and quiet_write: "calm h \<Longrightarrow> r \<in> {UENUM, UEINTX, UEDATX} \<Longrightarrow>
      calm (wr_reg m r v h) \<and> rest (wr_reg m r v h) = rest h \<and> ticks (wr_reg m r v h) = ticks h
      \<and> arr (wr_reg m r v h) = arr h"
    and select: "calm h \<Longrightarrow> view (wr_reg m UENUM n h) = (view h)\<lparr>sel := n\<rparr>"
    and intx_control: "calm h \<Longrightarrow> sel (view h) = ENDPOINT_CONTROLEP \<Longrightarrow>
      \<not> tst (fst (rd_reg m UEINTX h)) RXSTPI \<and> view (snd (rd_reg m UEINTX h)) = view h"
    and intx_rx: "calm h \<Longrightarrow> sel (view h) = CDC_RX_EPNUM \<Longrightarrow>
      (tst (fst (rd_reg m UEINTX h)) RXOUTI \<longleftrightarrow> rxq (view h) \<noteq> []) \<and> view (snd (rd_reg m UEINTX h)) = view h"
    and intx_tx: "calm h \<Longrightarrow> sel (view h) = CDC_TX_EPNUM \<Longrightarrow>
      (tst (fst (rd_reg m UEINTX h)) TXINI \<longleftrightarrow> busy (view h) = 0)
      \<and> (tst (fst (rd_reg m UEINTX h)) RWAL \<longleftrightarrow> busy (view h) = 0 \<and> length (txb (view h)) < 16)
      \<and> view (snd (rd_reg m UEINTX h)) = (view h)\<lparr>busy := busy (view h) - 1\<rparr>"
    and count_rx: "calm h \<Longrightarrow> sel (view h) = CDC_RX_EPNUM \<Longrightarrow> rxq (view h) = p # q \<Longrightarrow>
      fst (rd_reg m UEBCHX h) = 0 \<and> fst (rd_reg m UEBCLX h) = of_nat (length p)"
    and count_tx: "calm h \<Longrightarrow> sel (view h) = CDC_TX_EPNUM \<Longrightarrow>
      fst (rd_reg m UEBCHX h) = 0 \<and> fst (rd_reg m UEBCLX h) = of_nat (length (txb (view h)))"
    and count_view: "calm h \<Longrightarrow> r \<in> {UEBCHX, UEBCLX, UDR1} \<Longrightarrow> view (snd (rd_reg m r h)) = view h"
    and data_rx: "calm h \<Longrightarrow> sel (view h) = CDC_RX_EPNUM \<Longrightarrow> rxq (view h) = (b # p) # q \<Longrightarrow>
      fst (rd_reg m UEDATX h) = b \<and> view (snd (rd_reg m UEDATX h)) = (view h)\<lparr>rxq := p # q\<rparr>"
    and data_tx: "calm h \<Longrightarrow> sel (view h) = CDC_TX_EPNUM \<Longrightarrow> busy (view h) = 0 \<Longrightarrow> length (txb (view h)) < 16 \<Longrightarrow>
      view (wr_reg m UEDATX b h) = (view h)\<lparr>txb := txb (view h) @ [b]\<rparr>"
    and clear_rx: "calm h \<Longrightarrow> sel (view h) = CDC_RX_EPNUM \<Longrightarrow> \<not> tst v RXOUTI \<Longrightarrow> \<not> tst v FIFOCON \<Longrightarrow>
      view (wr_reg m UEINTX v h) = (view h)\<lparr>rxq := tl (rxq (view h))\<rparr>"
    and clear_tx: "calm h \<Longrightarrow> sel (view h) = CDC_TX_EPNUM \<Longrightarrow> busy (view h) = 0 \<Longrightarrow> \<not> tst v TXINI \<Longrightarrow> \<not> tst v FIFOCON \<Longrightarrow>
      \<exists>n. view (wr_reg m UEINTX v h) = (view h)\<lparr>txb := [], sent := sent (view h) @ [txb (view h)], busy := n\<rparr>"
    and irq: "calm h \<Longrightarrow> irq_line m i h = (x, h') \<Longrightarrow>
      calm h' \<and> view h' = view h \<and> rest h' = rest h \<and> x \<noteq> Some USB_GEN_vect
      \<and> ticks h' + (if x = Some TIMER1_COMPA_vect then 1 else 0) \<le> ticks h
      \<and> arr h' = arr h \<and> (x = Some USART1_RX_vect \<longrightarrow> arr h \<noteq> [])"
begin

abbreviation up where "up \<equiv> link_up ticks calm"

abbreviation step where "step \<equiv> link_step rest ticks arr calm"

abbreviation rx where "rx \<equiv> rx_stream view"

abbreviation tx where "tx \<equiv> tx_stream view"

abbreviation ready where "ready \<equiv> port_ready view ticks calm"

lemma up_not_detached: "up s \<Longrightarrow> \<not> endpoint_detached s"
  by (auto simp: link_up_def endpoint_detached_def)

lemma step_refl [simp]: "step s s"
  by (simp add: link_step_def arrivals_refl)

lemma step_trans [trans]: "step s t \<Longrightarrow> step t u \<Longrightarrow> step s u"
  unfolding link_step_def by (auto intro: quiet_trans arrivals_trans dest: quiet_ring_inv)

lemma step_up: "step s t \<Longrightarrow> up s \<Longrightarrow> up t"
  by (simp add: link_step_def)

lemma step_read:
  assumes "up s" "r \<in> {UEINTX, UEBCHX, UEBCLX, UEDATX}"
  shows "step s (s\<lparr>hw := snd (rd_reg m r (hw s))\<rparr>)"
  using assms quiet_read [of "hw s" r] by (auto simp: link_step_def link_up_def timely_def intro: arrivals_refl)

lemma step_write:
  assumes "up s" "r \<in> {UENUM, UEINTX, UEDATX}"
  shows "step s (wr m r v s)"
  using assms quiet_write [of "hw s" r v] quiet_wr [OF assms(2), of s m v]
  by (auto simp: link_step_def link_up_def timely_def reg_simps ring_list_def intro!: arrivals_refl)

lemma ring_put_up [simp]:
  "hw (ring_put ch s) = hw s" "io (ring_put ch s) = io s" "Timeout (ring_put ch s) = Timeout s"
  "USB_DeviceState (ring_put ch s) = USB_DeviceState s"
  by (simp_all add: ring_put_def Let_def)

lemma step_usart:
  assumes "up s" "arr h = arr (hw s)" "arr h \<noteq> []" "ticks h \<le> ticks (hw s)" "calm h" "rest h = rest (hw s)"
  shows "step s (USART1_RX_isr m (s\<lparr>hw := h\<rparr>)) \<and> view (hw (USART1_RX_isr m (s\<lparr>hw := h\<rparr>))) = view h"
proof -
  let ?h = "snd (rd_reg m UDR1 h)" and ?ch = "fst (rd_reg m UDR1 h)"
  obtain b bs where b: "arr h = b # bs" using assms(3) by (cases "arr h") auto
  have d: "?ch = b" "arr ?h = bs" using data_uart [OF assms(5) b] by simp_all
  have put: "ring_put ?ch (s\<lparr>hw := ?h\<rparr>) = (ring_put b s)\<lparr>hw := ?h\<rparr>"
    using d(1) by (simp add: ring_put_def Let_def)
  have "quiet s (ring_put ?ch (s\<lparr>hw := ?h\<rparr>))" using quiet_put [of "s\<lparr>hw := ?h\<rparr>" ?ch] by simp
  moreover have "ring_inv s \<Longrightarrow> arrivals_kept arr s (ring_put ?ch (s\<lparr>hw := ?h\<rparr>))"
    unfolding put using arrivals_put [of s arr b bs ?h] d(2) b assms(2) by simp
  moreover have "USART1_RX_isr m (s\<lparr>hw := h\<rparr>) = ring_put ?ch (s\<lparr>hw := ?h\<rparr>)"
    by (simp add: USART1_RX_isr_def reg_simps)
  ultimately show ?thesis
    using assms quiet_read [OF assms(5), of UDR1] count_view [OF assms(5), of UDR1]
    by (fastforce simp: link_step_def link_up_def timely_def)
qed

lemma step_timer:
  assumes "up s" "ticks h + 1 \<le> ticks (hw s)" "calm h" "rest h = rest (hw s)" "arr h = arr (hw s)"
    and "tst (io s TIMSK1) OCIE1A"
  shows "step s (TIMER1_COMPA_isr (s\<lparr>hw := h\<rparr>))"
proof -
  let ?t = "TIMER1_COMPA_isr (s\<lparr>hw := h\<rparr>)"
  have "quiet s ?t" using quiet_timer [of "s\<lparr>hw := h\<rparr>"] by simp
  moreover have "ticks h < unat (Timeout ?t)"
    using assms(1,2,6) by (auto simp: timer_isr_Timeout link_up_def timely_def)
  moreover from this have "Timeout ?t \<noteq> 0" by (rule u8_pos)
  moreover have "hw ?t = h" "USB_DeviceState ?t = USB_DeviceState s"
    by (simp_all add: TIMER1_COMPA_isr_def Let_def)
  ultimately show ?thesis using assms by (simp add: link_step_def link_up_def timely_def arrivals_refl)
qed

lemma irq_point_up:
  assumes up: "up s"
  shows "\<exists>t. irq_point m s = Some t \<and> step s t \<and> view (hw t) = view (hw s)"
proof -
  obtain v h where v: "irq_line m (I_flag s) (hw s) = (v, h)" by fastforce
  from up have "calm (hw s)" by (simp add: link_up_def)
  from irq [OF this v] have h: "calm h" "view h = view (hw s)" "rest h = rest (hw s)"
    "v \<noteq> Some USB_GEN_vect" "ticks h + (if v = Some TIMER1_COMPA_vect then 1 else 0) \<le> ticks (hw s)"
    "arr h = arr (hw s)" "v = Some USART1_RX_vect \<longrightarrow> arr h \<noteq> []"
    by simp_all
  let ?s = "s\<lparr>hw := h\<rparr>"
  have s1: "step s ?s" "up ?s" using up h by (auto simp: link_step_def link_up_def timely_def split: if_splits intro: arrivals_refl)
  have hw: "hw (TIMER1_COMPA_isr ?s) = h" by (simp add: TIMER1_COMPA_isr_def Let_def)
  show ?thesis
  proof (cases "I_flag s \<and> v \<noteq> None")
    case False
    then show ?thesis using v s1 h by (auto simp: irq_point_def Let_def)
  next
    case True
    then obtain w where w: "v = Some w" by auto
    show ?thesis
    proof (cases w)
      case TIMER1_COMPA_vect
      have "step s (TIMER1_COMPA_isr ?s)" if "tst (io s TIMSK1) OCIE1A"
        using step_timer [OF up _ h(1,3) _ that] h w TIMER1_COMPA_vect by simp
      then show ?thesis using True v w TIMER1_COMPA_vect s1 h hw by (simp add: irq_point_def Let_def)
    next
      case USART1_RX_vect
      then show ?thesis using True v w s1 h step_usart [OF up _ _ _ h(1,3)]
        by (simp add: irq_point_def Let_def)
    next
      case USB_GEN_vect
      with h w show ?thesis by simp
    qed
  qed
qed

lemma select_up: "up s \<Longrightarrow> step s (Endpoint_SelectEndpoint m n s)
    \<and> view (hw (Endpoint_SelectEndpoint m n s)) = (view (hw s))\<lparr>sel := n\<rparr>"
  using step_write [of s UENUM n] select [of "hw s" n]
  by (simp add: Endpoint_SelectEndpoint_def reg_simps link_up_def)

lemma USB_USBTask_up:
  assumes "up s"
  shows "\<exists>t n. USB_USBTask m s = Some t \<and> step s t \<and> view (hw t) = (view (hw s))\<lparr>sel := n\<rparr>"
proof -
  from irq_point_up [OF assms] obtain a where a: "irq_point m s = Some a" "step s a"
    "view (hw a) = view (hw s)" by blast
  let ?b = "Endpoint_SelectEndpoint m ENDPOINT_CONTROLEP a"
  have b: "step a ?b" "view (hw ?b) = (view (hw s))\<lparr>sel := ENDPOINT_CONTROLEP\<rparr>"
    using select_up [of a ENDPOINT_CONTROLEP] step_up [OF a(2) assms] a(3) by simp_all
  have ub: "up ?b" using step_up [OF b(1) step_up [OF a(2) assms]] .
  let ?c = "?b\<lparr>hw := snd (rd_reg m UEINTX (hw ?b))\<rparr>"
  have c: "step ?b ?c" "view (hw ?c) = (view (hw s))\<lparr>sel := ENDPOINT_CONTROLEP\<rparr>"
    "\<not> tst (fst (rd_reg m UEINTX (hw ?b))) RXSTPI"
    using step_read [OF ub, of UEINTX] intx_control [of "hw ?b"] b(2) ub by (simp_all add: link_up_def)
  let ?n = "io a UENUM AND ENDPOINT_EPNUM_MASK"
  let ?d = "Endpoint_SelectEndpoint m ?n ?c"
  have d: "step ?c ?d" "view (hw ?d) = (view (hw s))\<lparr>sel := ?n\<rparr>"
    using select_up [of ?c ?n] step_up [OF c(1) ub] c(2) by simp_all
  have "USB_USBTask m s = Some ?d"
    using a(1) c(3) step_up [OF a(2) assms]
    by (simp add: USB_USBTask_def USB_DeviceTask_def link_up_def Endpoint_GetCurrentEndpoint_def
        Endpoint_IsSETUPReceived_def rd_latched rd_device Let_def)
  moreover have "step s ?d" using step_trans [OF a(2) step_trans [OF b(1) step_trans [OF c(1) d(1)]]] .
  ultimately show ?thesis using d(2) by blast
qed

lemma BytesInEndpoint_up:
  assumes "up s" "sel (view (hw s)) = CDC_RX_EPNUM \<and> rxq (view (hw s)) = p # q
    \<or> sel (view (hw s)) = CDC_TX_EPNUM \<and> txb (view (hw s)) = p"
  shows "\<exists>t. Endpoint_BytesInEndpoint m s = (of_nat (length p), t) \<and> step s t \<and> view (hw t) = view (hw s)"
proof -
  let ?a = "s\<lparr>hw := snd (rd_reg m UEBCHX (hw s))\<rparr>"
  let ?b = "?a\<lparr>hw := snd (rd_reg m UEBCLX (hw ?a))\<rparr>"
  have a: "step s ?a" "view (hw ?a) = view (hw s)" "up ?a"
    using step_read [OF assms(1), of UEBCHX] count_view [of "hw s" UEBCHX] assms(1) step_up [of s ?a]
    by (simp_all add: link_up_def)
  have b: "step ?a ?b" "view (hw ?b) = view (hw s)"
    using step_read [OF a(3), of UEBCLX] count_view [of "hw ?a" UEBCLX] a by (simp_all add: link_up_def)
  have calm: "calm (hw s)" "calm (hw ?a)" using assms(1) a(3) by (simp_all add: link_up_def)
  have l: "length p \<le> 16"
    using assms(2) packet_size [OF calm(1), of p] bank_size [OF calm(1)] by auto
  have v: "fst (rd_reg m UEBCHX (hw s)) = 0" "fst (rd_reg m UEBCLX (hw ?a)) = of_nat (length p)"
    using assms(2) count_rx [OF calm(1), of p q] count_rx [OF calm(2), of p q]
      count_tx [OF calm(1)] count_tx [OF calm(2)] a(2) by auto
  have "mk16 0 (of_nat (length p)) = of_nat (length p)"
    using l by (simp add: mk16_add word_unat_eq_iff unsigned_ucast_eq unat_of_nat take_bit_eq_mod)
  then have "Endpoint_BytesInEndpoint m s = (of_nat (length p), ?b)"
    using v by (simp add: Endpoint_BytesInEndpoint_def rd_device Let_def)
  with step_trans [OF a(1) b(1)] b(2) show ?thesis by blast
qed

lemma usb_byte_available_up:
  assumes "up s"
  shows "\<exists>t r. usb_byte_available m s = Some (r, t) \<and> step s t
    \<and> view (hw t) = (view (hw s))\<lparr>sel := CDC_RX_EPNUM, rxq := (case rxq (view (hw s)) of [] # q \<Rightarrow> q | q \<Rightarrow> q)\<rparr>
    \<and> (r \<longleftrightarrow> (\<exists>b p q. rxq (view (hw s)) = (b # p) # q))"
proof -
  from USB_USBTask_up [OF assms] obtain a n where a: "USB_USBTask m s = Some a" "step s a"
    "view (hw a) = (view (hw s))\<lparr>sel := n\<rparr>" by blast
  let ?b = "Endpoint_SelectEndpoint m CDC_RX_EPNUM a"
  have b: "step s ?b" "view (hw ?b) = (view (hw s))\<lparr>sel := CDC_RX_EPNUM\<rparr>" "up ?b"
    using select_up [of a CDC_RX_EPNUM] step_up [OF a(2) assms] a(3) step_trans [OF a(2)] step_up [of a ?b]
    by simp_all
  let ?c = "?b\<lparr>hw := snd (rd_reg m UEINTX (hw ?b))\<rparr>"
  have c: "step ?b ?c" "view (hw ?c) = (view (hw s))\<lparr>sel := CDC_RX_EPNUM\<rparr>" "up ?c"
    "tst (fst (rd_reg m UEINTX (hw ?b))) RXOUTI \<longleftrightarrow> rxq (view (hw s)) \<noteq> []"
    using step_read [OF b(3), of UEINTX] intx_rx [of "hw ?b"] b(2,3) step_up [of ?b ?c]
    by (simp_all add: link_up_def)
  have sc: "step s ?c" using step_trans [OF b(1) c(1)] .
  show ?thesis
  proof (cases "rxq (view (hw s))")
    case Nil
    with a c sc show ?thesis
      by (auto simp: usb_byte_available_def Endpoint_IsOUTReceived_def rd_device Let_def)
  next
    case (Cons p q)
    with BytesInEndpoint_up [OF c(3), of p q] c(2) obtain d where
      d: "Endpoint_BytesInEndpoint m ?c = (of_nat (length p), d)" "step ?c d"
        "view (hw d) = (view (hw s))\<lparr>sel := CDC_RX_EPNUM\<rparr>" by auto
    have ud: "up d" using step_up [OF d(2) c(3)] .
    have "length p \<le> 16" using packet_size [of "hw s" p] assms Cons by (simp add: link_up_def)
    then have z: "(of_nat (length p) :: u16) = 0 \<longleftrightarrow> p = []"
      by (simp add: word_unat_eq_iff unat_of_nat)
    show ?thesis
    proof (cases p)
      case Nil
      let ?e = "d\<lparr>hw := snd (rd_reg m UEINTX (hw d))\<rparr>"
      let ?v = "fst (rd_reg m UEINTX (hw d)) AND NOT (BV RXOUTI OR BV FIFOCON)"
      let ?f = "wr m UEINTX ?v ?e"
      have e: "step d ?e" "view (hw ?e) = (view (hw s))\<lparr>sel := CDC_RX_EPNUM\<rparr>" "up ?e"
        using step_read [OF ud, of UEINTX] intx_rx [of "hw d"] d(3) ud step_up [of d ?e]
        by (simp_all add: link_up_def)
      have f: "step ?e ?f" "view (hw ?f) = (view (hw s))\<lparr>sel := CDC_RX_EPNUM, rxq := q\<rparr>"
        using step_write [OF e(3), of UEINTX ?v] clear_rx [of "hw ?e" ?v] e(2,3) Cons
        by (simp_all add: link_up_def wr_def)
      have "usb_byte_available m s = Some (False, ?f)"
        using a c(4) d(1) z Nil Cons
        by (simp add: usb_byte_available_def Endpoint_IsOUTReceived_def Endpoint_ClearOUT_def rd_device
            Let_def wr_clr_def)
      moreover have "step s ?f"
        using step_trans [OF sc step_trans [OF d(2) step_trans [OF e(1) f(1)]]] .
      ultimately show ?thesis using f(2) Cons Nil by auto
    next
      case (Cons b p')
      have "usb_byte_available m s = Some (True, d)"
        using a c(4) d(1) z Cons \<open>rxq (view (hw s)) = p # q\<close>
        by (simp add: usb_byte_available_def Endpoint_IsOUTReceived_def rd_device Let_def)
      then show ?thesis using step_trans [OF sc d(2)] d(3) Cons \<open>rxq (view (hw s)) = p # q\<close>
        by (auto simp: usb_view.equality)
    qed
  qed
qed

lemma usb_byte_available_rx:
  assumes "ready s"
  shows "\<exists>t r. usb_byte_available m s = Some (r, t) \<and> step s t \<and> ready t \<and> rx t = rx s \<and> tx t = tx s
    \<and> length (rxq (view (hw t))) \<le> length (rxq (view (hw s)))
    \<and> (r \<longrightarrow> sel (view (hw t)) = CDC_RX_EPNUM \<and> (\<exists>b p q. rxq (view (hw t)) = (b # p) # q))
    \<and> (\<not> r \<and> rx s \<noteq> [] \<longrightarrow> length (rxq (view (hw t))) < length (rxq (view (hw s))))
    \<and> (r \<longleftrightarrow> (\<exists>b p q. rxq (view (hw s)) = (b # p) # q))"
proof -
  from assms have up: "up s" and z: "busy (view (hw s)) = 0" by (simp_all add: port_ready_def)
  from usb_byte_available_up [OF up] obtain t r where t: "usb_byte_available m s = Some (r, t)" "step s t"
    "view (hw t) = (view (hw s))\<lparr>sel := CDC_RX_EPNUM, rxq := (case rxq (view (hw s)) of [] # q \<Rightarrow> q | q \<Rightarrow> q)\<rparr>"
    "r \<longleftrightarrow> (\<exists>b p q. rxq (view (hw s)) = (b # p) # q)" by blast
  have "ready t" using step_up [OF t(2) up] t(3) z by (simp add: port_ready_def)
  then show ?thesis using t
    by (intro exI [of _ t] exI [of _ r]) (auto simp: rx_stream_def tx_stream_def split: list.splits)
qed

lemma usb_read_byte_rx:
  assumes "ready s" "rx s = b # bs"
  shows "\<exists>t. usb_read_byte m s = Some (b, t) \<and> step s t \<and> ready t \<and> rx t = bs \<and> tx t = tx s"
  using assms
proof (induction "length (rxq (view (hw s)))" arbitrary: s rule: less_induct)
  case less
  from usb_byte_available_rx [OF less.prems(1)] obtain a r where
    a: "usb_byte_available m s = Some (r, a)" "step s a" "ready a" "rx a = rx s" "tx a = tx s" and
    r: "r \<longrightarrow> sel (view (hw a)) = CDC_RX_EPNUM \<and> (\<exists>b p q. rxq (view (hw a)) = (b # p) # q)"
      "\<not> r \<longrightarrow> length (rxq (view (hw a))) < length (rxq (view (hw s)))"
    using less.prems(2) by auto
  show ?case
  proof (cases r)
    case True
    with r(1) obtain c p q where q: "sel (view (hw a)) = CDC_RX_EPNUM" "rxq (view (hw a)) = (c # p) # q"
      by blast
    then have c: "c = b" "bs = p @ concat q" using a(4) less.prems(2) by (auto simp: rx_stream_def)
    have up: "up a" "calm (hw a)" using a(3) by (simp_all add: port_ready_def link_up_def)
    let ?t = "a\<lparr>hw := snd (rd_reg m UEDATX (hw a))\<rparr>"
    have t: "fst (rd_reg m UEDATX (hw a)) = b" "view (hw ?t) = (view (hw a))\<lparr>rxq := p # q\<rparr>"
      using data_rx [OF up(2) q] c by simp_all
    have st: "step a ?t" using step_read [OF up(1), of UEDATX] by simp
    have "usb_read_byte m s = Some (b, ?t)"
      using a(1) True t(1) by (subst usb_read_byte.simps) (simp add: Endpoint_Read_8_def rd_device)
    moreover have "ready ?t" "rx ?t = bs" "tx ?t = tx a"
      using step_up [OF st up(1)] a(3) t(2) c by (simp_all add: port_ready_def rx_stream_def tx_stream_def)
    ultimately show ?thesis using step_trans [OF a(2) st] a(5) by auto
  next
    case False
    have up: "up a" using a(3) by (simp add: port_ready_def)
    from less.hyps [of a] r(2) False a(3,4) less.prems(2) obtain t where
      t: "usb_read_byte m a = Some (b, t)" "step a t" "ready t" "rx t = bs" "tx t = tx a" by auto
    have "usb_read_byte m s = Some (b, t)"
      using a(1) False t(1) up_not_detached [OF up] by (subst usb_read_byte.simps) simp
    with t a(5) step_trans [OF a(2) t(2)] show ?thesis by auto
  qed
qed

text \<open>With nothing to read and the time-out not running, the call does not return.\<close>

lemma usb_read_byte_stalls:
  assumes "ready s" "rx s = []"
  shows "usb_read_byte m s = None"
proof -
  have False if "usb_read_byte m s = Some y" for y
  proof -
    have "m' = m \<longrightarrow> \<not> (ready s' \<and> rx s' = [])" if "usb_read_byte m' s' = Some y" for m' s' y
    proof (rule usb_read_byte.raw_induct [OF _ that, of "\<lambda>m' s' y. m' = m \<longrightarrow> \<not> (ready s' \<and> rx s' = [])"],
        intro impI notI, elim conjE)
      fix f :: "'h mcu \<Rightarrow> 'h fw \<Rightarrow> (u8 \<times> 'h fw) option" and m' s' y
      assume IH: "\<And>m' s' y. f m' s' = Some y \<Longrightarrow> m' = m \<longrightarrow> \<not> (ready s' \<and> rx s' = [])"
        and eq: "usb_byte_available m' s' \<bind> (\<lambda>(r, s). if r then Some (Endpoint_Read_8 m' s)
          else if endpoint_detached s then Some (0, s) else f m' s) = Some y"
        and r: "ready s'" "rx s' = []" and m': "m' = m"
      from usb_byte_available_rx [OF r(1)] obtain a b where
        b: "usb_byte_available m s' = Some (b, a)" and ra: "ready a" "rx a = rx s'" and
        q: "b \<longrightarrow> sel (view (hw a)) = CDC_RX_EPNUM \<and> (\<exists>c p q. rxq (view (hw a)) = (c # p) # q)" by blast
      have ra0: "rx a = []" using ra(2) r(2) by simp
      have "\<not> b" using q ra0 by (auto simp: rx_stream_def)
      moreover have "\<not> endpoint_detached a" using ra(1) up_not_detached by (simp add: port_ready_def)
      ultimately have "f m a = Some y" using eq b m' by simp
      with IH ra(1) ra0 show False by blast
    qed
    from this [OF \<open>usb_read_byte m s = Some y\<close>] assms show False by blast
  qed
  then show ?thesis by (cases "usb_read_byte m s") auto
qed

lemma flush_wait_up:
  assumes "up s" "sel (view (hw s)) = CDC_TX_EPNUM"
  shows "\<exists>t. flush_wait m s = Some t \<and> step s t \<and> view (hw t) = (view (hw s))\<lparr>busy := 0\<rparr>"
  using assms
proof (induction "busy (view (hw s))" arbitrary: s)
  case 0
  let ?t = "s\<lparr>hw := snd (rd_reg m UEINTX (hw s))\<rparr>"
  have "step s ?t" using step_read [OF 0(2), of UEINTX] by simp
  moreover have "view (hw ?t) = (view (hw s))\<lparr>busy := 0\<rparr>" "tst (fst (rd_reg m UEINTX (hw s))) TXINI"
    using intx_tx [of "hw s"] 0 by (simp_all add: link_up_def)
  ultimately show ?case
    by (subst flush_wait.simps) (simp add: Endpoint_IsINReady_def rd_device)
next
  case (Suc n)
  let ?a = "s\<lparr>hw := snd (rd_reg m UEINTX (hw s))\<rparr>"
  have a: "step s ?a" using step_read [OF Suc(3), of UEINTX] by simp
  have v: "view (hw ?a) = (view (hw s))\<lparr>busy := n\<rparr>" "\<not> tst (fst (rd_reg m UEINTX (hw s))) TXINI"
    using intx_tx [of "hw s"] Suc(2-) by (simp_all add: link_up_def)
  have ua: "up ?a" using step_up [OF a Suc(3)] .
  from irq_point_up [OF ua] obtain b where b: "irq_point m ?a = Some b" "step ?a b"
    "view (hw b) = view (hw ?a)" by blast
  have "n = busy (view (hw b))" "up b" "sel (view (hw b)) = CDC_TX_EPNUM"
    using b(3) v step_up [OF b(2) ua] Suc(4) by simp_all
  from Suc(1) [OF this] obtain t where t: "flush_wait m b = Some t" "step b t"
    "view (hw t) = (view (hw b))\<lparr>busy := 0\<rparr>" by blast
  have "flush_wait m s = Some t"
    using v(2) up_not_detached [OF ua] b(1) t(1)
    by (subst flush_wait.simps) (simp add: Endpoint_IsINReady_def rd_device)
  then show ?case using step_trans [OF a step_trans [OF b(2) t(2)]] t(3) b(3) v(1) by simp
qed

lemma usb_flush_endpoint_up:
  assumes "ready s" "sel (view (hw s)) = CDC_TX_EPNUM"
  shows "\<exists>t. usb_flush_endpoint m s = Some t \<and> step s t \<and> ready t \<and>
    view (hw t) = (view (hw s))\<lparr>txb := [], sent := sent (view (hw s)) @ [txb (view (hw s))]\<rparr>"
proof -
  let ?a = "s\<lparr>hw := snd (rd_reg m UEINTX (hw s))\<rparr>"
  let ?v = "fst (rd_reg m UEINTX (hw s)) AND NOT (BV TXINI OR BV FIFOCON)"
  let ?b = "wr m UEINTX ?v ?a"
  have up: "up s" "busy (view (hw s)) = 0" using assms(1) by (simp_all add: port_ready_def)
  have a: "step s ?a" "view (hw ?a) = view (hw s)"
    using step_read [OF up(1), of UEINTX] intx_tx [of "hw s"] up assms(2) by (simp_all add: link_up_def)
  have ua: "up ?a" using step_up [OF a(1) up(1)] .
  have "\<exists>n. view (wr_reg m UEINTX ?v (hw ?a)) =
      (view (hw ?a))\<lparr>txb := [], sent := sent (view (hw ?a)) @ [txb (view (hw ?a))], busy := n\<rparr>"
    using clear_tx [of "hw ?a" ?v] ua a(2) up(2) assms(2) by (simp add: link_up_def)
  then obtain n where n: "view (hw ?b) =
      (view (hw s))\<lparr>txb := [], sent := sent (view (hw s)) @ [txb (view (hw s))], busy := n\<rparr>"
    using a(2) by (auto simp: wr_def)
  have b: "step ?a ?b" using step_write [OF ua, of UEINTX ?v] by simp
  have ub: "up ?b" using step_up [OF b ua] .
  from flush_wait_up [OF ub] n assms(2) obtain t where t: "flush_wait m ?b = Some t" "step ?b t"
    "view (hw t) = (view (hw ?b))\<lparr>busy := 0\<rparr>" by auto
  have "usb_flush_endpoint m s = Some t"
    using t(1) by (simp add: usb_flush_endpoint_def Endpoint_ClearIN_def wr_clr_def rd_device)
  moreover have "step s t" using step_trans [OF a(1) step_trans [OF b t(2)]] .
  ultimately show ?thesis using t(3) n up(2) step_up [OF t(2) ub] by (simp add: port_ready_def)
qed

lemma IsReadWriteAllowed_up:
  assumes "ready s" "sel (view (hw s)) = CDC_TX_EPNUM"
  shows "\<exists>t. Endpoint_IsReadWriteAllowed m s = (length (txb (view (hw s))) < 16, t) \<and> step s t \<and> ready t
    \<and> view (hw t) = view (hw s)"
proof -
  let ?t = "s\<lparr>hw := snd (rd_reg m UEINTX (hw s))\<rparr>"
  have up: "up s" "busy (view (hw s)) = 0" using assms(1) by (simp_all add: port_ready_def)
  have "step s ?t" using step_read [OF up(1), of UEINTX] by simp
  moreover have "view (hw ?t) = view (hw s)"
    "tst (fst (rd_reg m UEINTX (hw s))) RWAL \<longleftrightarrow> length (txb (view (hw s))) < 16"
    using intx_tx [of "hw s"] up assms(2) by (simp_all add: link_up_def)
  ultimately show ?thesis using step_up [of s ?t] up
    by (simp add: Endpoint_IsReadWriteAllowed_def rd_device port_ready_def)
qed

lemma make_room_up:
  assumes "ready s" "sel (view (hw s)) = CDC_TX_EPNUM"
  shows "\<exists>t. (if length (txb (view (hw s))) < 16 then Some s else usb_flush_endpoint m s) = Some t
    \<and> step s t \<and> ready t \<and> view (hw t) = (if length (txb (view (hw s))) < 16 then view (hw s)
        else (view (hw s))\<lparr>txb := [], sent := sent (view (hw s)) @ [txb (view (hw s))]\<rparr>)"
  using usb_flush_endpoint_up [OF assms] assms(1) by (cases "length (txb (view (hw s))) < 16") simp_all

lemma usb_write_byte_tx:
  assumes "ready s"
  shows "\<exists>t. usb_write_byte m b s = Some t \<and> step s t \<and> ready t \<and> rx t = rx s \<and> tx t = tx s @ [b]
    \<and> txb (view (hw t)) \<noteq> [] \<and> rxq (view (hw t)) = rxq (view (hw s))"
proof -
  have up: "up s" "busy (view (hw s)) = 0" using assms by (simp_all add: port_ready_def)
  from USB_USBTask_up [OF up(1)] obtain a n where a: "USB_USBTask m s = Some a" "step s a"
    "view (hw a) = (view (hw s))\<lparr>sel := n\<rparr>" by blast
  let ?b = "Endpoint_SelectEndpoint m CDC_TX_EPNUM a"
  have b: "step s ?b" "view (hw ?b) = (view (hw s))\<lparr>sel := CDC_TX_EPNUM\<rparr>" "ready ?b"
    using select_up [of a CDC_TX_EPNUM] step_up [OF a(2) up(1)] a(3) up(2) step_trans [OF a(2)]
      step_up [of a ?b] by (simp_all add: port_ready_def)
  from IsReadWriteAllowed_up [OF b(3)] b(2) obtain c where
    c: "Endpoint_IsReadWriteAllowed m ?b = (length (txb (view (hw s))) < 16, c)" "step ?b c" "ready c"
      "view (hw c) = (view (hw s))\<lparr>sel := CDC_TX_EPNUM\<rparr>" by auto
  from make_room_up [OF c(3)] c(4) obtain d where
    d: "(if length (txb (view (hw s))) < 16 then Some c else usb_flush_endpoint m c) = Some d"
      "step c d" "ready d" and v: "view (hw d) = (if length (txb (view (hw s))) < 16 then view (hw c)
        else (view (hw c))\<lparr>txb := [], sent := sent (view (hw s)) @ [txb (view (hw s))]\<rparr>)" by auto
  have w: "sel (view (hw d)) = CDC_TX_EPNUM" "length (txb (view (hw d))) < 16"
    "concat (sent (view (hw d))) @ txb (view (hw d)) = tx s" "rxq (view (hw d)) = rxq (view (hw s))"
    using v c(4) by (simp_all add: tx_stream_def)
  have ud: "up d" "calm (hw d)" "busy (view (hw d)) = 0" using d(3) by (simp_all add: port_ready_def link_up_def)
  let ?e = "wr m UEDATX b d"
  have e: "step d ?e" "view (hw ?e) = (view (hw d))\<lparr>txb := txb (view (hw d)) @ [b]\<rparr>"
    using step_write [OF ud(1), of UEDATX b] data_tx [OF ud(2) w(1) ud(3) w(2), of b] by (simp_all add: wr_def)
  have "usb_write_byte m b s = Some ?e"
    using a(1) c(1) d(1) by (simp add: usb_write_byte_def Let_def Endpoint_Write_8_def)
  moreover have "step s ?e"
    using step_trans [OF b(1) step_trans [OF c(2) step_trans [OF d(2) e(1)]]] .
  ultimately show ?thesis
    using e(2) w(3,4) step_up [OF e(1) ud(1)] ud(3) by (simp add: port_ready_def rx_stream_def tx_stream_def)
qed

text \<open>The packets a flush gives the host for the bank \<open>p\<close>.\<close>

lemma usb_flush_tx:
  assumes "ready s"
  shows "\<exists>t. usb_flush m s = Some t \<and> step s t \<and> ready t \<and> rx t = rx s \<and> tx t = tx s
    \<and> txb (view (hw t)) = [] \<and> rxq (view (hw t)) = rxq (view (hw s))
    \<and> sent (view (hw t)) = sent (view (hw s)) @
        (let p = txb (view (hw s)) in if p = [] then [] else if length p = 16 then [p, []] else [p])"
proof -
  have up: "up s" "busy (view (hw s)) = 0" using assms by (simp_all add: port_ready_def)
  let ?p = "txb (view (hw s))"
  have l: "length ?p \<le> 16" using bank_size up(1) by (simp add: link_up_def)
  let ?a = "Endpoint_SelectEndpoint m CDC_TX_EPNUM s"
  have a: "step s ?a" "view (hw ?a) = (view (hw s))\<lparr>sel := CDC_TX_EPNUM\<rparr>" "up ?a"
    using select_up [OF up(1), of CDC_TX_EPNUM] step_up [of s ?a] up by simp_all
  from BytesInEndpoint_up [OF a(3), of ?p] a(2) obtain b where
    b: "Endpoint_BytesInEndpoint m ?a = (of_nat (length ?p), b)" "step ?a b"
      "view (hw b) = (view (hw s))\<lparr>sel := CDC_TX_EPNUM\<rparr>" by auto
  have z: "(of_nat (length ?p) :: u16) = 0 \<longleftrightarrow> ?p = []"
    using l by (simp add: word_unat_eq_iff unat_of_nat)
  have sb: "step s b" using step_trans [OF a(1) b(2)] .
  have rb: "ready b" using step_up [OF sb up(1)] b(3) up(2) by (simp add: port_ready_def)
  show ?thesis
  proof (cases "?p = []")
    case True
    then show ?thesis using b z sb rb by (simp add: usb_flush_def rx_stream_def tx_stream_def)
  next
    case False
    from IsReadWriteAllowed_up [OF rb] b(3) obtain c where
      c: "Endpoint_IsReadWriteAllowed m b = (length ?p < 16, c)" "step b c" "ready c"
        "view (hw c) = (view (hw s))\<lparr>sel := CDC_TX_EPNUM\<rparr>" by auto
    from make_room_up [OF c(3)] c(4) obtain d where
      d: "(if length ?p < 16 then Some c else usb_flush_endpoint m c) = Some d" "step c d" "ready d"
        "view (hw d) = (if length ?p < 16 then view (hw c)
           else (view (hw c))\<lparr>txb := [], sent := sent (view (hw s)) @ [?p]\<rparr>)" by auto
    have "sel (view (hw d)) = CDC_TX_EPNUM" using d(4) c(4) by simp
    from usb_flush_endpoint_up [OF d(3) this] obtain e where
      e: "usb_flush_endpoint m d = Some e" "step d e" "ready e"
        "view (hw e) = (view (hw d))\<lparr>txb := [], sent := sent (view (hw d)) @ [txb (view (hw d))]\<rparr>" by blast
    have v: "view (hw e) = (view (hw s))\<lparr>sel := CDC_TX_EPNUM, txb := [],
        sent := sent (view (hw s)) @ (if length ?p = 16 then [?p, []] else [?p])\<rparr>"
      using e(4) d(4) c(4) l by simp
    have "usb_flush m s = Some e"
      using b(1) z False c(1) d(1) e(1) by (simp add: usb_flush_def Let_def)
    moreover have "step s e" using step_trans [OF sb step_trans [OF c(2) step_trans [OF d(2) e(2)]]] .
    ultimately show ?thesis using e(3) v False by (simp add: rx_stream_def tx_stream_def Let_def)
  qed
qed

end

section \<open>Properties of the port\<close>

text \<open>Reading from the host. Whenever the link is up and a byte from the host is outstanding,
  \<^verbatim>\<open>usb_read_byte\<close> returns, yields exactly the next byte in the order sent, across packet boundaries and
  empty packets, and leaves what is sent to the host, the variables of the program and the rest of
  the hardware alone.\<close>

theorem usb_read_byte_next:
  assumes "cdc_link m view rest ticks arr calm" "port_ready view ticks calm s" "rx_stream view s = b # bs"
  shows "\<exists>t. usb_read_byte m s = Some (b, t) \<and> rx_stream view t = bs \<and> tx_stream view t = tx_stream view s
    \<and> port_ready view ticks calm t \<and> link_step rest ticks arr calm s t"
  using cdc_link.usb_read_byte_rx [OF assms] by blast

text \<open>Writing to the host. \<^verbatim>\<open>usb_write_byte\<close> returns and appends its byte to the stream the host
  receives, flushing a full bank first, and consumes nothing of the input.\<close>

theorem usb_write_byte_appends:
  assumes "cdc_link m view rest ticks arr calm" "port_ready view ticks calm s"
  shows "\<exists>t. usb_write_byte m b s = Some t \<and> tx_stream view t = tx_stream view s @ [b]
    \<and> rx_stream view t = rx_stream view s \<and> port_ready view ticks calm t \<and> link_step rest ticks arr calm s t"
  using cdc_link.usb_write_byte_tx [OF assms] by blast

text \<open>Flushing. \<^verbatim>\<open>usb_flush\<close> returns with the bank empty; the packets it adds carry the bank's bytes and,
  if there were any, the last of them is shorter than the endpoint, so that the host sees the end of
  the transfer.\<close>

theorem usb_flush_ends_transfer:
  assumes "cdc_link m view rest ticks arr calm" "port_ready view ticks calm s"
  shows "\<exists>t ps. usb_flush m s = Some t \<and> txb (view (hw t)) = [] \<and> sent (view (hw t)) = sent (view (hw s)) @ ps
    \<and> concat ps = txb (view (hw s)) \<and> (txb (view (hw s)) \<noteq> [] \<longrightarrow> length (last ps) < 16)
    \<and> port_ready view ticks calm t \<and> link_step rest ticks arr calm s t"
proof -
  let ?p = "txb (view (hw s))"
  let ?ps = "if ?p = [] then [] else if length ?p = 16 then [?p, []] else [?p]"
  from cdc_link.usb_flush_tx [OF assms] obtain t where
    t: "usb_flush m s = Some t" "link_step rest ticks arr calm s t" "port_ready view ticks calm t"
      "txb (view (hw t)) = []" "sent (view (hw t)) = sent (view (hw s)) @ ?ps" by (auto simp: Let_def)
  have "length ?p \<le> 16"
    using cdc_link.bank_size [OF assms(1), of "hw s"] assms(2) by (simp add: port_ready_def link_up_def)
  then have "concat ?ps = ?p" "?p \<noteq> [] \<longrightarrow> length (last ?ps) < 16" by auto
  with t show ?thesis by blast
qed

end
