(* ===== verification/Flash_Block.thy ===== *)
theory Flash_Block
  imports Usb_Port
begin

text \<open>
  The block transfer of the AVR109 protocol, \<^verbatim>\<open>ReadWriteMemoryBlock\<close> of \<^verbatim>\<open>Adelino.c\<close> in the variant the
  source selects with \<^verbatim>\<open>MINIMAL_AVR109\<close>.
\<close>

section \<open>Operations\<close>

text \<open>\<^verbatim>\<open>CurrAddress | HighByte\<close>, truncated to the 16 bit address of \<^verbatim>\<open>pgm_read_byte\<close>.\<close>

definition byte_address :: "u32 \<Rightarrow> bool \<Rightarrow> u16" where
  "byte_address a HighByte = ucast (a OR (if HighByte then 1 else 0))"

text \<open>The loops \<^verbatim>\<open>while (BlockSize--)\<close> of reading and writing.\<close>

primrec read_block_loop :: "'h mcu \<Rightarrow> nat \<Rightarrow> bool \<Rightarrow> 'h fw \<Rightarrow> 'h fw option" where
  "read_block_loop m 0 HighByte s = Some s"
| "read_block_loop m (Suc n) HighByte s = do {
     s \<leftarrow> usb_write_byte m (pgm_read_byte m (byte_address (CurrAddress s) HighByte) s) s;
     let s = (if HighByte then s\<lparr>CurrAddress := CurrAddress s + 2\<rparr> else s);
     read_block_loop m n (\<not> HighByte) s }"

primrec write_block_loop :: "'h mcu \<Rightarrow> nat \<Rightarrow> bool \<Rightarrow> u8 \<Rightarrow> 'h fw \<Rightarrow> 'h fw option" where
  "write_block_loop m 0 HighByte LowByte s = Some s"
| "write_block_loop m (Suc n) HighByte LowByte s = do {
     (b, s) \<leftarrow> usb_read_byte m s;
     if HighByte then do {
       let s = hwop (hw_boot_page_fill m (CurrAddress s) (mk16 b LowByte)) s;
       let s = s\<lparr>CurrAddress := CurrAddress s + 2\<rparr>;
       write_block_loop m n False LowByte s }
     else write_block_loop m n True b s }"

definition read_block :: "'h mcu \<Rightarrow> u16 \<Rightarrow> 'h fw \<Rightarrow> 'h fw option" where
  "read_block m BlockSize s = read_block_loop m (unat BlockSize) False (hwop (hw_boot_rww_enable m) s)"

definition write_block :: "'h mcu \<Rightarrow> u16 \<Rightarrow> 'h fw \<Rightarrow> 'h fw option" where
  "write_block m BlockSize s = do {
     let PageStartAddress = CurrAddress s;
     let s = hwop (hw_boot_page_erase m PageStartAddress) s;
     let s = hwop (hw_boot_spm_busy_wait m) s;
     s \<leftarrow> write_block_loop m (unat BlockSize) False 0 s;
     let s = hwop (hw_boot_page_write m PageStartAddress) s;
     let s = hwop (hw_boot_spm_busy_wait m) s;
     usb_write_byte m 13 s }"

definition ReadWriteMemoryBlock :: "'h mcu \<Rightarrow> u8 \<Rightarrow> 'h fw \<Rightarrow> 'h fw option" where
  "ReadWriteMemoryBlock m Command s = do {
     (h, s) \<leftarrow> usb_read_byte m s;
     (l, s) \<leftarrow> usb_read_byte m s;
     let BlockSize = mk16 h l;
     (MemoryType, s) \<leftarrow> usb_read_byte m s;
     if MemoryType \<noteq> 70 then usb_write_byte m 63 s
     else do {
       let s = wr m TIMSK1 0 s;
       s \<leftarrow> (if Command = 103 then read_block m BlockSize s else write_block m BlockSize s);
       Some (wr m TIMSK1 (BV OCIE1A) s) } }"

section \<open>The flash memory\<close>

text \<open>The application flash as the self-programming instructions see it: the bytes, the buffer of one page
  (in words), and whether the section can be read.\<close>

record flash_view =
  mem :: "nat \<Rightarrow> u8"
  tmp :: "nat \<Rightarrow> u16"
  rww :: bool

text \<open>The sizes of the flash and of the application section below the boot loader (\<^verbatim>\<open>FLASH_SIZE_KB\<close> and
  \<^verbatim>\<open>BOOT_START\<close> of the \<^verbatim>\<open>Makefile\<close>). Two views agree when they hold the same in all of the flash.\<close>

definition FLASH_SIZE :: nat where "FLASH_SIZE = 32 * 1024"
definition BOOT_START_ADDR :: nat where "BOOT_START_ADDR = (32 - 4) * 1024"

definition same_flash :: "flash_view \<Rightarrow> flash_view \<Rightarrow> bool" where
  "same_flash v w \<longleftrightarrow> tmp v = tmp w \<and> rww v = rww w \<and> (\<forall>i < FLASH_SIZE. mem v i = mem w i)"

definition same_page :: "u32 \<Rightarrow> nat \<Rightarrow> bool" where
  "same_page a i \<longleftrightarrow> i div SPM_PAGESIZE = unat a div SPM_PAGESIZE"

definition page_byte :: "(nat \<Rightarrow> u16) \<Rightarrow> nat \<Rightarrow> u8" where
  "page_byte w i = (let x = w ((i mod SPM_PAGESIZE) div 2) in if even i then lo8 x else hi8 x)"

text \<open>Flash after the bytes \<open>bs\<close> have been programmed into the page of address \<open>a\<close>: an odd last byte is dropped
  and the rest of the page reads as ones.\<close>

definition programmed :: "u32 \<Rightarrow> u8 list \<Rightarrow> (nat \<Rightarrow> u8) \<Rightarrow> nat \<Rightarrow> u8" where
  "programmed a bs f = (\<lambda>i. if same_page a i
     then (if i mod SPM_PAGESIZE < 2 * (length bs div 2) then bs ! (i mod SPM_PAGESIZE) else 0xFF)
     else f i)"

lemma programmed_read:
  assumes "unat a mod 128 = 0" "length bs \<le> 128" "even (length bs)"
  shows "map (programmed a bs f) [unat a ..< unat a + length bs] = bs"
proof (rule nth_equalityI)
  fix j
  assume "j < length (map (programmed a bs f) [unat a ..< unat a + length bs])"
  then have j: "j < length bs" by simp
  then have "(unat a + j) div 128 = unat a div 128" "(unat a + j) mod 128 = j"
    using assms(1,2) by (auto simp: div_add1_eq mod_add_eq [symmetric] elim!: dvdE)
  with j show "map (programmed a bs f) [unat a ..< unat a + length bs] ! j = bs ! j"
    using assms(3) by (simp add: programmed_def same_page_def)
qed simp

text \<open>The buffer after a run of bytes has been filled in pairs from byte address \<open>k\<close> on; an odd last byte is
  not stored.\<close>

fun fill_words :: "nat \<Rightarrow> u8 list \<Rightarrow> (nat \<Rightarrow> u16) \<Rightarrow> nat \<Rightarrow> u16" where
  "fill_words k (x # y # bs) w = fill_words (k + 2) bs (w((k mod SPM_PAGESIZE) div 2 := mk16 y x))"
| "fill_words k bs w = w"

lemma fill_words_nth:
  "k mod 128 = 2 * c \<Longrightarrow> 2 * c + length bs \<le> 128 \<Longrightarrow>
   fill_words k bs w j = (if c \<le> j \<and> j < c + length bs div 2
     then mk16 (bs ! (2 * (j - c) + 1)) (bs ! (2 * (j - c))) else w j)"
proof (induction k bs w arbitrary: c rule: fill_words.induct)
  case (1 k x y bs w)
  show ?case
  proof (cases "bs")
    case Nil
    with 1 show ?thesis by auto
  next
    case (Cons b bs')
    with 1(3) have "2 * c + 2 < 128" by simp
    then have k: "(k + 2) mod 128 = 2 * (c + 1)" using 1(2) by (simp add: mod_Suc)
    have IH: "fill_words (k + 2) bs (w((k mod 128) div 2 := mk16 y x)) j =
        (if c + 1 \<le> j \<and> j < c + 1 + length bs div 2
         then mk16 (bs ! (2 * (j - (c + 1)) + 1)) (bs ! (2 * (j - (c + 1))))
         else (w((k mod 128) div 2 := mk16 y x)) j)"
      by (rule 1(1) [OF k]) (use 1(3) in simp)
    show ?thesis
    proof (cases "c + 1 \<le> j")
      case True
      then obtain d where "j = c + 1 + d" using le_Suc_ex by blast
      with IH 1(2) show ?thesis by (simp add: nth_Cons')
    next
      case False
      with IH 1(2) show ?thesis by auto
    qed
  qed
qed auto

lemma page_byte_fill:
  assumes "k mod 128 = 0" "length bs \<le> 128"
  shows "page_byte (fill_words k bs (\<lambda>_. 0xFFFF)) i =
    (if i mod 128 < 2 * (length bs div 2) then bs ! (i mod 128) else 0xFF)"
proof -
  let ?j = "i mod 128"
  have e: "even i \<longleftrightarrow> even ?j" by (simp add: dvd_mod_iff)
  have nth: "fill_words k bs (\<lambda>_. 0xFFFF) (?j div 2) =
      (if ?j div 2 < length bs div 2 then mk16 (bs ! (2 * (?j div 2) + 1)) (bs ! (2 * (?j div 2))) else 0xFFFF)"
    using fill_words_nth [of k 0 bs "\<lambda>_. 0xFFFF" "?j div 2"] assms by simp
  have lt: "?j div 2 < length bs div 2 \<longleftrightarrow> ?j < 2 * (length bs div 2)"
    using div_less_iff_less_mult [of 2 ?j "length bs div 2"] by (simp add: mult.commute)
  have ff: "lo8 0xFFFF = 0xFF" "hi8 0xFFFF = 0xFF" by (simp_all add: lo8_def hi8_def)
  show ?thesis
    by (cases "even ?j") (simp_all add: page_byte_def Let_def nth lt e ff)
qed

lemma byte_address_unat:
  assumes "even (unat a)" "unat a + 1 < 2 ^ 16"
  shows "unat (byte_address a hb) = unat a + of_bool hb"
proof -
  have "\<not> bit (unat a) 0" using assms(1) by (simp add: bit_0)
  then have b: "\<not> bit a 0" by (simp add: bit_unsigned_iff)
  have "a OR 1 = a + 1"
    by (rule disjunctive_add [symmetric]) (metis b bit_1_iff)
  moreover have "unat (a + 1) = unat a + 1" using assms(2) by (simp add: unat_word_ariths)
  ultimately show ?thesis
    using assms(2) by (simp add: byte_address_def unsigned_ucast_eq take_bit_eq_mod)
qed

text \<open>
  The laws of \<^verbatim>\<open><avr/boot.h>\<close> and \<^verbatim>\<open><avr/pgmspace.h>\<close>: erasing sets the page to ones, filling stores a word in
  the buffer, writing clears the bits of the page that are clear in the buffer and leaves the buffer
  empty (all ones), and the section can be read after it has been re-enabled, which also empties the
  buffer. None of it disturbs USB or the timer. The effect on the memory is what the data sheet
  describes for a page of the application section, which can be read while the loader runs; of an
  address beyond it (the loader itself, and what the 16 bit pointer of the instructions cannot hold)
  nothing is said.
\<close>

locale spm_link = cdc_link m view rest ticks arr calm
  for m :: "'h mcu" and view :: "'h \<Rightarrow> usb_view" and rest :: "'h \<Rightarrow> flash_view"
    and ticks :: "'h \<Rightarrow> nat" and arr :: "'h \<Rightarrow> u8 list" and calm :: "'h \<Rightarrow> bool" +
  assumes timsk: "calm h \<Longrightarrow> calm (wr_reg m TIMSK1 v h) \<and> view (wr_reg m TIMSK1 v h) = view h
      \<and> rest (wr_reg m TIMSK1 v h) = rest h \<and> ticks (wr_reg m TIMSK1 v h) = ticks h"
    and spm_quiet: "calm h \<Longrightarrow> f \<in> {hw_boot_page_erase m a, hw_boot_page_fill m a w, hw_boot_page_write m a,
        hw_boot_spm_busy_wait m, hw_boot_rww_enable m, hw_boot_rww_enable_safe m} \<Longrightarrow>
      calm (f h) \<and> view (f h) = view h \<and> ticks (f h) = ticks h"
    and erase: "calm h \<Longrightarrow> unat a < BOOT_START_ADDR \<Longrightarrow> same_flash (rest (hw_boot_page_erase m a h))
      ((rest h)\<lparr>mem := \<lambda>i. if same_page a i then 0xFF else mem (rest h) i, rww := False\<rparr>)"
    and fill: "calm h \<Longrightarrow> unat a < BOOT_START_ADDR \<Longrightarrow> rest (hw_boot_page_fill m a w h) =
      (rest h)\<lparr>tmp := (tmp (rest h))((unat a mod SPM_PAGESIZE) div 2 := w)\<rparr>"
    and page_write: "calm h \<Longrightarrow> unat a < BOOT_START_ADDR \<Longrightarrow> same_flash (rest (hw_boot_page_write m a h))
      ((rest h)\<lparr>mem := \<lambda>i. if same_page a i then mem (rest h) i AND page_byte (tmp (rest h)) i else mem (rest h) i,
        tmp := \<lambda>_. 0xFFFF, rww := False\<rparr>)"
    and busy_wait: "calm h \<Longrightarrow> rest (hw_boot_spm_busy_wait m h) = rest h"
    and rww_on: "calm h \<Longrightarrow> rest (hw_boot_rww_enable m h) = (rest h)\<lparr>tmp := \<lambda>_. 0xFFFF, rww := True\<rparr>"
    and rww_safe: "calm h \<Longrightarrow> rest (hw_boot_rww_enable_safe m h) = (rest h)\<lparr>tmp := \<lambda>_. 0xFFFF, rww := True\<rparr>"
    and pgm: "calm h \<Longrightarrow> rww (rest h) \<Longrightarrow> hw_pgm_byte m x h = mem (rest h) (unat x)"
begin

text \<open>The programmer's own updates leave the port ready.\<close>

lemma port_upd [simp]:
  "rx (s\<lparr>CurrAddress := a\<rparr>) = rx s" "tx (s\<lparr>CurrAddress := a\<rparr>) = tx s"
  "ready (s\<lparr>CurrAddress := a\<rparr>) = ready s"
  "rx (s\<lparr>boot_mode := b\<rparr>) = rx s" "tx (s\<lparr>boot_mode := b\<rparr>) = tx s"
  "ready (s\<lparr>boot_mode := b\<rparr>) = ready s"
  "rx (s\<lparr>Timeout := n\<rparr>) = rx s" "tx (s\<lparr>Timeout := n\<rparr>) = tx s"
  by (simp_all add: rx_stream_def tx_stream_def port_ready_def link_up_def timely_def)

lemma ready_calm: "ready s \<Longrightarrow> calm (hw s)"
  by (simp add: port_ready_def link_up_def)

lemma spm_port:
  assumes "ready s" "f \<in> {hw_boot_page_erase m a, hw_boot_page_fill m a w, hw_boot_page_write m a,
    hw_boot_spm_busy_wait m, hw_boot_rww_enable m, hw_boot_rww_enable_safe m}"
  shows "ready (hwop f s)" "rx (hwop f s) = rx s" "tx (hwop f s) = tx s" "timely ticks (hwop f s) = timely ticks s"
    "ticks (hw (hwop f s)) = ticks (hw s)"
  using spm_quiet [OF ready_calm [OF assms(1)] assms(2)] assms(1)
  by (simp_all add: hwop_def port_ready_def link_up_def rx_stream_def tx_stream_def timely_def)

lemma timsk_port:
  assumes "ready s" "timely ticks s"
  shows "ready (wr m TIMSK1 v s)" "rx (wr m TIMSK1 v s) = rx s" "tx (wr m TIMSK1 v s) = tx s"
    "timely ticks (wr m TIMSK1 v s)" "rest (hw (wr m TIMSK1 v s)) = rest (hw s)"
    "ticks (hw (wr m TIMSK1 v s)) = ticks (hw s)"
  using timsk [OF ready_calm [OF assms(1)], of v] assms
  by (simp_all add: wr_def port_ready_def link_up_def rx_stream_def tx_stream_def timely_def)

lemma stepD:
  assumes "step s t"
  shows "timely ticks s \<Longrightarrow> timely ticks t" "rest (hw t) = rest (hw s)" "CurrAddress t = CurrAddress s"
    "boot_mode t = boot_mode s" "io t TIMSK1 = io s TIMSK1" "ticks (hw t) \<le> ticks (hw s)"
  using assms by (simp_all add: link_step_def quiet_def)

text \<open>What a block transfer carries along.\<close>

definition carries :: "'h fw \<Rightarrow> 'h fw \<Rightarrow> bool" where
  "carries s t \<longleftrightarrow> boot_mode t = boot_mode s \<and> io t TIMSK1 = io s TIMSK1 \<and> (timely ticks s \<longrightarrow> timely ticks t)
     \<and> ticks (hw t) \<le> ticks (hw s)"

lemma carries_refl [simp]: "carries s s"
  by (simp add: carries_def)

lemma carries_trans: "carries s t \<Longrightarrow> carries t u \<Longrightarrow> carries s u"
  by (simp add: carries_def)

lemma carries_step: "step s t \<Longrightarrow> carries s t"
  by (simp add: carries_def stepD)

lemma carries_addr [simp]: "carries s (t\<lparr>CurrAddress := a\<rparr>) = carries s t"
  by (simp add: carries_def timely_def)

lemma read_block_loop_port:
  assumes "ready s" "rww (rest (hw s))" "even (unat (CurrAddress s))"
    "unat (CurrAddress s) + of_bool hb + n \<le> 2 ^ 16"
  shows "\<exists>t. read_block_loop m n hb s = Some t \<and> ready t \<and> rx t = rx s
    \<and> tx t = tx s @ map (mem (rest (hw s)))
        [unat (CurrAddress s) + of_bool hb ..< unat (CurrAddress s) + of_bool hb + n]
    \<and> rest (hw t) = rest (hw s) \<and> carries s t
    \<and> unat (CurrAddress t) = 2 * ((unat (CurrAddress s) + of_bool hb + n) div 2)"
  using assms
proof (induction n arbitrary: hb s)
  case 0
  then show ?case by auto
next
  case (Suc n)
  let ?a = "CurrAddress s"
  let ?b = "mem (rest (hw s)) (unat ?a + of_bool hb)"
  have lt: "unat ?a + 1 < 2 ^ 16" using Suc.prems(3,4) by (cases hb) (auto, presburger)
  have "pgm_read_byte m (byte_address ?a hb) s = ?b"
    using pgm [OF ready_calm [OF Suc.prems(1)] Suc.prems(2)] byte_address_unat [OF Suc.prems(3) lt]
    by (simp add: pgm_read_byte_def)
  moreover from usb_write_byte_tx [OF Suc.prems(1), of ?b] obtain t where
    t: "usb_write_byte m ?b s = Some t" "step s t" "ready t" "rx t = rx s" "tx t = tx s @ [?b]" by blast
  let ?t = "if hb then t\<lparr>CurrAddress := ?a + 2\<rparr> else t"
  have a2: "unat (?a + 2) = unat ?a + 2" if hb
    using that Suc.prems(3,4) by (simp add: unat_word_ariths) 
  have at: "CurrAddress t = ?a" "rest (hw t) = rest (hw s)" using stepD [OF t(2)] by simp_all
  have pos: "unat (CurrAddress ?t) + of_bool (\<not> hb) = Suc (unat ?a + of_bool hb)"
    using a2 at by simp
  have "\<exists>u. read_block_loop m n (\<not> hb) ?t = Some u \<and> ready u \<and> rx u = rx ?t
    \<and> tx u = tx ?t @ map (mem (rest (hw ?t)))
        [unat (CurrAddress ?t) + of_bool (\<not> hb) ..< unat (CurrAddress ?t) + of_bool (\<not> hb) + n]
    \<and> rest (hw u) = rest (hw ?t) \<and> carries ?t u
    \<and> unat (CurrAddress u) = 2 * ((unat (CurrAddress ?t) + of_bool (\<not> hb) + n) div 2)"
    by (rule Suc.IH) (use Suc.prems t(3) at a2 in \<open>auto split: if_splits\<close>)
  then obtain u where u: "read_block_loop m n (\<not> hb) ?t = Some u" "ready u" "rx u = rx s"
    "tx u = tx s @ ?b # map (mem (rest (hw s))) [Suc (unat ?a + of_bool hb) ..< Suc (unat ?a + of_bool hb) + n]"
    "rest (hw u) = rest (hw s)" "carries ?t u"
    "unat (CurrAddress u) = 2 * ((Suc (unat ?a + of_bool hb) + n) div 2)"
    unfolding pos using t(4,5) at(2) by (auto split: if_splits)
  have "carries s u" using carries_trans [OF carries_step [OF t(2)], of u] u(6) 
    by (cases hb) (simp_all add: carries_def timely_def)
  moreover have "read_block_loop m (Suc n) hb s = Some u"
    using calculation(1) t(1) u(1) at(1) by (cases hb) (simp_all add: Let_def)
  moreover have "[x ..< x + Suc n] = x # [Suc x ..< Suc x + n]" for x
    by (simp add: upt_conv_Cons del: upt_Suc)
  ultimately show ?case using u by simp
qed

lemma write_block_loop_port:
  assumes "ready s" "rx s = bs @ tail" "length bs = n" "even (unat (CurrAddress s))"
    "unat (CurrAddress s) + of_bool hb + n \<le> BOOT_START_ADDR"
  shows "\<exists>t. write_block_loop m n hb low s = Some t \<and> ready t \<and> rx t = tail \<and> tx t = tx s \<and> carries s t
    \<and> rest (hw t) = (rest (hw s))\<lparr>tmp := fill_words (unat (CurrAddress s))
        (if hb then low # bs else bs) (tmp (rest (hw s)))\<rparr>
    \<and> unat (CurrAddress t) = 2 * ((unat (CurrAddress s) + of_bool hb + n) div 2)"
  using assms
proof (induction n arbitrary: hb low bs s)
  case 0
  then show ?case by (cases hb) auto
next
  case (Suc n)
  then obtain b bs' where bs: "bs = b # bs'" "length bs' = n" by (cases bs) auto
  let ?a = "CurrAddress s"
  from usb_read_byte_rx [OF Suc.prems(1), of b "bs' @ tail"] Suc.prems(2) bs obtain t where
    t: "usb_read_byte m s = Some (b, t)" "step s t" "ready t" "rx t = bs' @ tail" "tx t = tx s" by auto
  have at: "CurrAddress t = ?a" "rest (hw t) = rest (hw s)" using stepD [OF t(2)] by simp_all
  show ?case
  proof (cases hb)
    case False
    from Suc.IH [OF t(3,4) bs(2), of True b] Suc.prems(4,5) False at(1) obtain u where
      u: "write_block_loop m n True b t = Some u" "ready u" "rx u = tail" "tx u = tx t" "carries t u"
        "rest (hw u) = (rest (hw s))\<lparr>tmp := fill_words (unat ?a) (b # bs') (tmp (rest (hw s)))\<rparr>"
        "unat (CurrAddress u) = 2 * ((unat ?a + 1 + n) div 2)" using at(2) by auto
    have "carries s u" using carries_trans [OF carries_step [OF t(2)] u(5)] .
    then show ?thesis using u t(1,5) bs(1) False by simp
  next
    case True
    let ?f = "hw_boot_page_fill m ?a (mk16 b low)"
    let ?t = "(hwop ?f t)\<lparr>CurrAddress := ?a + 2\<rparr>"
    have a2: "unat (?a + 2) = unat ?a + 2"
      using Suc.prems(5) True by (simp add: unat_word_ariths BOOT_START_ADDR_def)
    have lt: "unat ?a < BOOT_START_ADDR" using Suc.prems(5) True by simp
    have p: "ready ?t" "rx ?t = bs' @ tail" "tx ?t = tx s" "timely ticks ?t = timely ticks t"
      "ticks (hw ?t) = ticks (hw t)"
      using spm_port [OF t(3), of ?f ?a "mk16 b low"] t(4,5) by (simp_all add: timely_def)
    have r: "rest (hw ?t) = (rest (hw s))\<lparr>tmp := (tmp (rest (hw s)))((unat ?a mod 128) div 2 := mk16 b low)\<rparr>"
      using fill [OF ready_calm [OF t(3)] lt, of "mk16 b low"] at(2) by (simp add: hwop_def)
    have "\<exists>u. write_block_loop m n False low ?t = Some u \<and> ready u \<and> rx u = tail \<and> tx u = tx ?t \<and> carries ?t u
      \<and> rest (hw u) = (rest (hw ?t))\<lparr>tmp := fill_words (unat (CurrAddress ?t))
          (if False then low # bs' else bs') (tmp (rest (hw ?t)))\<rparr>
      \<and> unat (CurrAddress u) = 2 * ((unat (CurrAddress ?t) + of_bool False + n) div 2)"
      by (rule Suc.IH [OF p(1,2) bs(2)]) (use Suc.prems(4,5) True a2 in simp_all)
    then obtain u where
      u: "write_block_loop m n False low ?t = Some u" "ready u" "rx u = tail" "tx u = tx s" "carries ?t u"
        "rest (hw u) = (rest (hw s))\<lparr>tmp := fill_words (unat ?a) (low # b # bs') (tmp (rest (hw s)))\<rparr>"
        "unat (CurrAddress u) = 2 * ((unat ?a + 2 + n) div 2)" using a2 r p(3) by auto
    have "carries t ?t" using p(4,5) by (simp add: carries_def hwop_def timely_def)
    then have "carries s u" using carries_trans [OF carries_step [OF t(2)] carries_trans [OF _ u(5)]] by simp
    moreover have "write_block_loop m (Suc n) hb low s = Some u"
      using t(1) u(1) at(1) True by (simp add: Let_def hwop_def)
    ultimately show ?thesis using u bs(1) True by simp
  qed
qed

lemma block_header_port:
  assumes "ready s" "timely ticks s" "rx s = h # l # ty # tail"
  obtains t where "step s t" "ready t" "timely ticks t" "rx t = tail" "tx t = tx s"
    "ReadWriteMemoryBlock m Command s = (if ty \<noteq> 70 then usb_write_byte m 63 t
       else (if Command = 103 then read_block m (mk16 h l) (wr m TIMSK1 0 t)
             else write_block m (mk16 h l) (wr m TIMSK1 0 t))
         \<bind> (\<lambda>s. Some (wr m TIMSK1 (BV OCIE1A) s)))"
proof -
  from usb_read_byte_rx [OF assms(1,3)] obtain a where
    a: "usb_read_byte m s = Some (h, a)" "step s a" "ready a" "rx a = l # ty # tail" "tx a = tx s" by blast
  from usb_read_byte_rx [OF a(3,4)] obtain b where
    b: "usb_read_byte m a = Some (l, b)" "step a b" "ready b" "rx b = ty # tail" "tx b = tx a" by blast
  from usb_read_byte_rx [OF b(3,4)] obtain c where
    c: "usb_read_byte m b = Some (ty, c)" "step b c" "ready c" "rx c = tail" "tx c = tx b" by blast
  have st: "step s c" using step_trans [OF a(2) step_trans [OF b(2) c(2)]] .
  show ?thesis
    by (rule that [OF st c(3) stepD(1) [OF st assms(2)] c(4)])
      (simp_all add: a(1,5) b(1,5) c(1,5) ReadWriteMemoryBlock_def Let_def)
qed

lemma block_wrong_type:
  assumes "ready s" "timely ticks s" "rx s = h # l # ty # tail" "ty \<noteq> 70"
  shows "\<exists>t. ReadWriteMemoryBlock m Command s = Some t \<and> step s t \<and> ready t \<and> timely ticks t
    \<and> rx t = tail \<and> tx t = tx s @ [63]"
proof -
  obtain a where a: "step s a" "ready a" "timely ticks a" "rx a = tail" "tx a = tx s"
    "ReadWriteMemoryBlock m Command s = usb_write_byte m 63 a"
    using block_header_port [OF assms(1-3), of Command] assms(4) by auto
  from usb_write_byte_tx [OF a(2), of 63] obtain t where
    t: "usb_write_byte m 63 a = Some t" "step a t" "ready t" "rx t = rx a" "tx t = tx a @ [63]" by blast
  then show ?thesis using a step_trans [OF a(1) t(2)] stepD(1) [OF t(2) a(3)] by auto
qed

lemma block_read:
  assumes "ready s" "timely ticks s" "rx s = h # l # 70 # tail"
    "even (unat (CurrAddress s))" "unat (CurrAddress s) + unat (mk16 h l) \<le> 2 ^ 16"
  shows "\<exists>t. ReadWriteMemoryBlock m 103 s = Some t \<and> ready t \<and> timely ticks t \<and> rx t = tail
    \<and> ticks (hw t) \<le> ticks (hw s)
    \<and> tx t = tx s @ map (mem (rest (hw s))) [unat (CurrAddress s) ..< unat (CurrAddress s) + unat (mk16 h l)]
    \<and> mem (rest (hw t)) = mem (rest (hw s)) \<and> tmp (rest (hw t)) = (\<lambda>_. 0xFFFF)
    \<and> boot_mode t = boot_mode s \<and> io t TIMSK1 = BV OCIE1A
    \<and> unat (CurrAddress t) = 2 * ((unat (CurrAddress s) + unat (mk16 h l)) div 2)"
proof -
  obtain a where a: "step s a" "ready a" "timely ticks a" "rx a = tail" "tx a = tx s"
    "ReadWriteMemoryBlock m 103 s = read_block m (mk16 h l) (wr m TIMSK1 0 a)
       \<bind> (\<lambda>s. Some (wr m TIMSK1 (BV OCIE1A) s))"
    using block_header_port [OF assms(1-3), of 103] by auto
  let ?b = "wr m TIMSK1 0 a"
  have b: "ready ?b" "rx ?b = tail" "tx ?b = tx s" "timely ticks ?b" "rest (hw ?b) = rest (hw s)"
    using timsk_port [OF a(2,3), of 0] a(4,5) stepD(2) [OF a(1)] by simp_all
  let ?c = "hwop (hw_boot_rww_enable m) ?b"
  have c: "ready ?c" "rx ?c = tail" "tx ?c = tx s" "timely ticks ?c"
    using spm_port [OF b(1), of "hw_boot_rww_enable m"] b by auto
  have r: "rest (hw ?c) = (rest (hw s))\<lparr>tmp := \<lambda>_. 0xFFFF, rww := True\<rparr>"
    using rww_on [OF ready_calm [OF b(1)]] b(5) by (simp add: hwop_def)
  have ca: "CurrAddress ?c = CurrAddress s" "boot_mode ?c = boot_mode s"
    using stepD [OF a(1)] by (simp_all add: hwop_def wr_def)
  from read_block_loop_port [OF c(1), of False "unat (mk16 h l)"] assms(4,5) ca r c obtain d where
    d: "read_block_loop m (unat (mk16 h l)) False ?c = Some d" "ready d" "rx d = tail"
      "tx d = tx s @ map (mem (rest (hw s))) [unat (CurrAddress s) ..< unat (CurrAddress s) + unat (mk16 h l)]"
      "rest (hw d) = (rest (hw s))\<lparr>tmp := \<lambda>_. 0xFFFF, rww := True\<rparr>" "carries ?c d"
      "unat (CurrAddress d) = 2 * ((unat (CurrAddress s) + unat (mk16 h l)) div 2)" by auto
  have kc: "ticks (hw ?c) \<le> ticks (hw s)"
    using spm_port(5) [OF b(1), of "hw_boot_rww_enable m"] timsk_port(6) [OF a(2,3), of 0] stepD(6) [OF a(1)]
    by auto
  have td: "timely ticks d" "boot_mode d = boot_mode s" "ticks (hw d) \<le> ticks (hw s)"
    using d(6) c(4) ca kc by (simp_all add: carries_def)
  let ?e = "wr m TIMSK1 (BV OCIE1A) d"
  have "ReadWriteMemoryBlock m 103 s = Some ?e" using a(6) d(1) by (simp add: read_block_def)
  then show ?thesis
    using timsk_port [OF d(2) td(1), of "BV OCIE1A"] d td(2,3) by (simp add: wr_def)
qed

lemma block_write:
  assumes "ready s" "timely ticks s" "rx s = h # l # 70 # bs @ tail" "Command \<noteq> 103"
    "length bs = unat (mk16 h l)" "length bs \<le> 128" "unat (CurrAddress s) mod 128 = 0"
    "unat (CurrAddress s) + 128 \<le> BOOT_START_ADDR" "tmp (rest (hw s)) = (\<lambda>_. 0xFFFF)"
  shows "\<exists>t. ReadWriteMemoryBlock m Command s = Some t \<and> ready t \<and> timely ticks t \<and> rx t = tail
    \<and> ticks (hw t) \<le> ticks (hw s) \<and> tx t = tx s @ [13] \<and> boot_mode t = boot_mode s \<and> io t TIMSK1 = BV OCIE1A
    \<and> (\<forall>i < FLASH_SIZE. mem (rest (hw t)) i = programmed (CurrAddress s) bs (mem (rest (hw s))) i)
    \<and> tmp (rest (hw t)) = (\<lambda>_. 0xFFFF)
    \<and> unat (CurrAddress t) = unat (CurrAddress s) + 2 * (length bs div 2)"
proof -
  obtain a where a: "step s a" "ready a" "timely ticks a" "rx a = bs @ tail" "tx a = tx s"
    "ReadWriteMemoryBlock m Command s = write_block m (mk16 h l) (wr m TIMSK1 0 a)
       \<bind> (\<lambda>s. Some (wr m TIMSK1 (BV OCIE1A) s))"
    using block_header_port [OF assms(1-3), of Command] assms(4) by auto
  let ?p = "CurrAddress s"
  let ?b = "wr m TIMSK1 0 a"
  have b: "ready ?b" "rx ?b = bs @ tail" "tx ?b = tx s" "timely ticks ?b" "rest (hw ?b) = rest (hw s)"
    using timsk_port [OF a(2,3), of 0] a(4,5) stepD(2) [OF a(1)] by simp_all
  let ?c = "hwop (hw_boot_page_erase m ?p) ?b"
  have c: "ready ?c" "rx ?c = bs @ tail" "tx ?c = tx s" "timely ticks ?c"
    using spm_port [OF b(1), of "hw_boot_page_erase m ?p" ?p] b by auto
  let ?d = "hwop (hw_boot_spm_busy_wait m) ?c"
  have d: "ready ?d" "rx ?d = bs @ tail" "tx ?d = tx s" "timely ticks ?d"
    using spm_port [OF c(1), of "hw_boot_spm_busy_wait m"] c by auto
  let ?R = "(rest (hw s))\<lparr>mem := \<lambda>i. if same_page ?p i then 0xFF else mem (rest (hw s)) i, rww := False\<rparr>"
  have lt: "unat ?p < BOOT_START_ADDR" using assms(8) by simp
  have r: "same_flash (rest (hw ?d)) ?R"
    using erase [OF ready_calm [OF b(1)] lt, unfolded b(5)] busy_wait [OF ready_calm [OF c(1)]]
    by (simp add: hwop_def)
  have ca: "CurrAddress ?d = ?p" "boot_mode ?d = boot_mode s" "CurrAddress ?b = ?p"
    using stepD [OF a(1)] by (simp_all add: hwop_def wr_def)
  have ev: "even (unat ?p)" using assms(7) by (metis dvd_imp_mod_0 dvd_mod_iff even_numeral mod_0_imp_dvd)
  from write_block_loop_port [OF d(1,2) assms(5), of False 0] ev assms(5,6,8) ca(1) obtain e where
    e: "write_block_loop m (unat (mk16 h l)) False 0 ?d = Some e" "ready e" "rx e = tail" "tx e = tx s" "carries ?d e"
      "rest (hw e) = (rest (hw ?d))\<lparr>tmp := fill_words (unat ?p) bs (\<lambda>_. 0xFFFF)\<rparr>"
      "unat (CurrAddress e) = 2 * ((unat ?p + length bs) div 2)" using r d(3) assms(9) by (auto simp: same_flash_def)
  have kd: "ticks (hw ?d) \<le> ticks (hw s)"
    using spm_port(5) [OF b(1), of "hw_boot_page_erase m ?p" ?p] timsk_port(6) [OF a(2,3), of 0]
      spm_port(5) [OF c(1), of "hw_boot_spm_busy_wait m"] stepD(6) [OF a(1)] by auto
  have te: "timely ticks e" "boot_mode e = boot_mode s" "ticks (hw e) \<le> ticks (hw s)"
    using e(5) d(4) ca kd by (simp_all add: carries_def)
  let ?f = "hwop (hw_boot_page_write m ?p) e"
  have f: "ready ?f" "rx ?f = tail" "tx ?f = tx s" "timely ticks ?f" "ticks (hw ?f) \<le> ticks (hw s)"
    using spm_port [OF e(2), of "hw_boot_page_write m ?p" ?p] e te by auto
  let ?g = "hwop (hw_boot_spm_busy_wait m) ?f"
  have g: "ready ?g" "rx ?g = tail" "tx ?g = tx s" "timely ticks ?g" "ticks (hw ?g) \<le> ticks (hw s)"
    using spm_port [OF f(1), of "hw_boot_spm_busy_wait m"] f by auto
  let ?M = "programmed ?p bs (mem (rest (hw s)))"
  have rg: "same_flash (rest (hw ?g)) ((rest (hw s))\<lparr>mem := ?M, tmp := \<lambda>_. 0xFFFF, rww := False\<rparr>)"
    using page_write [OF ready_calm [OF e(2)] lt, unfolded e(6)] busy_wait [OF ready_calm [OF f(1)]] r
    by (simp add: same_flash_def hwop_def page_byte_fill [OF assms(7,6)] and_FF programmed_def cong: if_cong)
  from usb_write_byte_tx [OF g(1), of 13] obtain w where
    w: "usb_write_byte m 13 ?g = Some w" "step ?g w" "ready w" "rx w = tail" "tx w = tx s @ [13]"
    using g by auto
  have tw: "timely ticks w" "rest (hw w) = rest (hw ?g)" "CurrAddress w = CurrAddress e" "boot_mode w = boot_mode s"
    "ticks (hw w) \<le> ticks (hw s)"
    using stepD [OF w(2)] g(4,5) te(2) by (simp_all add: hwop_def)
  let ?w = "wr m TIMSK1 (BV OCIE1A) w"
  have "ReadWriteMemoryBlock m Command s = Some ?w"
    using a(6) e(1) w(1) ca(3) by (simp add: write_block_def Let_def)
  moreover have "2 * ((unat ?p + length bs) div 2) = unat ?p + 2 * (length bs div 2)" using ev by auto
  ultimately show ?thesis
    using timsk_port [OF w(3) tw(1), of "BV OCIE1A"] w(3-5) tw e(7) rg by (simp add: wr_def same_flash_def)
qed

text \<open>A host that stops in the middle of a block.\<close>

lemma write_block_loop_stalls:
  "ready s \<Longrightarrow> rx s = bs \<Longrightarrow> length bs < n \<Longrightarrow> write_block_loop m n hb low s = None"
proof (induction n arbitrary: hb low bs s)
  case (Suc n)
  show ?case
  proof (cases bs)
    case Nil
    then show ?thesis using usb_read_byte_stalls [OF Suc.prems(1)] Suc.prems(2) by simp
  next
    case (Cons b bs')
    from usb_read_byte_rx [OF Suc.prems(1), of b bs'] Suc.prems(2) Cons obtain t where
      t: "usb_read_byte m s = Some (b, t)" "ready t" "rx t = bs'" by auto
    let ?f = "hw_boot_page_fill m (CurrAddress t) (mk16 b low)"
    have p: "ready (hwop ?f t)" "rx (hwop ?f t) = bs'"
      using spm_port [OF t(2), of ?f "CurrAddress t" "mk16 b low"] t(3) by auto
    have l: "length bs' < n" using Suc.prems(3) Cons by simp
    show ?thesis
      using t(1) Suc.IH [OF t(2,3) l] Suc.IH [of "(hwop ?f t)\<lparr>CurrAddress := CurrAddress t + 2\<rparr>" bs'] p l
      by (cases hb) (simp_all add: Let_def hwop_def)
  qed
qed simp

lemma write_block_stalls:
  assumes "ready s" "rx s = bs" "length bs < unat n"
  shows "write_block m n s = None"
proof -
  let ?c = "hwop (hw_boot_page_erase m (CurrAddress s)) s"
  let ?d = "hwop (hw_boot_spm_busy_wait m) ?c"
  have c: "ready ?c" "rx ?c = bs"
    using spm_port [OF assms(1), of "hw_boot_page_erase m (CurrAddress s)" "CurrAddress s"] assms(2) by auto
  have "ready ?d" "rx ?d = bs" using spm_port [OF c(1), of "hw_boot_spm_busy_wait m"] c(2) by auto
  then show ?thesis using write_block_loop_stalls assms(3) by (simp add: write_block_def Let_def)
qed

end

section \<open>Properties of the block transfer\<close>

text \<open>(C21) Writing a block. For a block of at most one page at the boundary of a page below the boot
  loader, with the page buffer empty, the page holds the block afterwards, padded with \<open>0xFF\<close>; an odd
  last byte is not stored; every other page of the flash is untouched; the address advances by what was stored, the host is answered with a carriage return, and the timer
  interrupt is on again.\<close>

theorem write_block_stores_page:
  assumes "spm_link m view rest ticks arr calm" "port_ready view ticks calm s" "timely ticks s"
    "rx_stream view s = h # l # 70 # bs @ tail" "Command \<noteq> 103" "length bs = unat (mk16 h l)" "length bs \<le> 128"
    "unat (CurrAddress s) mod 128 = 0" "unat (CurrAddress s) + 128 \<le> BOOT_START_ADDR" "tmp (rest (hw s)) = (\<lambda>_. 0xFFFF)"
  shows "\<exists>t. ReadWriteMemoryBlock m Command s = Some t \<and> rx_stream view t = tail
    \<and> tx_stream view t = tx_stream view s @ [13] \<and> io t TIMSK1 = BV OCIE1A
    \<and> (\<forall>i < FLASH_SIZE. mem (rest (hw t)) i = programmed (CurrAddress s) bs (mem (rest (hw s))) i)
    \<and> unat (CurrAddress t) = unat (CurrAddress s) + 2 * (length bs div 2)"
  using spm_link.block_write [OF assms] by blast

text \<open>(C22) Reading a block. The host receives exactly the bytes of flash from the current address on, the
  memory is unchanged, the address advances past the words read, and the timer interrupt is on again.\<close>

theorem read_block_sends_flash:
  assumes "spm_link m view rest ticks arr calm" "port_ready view ticks calm s" "timely ticks s"
    "rx_stream view s = h # l # 70 # tail" "even (unat (CurrAddress s))"
    "unat (CurrAddress s) + unat (mk16 h l) \<le> 2 ^ 16"
  shows "\<exists>t. ReadWriteMemoryBlock m 103 s = Some t \<and> rx_stream view t = tail
    \<and> tx_stream view t = tx_stream view s @ map (mem (rest (hw s)))
        [unat (CurrAddress s) ..< unat (CurrAddress s) + unat (mk16 h l)]
    \<and> mem (rest (hw t)) = mem (rest (hw s)) \<and> io t TIMSK1 = BV OCIE1A
    \<and> unat (CurrAddress t) = 2 * ((unat (CurrAddress s) + unat (mk16 h l)) div 2)"
  using spm_link.block_read [OF assms] by blast

text \<open>Other memory types. A block request for anything but flash is refused with a question mark after
  its three header bytes, without touching flash, the address or the timer.\<close>

theorem other_memory_refused:
  assumes "spm_link m view rest ticks arr calm" "port_ready view ticks calm s" "timely ticks s"
    "rx_stream view s = h # l # ty # tail" "ty \<noteq> 70"
  shows "\<exists>t. ReadWriteMemoryBlock m Command s = Some t \<and> rx_stream view t = tail
    \<and> tx_stream view t = tx_stream view s @ [63] \<and> rest (hw t) = rest (hw s)
    \<and> CurrAddress t = CurrAddress s \<and> io t TIMSK1 = io s TIMSK1"
  using spm_link.block_wrong_type [OF assms] spm_link.stepD [OF assms(1)] by metis

text \<open>(C26) The time-out does not cover a block. With the timer interrupt off, as it is throughout a block
  transfer, a host that sends fewer bytes than announced and then stays silent keeps \<^verbatim>\<open>ReadWriteMemoryBlock\<close>
  waiting for ever: the write never returns.\<close>

theorem silent_host_hangs_block:
  assumes "spm_link m view rest ticks arr calm" "port_ready view ticks calm s"
    "\<not> tst (io s TIMSK1) OCIE1A" "length (rx_stream view s) < unat n"
  shows "write_block m n s = None"
  using spm_link.write_block_stalls [OF assms(1,2) refl assms(4)] .

end
