(* ===== verification/Avr109.thy ===== *)
theory Avr109
  imports Flash_Block
begin

text \<open>
  The AVR109 programmer, \<^verbatim>\<open>AVR109_programmer\<close> of \<^verbatim>\<open>Adelino.c\<close>, as compiled with \<^verbatim>\<open>MINIMAL_AVR109\<close>. Commands
  and replies are ASCII codes.
\<close>

section \<open>Constants\<close>

text \<open>\<^verbatim>\<open>TICKS_MS\<close> and the time-outs of \<^verbatim>\<open>Adelino.c\<close>, in ticks.\<close>

definition TICKS_MS :: "nat \<Rightarrow> u8" where
  "TICKS_MS ms = of_nat (ms div 50)"

definition ascii :: "char \<Rightarrow> u8" where
  "ascii c = of_nat (of_char c)"

definition AVR_PROGRAMMER_TIMEOUT :: u8 where "AVR_PROGRAMMER_TIMEOUT = TICKS_MS 3000"
definition ESP_PROGRAMMER_TIMEOUT :: u8 where "ESP_PROGRAMMER_TIMEOUT = TICKS_MS 3000"
definition USB_COMM_TIMEOUT :: u8 where "USB_COMM_TIMEOUT = TICKS_MS 250"

definition BM_NORMAL_BOOT :: u8 where "BM_NORMAL_BOOT = ascii CHR ''0''"
definition BM_KEEP_BOOTLOADER :: u8 where "BM_KEEP_BOOTLOADER = ascii CHR ''1''"
definition BM_ESP_RESET :: u8 where "BM_ESP_RESET = ascii CHR ''R''"
definition BM_ESP_RECONFIGURE :: u8 where "BM_ESP_RECONFIGURE = ascii CHR ''E''"
definition BM_ESP_FACTORY :: u8 where "BM_ESP_FACTORY = ascii CHR ''F''"

definition SOFTWARE_IDENTIFIER :: "u8 list" where
  "SOFTWARE_IDENTIFIER = map ascii ''ADELINO''"

abbreviation (input) BOOTLOADER_VERSION_MAJOR :: u8 where "BOOTLOADER_VERSION_MAJOR \<equiv> 1"
abbreviation (input) BOOTLOADER_VERSION_MINOR :: u8 where "BOOTLOADER_VERSION_MINOR \<equiv> 0"

section \<open>Operations\<close>

text \<open>\<^verbatim>\<open>CurrAddress = b << 9\<close> and \<^verbatim>\<open>CurrAddress |= b << 1\<close>: the byte is promoted to the 16 bit \<^verbatim>\<open>int\<close> of
  avr-gcc, shifted there, and the result sign-extended to the 32 bits of the variable.\<close>

definition shl_int :: "u8 \<Rightarrow> nat \<Rightarrow> u32" where
  "shl_int b n = scast (push_bit n (ucast b :: 16 word))"

text \<open>One command, after its byte has been read.\<close>

definition avr109_command :: "'h mcu \<Rightarrow> u8 \<Rightarrow> 'h fw \<Rightarrow> 'h fw option" where
  "avr109_command m Command s =
     (if Command = ascii CHR ''E'' then do {
        let s = s\<lparr>Timeout := TICKS_MS 500\<rparr>;
        let s = hwop (hw_boot_rww_enable_safe m) s;
        usb_write_byte m 13 s }
      else if Command = ascii CHR ''T'' then do {
        (_, s) \<leftarrow> usb_read_byte m s;
        usb_write_byte m 13 s }
      else if Command = ascii CHR ''L'' \<or> Command = ascii CHR ''P'' then usb_write_byte m 13 s
      else if Command = ascii CHR ''t'' then do {
        s \<leftarrow> usb_write_byte m 0x44 s;
        usb_write_byte m 0 s }
      else if Command = ascii CHR ''a'' then usb_write_byte m (ascii CHR ''Y'') s
      else if Command = ascii CHR ''A'' then do {
        (h, s) \<leftarrow> usb_read_byte m s;
        let s = s\<lparr>CurrAddress := shl_int h 9\<rparr>;
        (l, s) \<leftarrow> usb_read_byte m s;
        let s = s\<lparr>CurrAddress := CurrAddress s OR shl_int l 1\<rparr>;
        usb_write_byte m 13 s }
      else if Command = ascii CHR ''p'' then usb_write_byte m (ascii CHR ''S'') s
      else if Command = ascii CHR ''S'' then usb_write_bytes m SOFTWARE_IDENTIFIER s
      else if Command = ascii CHR ''V'' then do {
        s \<leftarrow> usb_write_byte m (ascii CHR ''0'' + BOOTLOADER_VERSION_MAJOR) s;
        usb_write_byte m (ascii CHR ''0'' + BOOTLOADER_VERSION_MINOR) s }
      else if Command = ascii CHR ''s'' then do {
        s \<leftarrow> usb_write_byte m (AVR_SIGNATURE ! 2) s;
        s \<leftarrow> usb_write_byte m (AVR_SIGNATURE ! 1) s;
        usb_write_byte m (AVR_SIGNATURE ! 0) s }
      else if Command = ascii CHR ''b'' then do {
        s \<leftarrow> usb_write_byte m (ascii CHR ''Y'') s;
        s \<leftarrow> usb_write_byte m (of_nat (SPM_PAGESIZE div 256)) s;
        usb_write_byte m (of_nat (SPM_PAGESIZE mod 256)) s }
      else if Command = ascii CHR ''B'' \<or> Command = ascii CHR ''g'' then
        ReadWriteMemoryBlock m Command
          (s\<lparr>Timeout := AVR_PROGRAMMER_TIMEOUT, boot_mode := BM_NORMAL_BOOT\<rparr>)
      else if Command \<noteq> 27 then usb_write_byte m (ascii CHR ''?'') s
      else Some s)"

text \<open>The body of the loop \<^verbatim>\<open>while (Timeout)\<close>, with its \<^verbatim>\<open>continue\<close> when no byte is there, and the loop.\<close>

definition avr109_turn :: "'h mcu \<Rightarrow> 'h fw \<Rightarrow> 'h fw option" where
  "avr109_turn m s = do {
     (r, s) \<leftarrow> usb_byte_available m s;
     if \<not> r then Some s
     else do {
       (Command, s) \<leftarrow> usb_read_byte m s;
       s \<leftarrow> avr109_command m Command s;
       usb_flush m s } }"

partial_function (option) avr109_loop :: "'h mcu \<Rightarrow> 'h fw \<Rightarrow> 'h fw option" where
  "avr109_loop m s = (if Timeout s = 0 then Some s else do { s \<leftarrow> avr109_turn m s; avr109_loop m s })"

definition AVR109_programmer :: "'h mcu \<Rightarrow> 'h fw \<Rightarrow> 'h fw option" where
  "AVR109_programmer m s = avr109_loop m (s\<lparr>Timeout := AVR_PROGRAMMER_TIMEOUT\<rparr>)"

section \<open>The loop, turn by turn\<close>

text \<open>The state after at most \<open>n\<close> turns of the loop, which stops when the time-out has run out. The loop
  returns exactly where some number of turns gets to with the time-out at zero, and what it does from
  a state that the turns reach is what it still has to do.\<close>

fun avr109_turns :: "nat \<Rightarrow> 'h mcu \<Rightarrow> 'h fw \<Rightarrow> 'h fw option" where
  "avr109_turns 0 m s = Some s"
| "avr109_turns (Suc n) m s =
     (if Timeout s = 0 then Some s else do { s \<leftarrow> avr109_turn m s; avr109_turns n m s })"

definition avr109_reaches :: "'h mcu \<Rightarrow> 'h fw \<Rightarrow> 'h fw \<Rightarrow> bool" where
  "avr109_reaches m s t \<longleftrightarrow> (\<exists>n. avr109_turns n m s = Some t)"

lemma turns_add: "avr109_turns a m s = Some t \<Longrightarrow> avr109_turns b m t = Some u \<Longrightarrow> \<exists>n. avr109_turns n m s = Some u"
proof (induction a arbitrary: s)
  case (Suc a)
  show ?case
  proof (cases "Timeout s = 0")
    case True
    then have "avr109_turns b m s = Some u" using Suc.prems by simp
    then show ?thesis by blast
  next
    case False
    then obtain v where v: "avr109_turn m s = Some v" "avr109_turns a m v = Some t"
      using Suc.prems(1) by (cases "avr109_turn m s") auto
    from Suc.IH [OF v(2) Suc.prems(2)] obtain n where "avr109_turns n m v = Some u" by blast
    then have "avr109_turns (Suc n) m s = Some u" using False v(1) by simp
    then show ?thesis by blast
  qed
qed auto

lemma reaches_refl [simp]: "avr109_reaches m s s"
  unfolding avr109_reaches_def by (rule exI [of _ 0]) simp

lemma reaches_trans: "avr109_reaches m s t \<Longrightarrow> avr109_reaches m t u \<Longrightarrow> avr109_reaches m s u"
  unfolding avr109_reaches_def using turns_add by blast

lemma reaches_turn: "Timeout s \<noteq> 0 \<Longrightarrow> avr109_turn m s = Some t \<Longrightarrow> avr109_reaches m s t"
  unfolding avr109_reaches_def by (rule exI [of _ "Suc 0"]) simp

lemma turns_loop: "avr109_turns n m s = Some t \<Longrightarrow> avr109_loop m s = avr109_loop m t"
proof (induction n arbitrary: s)
  case (Suc n)
  show ?case
  proof (cases "Timeout s = 0")
    case False
    then obtain v where v: "avr109_turn m s = Some v" "avr109_turns n m v = Some t"
      using Suc.prems by (cases "avr109_turn m s") auto
    have "avr109_loop m s = avr109_loop m v" using False v(1) by (subst avr109_loop.simps) simp
    then show ?thesis using Suc.IH [OF v(2)] by simp
  qed (use Suc.prems in simp)
qed simp

lemma loop_turns: "avr109_loop m s = Some u \<longleftrightarrow> Timeout u = 0 \<and> avr109_reaches m s u"
proof
  assume "avr109_loop m s = Some u"
  then show "Timeout u = 0 \<and> avr109_reaches m s u"
  proof (rule avr109_loop.raw_induct [rotated])
    fix f :: "'a mcu \<Rightarrow> 'a fw \<Rightarrow> 'a fw option" and m s u
    assume IH: "\<And>m s u. f m s = Some u \<Longrightarrow> Timeout u = 0 \<and> avr109_reaches m s u"
      and eq: "(if Timeout s = 0 then Some s else avr109_turn m s \<bind> f m) = Some u"
    show "Timeout u = 0 \<and> avr109_reaches m s u"
    proof (cases "Timeout s = 0")
      case False
      then obtain v where v: "avr109_turn m s = Some v" "f m v = Some u" using eq by (cases "avr109_turn m s") auto
      then show ?thesis using IH [OF v(2)] reaches_trans [OF reaches_turn [OF False v(1)]] by blast
    qed (use eq in auto)
  qed
next
  assume "Timeout u = 0 \<and> avr109_reaches m s u"
  then show "avr109_loop m s = Some u"
    by (auto simp: avr109_reaches_def dest!: turns_loop) (subst avr109_loop.simps, simp)
qed

section \<open>Addresses\<close>

text \<open>The address command, for a high byte below \<open>0x40\<close> (all of the 16384 words of flash): the byte address
  of the word.\<close>

lemma scast_small:
  assumes "unat (w :: 16 word) < 2 ^ 15"
  shows "(scast w :: u32) = ucast w"
proof -
  have "\<not> bit (unat w) 15" using assms by (simp add: bit_iff_odd)
  then have b: "\<not> bit w 15" by (simp add: bit_unsigned_iff)
  show ?thesis
  proof (rule bit_word_eqI)
    fix n
    show "bit (scast w :: u32) n = bit (ucast w :: u32) n" if "n < LENGTH(32)"
      using that b bit_imp_le_length [of w n]
      by (cases "n \<le> 15") (auto simp: bit_signed_iff bit_unsigned_iff min_def)
  qed
qed

lemma shl_int_unat:
  assumes "unat b * 2 ^ n < 2 ^ 15" "n < 16"
  shows "unat (shl_int b n) = unat b * 2 ^ n"
proof -
  let ?w = "push_bit n (ucast b :: 16 word)"
  have w: "unat ?w = unat b * 2 ^ n"
  proof -
    have "unat ?w = unat b * 2 ^ n mod 2 ^ 16"
      unfolding unsigned_push_bit_eq by (simp add: push_bit_eq_mult take_bit_eq_mod unsigned_ucast_eq mod_mult_left_eq)
    also have "\<dots> = unat b * 2 ^ n" using assms(1) by (intro mod_less) simp
    finally show ?thesis .
  qed
  have "shl_int b n = ucast ?w" unfolding shl_int_def by (rule scast_small) (use w assms(1) in simp)
  then show ?thesis using w assms(1) by (simp only: unsigned_ucast_eq take_bit_eq_mod) simp
qed

lemma address_command:
  assumes "h < 0x40"
  shows "unat (shl_int h 9 OR shl_int l 1) = 2 * (256 * unat h + unat l)"
proof -
  have h: "unat h < 64" using assms by (simp add: word_less_nat_alt)
  have l: "unat l < 256" by (rule u8_lt)
  have "shl_int h 9 OR shl_int l 1 = shl_int h 9 + shl_int l 1"
  proof (rule disjunctive_add [symmetric])
    fix n
    have H: "unat (shl_int h 9) = push_bit 9 (unat h)" "unat (shl_int l 1) = 2 * unat l"
      using shl_int_unat [of h 9] shl_int_unat [of l 1] h l by (simp_all add: push_bit_eq_mult)
    have "bit (unat (shl_int h 9)) n \<longrightarrow> 9 \<le> n" unfolding H by (simp add: bit_push_bit_iff)
    moreover have "bit (unat (shl_int l 1)) n \<longrightarrow> n < 9"
    proof (intro impI, rule ccontr)
      assume b: "bit (unat (shl_int l 1)) n" "\<not> n < 9"
      have "(2::nat) ^ 9 \<le> 2 ^ n" using b(2) by (intro power_increasing) auto
      moreover have "2 * unat l < 2 ^ 9" using l by simp
      ultimately have "2 * unat l < 2 ^ n" by linarith
      with b(1) show False unfolding H by (simp add: bit_iff_odd)
    qed
    ultimately show "\<not> bit (shl_int h 9) n \<or> \<not> bit (shl_int l 1) n" by (auto simp: bit_unsigned_iff)
  qed
  then have "unat (shl_int h 9 OR shl_int l 1) = (unat (shl_int h 9) + unat (shl_int l 1)) mod 2 ^ 32"
    by (simp add: unat_word_ariths)
  then show ?thesis using shl_int_unat [of h 9] shl_int_unat [of l 1] h l by simp
qed

text \<open>The 16 bits that the flash instructions use are right for every operand.\<close>

lemma address_low16: "(ucast (shl_int h 9 OR shl_int l 1) :: u16) = 2 * mk16 h l"
proof -
  have u: "(ucast (shl_int b n) :: u16) = push_bit n (ucast b)" for b n
  proof (rule bit_word_eqI)
    fix k
    assume "k < LENGTH(16)"
    then have "k < 15 \<or> k = 15" by auto
    then show "bit (ucast (shl_int b n) :: u16) k = bit (push_bit n (ucast b) :: u16) k"
      unfolding shl_int_def by (auto simp: bit_unsigned_iff bit_signed_iff min_def)
  qed
  have "(ucast (shl_int h 9 OR shl_int l 1) :: u16) = push_bit 9 (ucast h) OR push_bit 1 (ucast l)"
    by (simp only: unsigned_or_eq u)
  also have "\<dots> = push_bit 1 (push_bit 8 (ucast h) OR ucast l)"
    by (rule bit_word_eqI) (auto simp: bit_push_bit_iff bit_or_iff)
  finally show ?thesis by (simp add: mk16_def push_bit_eq_mult)
qed

section \<open>Commands that only answer\<close>

text \<open>The protocol's replies to the commands that only answer; \<^verbatim>\<open>ESC\<close> is the silent synchronisation. The other
  commands take operands (\<open>T\<close>, \<open>A\<close>, \<open>B\<close>, \<open>g\<close>) or end the session (\<open>E\<close>).\<close>

definition avr109_reply :: "u8 \<Rightarrow> u8 list" where
  "avr109_reply c =
     (if c = ascii CHR ''L'' \<or> c = ascii CHR ''P'' then [13]
      else if c = ascii CHR ''t'' then [0x44, 0]
      else if c = ascii CHR ''a'' then [ascii CHR ''Y'']
      else if c = ascii CHR ''p'' then [ascii CHR ''S'']
      else if c = ascii CHR ''S'' then map ascii ''ADELINO''
      else if c = ascii CHR ''V'' then map ascii ''10''
      else if c = ascii CHR ''s'' then [0x87, 0x95, 0x1E]
      else if c = ascii CHR ''b'' then [ascii CHR ''Y'', 0, 128]
      else if c = 27 then [] else [ascii CHR ''?''])"

definition only_answers :: "u8 \<Rightarrow> bool" where
  "only_answers c \<longleftrightarrow> c \<notin> ascii ` {CHR ''E'', CHR ''T'', CHR ''A'', CHR ''B'', CHR ''g''}"

lemma ascii_version: "ascii CHR ''0'' + 1 = ascii CHR ''1''" "ascii CHR ''0'' + 0 = ascii CHR ''0''"
  by (simp_all add: ascii_def)

lemma write_bytes_short:
  "usb_write_bytes m [a] s = usb_write_byte m a s"
  "usb_write_bytes m [a, b] s = usb_write_byte m a s \<bind> usb_write_byte m b"
  "usb_write_bytes m [a, b, c] s = usb_write_byte m a s \<bind> (\<lambda>s. usb_write_byte m b s \<bind> usb_write_byte m c)"
proof -
  have zero: "usb_write_bytes m [] = Some" by (rule ext) simp
  have one: "usb_write_bytes m [x] = usb_write_byte m x" for x
    by (rule ext) (simp only: usb_write_bytes.simps(2) zero bind_runit)
  have two: "usb_write_bytes m [x, y] = (\<lambda>s. usb_write_byte m x s \<bind> usb_write_byte m y)" for x y
    by (rule ext) (simp only: usb_write_bytes.simps(2) [of m x "[y]"] one)
  show "usb_write_bytes m [a] s = usb_write_byte m a s"
    "usb_write_bytes m [a, b] s = usb_write_byte m a s \<bind> usb_write_byte m b"
    "usb_write_bytes m [a, b, c] s =
      usb_write_byte m a s \<bind> (\<lambda>s. usb_write_byte m b s \<bind> usb_write_byte m c)"
    by (simp_all only: one two usb_write_bytes.simps(2) [of m a "[b, c]"])
qed

lemma simple_command:
  assumes "only_answers c"
  shows "avr109_command m c s = usb_write_bytes m (avr109_reply c) s"
proof -
  have n: "c \<noteq> ascii CHR ''E''" "c \<noteq> ascii CHR ''T''" "c \<noteq> ascii CHR ''A''" "c \<noteq> ascii CHR ''B''"
    "c \<noteq> ascii CHR ''g''" using assms by (auto simp: only_answers_def)
  have v: "map ascii ''10'' = [ascii CHR ''0'' + 1, ascii CHR ''0'' + 0]" by (simp add: ascii_version)
  have e: "usb_write_bytes m [] s = Some s" by simp
  show ?thesis
    unfolding avr109_command_def avr109_reply_def SOFTWARE_IDENTIFIER_def AVR_SIGNATURE_def v
      if_distrib [of "\<lambda>r. usb_write_bytes m r s"] write_bytes_short e
    using n by (simp add: numeral_2_eq_2 del: list.map usb_write_bytes.simps cong: if_cong)
qed

section \<open>Sessions\<close>

context spm_link
begin

lemma usb_write_bytes_tx:
  "ready s \<Longrightarrow> \<exists>t. usb_write_bytes m bs s = Some t \<and> step s t \<and> ready t \<and> rx t = rx s \<and> tx t = tx s @ bs"
proof (induction bs arbitrary: s)
  case (Cons b bs)
  from usb_write_byte_tx [OF Cons.prems, of b] obtain a where
    a: "usb_write_byte m b s = Some a" "step s a" "ready a" "rx a = rx s" "tx a = tx s @ [b]" by blast
  from Cons.IH [OF a(3)] obtain t where
    t: "usb_write_bytes m bs a = Some t" "step a t" "ready t" "rx t = rx a" "tx t = tx a @ bs" by blast
  with a step_trans [OF a(2) t(2)] show ?case by auto
qed auto

text \<open>One turn of the programmer's loop: the command byte is taken, the command run, the reply flushed.\<close>

lemma loop_turn:
  assumes "ready s" "timely ticks s" "rx s = c # cs"
  shows "\<exists>a. step s a \<and> ready a \<and> timely ticks a \<and> rx a = cs \<and> tx a = tx s
    \<and> (\<forall>b. avr109_command m c a = Some b \<longrightarrow> ready b \<longrightarrow>
        (\<exists>t. avr109_reaches m s t \<and> step b t \<and> ready t \<and> rx t = rx b \<and> tx t = tx b
           \<and> txb (view (hw t)) = []))"
  using assms
proof (induction "length (rxq (view (hw s)))" arbitrary: s rule: less_induct)
  case less
  have T: "Timeout s \<noteq> 0" using less.prems(2) u8_pos by (auto simp: timely_def)
  from usb_byte_available_rx [OF less.prems(1)] obtain p r where
    p: "usb_byte_available m s = Some (r, p)" "step s p" "ready p" "rx p = rx s" "tx p = tx s" and
    q: "\<not> r \<longrightarrow> length (rxq (view (hw p))) < length (rxq (view (hw s)))"
    using less.prems(3) by auto
  have tp: "timely ticks p" using stepD(1) [OF p(2)] less.prems(2) .
  show ?case
  proof (cases r)
    case False
    have "avr109_turn m s = Some p" using p(1) False by (simp add: avr109_turn_def)
    from reaches_turn [OF T this] have eq: "avr109_reaches m s p" .
    from less.hyps [of p] q False p(3,4) tp less.prems(3) obtain a where
      a: "step p a" "ready a" "timely ticks a" "rx a = cs" "tx a = tx p"
        "\<forall>b. avr109_command m c a = Some b \<longrightarrow> ready b \<longrightarrow>
          (\<exists>t. avr109_reaches m p t \<and> step b t \<and> ready t \<and> rx t = rx b \<and> tx t = tx b
             \<and> txb (view (hw t)) = [])" by auto
    then show ?thesis using step_trans [OF p(2) a(1)] p(5) reaches_trans [OF eq] by (intro exI [of _ a]) fastforce
  next
    case True
    from usb_read_byte_rx [OF p(3), of c cs] p(4) less.prems(3) obtain a where
      a: "usb_read_byte m p = Some (c, a)" "step p a" "ready a" "rx a = cs" "tx a = tx p" by auto
    have "\<exists>t. avr109_reaches m s t \<and> step b t \<and> ready t \<and> rx t = rx b \<and> tx t = tx b
           \<and> txb (view (hw t)) = []" if "avr109_command m c a = Some b" "ready b" for b
    proof -
      from usb_flush_tx [OF that(2)] obtain t where
        t: "usb_flush m b = Some t" "step b t" "ready t" "rx t = rx b" "tx t = tx b" "txb (view (hw t)) = []"
        by blast
      have "avr109_turn m s = Some t" using p(1) True a(1) that(1) t(1) by (simp add: avr109_turn_def)
      from reaches_turn [OF T this] t show ?thesis by blast
    qed
    then show ?thesis using a p(5) step_trans [OF p(2) a(2)] stepD(1) [OF a(2) tp] by auto
  qed
qed

lemma simple_session:
  assumes "ready s" "timely ticks s" "rx s = cs @ tail" "\<forall>c \<in> set cs. only_answers c"
  shows "\<exists>t. avr109_reaches m s t \<and> step s t \<and> ready t \<and> timely ticks t \<and> rx t = tail
    \<and> tx t = tx s @ concat (map avr109_reply cs)"
  using assms
proof (induction cs arbitrary: s)
  case (Cons c cs)
  have rx: "rx s = c # (cs @ tail)" using Cons.prems(3) by simp
  obtain a where a: "step s a" "ready a" "timely ticks a" "rx a = cs @ tail" "tx a = tx s"
    "\<forall>b. avr109_command m c a = Some b \<longrightarrow> ready b \<longrightarrow>
      (\<exists>t. avr109_reaches m s t \<and> step b t \<and> ready t \<and> rx t = rx b \<and> tx t = tx b
        \<and> txb (view (hw t)) = [])"
    using loop_turn [OF Cons.prems(1,2) rx] by blast
  from usb_write_bytes_tx [OF a(2), of "avr109_reply c"] simple_command [of c m a] Cons.prems(4) obtain b where
    b: "avr109_command m c a = Some b" "step a b" "ready b" "rx b = rx a" "tx b = tx a @ avr109_reply c" by auto
  from a(6) b(1,3) obtain t where
    t: "avr109_reaches m s t" "step b t" "ready t" "rx t = rx b" "tx t = tx b" by blast
  have st: "step s t" using step_trans [OF a(1) step_trans [OF b(2) t(2)]] .
  from Cons.IH [of t] t a(4) b(4) stepD(1) [OF st Cons.prems(2)] Cons.prems(4) obtain u where
    u: "avr109_reaches m t u" "step t u" "ready u" "timely ticks u" "rx u = tail"
      "tx u = tx t @ concat (map avr109_reply cs)" by auto
  have "tx u = tx s @ concat (map avr109_reply (c # cs))" using u(6) t(5) b(5) a(5) by simp
  then show ?case using u reaches_trans [OF t(1) u(1)] step_trans [OF st u(2)] by auto
next
  case Nil
  then show ?case by (intro exI [of _ s]) auto
qed

text \<open>The commands with operands.\<close>

lemma command_A:
  assumes "ready s" "timely ticks s" "rx s = h # l # tail"
  shows "\<exists>t. avr109_command m (ascii CHR ''A'') s = Some t \<and> ready t \<and> timely ticks t \<and> rx t = tail
    \<and> tx t = tx s @ [13] \<and> rest (hw t) = rest (hw s) \<and> ticks (hw t) \<le> ticks (hw s)
    \<and> boot_mode t = boot_mode s \<and> CurrAddress t = shl_int h 9 OR shl_int l 1"
proof -
  from usb_read_byte_rx [OF assms(1,3)] obtain a where
    a: "usb_read_byte m s = Some (h, a)" "step s a" "ready a" "rx a = l # tail" "tx a = tx s" by blast
  let ?a = "a\<lparr>CurrAddress := shl_int h 9\<rparr>"
  from usb_read_byte_rx [of ?a l tail] a obtain b where
    b: "usb_read_byte m ?a = Some (l, b)" "step ?a b" "ready b" "rx b = tail" "tx b = tx s" by auto
  let ?b = "b\<lparr>CurrAddress := CurrAddress b OR shl_int l 1\<rparr>"
  from usb_write_byte_tx [of ?b 13] b obtain c where
    c: "usb_write_byte m 13 ?b = Some c" "step ?b c" "ready c" "rx c = tail" "tx c = tx s @ [13]" by auto
  have "avr109_command m (ascii CHR ''A'') s = Some c"
    using a(1) b(1) c(1) by (simp add: avr109_command_def ascii_def Let_def)
  moreover have "timely ticks c \<and> rest (hw c) = rest (hw s) \<and> ticks (hw c) \<le> ticks (hw s)
      \<and> boot_mode c = boot_mode s \<and> CurrAddress c = shl_int h 9 OR shl_int l 1"
    using stepD [OF a(2)] stepD [OF b(2)] stepD [OF c(2)] assms(2) by (simp add: timely_def)
  ultimately show ?thesis using c by blast
qed

lemma ready_restart:
  assumes "ready s" "ticks (hw s) < 60"
  shows "ready (s\<lparr>Timeout := AVR_PROGRAMMER_TIMEOUT, boot_mode := b\<rparr>)"
    "timely ticks (s\<lparr>Timeout := AVR_PROGRAMMER_TIMEOUT, boot_mode := b\<rparr>)"
  using assms by (simp_all add: port_ready_def link_up_def timely_def AVR_PROGRAMMER_TIMEOUT_def TICKS_MS_def)

lemma command_block:
  assumes "c = ascii CHR ''B'' \<or> c = ascii CHR ''g''"
  shows "avr109_command m c s = ReadWriteMemoryBlock m c
    (s\<lparr>Timeout := AVR_PROGRAMMER_TIMEOUT, boot_mode := BM_NORMAL_BOOT\<rparr>)"
  using assms by (elim disjE; hypsubst) (simp add: avr109_command_def ascii_def)+

lemma rx_restart [simp]:
  "rx (s\<lparr>Timeout := n, boot_mode := b\<rparr>) = rx s" "tx (s\<lparr>Timeout := n, boot_mode := b\<rparr>) = tx s"
  by (simp_all add: rx_stream_def tx_stream_def)

text \<open>A turn, seen from the command: whatever a command \<open>c\<close> establishes from every state the loop may run it
  in, the loop establishes, up to a step of the port.\<close>

lemma turn_with:
  assumes "ready s" "timely ticks s" "rx s = c # cs"
    and cmd: "\<And>a. step s a \<Longrightarrow> ready a \<Longrightarrow> timely ticks a \<Longrightarrow> rx a = cs \<Longrightarrow> tx a = tx s \<Longrightarrow>
      \<exists>b. avr109_command m c a = Some b \<and> ready b \<and> timely ticks b \<and> P b"
  shows "\<exists>b t. avr109_reaches m s t \<and> P b \<and> step b t \<and> ready t \<and> timely ticks t
    \<and> rx t = rx b \<and> tx t = tx b \<and> txb (view (hw t)) = []"
proof -
  obtain a where a: "step s a" "ready a" "timely ticks a" "rx a = cs" "tx a = tx s"
    and run: "\<forall>b. avr109_command m c a = Some b \<longrightarrow> ready b \<longrightarrow>
      (\<exists>t. avr109_reaches m s t \<and> step b t \<and> ready t \<and> rx t = rx b \<and> tx t = tx b
        \<and> txb (view (hw t)) = [])"
    using loop_turn [OF assms(1-3)] by blast
  from cmd [OF a] obtain b where b: "avr109_command m c a = Some b" "ready b" "timely ticks b" "P b" by blast
  from run b(1,2) obtain t where t: "avr109_reaches m s t" "step b t" "ready t"
    "rx t = rx b" "tx t = tx b" "txb (view (hw t)) = []" by blast
  with b stepD(1) [OF t(2) b(3)] show ?thesis by blast
qed

lemma turn_A:
  assumes "ready s" "timely ticks s" "rx s = ascii CHR ''A'' # h # l # tail" "h < 0x40"
  shows "\<exists>t. avr109_reaches m s t \<and> ready t \<and> timely ticks t \<and> ticks (hw t) \<le> ticks (hw s)
    \<and> rx t = tail \<and> tx t = tx s @ [13] \<and> rest (hw t) = rest (hw s)
    \<and> unat (CurrAddress t) = 2 * (256 * unat h + unat l) \<and> boot_mode t = boot_mode s"
proof -
  let ?P = "\<lambda>b. rx b = tail \<and> tx b = tx s @ [13] \<and> rest (hw b) = rest (hw s) \<and> ticks (hw b) \<le> ticks (hw s)
    \<and> CurrAddress b = shl_int h 9 OR shl_int l 1 \<and> boot_mode b = boot_mode s"
  have "\<exists>b. avr109_command m (ascii CHR ''A'') a = Some b \<and> ready b \<and> timely ticks b \<and> ?P b"
    if "step s a" "ready a" "timely ticks a" "rx a = h # l # tail" "tx a = tx s" for a
    using command_A [OF that(2-4)] stepD [OF that(1)] that(5) by fastforce
  from turn_with [OF assms(1-3), of ?P, OF this] obtain b t where
    t: "avr109_reaches m s t" "?P b" "step b t" "ready t" "timely ticks t" "rx t = rx b" "tx t = tx b"
    by blast
  then show ?thesis using stepD [OF t(3)] address_command [OF assms(4), of l] by auto
qed

lemma turn_B:
  assumes "ready s" "timely ticks s" "rx s = ascii CHR ''B'' # h # l # 70 # bs @ tail" "ticks (hw s) < 60"
    "length bs = unat (mk16 h l)" "length bs \<le> 128" "unat (CurrAddress s) mod 128 = 0"
    "unat (CurrAddress s) + 128 \<le> BOOT_START_ADDR" "tmp (rest (hw s)) = (\<lambda>_. 0xFFFF)"
  shows "\<exists>t. avr109_reaches m s t \<and> ready t \<and> timely ticks t \<and> ticks (hw t) \<le> ticks (hw s)
    \<and> rx t = tail \<and> tx t = tx s @ [13] \<and> boot_mode t = BM_NORMAL_BOOT
    \<and> (\<forall>i < FLASH_SIZE. mem (rest (hw t)) i = programmed (CurrAddress s) bs (mem (rest (hw s))) i)"
proof -
  let ?P = "\<lambda>b. rx b = tail \<and> tx b = tx s @ [13] \<and> ticks (hw b) \<le> ticks (hw s) \<and> boot_mode b = BM_NORMAL_BOOT
    \<and> (\<forall>i < FLASH_SIZE. mem (rest (hw b)) i = programmed (CurrAddress s) bs (mem (rest (hw s))) i)"
  have g: "ascii CHR ''B'' \<noteq> 103" by (simp add: ascii_def)
  have "\<exists>b. avr109_command m (ascii CHR ''B'') a = Some b \<and> ready b \<and> timely ticks b \<and> ?P b"
    if a: "step s a" "ready a" "timely ticks a" "rx a = h # l # 70 # bs @ tail" "tx a = tx s" for a
  proof -
    let ?a = "a\<lparr>Timeout := AVR_PROGRAMMER_TIMEOUT, boot_mode := BM_NORMAL_BOOT\<rparr>"
    have sa: "ticks (hw a) \<le> ticks (hw s)" "CurrAddress a = CurrAddress s" "rest (hw a) = rest (hw s)"
      using stepD [OF a(1)] by simp_all
    have r: "ready ?a" "timely ticks ?a"
      using ready_restart [OF a(2), of BM_NORMAL_BOOT] sa(1) assms(4) by simp_all
    have x: "rx ?a = h # l # 70 # bs @ tail" using a(4) by simp
    from block_write [OF r x g assms(5,6)] assms(7-9) sa(2,3) obtain b where
      b: "ReadWriteMemoryBlock m (ascii CHR ''B'') ?a = Some b" "ready b" "timely ticks b" "rx b = tail"
        "ticks (hw b) \<le> ticks (hw a)" "tx b = tx a @ [13]" "boot_mode b = BM_NORMAL_BOOT"
        "\<forall>i < FLASH_SIZE. mem (rest (hw b)) i = programmed (CurrAddress a) bs (mem (rest (hw a))) i"
      by auto
    then show ?thesis
      using command_block [of "ascii CHR ''B''" a] sa(1) a(5) unfolding sa(2,3) by simp
  qed
  from turn_with [OF assms(1-3), of ?P, OF this] obtain b t where
    t: "avr109_reaches m s t" "?P b" "step b t" "ready t" "timely ticks t" "rx t = rx b" "tx t = tx b"
    by blast
  then show ?thesis using stepD [OF t(3)] by auto
qed

lemma turn_g:
  assumes "ready s" "timely ticks s" "rx s = ascii CHR ''g'' # h # l # 70 # tail" "ticks (hw s) < 60"
    "even (unat (CurrAddress s))" "unat (CurrAddress s) + unat (mk16 h l) \<le> 2 ^ 16"
  shows "\<exists>t. avr109_reaches m s t \<and> ready t \<and> timely ticks t \<and> rx t = tail
    \<and> tx t = tx s @ map (mem (rest (hw s))) [unat (CurrAddress s) ..< unat (CurrAddress s) + unat (mk16 h l)]
    \<and> mem (rest (hw t)) = mem (rest (hw s)) \<and> boot_mode t = BM_NORMAL_BOOT \<and> txb (view (hw t)) = []"
proof -
  let ?P = "\<lambda>b. rx b = tail \<and> boot_mode b = BM_NORMAL_BOOT \<and> mem (rest (hw b)) = mem (rest (hw s))
    \<and> tx b = tx s @ map (mem (rest (hw s))) [unat (CurrAddress s) ..< unat (CurrAddress s) + unat (mk16 h l)]"
  have g: "ascii CHR ''g'' = 103" by (simp add: ascii_def)
  have "\<exists>b. avr109_command m (ascii CHR ''g'') a = Some b \<and> ready b \<and> timely ticks b \<and> ?P b"
    if a: "step s a" "ready a" "timely ticks a" "rx a = h # l # 70 # tail" "tx a = tx s" for a
  proof -
    let ?a = "a\<lparr>Timeout := AVR_PROGRAMMER_TIMEOUT, boot_mode := BM_NORMAL_BOOT\<rparr>"
    have sa: "ticks (hw a) \<le> ticks (hw s)" "CurrAddress a = CurrAddress s" "rest (hw a) = rest (hw s)"
      using stepD [OF a(1)] by simp_all
    have r: "ready ?a" "timely ticks ?a"
      using ready_restart [OF a(2), of BM_NORMAL_BOOT] sa(1) assms(4) by simp_all
    have x: "rx ?a = h # l # 70 # tail" using a(4) by simp
    from block_read [OF r x] assms(5,6) sa(2,3) obtain b where
      b: "ReadWriteMemoryBlock m 103 ?a = Some b" "ready b" "timely ticks b" "rx b = tail"
        "tx b = tx a @ map (mem (rest (hw s))) [unat (CurrAddress s) ..< unat (CurrAddress s) + unat (mk16 h l)]"
        "mem (rest (hw b)) = mem (rest (hw s))" "boot_mode b = BM_NORMAL_BOOT" by auto
    then show ?thesis using command_block [of "ascii CHR ''g''" a] a(5) g by simp
  qed
  from turn_with [OF assms(1-3), of ?P, OF this] obtain b t where
    t: "avr109_reaches m s t" "?P b" "step b t" "ready t" "timely ticks t" "rx t = rx b" "tx t = tx b"
      "txb (view (hw t)) = []"
    by blast
  then show ?thesis using stepD [OF t(3)] by auto
qed

lemma program_and_verify:
  assumes "ready s" "timely ticks s" "ticks (hw s) < 60" "tmp (rest (hw s)) = (\<lambda>_. 0xFFFF)"
    and rx: "rx s = [ascii CHR ''A'', ah, al, ascii CHR ''B'', nh, nl, 70] @ bs @
      [ascii CHR ''A'', ah, al, ascii CHR ''g'', nh, nl, 70] @ tail"
    and n: "length bs = unat (mk16 nh nl)" "length bs \<le> 128" "even (length bs)"
    and a: "ah < 0x38" "(256 * unat ah + unat al) mod 64 = 0"
  shows "\<exists>t. avr109_reaches m s t \<and> rx t = tail \<and> tx t = tx s @ [13, 13, 13] @ bs
    \<and> txb (view (hw t)) = [] \<and> boot_mode t = BM_NORMAL_BOOT
    \<and> (\<exists>p. unat p = 2 * (256 * unat ah + unat al)
        \<and> (\<forall>i < FLASH_SIZE. mem (rest (hw t)) i = programmed p bs (mem (rest (hw s))) i))"
proof -
  let ?A = "2 * (256 * unat ah + unat al)"
  have "?A mod 128 = 2 * ((256 * unat ah + unat al) mod 64)"
    using mult_mod_right [of 2 "256 * unat ah + unat al" 64] by simp
  then have A: "?A mod 128 = 0" "even ?A" using a(2) by simp_all
  have ah: "unat ah < 56" using a(1) by (simp add: word_less_nat_alt)
  then have lt: "?A < BOOT_START_ADDR" using u8_lt [of al] by (simp add: BOOT_START_ADDR_def)
  have a40: "ah < 0x40" using ah by (simp add: word_less_nat_alt)
  from A(1) obtain k where "?A = 128 * k" by (metis dvdE mod_0_imp_dvd)
  with lt have lim: "?A + 128 \<le> BOOT_START_ADDR" by (simp add: BOOT_START_ADDR_def)
  from turn_A [OF assms(1,2), of ah al] rx a40 obtain b where
    b: "avr109_reaches m s b" "ready b" "timely ticks b" "ticks (hw b) \<le> ticks (hw s)"
      "rx b = ascii CHR ''B'' # nh # nl # 70 # bs @ [ascii CHR ''A'', ah, al, ascii CHR ''g'', nh, nl, 70] @ tail"
      "tx b = tx s @ [13]" "rest (hw b) = rest (hw s)" "unat (CurrAddress b) = ?A" by auto
  from turn_B [OF b(2,3,5) _ n(1,2)] b(4,7,8) assms(3,4) A lim obtain c where
    c: "avr109_reaches m b c" "ready c" "timely ticks c" "ticks (hw c) \<le> ticks (hw b)"
      "rx c = ascii CHR ''A'' # ah # al # ascii CHR ''g'' # nh # nl # 70 # tail" "tx c = tx b @ [13]"
      "\<forall>i < FLASH_SIZE. mem (rest (hw c)) i = programmed (CurrAddress b) bs (mem (rest (hw s))) i" by auto
  from turn_A [OF c(2,3,5) a40] obtain d where
    d: "avr109_reaches m c d" "ready d" "timely ticks d" "ticks (hw d) \<le> ticks (hw c)"
      "rx d = ascii CHR ''g'' # nh # nl # 70 # tail" "tx d = tx c @ [13]" "rest (hw d) = rest (hw c)"
      "unat (CurrAddress d) = ?A" by blast
  from turn_g [OF d(2,3,5)] d(4,8) c(4) b(4) assms(3) A(2) lim n(1,2) BOOT_START_ADDR_def obtain e where
    e: "avr109_reaches m d e" "rx e = tail"
      "tx e = tx d @ map (mem (rest (hw d))) [?A ..< ?A + unat (mk16 nh nl)]"
      "mem (rest (hw e)) = mem (rest (hw d))" "boot_mode e = BM_NORMAL_BOOT" "txb (view (hw e)) = []" by auto
  have "map (mem (rest (hw d))) [?A ..< ?A + unat (mk16 nh nl)]
      = map (programmed (CurrAddress b) bs (mem (rest (hw s)))) [?A ..< ?A + unat (mk16 nh nl)]"
    using c(7) d(7) lim n(1,2) by (simp add: FLASH_SIZE_def BOOT_START_ADDR_def)
  also have "\<dots> = bs" using programmed_read [of "CurrAddress b" bs "mem (rest (hw s))"] A(1) n b(8) by simp
  finally have same: "map (mem (rest (hw d))) [?A ..< ?A + unat (mk16 nh nl)] = bs" .
  have "avr109_reaches m s e"
    using reaches_trans [OF b(1) reaches_trans [OF c(1) reaches_trans [OF d(1) e(1)]]] .
  moreover have "\<forall>i < FLASH_SIZE. mem (rest (hw e)) i = programmed (CurrAddress b) bs (mem (rest (hw s))) i"
    using c(7) d(7) e(4) by simp
  moreover have "tx e = tx s @ [13, 13, 13] @ bs" using e(3) same b(6) c(6) d(6) by simp
  ultimately show ?thesis using b(8) e(2,5,6) by (intro exI [of _ e] conjI exI [of _ "CurrAddress b"]) simp_all
qed

end

section \<open>Properties of the programmer\<close>

text \<open>(C1) Programming a page and verifying it, as a host programmer does: set the address of a page below the
  boot loader, send a block of at most a page, set the address again and read the block. After some number
  of turns of its loop the programmer has taken all these bytes and answered each command in turn, and
  the bytes read back are the bytes sent; flash holds them, all other pages are as before, and the
  boot mode is back to normal so that the sketch will be started. The loop goes on from there.\<close>

theorem page_program_verify:
  assumes "spm_link m view rest ticks arr calm" "port_ready view ticks calm s" "timely ticks s" "ticks (hw s) < 60"
    "tmp (rest (hw s)) = (\<lambda>_. 0xFFFF)"
    "rx_stream view s = [ascii CHR ''A'', ah, al, ascii CHR ''B'', nh, nl, 70] @ bs @
      [ascii CHR ''A'', ah, al, ascii CHR ''g'', nh, nl, 70] @ tail"
    "length bs = unat (mk16 nh nl)" "length bs \<le> 128" "even (length bs)"
    "ah < 0x38" "(256 * unat ah + unat al) mod 64 = 0"
  shows "\<exists>n t. avr109_turns n m s = Some t \<and> avr109_loop m s = avr109_loop m t \<and> rx_stream view t = tail
    \<and> tx_stream view t = tx_stream view s @ [13, 13, 13] @ bs
    \<and> txb (view (hw t)) = [] \<and> boot_mode t = BM_NORMAL_BOOT
    \<and> (\<exists>p. unat p = 2 * (256 * unat ah + unat al)
        \<and> (\<forall>i < FLASH_SIZE. mem (rest (hw t)) i = programmed p bs (mem (rest (hw s))) i))"
  using spm_link.program_and_verify [OF assms] turns_loop unfolding avr109_reaches_def by blast

text \<open>(C25) Commands that only answer, all but \<open>E\<close>, \<open>T\<close>, \<open>A\<close>, \<open>B\<close> and \<open>g\<close>. After some number of turns of its loop the
  programmer has taken a run of them and answered them one by one, in order, each with the reply the
  protocol prescribes: unknown commands with a question mark, the escape character not at all. Flash,
  the address and the boot mode stay as they are. The loop goes on from there.\<close>

theorem simple_commands_answered:
  assumes "spm_link m view rest ticks arr calm" "port_ready view ticks calm s" "timely ticks s"
    "rx_stream view s = cs @ tail" "\<forall>c \<in> set cs. only_answers c"
  shows "\<exists>n t. avr109_turns n m s = Some t \<and> avr109_loop m s = avr109_loop m t \<and> rx_stream view t = tail
    \<and> tx_stream view t = tx_stream view s @ concat (map avr109_reply cs)
    \<and> rest (hw t) = rest (hw s) \<and> CurrAddress t = CurrAddress s \<and> boot_mode t = boot_mode s"
  using spm_link.simple_session [OF assms] spm_link.stepD [OF assms(1)] turns_loop
  unfolding avr109_reaches_def by metis

text \<open>The address command. It takes two operand bytes and answers with a carriage return; the 16 bits of
  the address that the flash instructions use are twice the word address for every operand, and the
  whole 32 bit variable is, for every word address of the 32 KiB flash (high byte below \<open>0x40\<close>; above,
  the shift in 16 bit arithmetic overflows into the sign).\<close>

theorem address_command_sets:
  assumes "spm_link m view rest ticks arr calm" "port_ready view ticks calm s" "timely ticks s"
    "rx_stream view s = h # l # tail"
  shows "\<exists>t. avr109_command m (ascii CHR ''A'') s = Some t \<and> rx_stream view t = tail
    \<and> tx_stream view t = tx_stream view s @ [13] \<and> rest (hw t) = rest (hw s)
    \<and> (ucast (CurrAddress t) :: u16) = 2 * mk16 h l
    \<and> (h < 0x40 \<longrightarrow> unat (CurrAddress t) = 2 * unat (mk16 h l))"
proof -
  from spm_link.command_A [OF assms] obtain t where
    t: "avr109_command m (ascii CHR ''A'') s = Some t" "rx_stream view t = tail"
      "tx_stream view t = tx_stream view s @ [13]" "rest (hw t) = rest (hw s)"
      "CurrAddress t = shl_int h 9 OR shl_int l 1" by blast
  then show ?thesis using address_low16 [of h l] address_command [of h l] by (auto simp: unat_mk16)
qed

end
