(* ===== verification/Esp_Link.thy ===== *)
theory Esp_Link
  imports Avr109
begin

text \<open>
  The link to the ESP8266 and the board's pins: LEDs, the reset switch, the reset of the ESP8266,
  the ESP8266 programmer, and the serial transmitter (\<^verbatim>\<open>Adelino.c\<close>, macros of \<^verbatim>\<open>Adelino.h\<close>).
\<close>

section \<open>Pins\<close>

definition LED_SETUP :: "'h mcu \<Rightarrow> 'h fw \<Rightarrow> 'h fw" where
  "LED_SETUP m s = wr_or m DDRD (BV 5) (wr_or m DDRC (BV 7) s)"

definition L_LED_OFF :: "'h mcu \<Rightarrow> 'h fw \<Rightarrow> 'h fw" where "L_LED_OFF m s = wr_clr m PORTC (BV 7) s"
definition L_LED_ON :: "'h mcu \<Rightarrow> 'h fw \<Rightarrow> 'h fw" where "L_LED_ON m s = wr_or m PORTC (BV 7) s"
definition L_LED_TOGGLE :: "'h mcu \<Rightarrow> 'h fw \<Rightarrow> 'h fw" where "L_LED_TOGGLE m s = wr_xor m PORTC (BV 7) s"
definition ACT_LED_OFF :: "'h mcu \<Rightarrow> 'h fw \<Rightarrow> 'h fw" where "ACT_LED_OFF m s = wr_clr m PORTD (BV 5) s"
definition ACT_LED_ON :: "'h mcu \<Rightarrow> 'h fw \<Rightarrow> 'h fw" where "ACT_LED_ON m s = wr_or m PORTD (BV 5) s"
definition ACT_LED_TOGGLE :: "'h mcu \<Rightarrow> 'h fw \<Rightarrow> 'h fw" where "ACT_LED_TOGGLE m s = wr_xor m PORTD (BV 5) s"

partial_function (option) putch_wait :: "'h mcu \<Rightarrow> 'h fw \<Rightarrow> 'h fw option" where
  "putch_wait m s = (case rd m UCSR1A s of (v, s) \<Rightarrow>
     if tst v UDRE1 then Some s else irq_point m s \<bind> putch_wait m)"

definition putch :: "'h mcu \<Rightarrow> u8 \<Rightarrow> 'h fw \<Rightarrow> 'h fw option" where
  "putch m ch s = do { s \<leftarrow> putch_wait m s; Some (wr m UDR1 ch s) }"

definition rstat :: "'h mcu \<Rightarrow> 'h fw \<Rightarrow> bool \<times> 'h fw" where
  "rstat m s =
     (let s = cli s;
          (save_PORTD, s) = rd m PORTD s;
          s = wr_or m PORTD (BV 5) s;
          (save_DDRD, s) = rd m DDRD s;
          s = wr_clr m DDRD (BV 5) s;
          (pin, s) = rd m PIND s;
          stat = (\<not> tst pin 5);
          s = wr m PORTD save_PORTD s;
          s = wr m DDRD save_DDRD s
      in (stat, sei s))"

section \<open>Resetting the ESP8266\<close>

text \<open>The pin sequence up to the delay of one millisecond, and the whole. The delay is a preemption
  point.\<close>

definition esp_strap :: "'h mcu \<Rightarrow> bool \<Rightarrow> 'h fw \<Rightarrow> 'h fw" where
  "esp_strap m program_mode s =
     (let s = wr_clr m PORTB (BV 0) s;
          s = wr_or m DDRB (BV 0) s;
          s = (if program_mode then wr_clr m PORTC (BV 7) s else wr_or m PORTC (BV 7) s);
          s = wr_or m DDRC (BV 7) s;
          s = wr_clr m PORTE (BV 2) s
      in wr_or m DDRE (BV 2) s)"

definition reset_esp :: "'h mcu \<Rightarrow> bool \<Rightarrow> 'h fw \<Rightarrow> 'h fw option" where
  "reset_esp m program_mode s = do {
     let s = esp_strap m program_mode s;
     s \<leftarrow> irq_point m (hwop (hw_delay_ms m 1) s);
     Some (wr_or m PORTE (BV 2) s) }"

partial_function (option) task_until_timeout :: "'h mcu \<Rightarrow> 'h fw \<Rightarrow> 'h fw option" where
  "task_until_timeout m s =
     (if Timeout s = 0 then Some s else USB_USBTask m s \<bind> task_until_timeout m)"

definition reset_esp_and_wait :: "'h mcu \<Rightarrow> bool \<Rightarrow> 'h fw \<Rightarrow> 'h fw option" where
  "reset_esp_and_wait m program_mode s = do {
     let s = s\<lparr>leds_enabled := 0\<rparr>;
     let s = ACT_LED_ON m s;
     let s = L_LED_ON m s;
     s \<leftarrow> reset_esp m program_mode s;
     s \<leftarrow> task_until_timeout m (s\<lparr>Timeout := TICKS_MS 350\<rparr>);
     Some (s\<lparr>leds_enabled := 1, buffer_out := 0, buffer_in := 0\<rparr>) }"

section \<open>The ESP8266 programmer\<close>

text \<open>Emptying the receive buffer until the ROM boot loader is silent.\<close>

partial_function (option) esp_silence :: "'h mcu \<Rightarrow> 'h fw \<Rightarrow> 'h fw option" where
  "esp_silence m s =
     (if Timeout s = 0 then Some s
      else
        (let s = (if buffer_in s \<noteq> 0 then s\<lparr>buffer_in := 0, Timeout := USB_COMM_TIMEOUT\<rparr> else s)
         in irq_point m s \<bind> esp_silence m))"

text \<open>One turn of the relay loop.\<close>

definition esp_relay :: "'h mcu \<Rightarrow> 'h fw \<Rightarrow> 'h fw option" where
  "esp_relay m s = do {
     let s = s\<lparr>Timeout := USB_COMM_TIMEOUT\<rparr>;
     (ch, s) \<leftarrow> (if ring_nonempty s then
         (case ring_get s of (ch, s) \<Rightarrow> do { s \<leftarrow> usb_write_byte m ch s; Some (ch, s) })
       else Some (0, s));
     s \<leftarrow> (if ch = 0xC0 then usb_flush m s else Some s);
     let (v, s) = rd m UCSR1A s;
     if tst v UDRE1 then do {
       (r, s) \<leftarrow> usb_byte_available m s;
       if r then (case Endpoint_Read_8 m s of (b, s) \<Rightarrow> Some (wr m UDR1 b s)) else Some s }
     else irq_point m s }"

partial_function (option) esp_relay_loop :: "'h mcu \<Rightarrow> 'h fw \<Rightarrow> 'h fw option" where
  "esp_relay_loop m s = (if rts_pulse s \<noteq> 0 then Some s else esp_relay m s \<bind> esp_relay_loop m)"

definition ESP8266_programmer :: "'h mcu \<Rightarrow> 'h fw \<Rightarrow> 'h fw option" where
  "ESP8266_programmer m s = do {
     let s = s\<lparr>buffer_out := 0\<rparr>;
     s \<leftarrow> reset_esp m True s;
     s \<leftarrow> esp_silence m (s\<lparr>Timeout := ESP_PROGRAMMER_TIMEOUT\<rparr>);
     s \<leftarrow> esp_relay_loop m (s\<lparr>rts_pulse := 0\<rparr>);
     reset_esp_and_wait m False s }"

end
