(* ===== verification/Boot.thy ===== *)
theory Boot
  imports Esp_Link
begin

text \<open>
  The top of the boot loader (\<^verbatim>\<open>Adelino.c\<close>): the serial bridge \<^verbatim>\<open>CDC_Task\<close>, the LED animation of \<^verbatim>\<open>run_tasks\<close>,
  hardware set-up, the hand-over to the sketch, and \<^verbatim>\<open>main\<close>.
\<close>

section \<open>The USB to serial bridge\<close>

partial_function (option) uart_to_usb :: "'h mcu \<Rightarrow> 'h fw \<Rightarrow> 'h fw option" where
  "uart_to_usb m s =
     (if ring_nonempty s then
        (case ring_get s of (ch, s) \<Rightarrow> usb_write_byte m ch s \<bind> uart_to_usb m)
      else Some s)"

definition usb_char :: "'h mcu \<Rightarrow> u8 \<Rightarrow> 'h fw \<Rightarrow> 'h fw option" where
  "usb_char m ch s =
     (if ch = 0xC0 then ESP8266_programmer m s
      else if ch = 27 then AVR109_programmer m s
      else if ch = 4 then do {
        s \<leftarrow> usb_write_byte m (ascii CHR 0x5C) s;
        s \<leftarrow> usb_write_byte m (ascii CHR ''D'') s;
        usb_write_byte m (boot_mode s) s }
      else putch m ch s)"

definition CDC_Task :: "'h mcu \<Rightarrow> 'h fw \<Rightarrow> 'h fw option" where
  "CDC_Task m s = do {
     s \<leftarrow> uart_to_usb m s;
     s \<leftarrow> usb_flush m s;
     (r, s) \<leftarrow> usb_byte_available m s;
     if \<not> r then Some s
     else do {
       (ch, s) \<leftarrow> usb_read_byte m s;
       s \<leftarrow> usb_char m ch s;
       Some (s\<lparr>led_control := 0xFF\<rparr>) } }"

section \<open>LEDs\<close>

text \<open>The brightness of the breathing animation at a given count.\<close>

definition breath :: "u16 \<Rightarrow> u8" where
  "breath counter = (let p = hi8 counter; p = (if p > 127 then 254 - p else p) in p + p)"

definition led_animation :: "'h mcu \<Rightarrow> 'h fw \<Rightarrow> 'h fw" where
  "led_animation m s =
     (if leds_enabled s = 0 then s
      else if led_control s = 0xFF then
        (let s = s\<lparr>led_counter := led_counter s + 1\<rparr>;
             p = breath (led_counter s)
         in if lo8 (led_counter s) > p then ACT_LED_ON m (L_LED_OFF m s)
            else ACT_LED_OFF m (L_LED_ON m s))
      else if led_counter s > ucast (led_control s) then
        (let s = s\<lparr>led_counter := 0\<rparr> in ACT_LED_TOGGLE m (L_LED_TOGGLE m s))
      else s)"

definition run_tasks :: "'h mcu \<Rightarrow> 'h fw \<Rightarrow> 'h fw option" where
  "run_tasks m s = do { s \<leftarrow> CDC_Task m s; Some (led_animation m s) }"

section \<open>Set-up and hand-over\<close>

text \<open>\<^verbatim>\<open>SERIAL_2X_UBBRVAL\<close> with \<^verbatim>\<open>F_CPU\<close> of 16 MHz.\<close>

definition SERIAL_2X_UBBRVAL :: "nat \<Rightarrow> nat" where
  "SERIAL_2X_UBBRVAL Baud = ((16000000 div 8) + Baud div 2) div Baud - 1"

definition BAUD_RATE :: nat where "BAUD_RATE = 115200"

definition setup_hardware :: "'h mcu \<Rightarrow> 'h fw \<Rightarrow> 'h fw option" where
  "setup_hardware m s = do {
     let s = wr_clr m MCUSR (BV WDRF) s;
     let s = wr m WDTCSR (BV WDE OR BV WDCE) s;
     let s = wr m WDTCSR 0 s;
     let s = wr m CLKPR (BV CLKPCE) s;
     let s = wr m CLKPR 0 s;
     let s = wr m MCUCR (BV IVCE) s;
     let s = wr m MCUCR (BV IVSEL) s;
     let s = LED_SETUP m s;
     let s = L_LED_OFF m s;
     let s = ACT_LED_OFF m s;
     let s = wr m UBRR1H (hi8 (of_nat (SERIAL_2X_UBBRVAL BAUD_RATE))) s;
     let s = wr m UBRR1L (lo8 (of_nat (SERIAL_2X_UBBRVAL BAUD_RATE))) s;
     let s = wr m UCSR1A (BV U2X1) s;
     let s = wr m UCSR1C (BV UCSZ10 OR BV UCSZ11) s;
     let s = wr m UCSR1B (BV RXEN1 OR BV TXEN1 OR BV RXCIE1) s;
     let s = wr m OCR1AH (hi8 12499) s;
     let s = wr m OCR1AL (lo8 12499) s;
     let s = wr m TIMSK1 (BV OCIE1A) s;
     let s = wr m TCCR1B (BV CS11 OR BV CS10 OR BV WGM12) s;
     s \<leftarrow> USB_Init m s;
     Some (sei s) }"

text \<open>\<^verbatim>\<open>start_sketch\<close> jumps to address 0 and never returns: the flag \<open>at_sketch\<close> marks the hand-over.\<close>

definition start_sketch :: "'h mcu \<Rightarrow> 'h fw \<Rightarrow> 'h fw" where
  "start_sketch m s =
     (let s = cli s;
          s = wr m UCSR1B 0 s;
          s = wr m TIMSK1 0 s;
          s = wr m TCCR1B 0 s;
          s = wr m TCNT1H 0 s;
          s = wr m TCNT1L 0 s;
          s = wr m MCUCR (BV IVCE) s;
          s = wr m MCUCR 0 s;
          s = L_LED_OFF m s;
          s = ACT_LED_OFF m s
      in s\<lparr>at_sketch := True\<rparr>)"

section \<open>The main program\<close>

definition ACT_STAY_INTO_BOOTLOADER :: u8 where "ACT_STAY_INTO_BOOTLOADER = TICKS_MS 1000"
definition ACT_BOOTLOADER_TIMEOUT :: u8 where "ACT_BOOTLOADER_TIMEOUT = TICKS_MS 8000"
definition ACT_RESET_ESP8266 :: u8 where "ACT_RESET_ESP8266 = TICKS_MS 3000"
definition ACT_RECONFIGURE_ESP8266 :: u8 where "ACT_RECONFIGURE_ESP8266 = TICKS_MS 5000"
definition ACT_FACTORY_DEFAULTS :: u8 where "ACT_FACTORY_DEFAULTS = TICKS_MS 5000"
definition bootKey :: u16 where "bootKey = 0x7777"

partial_function (option) check_reset_loop :: "'h mcu \<Rightarrow> 'h fw \<Rightarrow> 'h fw option" where
  "check_reset_loop m s =
     (if Timeout s = 0 then Some s
      else case rstat m s of (pressed, s) \<Rightarrow>
        if pressed then run_tasks m s \<bind> check_reset_loop m else Some s)"

definition check_reset :: "'h mcu \<Rightarrow> u8 \<Rightarrow> 'h fw \<Rightarrow> (bool \<times> 'h fw) option" where
  "check_reset m ticks s = do {
     s \<leftarrow> check_reset_loop m (s\<lparr>Timeout := ticks\<rparr>);
     Some (rstat m s) }"

text \<open>The decision on the cause of the reset: start the sketch at once.\<close>

definition skip_bootloader :: "u8 \<Rightarrow> u16 \<Rightarrow> bool \<Rightarrow> bool" where
  "skip_bootloader mcusr_state bootKeyPtrVal sketch_available =
     (if tst mcusr_state EXTRF then False
      else if tst mcusr_state PORF \<and> sketch_available then True
      else tst mcusr_state WDRF \<and> bootKeyPtrVal \<noteq> bootKey \<and> sketch_available)"

text \<open>The reset switch held through the stages of the menu.\<close>

definition boot_menu :: "'h mcu \<Rightarrow> 'h fw \<Rightarrow> 'h fw option" where
  "boot_menu m s = do {
     let s = s\<lparr>leds_enabled := BM_KEEP_BOOTLOADER, boot_mode := BM_KEEP_BOOTLOADER\<rparr>;
     (held, s) \<leftarrow> check_reset m ACT_RESET_ESP8266 s;
     if \<not> held then Some s
     else do {
       s \<leftarrow> reset_esp_and_wait m False (s\<lparr>boot_mode := BM_ESP_RESET\<rparr>);
       (held, s) \<leftarrow> check_reset m ACT_RECONFIGURE_ESP8266 s;
       if \<not> held then Some s
       else do {
         let s = s\<lparr>boot_mode := BM_ESP_RECONFIGURE, led_control := TICKS_MS 200\<rparr>;
         (held, s) \<leftarrow> check_reset m ACT_FACTORY_DEFAULTS s;
         if \<not> held then Some s
         else Some (s\<lparr>boot_mode := BM_ESP_FACTORY, led_control := 1\<rparr>) } } }"

partial_function (option) bootloader_loop :: "'h mcu \<Rightarrow> 'h fw \<Rightarrow> 'h fw option" where
  "bootloader_loop m s =
     (if boot_mode s \<noteq> BM_NORMAL_BOOT \<or> Timeout s \<noteq> 0 then run_tasks m s \<bind> bootloader_loop m
      else Some s)"

text \<open>From the entry of \<^verbatim>\<open>main\<close> to the decision: the results are \<^verbatim>\<open>mcusr_state\<close>, \<^verbatim>\<open>bootKeyPtrVal\<close> and
  \<^verbatim>\<open>sketch_available\<close>.\<close>

definition boot_prologue :: "'h mcu \<Rightarrow> 'h fw \<Rightarrow> (u8 \<times> u16 \<times> bool) \<times> 'h fw" where
  "boot_prologue m s =
     (let bootKeyPtrVal = bootKeyMem s;
          s = s\<lparr>bootKeyMem := 0\<rparr>;
          (mcusr_state, s) = rd m MCUSR s;
          s = wr m MCUSR 0 s;
          s = hwop (hw_wdt_disable m) s;
          sketch_available = (pgm_read_word m 0 s \<noteq> 0xFFFF)
      in ((mcusr_state, bootKeyPtrVal, sketch_available), s))"

definition main :: "'h mcu \<Rightarrow> 'h fw \<Rightarrow> 'h fw option" where
  "main m s = (case boot_prologue m s of ((mcusr_state, bootKeyPtrVal, sketch_available), s) \<Rightarrow>
     if skip_bootloader mcusr_state bootKeyPtrVal sketch_available then Some (start_sketch m s)
     else do {
       s \<leftarrow> setup_hardware m s;
       (held, s) \<leftarrow> check_reset m ACT_STAY_INTO_BOOTLOADER s;
       s \<leftarrow> (if held \<or> \<not> sketch_available then boot_menu m s
             else Some (s\<lparr>leds_enabled := BM_NORMAL_BOOT, boot_mode := BM_NORMAL_BOOT,
                         Timeout := ACT_BOOTLOADER_TIMEOUT\<rparr>));
       s \<leftarrow> bootloader_loop m s;
       Some (start_sketch m (USB_Detach m s)) })"

end
