(* ===== verification/Frames.thy ===== *)
theory Frames
  imports Boot
begin

text \<open>
  What each part of the image leaves alone, for any hardware whatever. The projection \<open>core\<close> keeps the
  variables and registers that neither preemption nor the USB stack may change; every function of
  the stack and of the byte port is shown to preserve it, loops included. From that follow the safety
  properties of the programmers and of \<^verbatim>\<open>main\<close>: what they may change, and the state in which the
  sketch is started.
\<close>

section \<open>The part of the state the USB stack does not touch\<close>

definition usb_reg :: "reg \<Rightarrow> bool" where
  "usb_reg r \<longleftrightarrow> r \<in> {UHWCON, USBCON, USBINT, UDCON, UDINT, UDIEN, UDADDR, UENUM, UERST, UECONX, UECFG0X,
     UECFG1X, UEINTX, UEIENX, UEDATX, UEINT, PLLCSR, PLLFRQ}"

text \<open>The remaining fields: interrupt flag, hand-over, address, boot mode, boot key, LED controls, the
  consumer's index, and all other registers.\<close>

definition core :: "'h fw \<Rightarrow> bool \<times> bool \<times> u32 \<times> u8 \<times> u16 \<times> u8 \<times> u8 \<times> u8 \<times> bool \<times> (reg \<Rightarrow> u8)" where
  "core s = (I_flag s, at_sketch s, CurrAddress s, boot_mode s, bootKeyMem s, led_control s, leds_enabled s,
     buffer_out s, USB_IsInitialized s, (\<lambda>r. if usb_reg r then 0 else io s r))"

lemma core_fields:
  assumes "core t = core s"
  shows "I_flag t = I_flag s" "at_sketch t = at_sketch s" "CurrAddress t = CurrAddress s"
    "boot_mode t = boot_mode s" "bootKeyMem t = bootKeyMem s" "led_control t = led_control s"
    "leds_enabled t = leds_enabled s" "buffer_out t = buffer_out s" "\<not> usb_reg r \<Longrightarrow> io t r = io s r"
  using assms by (simp_all add: core_def fun_eq_iff) metis

lemma core_upd [simp]:
  "core (s\<lparr>hw := h\<rparr>) = core s" "core (s\<lparr>USB_DeviceState := d\<rparr>) = core s"
  "core (s\<lparr>USB_Device_ConfigurationNumber := n\<rparr>) = core s" "core (s\<lparr>USB_ControlRequest := c\<rparr>) = core s"
  "core (s\<lparr>LineEncoding := e\<rparr>) = core s" "core (s\<lparr>rts_pulse := n\<rparr>) = core s"
  "core (s\<lparr>DeviceDescriptor := dd\<rparr>) = core s" "core (s\<lparr>Timeout := n\<rparr>) = core s"
  "core (s\<lparr>led_counter := w\<rparr>) = core s" "core (s\<lparr>buffer := b\<rparr>) = core s" "core (s\<lparr>buffer_in := n\<rparr>) = core s"
  by (simp_all add: core_def cong: if_cong)

lemma core_rd [simp]: "core (snd (rd m r s)) = core s"
  by (simp add: rd_def case_prod_unfold Let_def)

lemma core_hwop [simp]: "core (hwop f s) = core s"
  by (simp add: hwop_def)

lemma core_wr: "usb_reg r \<Longrightarrow> core (wr m r v s) = core s"
  by (auto simp: core_def wr_def fun_eq_iff)

lemma usb_regs [simp]:
  "usb_reg UHWCON" "usb_reg USBCON" "usb_reg USBINT" "usb_reg UDCON" "usb_reg UDINT" "usb_reg UDIEN"
  "usb_reg UDADDR" "usb_reg UENUM" "usb_reg UERST" "usb_reg UECONX" "usb_reg UECFG0X" "usb_reg UECFG1X"
  "usb_reg UEINTX" "usb_reg UEIENX" "usb_reg UEDATX" "usb_reg UEINT" "usb_reg PLLCSR" "usb_reg PLLFRQ"
  by (simp_all add: usb_reg_def)

lemma core_rmw: "usb_reg r \<Longrightarrow> core (wr_or m r v s) = core s" "usb_reg r \<Longrightarrow> core (wr_clr m r v s) = core s"
  by (simp_all add: wr_or_def wr_clr_def case_prod_unfold Let_def core_wr)

lemmas core_simps = core_wr core_rmw case_prod_unfold Let_def

section \<open>Straight-line LUFA functions\<close>

lemma core_endpoint [simp]:
  "core (Endpoint_SelectEndpoint m n s) = core s" "core (Endpoint_ClearSETUP m s) = core s"
  "core (Endpoint_ClearIN m s) = core s" "core (Endpoint_ClearOUT m s) = core s"
  "core (Endpoint_StallTransaction m s) = core s" "core (Endpoint_ClearStall m s) = core s"
  "core (Endpoint_ResetDataToggle m s) = core s" "core (Endpoint_ResetEndpoint m n s) = core s"
  "core (Endpoint_Write_8 m d s) = core s" "core (Endpoint_Write_16_LE m w s) = core s"
  by (simp_all add: code_defs core_simps)

lemma core_endpoint_read [simp]:
  "core (snd (Endpoint_GetCurrentEndpoint m s)) = core s" "core (snd (Endpoint_IsINReady m s)) = core s"
  "core (snd (Endpoint_IsOUTReceived m s)) = core s" "core (snd (Endpoint_IsSETUPReceived m s)) = core s"
  "core (snd (Endpoint_BytesInEndpoint m s)) = core s" "core (snd (Endpoint_IsReadWriteAllowed m s)) = core s"
  "core (snd (Endpoint_IsStalled m s)) = core s" "core (snd (Endpoint_IsEnabled m s)) = core s"
  "core (snd (Endpoint_Read_8 m s)) = core s" "core (snd (Endpoint_GetEndpointDirection m s)) = core s"
  "core (snd (USB_Device_GetFrameNumber m s)) = core s" "core (snd (USB_Device_IsAddressSet m s)) = core s"
  "core (snd (USB_VBUS_GetStatus m s)) = core s" "core (snd (USB_PLL_IsReady m s)) = core s"
  by (simp_all add: code_defs core_simps USB_Device_GetFrameNumber_def)

lemma core_configure [simp]: "core (snd (Endpoint_ConfigureEndpoint_Prv m n c0 c1 s)) = core s"
  by (simp add: code_defs core_simps)

lemma core_Configure: "Endpoint_ConfigureEndpoint m n ty d b k s = Some (r, t) \<Longrightarrow> core t = core s"
  by (auto simp: Endpoint_ConfigureEndpoint_def bind_Some_iff dest!: arg_cong [of _ _ snd])

lemma core_controller [simp]:
  "core (USB_Attach m s) = core s" "core (USB_Detach m s) = core s" "core (USB_PLL_On m s) = core s"
  "core (USB_PLL_Off m s) = core s" "core (USB_CLK_Freeze m s) = core s" "core (USB_CLK_Unfreeze m s) = core s"
  "core (USB_Device_SetDeviceAddress m a s) = core s" "core (stop_PLL m s) = core s"
  "core (USB_INT_Enable m i s) = core s" "core (USB_INT_Disable m i s) = core s"
  "core (USB_INT_Clear m i s) = core s" "core (configured_state m s) = core s"
  "core (snd (int_pending m i s)) = core s"
  by (cases i; simp add: code_defs core_simps configured_state_def int_pending_def)+

section \<open>The interrupt handlers\<close>

lemma core_wait_PLL: "wait_PLL m s = Some t \<Longrightarrow> core t = core s"
proof (rule wait_PLL.raw_induct [of "\<lambda>m s t. core t = core s"])
  fix f :: "'h mcu \<Rightarrow> 'h fw \<Rightarrow> 'h fw option" and m s t
  assume IH: "\<And>m s t. f m s = Some t \<Longrightarrow> core t = core s"
    and "(case USB_PLL_IsReady m s of (r, s) \<Rightarrow> if r then Some s else f m s) = Some t"
  then show "core t = core s"
    by (auto simp: case_prod_unfold split: if_splits dest!: IH)
qed

lemma core_start_PLL: "start_PLL m s = Some t \<Longrightarrow> core t = core s"
  by (auto simp: start_PLL_def dest: core_wait_PLL)

lemma core_gen_vbus: "usb_gen_vbus m s = Some t \<Longrightarrow> core t = core s"
  by (auto simp: usb_gen_vbus_def core_simps bind_Some_iff split: if_splits dest!: core_start_PLL)

lemma core_gen_suspend [simp]: "core (usb_gen_suspend m s) = core s"
  by (simp add: usb_gen_suspend_def core_simps)

lemma core_gen_wakeup: "usb_gen_wakeup m s = Some t \<Longrightarrow> core t = core s"
  by (auto simp: usb_gen_wakeup_def core_simps bind_Some_iff split: if_splits dest!: core_start_PLL)

lemma core_gen_reset: "usb_gen_reset m s = Some t \<Longrightarrow> core t = core s"
  by (auto simp: usb_gen_reset_def core_simps bind_Some_iff split: if_splits dest!: core_Configure)

lemma core_USB_GEN: "USB_GEN_isr m s = Some t \<Longrightarrow> core t = core s"
  by (auto simp: USB_GEN_isr_def bind_Some_iff dest!: core_gen_vbus core_gen_wakeup core_gen_reset)

lemma core_isr [simp]:
  "core (USART1_RX_isr m s) = core s" "core (TIMER1_COMPA_isr s) = core s" "core (ring_put ch s) = core s"
  by (simp_all add: USART1_RX_isr_def TIMER1_COMPA_isr_def ring_put_def Let_def case_prod_unfold)

lemma core_irq: "irq_point m s = Some t \<Longrightarrow> core t = core s"
  by (auto simp: irq_point_def Let_def case_prod_unfold split: if_splits option.splits vect.splits
      dest!: core_USB_GEN)

section \<open>The control endpoint\<close>

text \<open>Every wait loop has the same shape: polls, which keep the core, and preemption points.\<close>

lemmas core_loop = bind_Some_iff core_simps

lemma core_wait_status_OUT: "wait_status_OUT m s = Some t \<Longrightarrow> core t = core s"
  by (rule wait_status_OUT.raw_induct [of "\<lambda>m s t. core t = core s"])
    (fastforce simp: core_loop dest: core_irq split: if_splits)

lemma core_wait_status_IN: "wait_status_IN m s = Some t \<Longrightarrow> core t = core s"
  by (rule wait_status_IN.raw_induct [of "\<lambda>m s t. core t = core s"])
    (fastforce simp: core_loop dest: core_irq split: if_splits)

lemma core_wait_INReady: "wait_INReady m s = Some t \<Longrightarrow> core t = core s"
  by (rule wait_INReady.raw_induct [of "\<lambda>m s t. core t = core s"])
    (fastforce simp: core_loop dest: core_irq split: if_splits)

lemma core_ClearStatusStage: "Endpoint_ClearStatusStage m s = Some t \<Longrightarrow> core t = core s"
  by (auto simp: Endpoint_ClearStatusStage_def split: if_splits
      dest: core_wait_status_OUT core_wait_status_IN)

lemma core_stream_abort [simp]: "core (snd (stream_abort m s)) = core s"
  by (simp add: stream_abort_def core_simps)

lemma core_stream_status:
  assumes "\<And>m (s :: 'h fw). core (snd (ready m s)) = core s"
    and "stream_status ready m (s :: 'h fw) = Some r"
  shows "core (snd r) = core s"
  by (rule stream_status.raw_induct [of "\<lambda>ready m s r.
        (\<forall>m s. core (snd (ready m s)) = core s) \<longrightarrow> core (snd r) = core s", OF _ assms(2), rule_format])
    (fastforce simp: core_loop dest: core_irq split: if_splits, rule assms(1))

lemmas core_status =
  core_stream_status [of Endpoint_IsOUTReceived, OF core_endpoint_read(3)]
  core_stream_status [of Endpoint_IsINReady, OF core_endpoint_read(2)]

lemma core_fill_packet [simp]: "core (snd (snd (snd (fill_packet m ds l n s)))) = core s"
  by (induction m ds l n s rule: fill_packet.induct) (subst fill_packet.simps, simp)

lemma core_drain_packet [simp]: "core (snd (snd (drain_packet m got l s))) = core s"
proof (induction m got l s rule: drain_packet.induct)
  case (1 m got l s)
  then show ?case
    using 1 [OF _ prod.collapse _ prod.collapse]
    by (subst drain_packet.simps) (simp add: case_prod_unfold)
qed

lemma core_write_stream_loop: "write_stream_loop m ds l f s = Some r \<Longrightarrow> core (snd r) = core s"
  by (rule write_stream_loop.raw_induct [of "\<lambda>m ds l f s r. core (snd r) = core s"])
    (fastforce simp: core_loop dest: core_irq split: if_splits)

lemma core_read_stream_loop: "read_stream_loop m got l s = Some r \<Longrightarrow> core (snd (snd r)) = core s"
  by (rule read_stream_loop.raw_induct [of "\<lambda>m got l s r. core (snd (snd r)) = core s"])
    (fastforce simp: core_loop dest: core_irq split: if_splits)

lemma core_Write_Control_Stream:
  assumes "Endpoint_Write_Control_Stream_LE m b l s = Some (e, t)"
  shows "core t = core s"
proof -
  define p where "p = (if l > wLength (USB_ControlRequest s) then (wLength (USB_ControlRequest s), s)
             else if l = 0 then (l, Endpoint_ClearIN m s) else (l, s))"
  then have "core (snd p) = core s" by simp
  moreover obtain e' u where w: "write_stream_loop m b (fst p) False (snd p) = Some (e', u)"
    and r: "(case e' of Some c \<Rightarrow> Some (c, u) | None \<Rightarrow> stream_status Endpoint_IsOUTReceived m u) = Some (e, t)"
    using assms unfolding Endpoint_Write_Control_Stream_LE_def p_def [symmetric] Let_def
    by (cases p) (auto simp: bind_Some_iff)
  moreover have "core u = core (snd p)" using core_write_stream_loop [OF w] by simp
  moreover have "core t = core u" using r by (cases e') (auto dest: core_status)
  ultimately show ?thesis by simp
qed

lemma core_Read_Control_Stream:
  assumes "Endpoint_Read_Control_Stream_LE m l s = Some (e, got, t)"
  shows "core t = core s"
proof -
  define s' where "s' = (if l = 0 then Endpoint_ClearOUT m s else s)"
  then have "core s' = core s" by simp
  moreover obtain e' g u where w: "read_stream_loop m [] l s' = Some (e', g, u)"
    and r: "(case e' of Some c \<Rightarrow> Some (c, g, u)
      | None \<Rightarrow> stream_status Endpoint_IsINReady m u \<bind> (\<lambda>(c, s). Some (c, g, s))) = Some (e, got, t)"
    using assms unfolding Endpoint_Read_Control_Stream_LE_def s'_def [symmetric] Let_def
    by (auto simp: bind_Some_iff)
  moreover have "core u = core s'" using core_read_stream_loop [OF w] by simp
  moreover have "core t = core u" using r by (cases e') (auto simp: bind_Some_iff dest: core_status)
  ultimately show ?thesis by simp
qed

section \<open>The requests\<close>

lemma core_ConfigurationChanged: "EVENT_USB_Device_ConfigurationChanged m s = Some t \<Longrightarrow> core t = core s"
  by (auto simp: EVENT_USB_Device_ConfigurationChanged_def bind_Some_iff dest!: core_Configure)

lemma core_ControlRequest: "EVENT_USB_Device_ControlRequest m s = Some t \<Longrightarrow> core t = core s"
  by (auto simp: EVENT_USB_Device_ControlRequest_def Let_def bind_Some_iff split: if_splits
      dest!: core_Write_Control_Stream core_Read_Control_Stream core_ClearStatusStage)

lemma core_I_flag: "core t = core s \<Longrightarrow> core (t\<lparr>I_flag := b\<rparr>) = core (s\<lparr>I_flag := b\<rparr>)"
  by (simp add: core_def fun_eq_iff) metis

lemma core_SetAddress: "USB_Device_SetAddress m s = Some t \<Longrightarrow> core t = core s"
  by (auto simp: USB_Device_SetAddress_def Let_def bind_Some_iff cli_def
      dest!: core_ClearStatusStage core_wait_INReady intro!: core_I_flag [of _ "s\<lparr>I_flag := False\<rparr>" "I_flag s", simplified])

lemma core_SetConfiguration: "USB_Device_SetConfiguration m s = Some t \<Longrightarrow> core t = core s"
  by (auto simp: USB_Device_SetConfiguration_def Let_def bind_Some_iff split: if_splits
      dest!: core_ClearStatusStage core_ConfigurationChanged)

lemma core_shadow [simp]: "core (shadow_vid_pid_from_sketch m s) = core s"
  by (simp add: shadow_vid_pid_from_sketch_def) (subst shadow_loop_frame, simp)

lemma core_GetDescriptor: "USB_Device_GetDescriptor m s = Some t \<Longrightarrow> core t = core s"
  by (auto simp: USB_Device_GetDescriptor_def CALLBACK_USB_GetDescriptor_def Let_def bind_Some_iff
      split: if_splits dest!: core_Write_Control_Stream)

lemma core_GetStatus: "USB_Device_GetStatus m s = Some t \<Longrightarrow> core t = core s"
  by (auto simp: USB_Device_GetStatus_def core_simps split: if_splits dest!: core_ClearStatusStage)

lemma core_set_endpoint_halt: "set_endpoint_halt m s = Some t \<Longrightarrow> core t = core s"
  by (auto simp: set_endpoint_halt_def core_simps split: if_splits)

lemma core_ClearSetFeature: "USB_Device_ClearSetFeature m s = Some t \<Longrightarrow> core t = core s"
  by (auto simp: USB_Device_ClearSetFeature_def Let_def split: if_splits option.splits
      dest!: core_ClearStatusStage core_set_endpoint_halt)

lemma core_GetConfiguration: "USB_Device_GetConfiguration m s = Some t \<Longrightarrow> core t = core s"
  by (auto simp: USB_Device_GetConfiguration_def Let_def dest!: core_ClearStatusStage)

lemma core_standard_request: "standard_request m s = Some t \<Longrightarrow> core t = core s"
  by (auto simp: standard_request_def Let_def split: if_splits dest: core_GetStatus core_ClearSetFeature
      core_SetAddress core_GetDescriptor core_GetConfiguration core_SetConfiguration)

lemma core_read_bytes [simp]: "core (snd (read_bytes m n s)) = core s"
  by (induction n arbitrary: s) (simp_all add: case_prod_unfold)

lemma core_ProcessControlRequest: "USB_Device_ProcessControlRequest m s = Some t \<Longrightarrow> core t = core s"
  by (auto simp: USB_Device_ProcessControlRequest_def core_simps bind_Some_iff split: if_splits
      dest!: core_standard_request core_ControlRequest)

lemma core_USBTask: "USB_USBTask m s = Some t \<Longrightarrow> core t = core s"
  by (auto simp: USB_USBTask_def USB_DeviceTask_def core_simps bind_Some_iff split: if_splits
      dest!: core_irq core_ProcessControlRequest)

section \<open>The byte port\<close>

lemma core_byte_available: "usb_byte_available m s = Some (r, t) \<Longrightarrow> core t = core s"
  by (auto simp: usb_byte_available_def core_loop split: if_splits dest!: core_USBTask)

lemma core_read_byte: "usb_read_byte m s = Some r \<Longrightarrow> core (snd r) = core s"
proof (erule usb_read_byte.raw_induct [of "\<lambda>m s r. core (snd r) = core s", rotated])
  fix f :: "'a mcu \<Rightarrow> 'a fw \<Rightarrow> (u8 \<times> 'a fw) option" and m s r
  assume IH: "\<And>m s r. f m s = Some r \<Longrightarrow> core (snd r) = core s"
    and "usb_byte_available m s \<bind> (\<lambda>(r, s). if r then Some (Endpoint_Read_8 m s)
      else if endpoint_detached s then Some (0, s) else f m s) = Some r"
  then show "core (snd r) = core s"
    by (auto simp: bind_Some_iff split: if_splits dest!: core_byte_available IH)
qed

lemma core_flush_wait: "flush_wait m s = Some t \<Longrightarrow> core t = core s"
  by (rule flush_wait.raw_induct [of "\<lambda>m s t. core t = core s"])
    (fastforce simp: core_loop dest: core_irq split: if_splits)

lemma core_flush_endpoint: "usb_flush_endpoint m s = Some t \<Longrightarrow> core t = core s"
  by (auto simp: usb_flush_endpoint_def dest: core_flush_wait)

lemma core_flush: "usb_flush m s = Some t \<Longrightarrow> core t = core s"
  by (auto simp: usb_flush_def core_loop split: if_splits dest!: core_flush_endpoint)

lemma core_write_byte: "usb_write_byte m b s = Some t \<Longrightarrow> core t = core s"
  by (auto simp: usb_write_byte_def core_loop split: if_splits dest!: core_USBTask core_flush_endpoint)

lemma core_write_bytes: "usb_write_bytes m bs s = Some t \<Longrightarrow> core t = core s"
  by (induction bs arbitrary: s) (auto simp: bind_Some_iff dest!: core_write_byte)

text \<open>(C33) Isolation of the USB stack, for any hardware: one poll, whatever packets, requests and interrupts it
  serves, leaves the interrupt flag, the flash address, the boot mode, the boot key, the LED controls,
  the consumer's index of the ring buffer and every register outside the USB controller as they were.\<close>

theorem usb_stack_isolated:
  assumes "USB_USBTask m s = Some t"
  shows "core t = core s \<and> (\<forall>r. \<not> usb_reg r \<longrightarrow> io t r = io s r)"
  using core_USBTask [OF assms] by (auto dest: core_fields)

section \<open>The AVR109 programmer\<close>

text \<open>What a block transfer may change besides: the address and the timer's interrupt mask.\<close>

definition session_core :: "'h fw \<Rightarrow> bool \<times> bool \<times> u32 \<times> u8 \<times> u16 \<times> u8 \<times> u8 \<times> u8 \<times> bool \<times> (reg \<Rightarrow> u8)" where
  "session_core s = core (s\<lparr>CurrAddress := 0, io := (io s)(TIMSK1 := 0)\<rparr>)"

lemma session_of_core: "core t = core s \<Longrightarrow> session_core t = session_core s"
  by (simp add: session_core_def core_def fun_eq_iff) metis

lemma session_upd [simp]:
  "session_core (s\<lparr>CurrAddress := a\<rparr>) = session_core s"
  "session_core (s\<lparr>Timeout := n\<rparr>) = session_core s" "session_core (hwop f s) = session_core s"
  "session_core (wr m TIMSK1 v s) = session_core s"
  by (simp_all add: session_core_def core_def hwop_def wr_def cong: if_cong)

lemma session_set_mode: "session_core t = session_core s \<Longrightarrow>
    session_core (t\<lparr>boot_mode := b\<rparr>) = session_core (s\<lparr>boot_mode := b\<rparr>)"
  by (auto simp: session_core_def core_def fun_eq_iff cong: if_cong)

lemmas session_port = core_byte_available [THEN session_of_core] core_read_byte [THEN session_of_core]
  core_flush [THEN session_of_core] core_write_byte [THEN session_of_core] core_write_bytes [THEN session_of_core]

lemma session_read_loop: "read_block_loop m n b s = Some t \<Longrightarrow> session_core t = session_core s"
  by (induction n arbitrary: b s) (auto simp: bind_Some_iff Let_def split: if_splits dest!: session_port)

lemma session_write_loop: "write_block_loop m n b l s = Some t \<Longrightarrow> session_core t = session_core s"
  by (induction n arbitrary: b l s) (auto simp: bind_Some_iff Let_def split: if_splits dest!: session_port)

lemma session_block: "ReadWriteMemoryBlock m c s = Some t \<Longrightarrow> session_core t = session_core s"
  by (auto simp: ReadWriteMemoryBlock_def read_block_def write_block_def bind_Some_iff Let_def split: if_splits
      dest!: session_port session_read_loop session_write_loop)

lemma session_command: "avr109_command m c s = Some t \<Longrightarrow>
    session_core t = session_core (if c \<in> {ascii CHR ''B'', ascii CHR ''g''} then s\<lparr>boot_mode := BM_NORMAL_BOOT\<rparr> else s)"
  by (auto simp: avr109_command_def ascii_def bind_Some_iff Let_def split: if_splits dest!: session_port session_block
      intro!: session_set_mode)

text \<open>The whole session: the boot mode is left alone or set to that of a normal start.\<close>

definition session_kept :: "'h fw \<Rightarrow> 'h fw \<Rightarrow> bool" where
  "session_kept s t \<longleftrightarrow> session_core t = session_core s \<or> session_core t = session_core (s\<lparr>boot_mode := BM_NORMAL_BOOT\<rparr>)"

lemma session_kept_eq: "session_core t = session_core s \<Longrightarrow> session_kept s t"
  by (simp add: session_kept_def)

lemma session_kept_trans: "session_kept s t \<Longrightarrow> session_kept t u \<Longrightarrow> session_kept s u"
  using session_set_mode [of t s BM_NORMAL_BOOT]
    session_set_mode [of t "s\<lparr>boot_mode := BM_NORMAL_BOOT\<rparr>" BM_NORMAL_BOOT]
  by (auto simp: session_kept_def)

lemma session_kept_command: "avr109_command m c s = Some t \<Longrightarrow> session_kept s t"
  by (auto simp: session_kept_def dest!: session_command split: if_splits)

lemma session_turn:
  assumes "usb_read_byte m s = Some (c, t)" "avr109_command m c t = Some u" "usb_flush m u = Some v"
  shows "session_kept s v"
  using session_kept_trans [OF session_kept_eq session_kept_trans [OF _ session_kept_eq]]
    session_port(2) [OF assms(1)] session_kept_command [OF assms(2)] session_port(3) [OF assms(3)] by simp

lemma session_avr109_turn:
  assumes "avr109_turn m s = Some t"
  shows "session_kept s t"
proof -
  obtain r u where u: "usb_byte_available m s = Some (r, u)" and v: "(if \<not> r then Some u
    else usb_read_byte m u \<bind> (\<lambda>(Command, s). avr109_command m Command s \<bind> usb_flush m)) = Some t"
    using assms by (auto simp: avr109_turn_def bind_Some_iff)
  have "session_kept u t"
    using v by (auto simp: bind_Some_iff split: if_splits dest: session_turn intro: session_kept_eq)
  then show ?thesis using session_kept_trans [OF session_kept_eq [OF session_port(1) [OF u]]] by blast
qed

lemma session_turns: "avr109_turns n m s = Some t \<Longrightarrow> session_kept s t"
  by (induction n arbitrary: s)
    (auto simp: bind_Some_iff split: if_splits dest!: session_avr109_turn intro: session_kept_eq session_kept_trans)

lemma session_loop: "avr109_loop m s = Some t \<Longrightarrow> session_kept s t \<and> Timeout t = 0"
  by (auto simp: loop_turns avr109_reaches_def dest: session_turns)

end
