(* ===== verification/Boot_Safety.thy ===== *)
theory Boot_Safety
  imports Frames
begin

text \<open>
  Safety of the programmers and of the main program, for any hardware: what a programming session may
  change, the levels on the pins of the ESP8266, the state in which the sketch is started.
\<close>

section \<open>Boot key, boot mode and hand-over\<close>

definition boot_core :: "'h fw \<Rightarrow> bool \<times> u16 \<times> u8" where
  "boot_core s = (at_sketch s, bootKeyMem s, boot_mode s)"

lemma boot_of_core: "core t = core s \<Longrightarrow> boot_core t = boot_core s"
  by (simp add: boot_core_def core_def)

lemma boot_core_upd [simp]:
  "boot_core (s\<lparr>Timeout := n\<rparr>) = boot_core s" "boot_core (s\<lparr>leds_enabled := l\<rparr>) = boot_core s"
  "boot_core (s\<lparr>led_control := l\<rparr>) = boot_core s" "boot_core (s\<lparr>led_counter := w\<rparr>) = boot_core s"
  "boot_core (s\<lparr>buffer_out := n\<rparr>) = boot_core s" "boot_core (s\<lparr>buffer_in := n\<rparr>) = boot_core s"
  "boot_core (s\<lparr>rts_pulse := n\<rparr>) = boot_core s" "boot_core (s\<lparr>I_flag := b\<rparr>) = boot_core s"
  "boot_core (wr m r v s) = boot_core s" "boot_core (hwop f s) = boot_core s"
  "boot_core (snd (rd m r s)) = boot_core s"
  by (simp_all add: boot_core_def wr_def hwop_def rd_def case_prod_unfold Let_def)

lemma boot_core_mode: "boot_core (s\<lparr>boot_mode := b\<rparr>) = (case boot_core s of (a, k, _) \<Rightarrow> (a, k, b))"
  by (simp add: boot_core_def)

lemma boot_core_rmw [simp]:
  "boot_core (wr_or m r v s) = boot_core s" "boot_core (wr_clr m r v s) = boot_core s"
  "boot_core (wr_xor m r v s) = boot_core s" "boot_core (cli s) = boot_core s" "boot_core (sei s) = boot_core s"
  by (simp_all add: wr_or_def wr_clr_def wr_xor_def cli_def sei_def case_prod_unfold Let_def)

lemmas boot_port = core_byte_available [THEN boot_of_core] core_read_byte [THEN boot_of_core]
  core_flush [THEN boot_of_core] core_write_byte [THEN boot_of_core]
  core_irq [THEN boot_of_core] core_USBTask [THEN boot_of_core]

lemma boot_putch_wait: "putch_wait m s = Some t \<Longrightarrow> boot_core t = boot_core s"
  by (rule putch_wait.raw_induct [of "\<lambda>m s t. boot_core t = boot_core s"])
    (fastforce simp: core_loop dest: boot_port split: if_splits)

lemma boot_putch: "putch m ch s = Some t \<Longrightarrow> boot_core t = boot_core s"
  by (auto simp: putch_def bind_Some_iff dest!: boot_putch_wait)

lemma boot_pins [simp]:
  "boot_core (snd (rstat m s)) = boot_core s" "boot_core (esp_strap m pm s) = boot_core s"
  "boot_core (ACT_LED_ON m s) = boot_core s" "boot_core (ACT_LED_OFF m s) = boot_core s"
  "boot_core (L_LED_ON m s) = boot_core s" "boot_core (L_LED_OFF m s) = boot_core s"
  "boot_core (led_animation m s) = boot_core s"
  by (simp_all add: rstat_def esp_strap_def led_animation_def ACT_LED_ON_def ACT_LED_OFF_def ACT_LED_TOGGLE_def
      L_LED_ON_def L_LED_OFF_def L_LED_TOGGLE_def case_prod_unfold Let_def)

lemma boot_reset_esp: "reset_esp m pm s = Some t \<Longrightarrow> boot_core t = boot_core s"
  by (auto simp: reset_esp_def bind_Some_iff dest!: boot_port)

lemma boot_task_until_timeout: "task_until_timeout m s = Some t \<Longrightarrow> boot_core t = boot_core s"
  by (rule task_until_timeout.raw_induct [of "\<lambda>m s t. boot_core t = boot_core s"])
    (fastforce simp: core_loop dest: boot_port split: if_splits)

lemma boot_reset_esp_and_wait: "reset_esp_and_wait m pm s = Some t \<Longrightarrow> boot_core t = boot_core s"
  by (auto simp: reset_esp_and_wait_def bind_Some_iff Let_def dest!: boot_reset_esp boot_task_until_timeout)

lemma boot_ring_get [simp]: "boot_core (snd (ring_get s)) = boot_core s"
  by (simp add: ring_get_def Let_def)

lemma boot_esp_silence: "esp_silence m s = Some t \<Longrightarrow> boot_core t = boot_core s"
  by (rule esp_silence.raw_induct [of "\<lambda>m s t. boot_core t = boot_core s"])
    (fastforce simp: core_loop dest: boot_port split: if_splits)

lemma boot_Read_8 [simp]: "boot_core (snd (Endpoint_Read_8 m s)) = boot_core s"
  by (rule boot_of_core) simp

lemma boot_esp_relay: "esp_relay m s = Some t \<Longrightarrow> boot_core t = boot_core s"
  by (auto simp: esp_relay_def core_loop split: if_splits dest!: boot_port)

lemma boot_esp_relay_loop: "esp_relay_loop m s = Some t \<Longrightarrow> boot_core t = boot_core s"
  by (rule esp_relay_loop.raw_induct [of "\<lambda>m s t. boot_core t = boot_core s"])
    (fastforce simp: core_loop dest: boot_esp_relay split: if_splits)

lemma boot_ESP8266_programmer: "ESP8266_programmer m s = Some t \<Longrightarrow> boot_core t = boot_core s"
  by (auto simp: ESP8266_programmer_def bind_Some_iff Let_def
      dest!: boot_reset_esp boot_esp_silence boot_esp_relay_loop boot_reset_esp_and_wait)

text \<open>The tasks of the main loop keep the three, or set the boot mode to that of a normal start.\<close>

definition boot_kept :: "'h fw \<Rightarrow> 'h fw \<Rightarrow> bool" where
  "boot_kept s t \<longleftrightarrow> boot_core t = boot_core s \<or> boot_core t = boot_core (s\<lparr>boot_mode := BM_NORMAL_BOOT\<rparr>)"

lemma boot_kept_refl [simp]: "boot_kept s s"
  by (simp add: boot_kept_def)

lemma boot_kept_trans: "boot_kept s t \<Longrightarrow> boot_kept t u \<Longrightarrow> boot_kept s u"
  by (auto simp: boot_kept_def boot_core_def)

lemma boot_of_session: "session_core t = session_core s \<Longrightarrow> boot_core t = boot_core s"
  by (simp add: session_core_def core_def boot_core_def)

lemma boot_AVR109_programmer: "AVR109_programmer m s = Some t \<Longrightarrow> boot_kept s t"
  by (auto simp: AVR109_programmer_def session_kept_def boot_kept_def dest!: session_loop boot_of_session)
    (simp add: boot_core_def)

lemma boot_uart_to_usb: "uart_to_usb m s = Some t \<Longrightarrow> boot_core t = boot_core s"
  by (rule uart_to_usb.raw_induct [of "\<lambda>m s t. boot_core t = boot_core s"])
    (fastforce simp: core_loop dest: boot_port split: if_splits)

lemma boot_usb_char: "usb_char m ch s = Some t \<Longrightarrow> boot_kept s t"
  by (auto simp: usb_char_def bind_Some_iff boot_kept_def split: if_splits
      dest!: boot_port boot_putch boot_ESP8266_programmer boot_AVR109_programmer)

lemma boot_CDC_Task: "CDC_Task m s = Some t \<Longrightarrow> boot_kept s t"
  by (auto simp: CDC_Task_def bind_Some_iff boot_kept_def boot_core_mode split: if_splits
      dest!: boot_port boot_uart_to_usb boot_usb_char)

lemma boot_run_tasks: "run_tasks m s = Some t \<Longrightarrow> boot_kept s t"
  by (auto simp: run_tasks_def bind_Some_iff boot_kept_def boot_core_mode dest!: boot_CDC_Task)


lemma boot_check_reset_loop: "check_reset_loop m s = Some t \<Longrightarrow> boot_kept s t"
proof (erule check_reset_loop.raw_induct [of "\<lambda>m s t. boot_kept s t", rotated])
  fix f :: "'a mcu \<Rightarrow> 'a fw \<Rightarrow> 'a fw option" and m s t
  assume IH: "\<And>m s t. f m s = Some t \<Longrightarrow> boot_kept s t"
    and eq: "(if Timeout s = 0 then Some s else case rstat m s of (pressed, s) \<Rightarrow>
      if pressed then run_tasks m s \<bind> f m else Some s) = Some t"
  have "boot_kept s (snd (rstat m s))" by (simp add: boot_kept_def)
  then show "boot_kept s t" using eq
    by (auto simp: bind_Some_iff case_prod_unfold split: if_splits
        dest!: boot_run_tasks IH intro: boot_kept_trans)
qed

lemma boot_check_reset: "check_reset m n s = Some (held, t) \<Longrightarrow> boot_kept s t"
  by (auto simp: check_reset_def bind_Some_iff boot_kept_def boot_core_mode
      dest!: boot_check_reset_loop arg_cong [where f = snd and y = "(held, t)"])

lemma boot_bootloader_loop:
  "bootloader_loop m s = Some t \<Longrightarrow> boot_kept s t \<and> boot_mode t = BM_NORMAL_BOOT \<and> Timeout t = 0"
proof (erule bootloader_loop.raw_induct [of "\<lambda>m s t. boot_kept s t \<and> boot_mode t = BM_NORMAL_BOOT \<and> Timeout t = 0", rotated])
  fix f :: "'a mcu \<Rightarrow> 'a fw \<Rightarrow> 'a fw option" and m s t
  assume IH: "\<And>m s t. f m s = Some t \<Longrightarrow> boot_kept s t \<and> boot_mode t = BM_NORMAL_BOOT \<and> Timeout t = 0"
    and eq: "(if boot_mode s \<noteq> BM_NORMAL_BOOT \<or> Timeout s \<noteq> 0 then run_tasks m s \<bind> f m else Some s) = Some t"
  then show "boot_kept s t \<and> boot_mode t = BM_NORMAL_BOOT \<and> Timeout t = 0"
    by (auto simp: bind_Some_iff split: if_splits
        dest!: boot_run_tasks dest: IH intro: boot_kept_trans)
qed

text \<open>The stages of the menu; each is reached only from the one before.\<close>

definition menu_modes :: "u8 set" where
  "menu_modes = {BM_NORMAL_BOOT, BM_KEEP_BOOTLOADER, BM_ESP_RESET, BM_ESP_RECONFIGURE, BM_ESP_FACTORY}"

definition menu_ok :: "bool \<Rightarrow> u16 \<Rightarrow> 'h fw \<Rightarrow> bool" where
  "menu_ok a k s \<longleftrightarrow> at_sketch s = a \<and> bootKeyMem s = k \<and> boot_mode s \<in> menu_modes"

lemma menu_ok_core: "boot_core t = boot_core s \<Longrightarrow> menu_ok a k s \<Longrightarrow> menu_ok a k t"
  by (simp add: menu_ok_def boot_core_def)

lemma menu_ok_kept: "boot_kept s t \<Longrightarrow> menu_ok a k s \<Longrightarrow> menu_ok a k t"
  by (auto simp: menu_ok_def boot_core_def boot_kept_def menu_modes_def)

lemma menu_ok_stage [simp]:
  "b \<in> menu_modes \<Longrightarrow> menu_ok a k (s\<lparr>boot_mode := b\<rparr>) \<longleftrightarrow> at_sketch s = a \<and> bootKeyMem s = k"
  by (simp add: menu_ok_def)

lemma menu_stages [simp]:
  "BM_KEEP_BOOTLOADER \<in> menu_modes" "BM_ESP_RESET \<in> menu_modes" "BM_ESP_RECONFIGURE \<in> menu_modes"
  "BM_ESP_FACTORY \<in> menu_modes" "BM_NORMAL_BOOT \<in> menu_modes"
  by (simp_all add: menu_modes_def)

lemma menu_ok_upd [simp]:
  "menu_ok a k (s\<lparr>leds_enabled := l\<rparr>) = menu_ok a k s" "menu_ok a k (s\<lparr>led_control := l\<rparr>) = menu_ok a k s"
  by (simp_all add: menu_ok_def)

lemma menu_ok_fields: "menu_ok a k s \<Longrightarrow> at_sketch s = a \<and> bootKeyMem s = k"
  by (simp add: menu_ok_def)

lemma menu_check: "check_reset m n s = Some (held, t) \<Longrightarrow> menu_ok a k s \<Longrightarrow> menu_ok a k t"
  by (rule menu_ok_kept [OF boot_check_reset])

lemma menu_bind:
  assumes "check_reset m n s \<bind> (\<lambda>(held, s). if \<not> held then Some s else g s) = Some t" "menu_ok a k s"
    and "\<And>u. menu_ok a k u \<Longrightarrow> g u = Some t \<Longrightarrow> menu_ok a k t"
  shows "menu_ok a k t"
proof -
  from assms(1) obtain held u where u: "check_reset m n s = Some (held, u)"
    and t: "(if \<not> held then Some u else g u) = Some t"
    by (auto simp: bind_Some_iff)
  have "menu_ok a k u" by (rule menu_check [OF u assms(2)])
  with t assms(3) show ?thesis by (simp split: if_splits)
qed

lemma menu_reset_esp:
  assumes "reset_esp_and_wait m pm (s\<lparr>boot_mode := BM_ESP_RESET\<rparr>) = Some t" "menu_ok a k s"
  shows "menu_ok a k t"
  using menu_ok_core [OF boot_reset_esp_and_wait [OF assms(1)], of a k] assms(2) by (simp add: menu_ok_def)

lemma boot_boot_menu:
  assumes "boot_menu m s = Some t"
  shows "menu_ok (at_sketch s) (bootKeyMem s) t"
  using assms unfolding boot_menu_def Let_def
proof (rule menu_bind)
  fix u
  assume u: "menu_ok (at_sketch s) (bootKeyMem s) u"
    and "reset_esp_and_wait m False (u\<lparr>boot_mode := BM_ESP_RESET\<rparr>) \<bind>
      (\<lambda>s. check_reset m ACT_RECONFIGURE_ESP8266 s \<bind> (\<lambda>(held, s). if \<not> held then Some s
      else check_reset m ACT_FACTORY_DEFAULTS (s\<lparr>boot_mode := BM_ESP_RECONFIGURE, led_control := TICKS_MS 200\<rparr>) \<bind>
      (\<lambda>(held, s). if \<not> held then Some s else Some (s\<lparr>boot_mode := BM_ESP_FACTORY, led_control := 1\<rparr>)))) = Some t"
  then obtain v where v: "reset_esp_and_wait m False (u\<lparr>boot_mode := BM_ESP_RESET\<rparr>) = Some v"
    and w: "check_reset m ACT_RECONFIGURE_ESP8266 v \<bind> (\<lambda>(held, s). if \<not> held then Some s
      else check_reset m ACT_FACTORY_DEFAULTS (s\<lparr>boot_mode := BM_ESP_RECONFIGURE, led_control := TICKS_MS 200\<rparr>) \<bind>
      (\<lambda>(held, s). if \<not> held then Some s else Some (s\<lparr>boot_mode := BM_ESP_FACTORY, led_control := 1\<rparr>))) = Some t"
    by (auto simp: bind_Some_iff)
  show "menu_ok (at_sketch s) (bootKeyMem s) t"
    by (rule menu_bind [OF w menu_reset_esp [OF v u]], erule menu_bind)
      (auto simp: menu_ok_def)
qed (simp add: menu_ok_def)

section \<open>Programming sessions\<close>

text \<open>(C34) What a programming session leaves alone, for any hardware and any host: when it returns its time-out has
  run out, the boot mode is unchanged or that of a normal start, and the boot key, the hand-over flag, the
  interrupt flag, the LED controls, the ring buffer's consumer index and every register other than those
  of the USB controller and the timer's interrupt mask are as they were. (Flash, the current address, the
  line encoding and the USB state may have changed: that is what a session is for.)\<close>

theorem avr109_session_frame:
  assumes "AVR109_programmer m s = Some t"
  shows "Timeout t = 0 \<and> (boot_mode t = boot_mode s \<or> boot_mode t = BM_NORMAL_BOOT)
    \<and> bootKeyMem t = bootKeyMem s \<and> at_sketch t = at_sketch s \<and> I_flag t = I_flag s
    \<and> led_control t = led_control s \<and> leds_enabled t = leds_enabled s \<and> buffer_out t = buffer_out s
    \<and> (\<forall>r. \<not> usb_reg r \<longrightarrow> r \<noteq> TIMSK1 \<longrightarrow> io t r = io s r)"
proof -
  let ?s = "s\<lparr>Timeout := AVR_PROGRAMMER_TIMEOUT\<rparr>"
  have k: "session_kept ?s t" and z: "Timeout t = 0"
    using assms session_loop [of m ?s t] by (simp_all add: AVR109_programmer_def)
  have frame: "core t = core (u\<lparr>CurrAddress := CurrAddress t, io := (io u)(TIMSK1 := io t TIMSK1)\<rparr>)"
    if "session_core t = session_core u" for u
    using that by (simp add: session_core_def core_def fun_eq_iff cong: if_cong) metis
  from k show ?thesis unfolding session_kept_def
    by (auto simp: z dest!: frame) (auto dest: core_fields)
qed

section \<open>Pins\<close>

text \<open>The shared pin of the activity LED and the reset switch: \<^verbatim>\<open>rstat\<close> turns it into an input with pull-up,
  samples it, and restores level and direction; the level is always written before the direction, no
  variable changes, and interrupts are on afterwards. The switch reads as pressed when the pin is low.\<close>

theorem rstat_restores:
  "rstat m s =
     (let h = apply_writes m [(PORTD, io s PORTD OR BV 5), (DDRD, io s DDRD AND NOT (BV 5))] (hw s);
          (pin, h) = rd_reg m PIND h
      in (\<not> tst pin 5, s\<lparr>I_flag := True, hw := apply_writes m [(PORTD, io s PORTD), (DDRD, io s DDRD)] h\<rparr>))"
  by (simp add: rstat_def reg_simps case_prod_unfold Let_def fun_upd_twist fun_upd_idem)

text \<open>(C39) Resetting the ESP8266: before the millisecond of delay the levels of GPIO15 (low), GPIO0 (low for its boot
  loader, high for a normal start) and CHIP_EN (low) are written, each before its pin becomes an output;
  after the delay, whatever interrupts come in, CHIP_EN is high, the straps still hold, and the other
  pins of the four ports are as they were.\<close>

theorem reset_esp_pins:
  assumes "reset_esp m program_mode s = Some t"
  shows "hw (esp_strap m program_mode s) = apply_writes m
      [(PORTB, io s PORTB AND NOT (BV 0)), (DDRB, io s DDRB OR BV 0),
       (PORTC, if program_mode then io s PORTC AND NOT (BV 7) else io s PORTC OR BV 7), (DDRC, io s DDRC OR BV 7),
       (PORTE, io s PORTE AND NOT (BV 2)), (DDRE, io s DDRE OR BV 2)] (hw s)
    \<and> \<not> tst (io t PORTB) 0 \<and> tst (io t DDRB) 0 \<and> (tst (io t PORTC) 7 \<longleftrightarrow> \<not> program_mode) \<and> tst (io t DDRC) 7
    \<and> tst (io t PORTE) 2 \<and> tst (io t DDRE) 2
    \<and> (\<forall>n < 8. (n \<noteq> 0 \<longrightarrow> tst (io t PORTB) n = tst (io s PORTB) n) \<and> (n \<noteq> 7 \<longrightarrow> tst (io t PORTC) n = tst (io s PORTC) n)
         \<and> (n \<noteq> 2 \<longrightarrow> tst (io t PORTE) n = tst (io s PORTE) n) \<and> tst (io t PORTD) n = tst (io s PORTD) n)"
proof -
  from assms obtain u where "irq_point m (hwop (hw_delay_ms m 1) (esp_strap m program_mode s)) = Some u"
    and t: "t = wr_or m PORTE (BV 2) u"
    by (auto simp: reset_esp_def bind_Some_iff)
  then have u: "io u r = io (esp_strap m program_mode s) r" if "\<not> usb_reg r" for r
    using core_fields(9) [OF core_irq] that by (fastforce simp: hwop_def)
  have ports: "\<not> usb_reg PORTB" "\<not> usb_reg PORTC" "\<not> usb_reg PORTD" "\<not> usb_reg PORTE"
      "\<not> usb_reg DDRB" "\<not> usb_reg DDRC" "\<not> usb_reg DDRE"
    by (simp_all add: usb_reg_def)
  show ?thesis
    by (simp add: t u ports esp_strap_def reg_simps case_prod_unfold Let_def)
qed

text \<open>The breathing animation: the brightness rises by two per step of the counter's high byte from 0 to 254
  and falls back to 0, except for the last step: there \<^verbatim>\<open>254 - p\<close> wraps round and the LED is at full
  brightness again.\<close>

theorem breath_profile:
  "unat (breath c) = (let p = unat (hi8 c) in
     if p \<le> 127 then 2 * p else if p \<le> 254 then 2 * (254 - p) else 254)"
proof -
  have b: "unat (hi8 c) < 256" using unsigned_less [of "hi8 c"] by simp
  show ?thesis
  proof (cases "unat (hi8 c) \<le> 127")
    case True
    then show ?thesis by (simp add: breath_def Let_def word_less_nat_alt unat_word_ariths)
  next
    case False
    then show ?thesis
    proof (cases "unat (hi8 c) = 255")
      case True
      then have "hi8 c = 255" by (simp add: word_unat_eq_iff)
      then show ?thesis by (simp add: breath_def)
    next
      case ne: False
      then have fall: "unat (254 - hi8 c) = 254 - unat (hi8 c)"
        using b by (simp add: unat_sub word_le_nat_alt)
      have "breath c = (254 - hi8 c) + (254 - hi8 c)"
        using False by (simp add: breath_def Let_def word_less_nat_alt)
      then have "unat (breath c) = (2 * (254 - unat (hi8 c))) mod 256"
        by (simp only: unat_word_ariths fall mult_2) simp
      then show ?thesis using False ne b by simp
    qed
  qed
qed

section \<open>Set-up\<close>

lemma USB_Init_returns: "\<exists>t. USB_Init m s = Some t"
  by (simp add: USB_Init_def USB_ResetInterface_def USB_Init_Device_def Endpoint_ConfigureEndpoint_8_16
      bind_eq_Some_conv case_prod_unfold)

text \<open>The initialisation of the controller touches its own registers only.\<close>

definition init_core :: "'h fw \<Rightarrow> bool \<times> bool \<times> u16 \<times> u8 \<times> (reg \<Rightarrow> u8)" where
  "init_core s = (I_flag s, at_sketch s, bootKeyMem s, boot_mode s, (\<lambda>r. if usb_reg r then 0 else io s r))"

lemma init_of_core: "core t = core s \<Longrightarrow> init_core t = init_core s"
  by (simp add: init_core_def core_def)

lemma init_core_upd [simp]:
  "init_core (s\<lparr>USB_IsInitialized := b\<rparr>) = init_core s"
  by (simp add: init_core_def cong: if_cong)

lemma core_init [simp]:
  "core (USB_REG_On m s) = core s" "core (USB_OTGPAD_On m s) = core s" "core (USB_Controller_Reset m s) = core s"
  "core (USB_INT_DisableAllInterrupts m s) = core s" "core (USB_INT_ClearAllInterrupts m s) = core s"
  "core (USB_Device_SetFullSpeed m s) = core s"
  by (simp_all add: code_defs core_simps)

lemma init_USB_Init:
  assumes "USB_Init m s = Some t"
  shows "init_core t = init_core s"
proof -
  let ?s = "(wr m PLLFRQ (BV PLLUSB OR BV PDIV3 OR BV PDIV1) (USB_REG_On m s))\<lparr>USB_IsInitialized := True\<rparr>"
  have "core t = core ?s" using assms
    by (auto simp: USB_Init_def USB_ResetInterface_def USB_Init_Device_def bind_Some_iff Let_def core_wr core_rmw
        dest!: core_Configure)
  then have "init_core t = init_core (wr m PLLFRQ (BV PLLUSB OR BV PDIV3 OR BV PDIV1) (USB_REG_On m s))"
    using init_of_core [of t ?s] by simp
  also have "\<dots> = init_core s" by (rule init_of_core) (simp add: core_wr)
  finally show ?thesis .
qed

lemma init_fields:
  assumes "init_core t = init_core s"
  shows "at_sketch t = at_sketch s" "bootKeyMem t = bootKeyMem s" "boot_mode t = boot_mode s"
    "\<not> usb_reg r \<Longrightarrow> io t r = io s r"
  using assms by (simp_all add: init_core_def fun_eq_iff) metis

text \<open>The registers written before the USB controller is initialised.\<close>

definition setup_done :: "'h fw \<Rightarrow> 'h fw \<Rightarrow> bool" where
  "setup_done s u \<longleftrightarrow> io u MCUCR = BV IVSEL \<and> io u TIMSK1 = BV OCIE1A \<and> io u TCCR1B = BV CS11 OR BV CS10 OR BV WGM12
    \<and> io u OCR1AH = 48 \<and> io u OCR1AL = 211 \<and> io u UCSR1A = BV U2X1 \<and> io u UCSR1B = BV RXEN1 OR BV TXEN1 OR BV RXCIE1
    \<and> io u UBRR1H = 0 \<and> io u UBRR1L = 16 \<and> at_sketch u = at_sketch s \<and> bootKeyMem u = bootKeyMem s"

lemma setup_registers:
  "\<exists>u. setup_hardware m s = USB_Init m u \<bind> (\<lambda>s. Some (sei s)) \<and> setup_done s u"
  by (rule exI, rule conjI, unfold setup_hardware_def Let_def, rule refl)
    (simp add: setup_done_def reg_simps LED_SETUP_def L_LED_OFF_def ACT_LED_OFF_def SERIAL_2X_UBBRVAL_def
      BAUD_RATE_def hi8_def lo8_def case_prod_unfold)

text \<open>(C35) \<^verbatim>\<open>setup_hardware\<close> always returns, whatever the hardware, and leaves: interrupts on and vectored to the boot
  section; the timer dividing 16 MHz to exactly 20 Hz with its compare interrupt on; the UART in double
  speed mode, 8 bits, receiver and transmitter on, within 2.2 percent of 115200 baud; the USB device
  initialised and not yet attached to a configuration.\<close>

theorem setup_hardware_state:
  "\<exists>t. setup_hardware m s = Some t \<and> I_flag t \<and> io t MCUCR = BV IVSEL
    \<and> io t TIMSK1 = BV OCIE1A \<and> io t TCCR1B = BV CS11 OR BV CS10 OR BV WGM12
    \<and> 20 * (64 * (unat (mk16 (io t OCR1AH) (io t OCR1AL)) + 1)) = 16000000
    \<and> io t UCSR1A = BV U2X1 \<and> io t UCSR1B = BV RXEN1 OR BV TXEN1 OR BV RXCIE1
    \<and> (let baud = 16000000 div (8 * (unat (mk16 (io t UBRR1H) (io t UBRR1L)) + 1))
       in 1000 * (baud - BAUD_RATE) \<le> 22 * BAUD_RATE \<and> BAUD_RATE \<le> baud)
    \<and> interlock t \<and> at_sketch t = at_sketch s \<and> bootKeyMem t = bootKeyMem s"
proof -
  from setup_registers [of m s] obtain u where
    eq: "setup_hardware m s = USB_Init m u \<bind> (\<lambda>s. Some (sei s))" and u: "setup_done s u" by blast
  obtain v where v: "USB_Init m u = Some v" using USB_Init_returns by blast
  have i: "init_core v = init_core u" by (rule init_USB_Init [OF v])
  have "interlock v" by (rule interlock_init [OF v])
  moreover have "io v r = io u r" if "\<not> usb_reg r" for r using init_fields(4) [OF i that] .
  ultimately show ?thesis
    using init_fields(1,2) [OF i] u
    by (simp add: setup_done_def eq v sei_def interlock_def usb_reg_def unat_mk16 BAUD_RATE_def)
qed

lemma setup_key:
  assumes "setup_hardware m s = Some t"
  shows "bootKeyMem t = bootKeyMem s"
proof -
  from setup_registers [of m s] obtain u where eq: "setup_hardware m s = USB_Init m u \<bind> (\<lambda>s. Some (sei s))"
    and "bootKeyMem u = bootKeyMem s" by (auto simp: setup_done_def)
  moreover from assms obtain v where "USB_Init m u = Some v" "t = sei v"
    by (auto simp: eq bind_Some_iff)
  ultimately show ?thesis using init_fields(2) [OF init_USB_Init, of m u v] by (simp add: sei_def)
qed

section \<open>The decision and the hand-over\<close>

lemma start_sketch_state:
  "at_sketch (start_sketch m s)" "\<not> I_flag (start_sketch m s)" "bootKeyMem (start_sketch m s) = bootKeyMem s"
  "io (start_sketch m s) UCSR1B = 0" "io (start_sketch m s) TIMSK1 = 0" "io (start_sketch m s) TCCR1B = 0"
  "io (start_sketch m s) TCNT1H = 0" "io (start_sketch m s) TCNT1L = 0" "io (start_sketch m s) MCUCR = 0" "\<not> tst (io (start_sketch m s) PORTC) 7" "\<not> tst (io (start_sketch m s) PORTD) 5"
  "boot_mode (start_sketch m s) = boot_mode s" "Timeout (start_sketch m s) = Timeout s"
  "usb_reg r \<Longrightarrow> io (start_sketch m s) r = io s r" "USB_IsInitialized (start_sketch m s) = USB_IsInitialized s"
  by (auto simp: start_sketch_def L_LED_OFF_def ACT_LED_OFF_def reg_simps Let_def usb_reg_def)

lemma boot_prologue_state:
  assumes "boot_prologue m s = ((v, k, a), u)"
  shows "k = bootKeyMem s" "bootKeyMem u = 0" "v = fst (rd_reg m MCUSR (hw s))"
    "usb_reg r \<Longrightarrow> io u r = io s r" "USB_IsInitialized u = USB_IsInitialized s" "boot_mode u = boot_mode s"
  using assms by (auto simp: boot_prologue_def reg_simps Let_def usb_reg_def)

text \<open>What the decision looks at: the cause of the reset in \<^verbatim>\<open>MCUSR\<close>, and the first word of the flash, which is
  erased when there is no sketch.\<close>

definition reset_cause :: "'h mcu \<Rightarrow> 'h fw \<Rightarrow> u8" where
  "reset_cause m s = fst (rd_reg m MCUSR (hw s))"

definition first_word :: "'h mcu \<Rightarrow> 'h fw \<Rightarrow> u16" where
  "first_word m s = (let h = hw_wdt_disable m (wr_reg m MCUSR 0 (snd (rd_reg m MCUSR (hw s))))
     in mk16 (hw_pgm_byte m 1 h) (hw_pgm_byte m 0 h))"

lemma boot_prologue_decides:
  assumes "boot_prologue m s = ((v, k, a), u)"
  shows "skip_bootloader v k a \<longleftrightarrow> first_word m s \<noteq> 0xFFFF \<and> \<not> tst (reset_cause m s) EXTRF
    \<and> (tst (reset_cause m s) PORF \<or> tst (reset_cause m s) WDRF \<and> bootKeyMem s \<noteq> 0x7777)"
proof -
  have "a \<longleftrightarrow> first_word m s \<noteq> 0xFFFF" "v = reset_cause m s"
    using assms by (auto simp: boot_prologue_def first_word_def reset_cause_def pgm_read_word_def pgm_read_byte_def
        reg_simps hwop_def Let_def)
  then show ?thesis using boot_prologue_state(1) [OF assms] by (auto simp: skip_bootloader_def bootKey_def)
qed

lemma main_loader:
  assumes "main m s = Some t" "boot_prologue m s = ((v, k, a), u)" "\<not> skip_bootloader v k a"
  shows "\<exists>w. t = start_sketch m (USB_Detach m w) \<and> bootKeyMem w = 0 \<and> boot_mode w = BM_NORMAL_BOOT \<and> Timeout w = 0"
proof -
  from assms obtain u1 held u2 u3 w where 1: "setup_hardware m u = Some u1"
    and 2: "check_reset m ACT_STAY_INTO_BOOTLOADER u1 = Some (held, u2)"
    and 3: "(if held \<or> \<not> a then boot_menu m u2 else Some (u2\<lparr>leds_enabled := BM_NORMAL_BOOT,
      boot_mode := BM_NORMAL_BOOT, Timeout := ACT_BOOTLOADER_TIMEOUT\<rparr>)) = Some u3"
    and 4: "bootloader_loop m u3 = Some w" and t: "t = start_sketch m (USB_Detach m w)"
    by (auto simp: main_def bind_Some_iff)
  have "bootKeyMem u1 = bootKeyMem u" using setup_key [OF 1] .
  moreover have "bootKeyMem u2 = bootKeyMem u1"
    using boot_check_reset [OF 2] by (auto simp: boot_kept_def boot_core_def)
  moreover have "bootKeyMem u3 = bootKeyMem u2"
    using 3 boot_boot_menu [of m u2 u3] by (auto simp: menu_ok_def split: if_splits)
  moreover have "bootKeyMem w = bootKeyMem u3" "boot_mode w = BM_NORMAL_BOOT" "Timeout w = 0"
    using boot_bootloader_loop [OF 4] by (auto simp: boot_kept_def boot_core_def)
  ultimately show ?thesis using t boot_prologue_state(2) [OF assms(2)] by auto
qed

text \<open>(C28) The decision on the cause of the reset. If flash holds a sketch (its first word is not erased), the
  reset was not external, and it was a power-on, or a watchdog reset without the boot key \<open>0x7777\<close> in
  memory, then \<^verbatim>\<open>main\<close> starts the sketch at once: it returns with the USB controller not touched, the key
  consumed and the boot mode as it was. Otherwise it gets to the sketch only through the loader: in the mode of a normal
  start, with the time-out used up and the device detached from the bus again.\<close>

theorem boot_decision:
  "if first_word m s \<noteq> 0xFFFF \<and> \<not> tst (reset_cause m s) EXTRF
     \<and> (tst (reset_cause m s) PORF \<or> tst (reset_cause m s) WDRF \<and> bootKeyMem s \<noteq> 0x7777)
   then \<exists>t. main m s = Some t \<and> at_sketch t \<and> bootKeyMem t = 0 \<and> boot_mode t = boot_mode s
     \<and> USB_IsInitialized t = USB_IsInitialized s \<and> (\<forall>r. usb_reg r \<longrightarrow> io t r = io s r)
   else \<forall>t. main m s = Some t \<longrightarrow> at_sketch t \<and> bootKeyMem t = 0 \<and> boot_mode t = BM_NORMAL_BOOT
     \<and> Timeout t = 0 \<and> tst (io t UDCON) DETACH"
proof -
  obtain v k a u where p: "boot_prologue m s = ((v, k, a), u)" by (metis prod.exhaust)
  have skip: "main m s = Some (start_sketch m u)" if "skip_bootloader v k a" using that p by (simp add: main_def)
  have load: "at_sketch t \<and> bootKeyMem t = 0 \<and> boot_mode t = BM_NORMAL_BOOT \<and> Timeout t = 0 \<and> tst (io t UDCON) DETACH"
    if r: "main m s = Some t" "\<not> skip_bootloader v k a" for t
  proof -
    from main_loader [OF r(1) p r(2)] obtain w where "t = start_sketch m (USB_Detach m w)" "bootKeyMem w = 0"
      "boot_mode w = BM_NORMAL_BOOT" "Timeout w = 0" by blast
    then show ?thesis by (simp add: start_sketch_state) (simp add: USB_Detach_def reg_simps)
  qed
  show ?thesis using skip load boot_prologue_state [OF p]
    unfolding boot_prologue_decides [OF p, symmetric] by (simp add: start_sketch_state)
qed

text \<open>(C29) The hand-over, for any hardware: whenever \<^verbatim>\<open>main\<close> comes to an end it is at the start of the sketch with
  interrupts off, the control register B of the UART, the interrupt mask, the control register B and the
  counter of the timer and the control register of the vector table cleared, the LEDs off and the boot key
  cleared. If the loader proper has run, it ends in the mode of a normal start with its
  time-out used up, and the last thing done to the USB controller is to detach it from the bus.\<close>

theorem main_hands_over:
  assumes "main m s = Some t"
  shows "at_sketch t \<and> \<not> I_flag t \<and> bootKeyMem t = 0 \<and> io t UCSR1B = 0 \<and> io t TIMSK1 = 0 \<and> io t TCCR1B = 0
    \<and> io t TCNT1H = 0 \<and> io t TCNT1L = 0 \<and> io t MCUCR = 0 \<and> \<not> tst (io t PORTC) 7 \<and> \<not> tst (io t PORTD) 5
    \<and> (case boot_prologue m s of ((v, k, a), u) \<Rightarrow> \<not> skip_bootloader v k a \<longrightarrow>
         boot_mode t = BM_NORMAL_BOOT \<and> Timeout t = 0 \<and> tst (io t UDCON) DETACH)"
proof -
  obtain v k a u where p: "boot_prologue m s = ((v, k, a), u)" by (metis prod.exhaust)
  show ?thesis
  proof (cases "skip_bootloader v k a")
    case True
    with assms p have "t = start_sketch m u" by (simp add: main_def)
    then show ?thesis using boot_prologue_state(2) [OF p] True p by (simp add: start_sketch_state)
  next
    case False
    from main_loader [OF assms p False] obtain w where "t = start_sketch m (USB_Detach m w)" "bootKeyMem w = 0"
      "boot_mode w = BM_NORMAL_BOOT" "Timeout w = 0" by blast
    then show ?thesis using p by (simp add: start_sketch_state) (simp add: USB_Detach_def reg_simps)
  qed
qed

end
