(* ===== verification/Bridge.thy ===== *)
theory Bridge
  imports Boot_Safety
begin

text \<open>
  The serial bridge, \<^verbatim>\<open>CDC_Task\<close> of \<^verbatim>\<open>Adelino.c\<close>, between the ring buffer that the UART's interrupt fills, the
  USB byte port and the UART's transmitter. The laws of the byte port are those of \<open>cdc_link\<close>; the
  transmitter adds its own.
\<close>

section \<open>From the serial line to the host\<close>

text \<open>What the loop over the ring buffer leaves alone.\<close>

definition bridge_frame :: "('h \<Rightarrow> usb_view) \<Rightarrow> ('h \<Rightarrow> 'r) \<Rightarrow> 'h fw \<Rightarrow> 'h fw \<Rightarrow> bool" where
  "bridge_frame view rest s t \<longleftrightarrow> boot_mode t = boot_mode s \<and> led_control t = led_control s
     \<and> rest (hw t) = rest (hw s) \<and> rxq (view (hw t)) = rxq (view (hw s))"

text \<open>What becomes of the bytes \<open>arr\<close> that were still to arrive when only \<open>as\<close> of them have been passed on: those
  that are neither passed on, nor in the ring buffer, nor still to arrive were dropped, and with room for
  all in the buffer there are none.\<close>

definition forwarded :: "('h \<Rightarrow> u8 list) \<Rightarrow> 'h fw \<Rightarrow> u8 list \<Rightarrow> 'h fw \<Rightarrow> bool" where
  "forwarded arr s as t \<longleftrightarrow> subseq (as @ ring_list t @ arr (hw t)) (arr (hw s))
     \<and> (length (ring_list s) + length (arr (hw s)) \<le> 255 \<longrightarrow> as @ ring_list t @ arr (hw t) = arr (hw s))"

lemma subseq_prefix [simp]: "subseq (zs @ xs) (zs @ ys) \<longleftrightarrow> subseq xs ys"
  by (induction zs) auto

lemma forwarded_step:
  assumes "forwarded arr s as t" "arrivals_kept arr t u"
  shows "forwarded arr s as u"
proof -
  have "subseq (as @ ring_list u @ arr (hw u)) (as @ ring_list t @ arr (hw t))"
    using assms(2) by (simp add: arrivals_kept_def)
  then have 1: "subseq (as @ ring_list u @ arr (hw u)) (arr (hw s))"
    using assms(1) subseq_order.order_trans unfolding forwarded_def by blast
  have 2: "as @ ring_list u @ arr (hw u) = arr (hw s)" if room: "length (ring_list s) + length (arr (hw s)) \<le> 255"
  proof -
    have e: "as @ ring_list t @ arr (hw t) = arr (hw s)" using assms(1) room by (simp add: forwarded_def)
    from arg_cong [OF e, of length] have "length (ring_list t) + length (arr (hw t)) \<le> 255" using room by simp
    then have "ring_list u @ arr (hw u) = ring_list t @ arr (hw t)" using assms(2) by (simp add: arrivals_kept_def)
    then show ?thesis using e by simp
  qed
  from 1 2 show ?thesis by (simp add: forwarded_def)
qed

lemma forwarded_drained:
  assumes "arrivals_kept arr s t" "ring_list s = chs" "ring_list t = chs @ bs" "forwarded arr t as u" "ring_list u = []"
    and room: "length (ring_list r) = Suc (length chs)" "arr (hw r) = arr (hw s)"
  shows "forwarded arr r (bs @ as) u"
proof -
  have a: "subseq (bs @ arr (hw t)) (arr (hw s))" using assms(1-3) by (simp add: arrivals_kept_def)
  have "subseq (bs @ as @ arr (hw u)) (bs @ arr (hw t))" using assms(4,5) by (simp add: forwarded_def)
  then have 1: "subseq (bs @ as @ arr (hw u)) (arr (hw s))" using a subseq_order.order_trans by blast
  have 2: "bs @ as @ arr (hw u) = arr (hw s)" if l: "length (ring_list r) + length (arr (hw r)) \<le> 255"
  proof -
    have e: "bs @ arr (hw t) = arr (hw s)" using l room assms(1-3) by (simp add: arrivals_kept_def del: length_ring_list)
    have "length (ring_list t) + length (arr (hw t)) \<le> 255"
      using l room arg_cong [OF e, of length] assms(3) by (simp del: length_ring_list)
    then have "as @ arr (hw u) = arr (hw t)" using assms(4,5) by (simp add: forwarded_def del: length_ring_list)
    then show ?thesis using e by simp
  qed
  from 1 2 show ?thesis using assms(5) room(2) by (simp add: forwarded_def)
qed

lemma ring_get_view [simp]:
  "hw (snd (ring_get s)) = hw s" "boot_mode (snd (ring_get s)) = boot_mode s"
  "led_control (snd (ring_get s)) = led_control s"
  by (simp_all add: ring_get_def)

context cdc_link
begin

declare length_ring_list [simp del]

lemma ring_get_ready: "ready (snd (ring_get s)) = ready s"
  by (simp add: ring_get_def port_ready_def link_up_def timely_def)

lemma step_frame:
  "step s t \<Longrightarrow> rxq (view (hw t)) = rxq (view (hw s)) \<Longrightarrow> bridge_frame view rest s t"
  by (simp add: bridge_frame_def link_step_def quiet_def)

lemma step_ring:
  assumes "step s t" "ring_inv s"
  shows "ring_inv t" "prefix (ring_list s) (ring_list t)" "arrivals_kept arr s t"
  using assms by (simp_all add: link_step_def quiet_def)

lemma arrivals_length:
  "arrivals_kept arr s t \<Longrightarrow> length (ring_list t) + length (arr (hw t)) \<le> length (ring_list s) + length (arr (hw s))"
  using list_emb_length [of "(=)" "ring_list t @ arr (hw t)" "ring_list s @ arr (hw s)"]
  by (simp add: arrivals_kept_def)

lemma uart_to_usb_tx:
  assumes "ready s" "ring_inv s"
  shows "\<exists>t as. uart_to_usb m s = Some t \<and> ready t \<and> ring_inv t \<and> ring_list t = []
    \<and> tx t = tx s @ ring_list s @ as \<and> forwarded arr s as t \<and> bridge_frame view rest s t"
  using assms
proof (induction "length (ring_list s) + length (arr (hw s))" arbitrary: s rule: less_induct)
  case less
  show ?case
  proof (cases "ring_list s")
    case Nil
    then have "\<not> ring_nonempty s" using rq.ne_abs [OF less.prems(2)] by simp
    then show ?thesis using less.prems Nil
      by (subst uart_to_usb.simps) (auto simp: bridge_frame_def forwarded_def intro!: exI [of _ s] exI [of _ "[]"])
  next
    case (Cons ch chs)
    let ?s = "snd (ring_get s)"
    have g: "fst (ring_get s) = ch" "ring_list ?s = chs" "ring_inv ?s" "ready ?s"
      using rq.get_fst [OF less.prems(2)] rq.get_abs [OF less.prems(2)] rq.get_inv [OF less.prems(2)]
        ring_get_ready [of s] less.prems(1) Cons by simp_all
    from usb_write_byte_tx [OF g(4), of ch] obtain u where u: "usb_write_byte m ch ?s = Some u" "step ?s u"
      "ready u" "tx u = tx s @ [ch]" "rxq (view (hw u)) = rxq (view (hw s))"
      by (auto simp: tx_stream_def)
    note k = step_ring [OF u(2) g(3)]
    from k(2) g(2) obtain bs where r: "ring_list u = chs @ bs" by (auto elim!: prefixE)
    have "length (ring_list u) + length (arr (hw u)) < length (ring_list s) + length (arr (hw s))"
      using arrivals_length [OF k(3)] g(2) Cons by simp
    from less.hyps [OF this u(3) k(1)] obtain t as where
      t: "uart_to_usb m u = Some t" "ready t" "ring_inv t" "ring_list t = []"
        "tx t = tx u @ ring_list u @ as" "forwarded arr u as t" "bridge_frame view rest u t"
      by blast
    have "uart_to_usb m s = Some t"
      using u(1) t(1) g(1) rq.ne_abs [OF less.prems(2)] Cons
      by (subst uart_to_usb.simps) (simp add: case_prod_unfold)
    moreover have "bridge_frame view rest s t"
      using step_frame [OF u(2)] u(5) t(7) by (simp add: bridge_frame_def)
    moreover have "forwarded arr s (bs @ as) t"
      by (rule forwarded_drained [OF k(3) g(2) r t(6,4)]) (simp_all add: Cons)
    ultimately show ?thesis using t u(4) r Cons
      by (intro exI [of _ t] exI [of _ "bs @ as"]) simp
  qed
qed

text \<open>Up to the test for a byte from the host.\<close>

lemma CDC_Task_head:
  assumes "ready s" "ring_inv s"
  shows "\<exists>t as r. CDC_Task m s = (if \<not> r then Some t else do {
         (ch, s) \<leftarrow> usb_read_byte m t; s \<leftarrow> usb_char m ch s; Some (s\<lparr>led_control := 0xFF\<rparr>) })
    \<and> ready t \<and> ring_inv t \<and> tx t = tx s @ ring_list s @ as \<and> forwarded arr s as t \<and> rx t = rx s
    \<and> boot_mode t = boot_mode s \<and> led_control t = led_control s \<and> rest (hw t) = rest (hw s)
    \<and> txb (view (hw t)) = [] \<and> (r \<longleftrightarrow> (\<exists>b p q. rxq (view (hw s)) = (b # p) # q))"
proof -
  from uart_to_usb_tx [OF assms] obtain u as where u: "uart_to_usb m s = Some u" "ready u"
    "tx u = tx s @ ring_list s @ as" "forwarded arr s as u" "bridge_frame view rest s u" "ring_inv u" by blast
  from usb_flush_tx [OF u(2)] obtain v where v: "usb_flush m u = Some v" "step u v" "ready v" "tx v = tx u"
    "txb (view (hw v)) = []" "rxq (view (hw v)) = rxq (view (hw u))" by blast
  from v(3) have "up v" by (simp add: port_ready_def)
  from usb_byte_available_up [OF this] obtain t r where t: "usb_byte_available m v = Some (r, t)" "step v t"
    "view (hw t) = (view (hw v))\<lparr>sel := CDC_RX_EPNUM, rxq := (case rxq (view (hw v)) of [] # q \<Rightarrow> q | q \<Rightarrow> q)\<rparr>"
    "r \<longleftrightarrow> (\<exists>b p q. rxq (view (hw v)) = (b # p) # q)" by blast
  have "ready t" "tx t = tx v" "rx t = rx v" "txb (view (hw t)) = []"
    using t(3) v(3,5) step_up [OF t(2) \<open>up v\<close>]
    by (auto simp: port_ready_def tx_stream_def rx_stream_def split: list.splits)
  moreover have "boot_mode t = boot_mode s \<and> led_control t = led_control s \<and> rest (hw t) = rest (hw s)"
    using t(2) v(2) u(5) by (simp add: link_step_def quiet_def bridge_frame_def)
  moreover have "CDC_Task m s = (if \<not> r then Some t else do {
         (ch, s) \<leftarrow> usb_read_byte m t; s \<leftarrow> usb_char m ch s; Some (s\<lparr>led_control := 0xFF\<rparr>) })"
    using u(1) v(1) t(1) by (simp add: CDC_Task_def)
  moreover have "ring_inv t" "forwarded arr s as t"
    using step_ring [OF step_trans [OF v(2) t(2)] u(6)] forwarded_step [OF u(4)] by simp_all
  ultimately show ?thesis using u v(4,6) t(4)
    by (intro exI [of _ t] exI [of _ as] exI [of _ r]) (auto simp: bridge_frame_def rx_stream_def)
qed

end

section \<open>From the host to the serial line\<close>

text \<open>
  The transmitter: \<open>uart\<close> is what has been sent on the line, and it is the rest of the hardware for the byte
  port. A poll of the status register changes nothing the port sees; if the data register is not
  empty the poll is one of the \<open>drain\<close> polls until it is. A byte written after a successful poll is sent.
\<close>

locale uart_link = cdc_link m view uart ticks arr calm
  for m :: "'h mcu" and view :: "'h \<Rightarrow> usb_view" and uart :: "'h \<Rightarrow> u8 list"
    and ticks :: "'h \<Rightarrow> nat" and arr :: "'h \<Rightarrow> u8 list" and calm :: "'h \<Rightarrow> bool" +
  fixes drain :: "'h \<Rightarrow> nat"
  assumes status_read: "calm h \<Longrightarrow> calm (snd (rd_reg m UCSR1A h)) \<and> view (snd (rd_reg m UCSR1A h)) = view h
      \<and> uart (snd (rd_reg m UCSR1A h)) = uart h \<and> ticks (snd (rd_reg m UCSR1A h)) = ticks h
      \<and> arr (snd (rd_reg m UCSR1A h)) = arr h"
    and drains: "calm h \<Longrightarrow> \<not> tst (fst (rd_reg m UCSR1A h)) UDRE1 \<Longrightarrow> drain (snd (rd_reg m UCSR1A h)) < drain h"
    and drain_irq: "calm h \<Longrightarrow> irq_line m i h = (x, h') \<Longrightarrow> drain h' \<le> drain h \<and> drain (snd (rd_reg m UDR1 h)) \<le> drain h"
    and data_write: "calm h \<Longrightarrow> tst (fst (rd_reg m UCSR1A h)) UDRE1 \<Longrightarrow> h' = snd (rd_reg m UCSR1A h) \<Longrightarrow>
      uart (wr_reg m UDR1 b h') = uart h' @ [b] \<and> calm (wr_reg m UDR1 b h') \<and> view (wr_reg m UDR1 b h') = view h'
      \<and> ticks (wr_reg m UDR1 b h') = ticks h' \<and> arr (wr_reg m UDR1 b h') = arr h'"
begin

lemma status_step: "up s \<Longrightarrow> step s (s\<lparr>hw := snd (rd_reg m UCSR1A (hw s))\<rparr>)
    \<and> view (snd (rd_reg m UCSR1A (hw s))) = view (hw s)"
  using status_read [of "hw s"] by (auto simp: link_step_def link_up_def timely_def intro!: arrivals_refl)

lemma irq_point_drain:
  assumes "up s" "irq_point m s = Some t"
  shows "drain (hw t) \<le> drain (hw s)"
proof -
  obtain v h where v: "irq_line m (I_flag s) (hw s) = (v, h)" by fastforce
  from assms(1) have c: "calm (hw s)" by (simp add: link_up_def)
  from irq [OF c v] have h: "calm h" "v \<noteq> Some USB_GEN_vect" by simp_all
  have "drain (snd (rd_reg m UDR1 h)) \<le> drain h"
    using drain_irq [OF h(1), of "I_flag s"] by (metis surj_pair)
  moreover have "hw t \<in> {h, snd (rd_reg m UDR1 h)}"
    using assms(2) h(2) v
    by (auto simp: irq_point_def USART1_RX_isr_def TIMER1_COMPA_isr_def reg_simps Let_def
        split: if_splits option.splits vect.splits)
  ultimately show ?thesis using drain_irq [OF c v] by auto
qed

lemma putch_wait_up:
  assumes "up s"
  shows "\<exists>u. putch_wait m s = Some (u\<lparr>hw := snd (rd_reg m UCSR1A (hw u))\<rparr>) \<and> step s u \<and> view (hw u) = view (hw s)
    \<and> tst (fst (rd_reg m UCSR1A (hw u))) UDRE1"
  using assms
proof (induction "drain (hw s)" arbitrary: s rule: less_induct)
  case less
  let ?a = "s\<lparr>hw := snd (rd_reg m UCSR1A (hw s))\<rparr>"
  show ?case
  proof (cases "tst (fst (rd_reg m UCSR1A (hw s))) UDRE1")
    case True
    then show ?thesis by (intro exI [of _ s], subst putch_wait.simps) (simp add: rd_device)
  next
    case False
    have a: "step s ?a" "view (hw ?a) = view (hw s)" using status_step [OF less.prems] by simp_all
    have ua: "up ?a" by (rule step_up [OF a(1) less.prems])
    from irq_point_up [OF ua] obtain b where b: "irq_point m ?a = Some b" "step ?a b" "view (hw b) = view (hw ?a)"
      by blast
    have "drain (hw b) < drain (hw s)"
      using irq_point_drain [OF ua b(1)] drains [of "hw s"] False less.prems by (simp add: link_up_def)
    from less.hyps [OF this step_up [OF b(2) ua]] obtain u where
      u: "putch_wait m b = Some (u\<lparr>hw := snd (rd_reg m UCSR1A (hw u))\<rparr>)" "step b u" "view (hw u) = view (hw b)"
        "tst (fst (rd_reg m UCSR1A (hw u))) UDRE1" by blast
    have "putch_wait m s = putch_wait m b"
      using False b(1) by (subst putch_wait.simps) (simp add: rd_device)
    then show ?thesis using u a(2) b(3) step_trans [OF a(1) step_trans [OF b(2) u(2)]] by auto
  qed
qed

lemma putch_uart:
  assumes "ready s"
  shows "\<exists>t. putch m b s = Some t \<and> ready t \<and> uart (hw t) = uart (hw s) @ [b] \<and> rx t = rx s \<and> tx t = tx s
    \<and> boot_mode t = boot_mode s \<and> (ring_inv s \<longrightarrow> arrivals_kept arr s t)"
proof -
  have up: "up s" "busy (view (hw s)) = 0" using assms by (simp_all add: port_ready_def)
  from putch_wait_up [OF up(1)] obtain u where
    u: "putch_wait m s = Some (u\<lparr>hw := snd (rd_reg m UCSR1A (hw u))\<rparr>)" "step s u" "view (hw u) = view (hw s)"
      "tst (fst (rd_reg m UCSR1A (hw u))) UDRE1" by blast
  let ?h = "snd (rd_reg m UCSR1A (hw u))"
  have uu: "up u" by (rule step_up [OF u(2) up(1)])
  then have c: "calm (hw u)" by (simp add: link_up_def)
  have q: "uart (hw u) = uart (hw s)" "boot_mode u = boot_mode s" "io u TIMSK1 = io s TIMSK1"
    using u(2) by (simp_all add: link_step_def quiet_def)
  have "putch m b s = Some (wr m UDR1 b (u\<lparr>hw := ?h\<rparr>))" using u(1) by (simp add: putch_def)
  moreover have "ready (wr m UDR1 b (u\<lparr>hw := ?h\<rparr>))"
    using uu up(2) u(3) status_read [OF c] data_write [OF c u(4) refl, of b]
    by (auto simp: port_ready_def link_up_def timely_def reg_simps)
  moreover have "arrivals_kept arr s (wr m UDR1 b (u\<lparr>hw := ?h\<rparr>))" if "ring_inv s"
  proof (rule arrivals_trans)
    show "arrivals_kept arr s u" using u(2) that by (simp add: link_step_def)
    show "arrivals_kept arr u (wr m UDR1 b (u\<lparr>hw := ?h\<rparr>))"
      using status_read [OF c] data_write [OF c u(4) refl, of b]
      by (intro arrivals_refl) (simp_all add: reg_simps ring_list_def)
  qed
  ultimately show ?thesis using status_read [OF c] data_write [OF c u(4) refl, of b] q u(3)
    by (auto simp: reg_simps rx_stream_def tx_stream_def)
qed

end

section \<open>Properties of the bridge\<close>

text \<open>(C31) Serial to USB: one call of \<^verbatim>\<open>CDC_Task\<close> with nothing from the host returns, and has given the host everything
  that was in the ring buffer, in order, followed by bytes that arrived meanwhile. What the UART handed
  over comes in order, and is passed on, in the ring buffer, or still to come, with nothing lost unless
  the buffer was full. The bank is flushed, and neither the boot mode nor the LED mode changes.\<close>

theorem bridge_serial_to_host:
  assumes "cdc_link m view rest ticks arr calm" "port_ready view ticks calm s" "ring_inv s" "rx_stream view s = []"
  shows "\<exists>t as. CDC_Task m s = Some t \<and> tx_stream view t = tx_stream view s @ ring_list s @ as
    \<and> subseq (as @ ring_list t @ arr (hw t)) (arr (hw s))
    \<and> (length (ring_list s) + length (arr (hw s)) \<le> 255 \<longrightarrow> as @ ring_list t @ arr (hw t) = arr (hw s))
    \<and> ring_inv t \<and> txb (view (hw t)) = [] \<and> rx_stream view t = [] \<and> port_ready view ticks calm t
    \<and> boot_mode t = boot_mode s \<and> led_control t = led_control s \<and> rest (hw t) = rest (hw s)"
proof -
  have "\<not> (\<exists>b p q. rxq (view (hw s)) = (b # p) # q)" using assms(4) by (auto simp: rx_stream_def)
  with cdc_link.CDC_Task_head [OF assms(1-3)] assms(4) show ?thesis unfolding forwarded_def by fastforce
qed

text \<open>(C32) USB to serial: a byte from the host other than the three control characters is sent on the line as it is,
  and the LEDs are switched to the breathing animation (\<^verbatim>\<open>led_control\<close> is \<open>0xFF\<close>). The bytes from the line still go
  to the host, in order and with nothing lost unless the ring buffer was full.\<close>

theorem bridge_host_to_serial:
  assumes "uart_link m view uart ticks arr calm drain" "port_ready view ticks calm s" "ring_inv s"
    and "rxq (view (hw s)) = (b # p) # q" "b \<notin> {0xC0, 27, 4}"
  shows "\<exists>t as. CDC_Task m s = Some t \<and> uart (hw t) = uart (hw s) @ [b] \<and> rx_stream view t = p @ concat q
    \<and> tx_stream view t = tx_stream view s @ ring_list s @ as
    \<and> subseq (as @ ring_list t @ arr (hw t)) (arr (hw s))
    \<and> (length (ring_list s) + length (arr (hw s)) \<le> 255 \<longrightarrow> as @ ring_list t @ arr (hw t) = arr (hw s))
    \<and> led_control t = 0xFF \<and> boot_mode t = boot_mode s"
proof -
  note link = uart_link.axioms(1) [OF assms(1)]
  have x: "rx_stream view s = b # (p @ concat q)" using assms(4) by (simp add: rx_stream_def)
  have "\<exists>b p q'. rxq (view (hw s)) = (b # p) # q'" using assms(4) by blast
  with cdc_link.CDC_Task_head [OF link assms(2,3)] obtain t as where
    t: "CDC_Task m s = (do { (ch, s) \<leftarrow> usb_read_byte m t; s \<leftarrow> usb_char m ch s; Some (s\<lparr>led_control := 0xFF\<rparr>) })"
      "port_ready view ticks calm t" "tx_stream view t = tx_stream view s @ ring_list s @ as"
      "rx_stream view t = rx_stream view s" "boot_mode t = boot_mode s" "uart (hw t) = uart (hw s)"
      "ring_inv t" "forwarded arr s as t" by auto
  from cdc_link.usb_read_byte_rx [OF link t(2)] x t(4) obtain u where
    u: "usb_read_byte m t = Some (b, u)" "link_step uart ticks arr calm t u" "port_ready view ticks calm u"
      "rx_stream view u = p @ concat q" "tx_stream view u = tx_stream view t" by auto
  from uart_link.putch_uart [OF assms(1) u(3), of b] obtain v where
    v: "putch m b u = Some v" "uart (hw v) = uart (hw u) @ [b]" "rx_stream view v = rx_stream view u"
      "tx_stream view v = tx_stream view u" "boot_mode v = boot_mode u" "ring_inv u \<longrightarrow> arrivals_kept arr u v" by blast
  have k: "ring_inv u" "arrivals_kept arr t u" using cdc_link.step_ring [OF link u(2) t(7)] by simp_all
  have "forwarded arr s as v" using forwarded_step [OF forwarded_step [OF t(8) k(2)]] v(6) k(1) by simp
  then have fw: "forwarded arr s as (v\<lparr>led_control := 0xFF\<rparr>)" by (simp add: forwarded_def ring_list_def)
  have q: "uart (hw u) = uart (hw t)" "boot_mode u = boot_mode t"
    using u(2) by (simp_all add: link_step_def quiet_def)
  have "CDC_Task m s = Some (v\<lparr>led_control := 0xFF\<rparr>)"
    using t(1) u(1) v(1) assms(5) by (simp add: usb_char_def)
  then show ?thesis using t u v q fw unfolding forwarded_def
    by (intro exI [of _ "v\<lparr>led_control := 0xFF\<rparr>"] exI [of _ as]) (auto simp: rx_stream_def tx_stream_def)
qed

text \<open>The status query: the host's character 4 is answered with a backslash, a \<open>D\<close> and the boot mode, after the
  bytes of the serial line; nothing is sent on the line.\<close>

theorem bridge_status_query:
  assumes "cdc_link m view rest ticks arr calm" "port_ready view ticks calm s" "ring_inv s"
    and "rxq (view (hw s)) = (4 # p) # q"
  shows "\<exists>t as. CDC_Task m s = Some t \<and> rx_stream view t = p @ concat q
    \<and> tx_stream view t = tx_stream view s @ ring_list s @ as @ [92, 68, boot_mode s]
    \<and> led_control t = 0xFF \<and> boot_mode t = boot_mode s \<and> rest (hw t) = rest (hw s)"
proof -
  have "\<exists>b p q'. rxq (view (hw s)) = (b # p) # q'" using assms(4) by blast
  with cdc_link.CDC_Task_head [OF assms(1-3)] obtain t as where
    t: "CDC_Task m s = (do { (ch, s) \<leftarrow> usb_read_byte m t; s \<leftarrow> usb_char m ch s; Some (s\<lparr>led_control := 0xFF\<rparr>) })"
      "port_ready view ticks calm t" "tx_stream view t = tx_stream view s @ ring_list s @ as"
      "rx_stream view t = rx_stream view s" "boot_mode t = boot_mode s" "rest (hw t) = rest (hw s)" by auto
  have x: "rx_stream view t = 4 # (p @ concat q)" using assms(4) t(4) by (simp add: rx_stream_def)
  note wr = cdc_link.usb_write_byte_tx [OF assms(1)]
  from cdc_link.usb_read_byte_rx [OF assms(1) t(2) x] obtain u where
    u: "usb_read_byte m t = Some (4, u)" "link_step rest ticks arr calm t u" "port_ready view ticks calm u"
      "rx_stream view u = p @ concat q" "tx_stream view u = tx_stream view t" by auto
  from wr [OF u(3), of 92] obtain v where v: "usb_write_byte m 92 u = Some v" "link_step rest ticks arr calm u v"
    "port_ready view ticks calm v" "rx_stream view v = rx_stream view u" "tx_stream view v = tx_stream view u @ [92]" by blast
  from wr [OF v(3), of 68] obtain w where w: "usb_write_byte m 68 v = Some w" "link_step rest ticks arr calm v w"
    "port_ready view ticks calm w" "rx_stream view w = rx_stream view v" "tx_stream view w = tx_stream view v @ [68]" by blast
  from wr [OF w(3), of "boot_mode w"] obtain x where x: "usb_write_byte m (boot_mode w) w = Some x"
    "link_step rest ticks arr calm w x" "rx_stream view x = rx_stream view w"
    "tx_stream view x = tx_stream view w @ [boot_mode w]" by blast
  have q: "boot_mode w = boot_mode s" "boot_mode x = boot_mode s" "rest (hw x) = rest (hw s)"
    using u(2) v(2) w(2) x(2) t(5,6) by (simp_all add: link_step_def quiet_def)
  have "CDC_Task m s = Some (x\<lparr>led_control := 0xFF\<rparr>)"
    using t(1) u(1) v(1) w(1) x(1) by (simp add: usb_char_def ascii_def)
  then show ?thesis using t u v w x q by (auto simp: rx_stream_def tx_stream_def)
qed

end
