(* ===== verification/Control_Stream.thy ===== *)
theory Control_Stream
  imports Lufa_Control
begin

text \<open>
  The data stage of a control read: what \<^verbatim>\<open>Endpoint_Write_Control_Stream_LE\<close> gives the host, for hardware
  and a host that follow the USB specification, and the descriptors the device answers with.
\<close>

section \<open>The control endpoint hardware\<close>

text \<open>\<open>c_stage\<close>: a SETUP packet is pending, the data stage is on, or the host's status packet has been taken,
  which ends the transfer. \<open>c_in\<close> is the bank of the IN direction, \<open>c_sent\<close> the packets the host
  has been given in this data stage. \<open>c_busy\<close> bounds the number of polls until it has taken the bank, as
  long as it wants more; \<open>c_ack\<close> is the number of polls, once it has all it wants, until its status
  packet is there, after which it takes no further bank.\<close>

datatype ctl_stage = Setup_Pending | Data_Stage | Acknowledged

record ctl_view =
  c_stage :: ctl_stage
  c_in :: "u8 list"
  c_sent :: "u8 list list"
  c_busy :: nat
  c_ack :: nat

text \<open>The host ends the data stage when it has the number of bytes it asked for or has got a short packet.\<close>

definition complete :: "nat \<Rightarrow> u8 list list \<Rightarrow> bool" where
  "complete limit ps \<longleftrightarrow> limit \<le> length (concat ps) \<or> ps \<noteq> [] \<and> length (last ps) < 8"

text \<open>The shape of a data stage: full packets, and at most the last one short.\<close>

definition packets :: "u8 list list \<Rightarrow> bool" where
  "packets ps \<longleftrightarrow> (\<forall>p \<in> set ps. length p \<le> 8) \<and> (\<forall>p \<in> set (butlast ps). length p = 8)"

lemma packets_snoc: "(\<forall>p \<in> set ps. length p = 8) \<Longrightarrow> length p \<le> 8 \<Longrightarrow> packets (ps @ [p])"
  by (auto simp: packets_def)

lemma not_complete:
  assumes "(\<forall>p \<in> set ps. length p = 8)" "length (concat ps) < limit"
  shows "\<not> complete limit ps"
  using assms by (cases ps rule: rev_cases) (auto simp: complete_def)

text \<open>What writing the flags does to the stage: a zero takes the packet that is there, the SETUP packet or the
  host's status packet.\<close>

definition next_stage :: "nat \<Rightarrow> u8 \<Rightarrow> ctl_view \<Rightarrow> ctl_stage" where
  "next_stage limit v c =
     (if c_stage c = Setup_Pending \<and> \<not> tst v RXSTPI then Data_Stage
      else if c_stage c = Data_Stage \<and> complete limit (c_sent c) \<and> c_ack c = 0 \<and> \<not> tst v RXOUTI then Acknowledged
      else c_stage c)"

definition ctl_ok :: "('h \<Rightarrow> bool) \<Rightarrow> 'h fw \<Rightarrow> bool" where
  "ctl_ok calm s \<longleftrightarrow> calm (hw s) \<and> USB_DeviceState s \<noteq> DEVICE_STATE_Unattached
     \<and> USB_DeviceState s \<noteq> DEVICE_STATE_Suspended"

definition ctl_step :: "('h \<Rightarrow> bool) \<Rightarrow> 'h fw \<Rightarrow> 'h fw \<Rightarrow> bool" where
  "ctl_step calm s t \<longleftrightarrow> (ctl_ok calm s \<longrightarrow> ctl_ok calm t) \<and> USB_DeviceState t = USB_DeviceState s
     \<and> USB_ControlRequest t = USB_ControlRequest s"

locale ctl_link =
  fixes m :: "'h mcu" and view :: "'h \<Rightarrow> ctl_view" and calm :: "'h \<Rightarrow> bool" and limit :: nat
  assumes intx: "calm h \<Longrightarrow> rd_reg m UEINTX h = (v, h') \<Longrightarrow> calm h'
      \<and> (tst v RXSTPI \<longleftrightarrow> c_stage (view h) = Setup_Pending) \<and> (tst v TXINI \<longleftrightarrow> c_busy (view h) = 0)
      \<and> (tst v RXOUTI \<longleftrightarrow> c_stage (view h) = Data_Stage \<and> complete limit (c_sent (view h)) \<and> c_ack (view h) = 0)
      \<and> (\<exists>n \<le> c_busy (view h). view h' = (view h)\<lparr>c_busy := n,
            c_ack := (if complete limit (c_sent (view h)) then c_ack (view h) - 1 else c_ack (view h))\<rparr>
          \<and> (c_busy (view h) \<noteq> 0 \<and> \<not> complete limit (c_sent (view h)) \<longrightarrow> n < c_busy (view h))
          \<and> (complete limit (c_sent (view h)) \<and> c_ack (view h) = 0 \<longrightarrow> n = c_busy (view h)))"
    and count: "calm h \<Longrightarrow> rd_reg m UEBCLX h = (v, h') \<Longrightarrow> v = of_nat (length (c_in (view h))) \<and> calm h' \<and> view h' = view h"
    and count_hi: "calm h \<Longrightarrow> rd_reg m UEBCHX h = (v, h') \<Longrightarrow> v = 0 \<and> calm h' \<and> view h' = view h"
    and data: "calm h \<Longrightarrow> c_busy (view h) = 0 \<Longrightarrow> length (c_in (view h)) < 8 \<Longrightarrow>
      calm (wr_reg m UEDATX b h) \<and> view (wr_reg m UEDATX b h) = (view h)\<lparr>c_in := c_in (view h) @ [b]\<rparr>"
    and clear_in: "calm h \<Longrightarrow> c_stage (view h) = Data_Stage \<Longrightarrow> c_busy (view h) = 0 \<Longrightarrow> \<not> tst v TXINI \<Longrightarrow> \<not> tst v FIFOCON \<Longrightarrow> \<exists>n k.
      calm (wr_reg m UEINTX v h) \<and> view (wr_reg m UEINTX v h) =
        (view h)\<lparr>c_in := [], c_sent := c_sent (view h) @ [c_in (view h)], c_busy := n, c_ack := k\<rparr>"
    and clear_other: "calm h \<Longrightarrow> tst v TXINI \<or> c_busy (view h) \<noteq> 0 \<Longrightarrow> \<exists>k. calm (wr_reg m UEINTX v h)
      \<and> view (wr_reg m UEINTX v h) = (view h)\<lparr>c_stage := next_stage limit v (view h), c_ack := k\<rparr>"
    and irq: "calm h \<Longrightarrow> irq_line m i h = (x, h') \<Longrightarrow> calm h' \<and> view h' = view h \<and> x \<noteq> Some USB_GEN_vect"
    and receive: "calm h \<Longrightarrow> rd_reg m UDR1 h = (v, h') \<Longrightarrow> calm h' \<and> view h' = view h"
begin

abbreviation ok where "ok \<equiv> ctl_ok calm"

abbreviation step where "step \<equiv> ctl_step calm"

lemma step_refl [simp]: "step s s"
  by (simp add: ctl_step_def)

lemma step_trans [trans]: "step s t \<Longrightarrow> step t u \<Longrightarrow> step s u"
  by (simp add: ctl_step_def)

lemma step_ok: "step s t \<Longrightarrow> ok s \<Longrightarrow> ok t"
  by (simp add: ctl_step_def)

lemma step_hw: "calm h \<Longrightarrow> step s (s\<lparr>hw := h\<rparr>)" "calm (wr_reg m r v (hw s)) \<Longrightarrow> step s (wr m r v s)"
  by (simp_all add: ctl_step_def ctl_ok_def wr_def)

lemma irq_point_ctl:
  assumes "ok s"
  shows "\<exists>t. irq_point m s = Some t \<and> step s t \<and> view (hw t) = view (hw s)"
proof -
  obtain v h where v: "irq_line m (I_flag s) (hw s) = (v, h)" by fastforce
  obtain b h' where b: "rd_reg m UDR1 h = (b, h')" by fastforce
  from assms have c: "calm (hw s)" by (simp add: ctl_ok_def)
  from irq [OF c v] have h: "calm h" "view h = view (hw s)" "v \<noteq> Some USB_GEN_vect" by simp_all
  have "calm h'" "view h' = view (hw s)" using receive [OF h(1) b] h(2) by simp_all
  then show ?thesis using assms h v b
    by (auto simp: irq_point_def USART1_RX_isr_def TIMER1_COMPA_isr_def ring_put_def reg_simps Let_def
        ctl_step_def ctl_ok_def split: option.split vect.split)
qed

text \<open>A poll of the endpoint's flags.\<close>

definition polled :: "u8 \<Rightarrow> 'h fw \<Rightarrow> 'h fw \<Rightarrow> bool" where
  "polled v s t \<longleftrightarrow> step s t \<and> ok t
    \<and> (tst v RXSTPI \<longleftrightarrow> c_stage (view (hw s)) = Setup_Pending) \<and> (tst v TXINI \<longleftrightarrow> c_busy (view (hw s)) = 0)
    \<and> (tst v RXOUTI \<longleftrightarrow> c_stage (view (hw s)) = Data_Stage \<and> complete limit (c_sent (view (hw s))) \<and> c_ack (view (hw s)) = 0)
    \<and> c_stage (view (hw t)) = c_stage (view (hw s)) \<and> c_in (view (hw t)) = c_in (view (hw s))
    \<and> c_sent (view (hw t)) = c_sent (view (hw s)) \<and> c_busy (view (hw t)) \<le> c_busy (view (hw s))
    \<and> (c_busy (view (hw s)) \<noteq> 0 \<and> \<not> complete limit (c_sent (view (hw s))) \<longrightarrow> c_busy (view (hw t)) < c_busy (view (hw s)))
    \<and> (complete limit (c_sent (view (hw s))) \<and> c_ack (view (hw s)) = 0 \<longrightarrow> c_busy (view (hw t)) = c_busy (view (hw s)))
    \<and> c_ack (view (hw t)) = (if complete limit (c_sent (view (hw s))) then c_ack (view (hw s)) - 1 else c_ack (view (hw s)))"

lemma poll:
  assumes "ok s"
  obtains v t where "rd m UEINTX s = (v, t)" "polled v s t"
proof -
  obtain v h where r: "rd_reg m UEINTX (hw s) = (v, h)" by fastforce
  have c: "calm (hw s)" using assms by (simp add: ctl_ok_def)
  have i: "calm h" "tst v RXSTPI \<longleftrightarrow> c_stage (view (hw s)) = Setup_Pending" "tst v TXINI \<longleftrightarrow> c_busy (view (hw s)) = 0"
    "tst v RXOUTI \<longleftrightarrow> c_stage (view (hw s)) = Data_Stage \<and> complete limit (c_sent (view (hw s))) \<and> c_ack (view (hw s)) = 0"
    using intx [OF c r] by simp_all
  from intx [OF c r, THEN conjunct2, THEN conjunct2, THEN conjunct2, THEN conjunct2] obtain n where n: "view h = (view (hw s))\<lparr>c_busy := n,
       c_ack := (if complete limit (c_sent (view (hw s))) then c_ack (view (hw s)) - 1 else c_ack (view (hw s)))\<rparr>"
    "n \<le> c_busy (view (hw s))" "c_busy (view (hw s)) \<noteq> 0 \<and> \<not> complete limit (c_sent (view (hw s))) \<longrightarrow> n < c_busy (view (hw s))"
    "complete limit (c_sent (view (hw s))) \<and> c_ack (view (hw s)) = 0 \<longrightarrow> n = c_busy (view (hw s))" by blast
  show thesis
    by (rule that [of v "s\<lparr>hw := h\<rparr>"]) (use r i n assms in \<open>simp_all add: polled_def rd_device step_hw ctl_ok_def\<close>)
qed

lemma BytesInEndpoint_ctl:
  assumes "ok s" "length (c_in (view (hw s))) \<le> 8"
  shows "\<exists>t. Endpoint_BytesInEndpoint m s = (of_nat (length (c_in (view (hw s)))), t) \<and> step s t
    \<and> view (hw t) = view (hw s)"
proof -
  obtain x h where x: "rd_reg m UEBCHX (hw s) = (x, h)" by fastforce
  obtain y k where y: "rd_reg m UEBCLX h = (y, k)" by fastforce
  have c: "calm (hw s)" using assms(1) by (simp add: ctl_ok_def)
  note a = count_hi [OF c x]
  note b = count [of h y k] 
  have "mk16 0 (of_nat (length (c_in (view (hw s))))) = of_nat (length (c_in (view (hw s))))"
    using assms(2) by (intro word_unat_eq_iff [THEN iffD2]) (simp add: unat_mk16 unat_of_nat)
  then show ?thesis using x y a b assms(1)
    by (simp add: Endpoint_BytesInEndpoint_def rd_device Let_def ctl_step_def ctl_ok_def)
qed

lemma fill_packet_ctl:
  assumes "ok s" "c_busy (view (hw s)) = 0" "length (c_in (view (hw s))) = n" "n \<le> 8" "unat L \<le> length ds"
    and "k = min (unat L) (8 - n)"
  shows "\<exists>t. fill_packet m ds L (of_nat n) s = (drop k ds, L - of_nat k, of_nat (n + k), t) \<and> step s t
    \<and> view (hw t) = (view (hw s))\<lparr>c_in := c_in (view (hw s)) @ take k ds\<rparr>"
  using assms
proof (induction "unat L" arbitrary: s n k L ds)
  case 0
  then have "L = 0" by (simp add: unat_eq_zero)
  with 0 show ?case by (subst fill_packet.simps) simp
next
  case (Suc l)
  have L0: "L \<noteq> 0" using Suc(2) by auto
  then have L: "L \<noteq> 0" "unat (L - 1) = l" using Suc(2) unat_minus_one [OF L0] by auto
  show ?case
  proof (cases "n < 8")
    case False
    then have "n = 8" "k = 0" using Suc.prems by auto
    then show ?thesis using L by (subst fill_packet.simps) simp
  next
    case True
    from Suc.prems(5) Suc(2) obtain d ds' where ds: "ds = d # ds'" by (cases ds) auto
    let ?a = "wr m UEDATX d s"
    have c: "calm (hw s)" using Suc.prems(1) by (simp add: ctl_ok_def)
    have a: "step s ?a" "view (hw ?a) = (view (hw s))\<lparr>c_in := c_in (view (hw s)) @ [d]\<rparr>"
      using data [OF c Suc.prems(2), of d] True Suc.prems(3) step_hw(2) [of UEDATX d s] by (simp_all add: wr_def)
    have "l = unat (L - 1)" "ok ?a" "c_busy (view (hw ?a)) = 0" "length (c_in (view (hw ?a))) = n + 1" "n + 1 \<le> 8"
      "unat (L - 1) \<le> length ds'" "k - 1 = min (unat (L - 1)) (8 - (n + 1))"
      using L a step_ok [OF a(1) Suc.prems(1)] Suc.prems Suc(2) ds True by auto
    from Suc(1) [OF this] obtain t where
      t: "fill_packet m ds' (L - 1) (of_nat (n + 1)) ?a = (drop (k - 1) ds', L - 1 - of_nat (k - 1), of_nat (n + 1 + (k - 1)), t)"
        "step ?a t" "view (hw t) = (view (hw ?a))\<lparr>c_in := c_in (view (hw ?a)) @ take (k - 1) ds'\<rparr>" by blast
    have "0 < k" using Suc.prems(6) Suc(2) True by simp
    then obtain j where k: "k = Suc j" by (cases k) auto
    have "(of_nat n :: u16) < 8" using True by (simp add: word_less_nat_alt unat_of_nat)
    then have more: "L \<noteq> 0 \<and> (of_nat n :: u16) < ucast FIXED_CONTROL_ENDPOINT_SIZE" using L(1) by simp
    have "fill_packet m ds L (of_nat n) s = fill_packet m ds' (L - 1) (of_nat (n + 1)) ?a"
      unfolding fill_packet.simps [of m ds L "of_nat n" s] if_P [OF more]
      by (simp only: ds list.sel Endpoint_Write_8_def of_nat_add of_nat_1)
    moreover have "L - 1 - of_nat (k - 1) = L - of_nat k" "n + 1 + (k - 1) = n + k"
      "drop (k - 1) ds' = drop k ds" "d # take (k - 1) ds' = take k ds"
      using k ds by simp_all
    ultimately have "fill_packet m ds L (of_nat n) s = (drop k ds, L - of_nat k, of_nat (n + k), t)"
      and "view (hw t) = (view (hw s))\<lparr>c_in := c_in (view (hw s)) @ take k ds\<rparr>"
      using t(1,3) a(2) by simp_all
    then show ?thesis using step_trans [OF a(1) t(2)] by blast
  qed
qed

lemma ClearIN_ctl:
  assumes "ok s" "c_stage (view (hw s)) = Data_Stage" "c_busy (view (hw s)) = 0"
  shows "step s (Endpoint_ClearIN m s) \<and> (\<exists>n k. view (hw (Endpoint_ClearIN m s)) =
    (view (hw s))\<lparr>c_in := [], c_sent := c_sent (view (hw s)) @ [c_in (view (hw s))], c_busy := n, c_ack := k\<rparr>)"
proof -
  obtain v h where r: "rd_reg m UEINTX (hw s) = (v, h)" by fastforce
  have c: "calm (hw s)" using assms by (simp add: ctl_ok_def)
  note i = intx [OF c r]
  let ?v = "v AND NOT (BV TXINI OR BV FIFOCON)"
  have "calm h" "c_stage (view h) = Data_Stage" "c_busy (view h) = 0" using i assms(2,3) by auto
  from clear_in [OF this, of ?v] obtain n k where "calm (wr_reg m UEINTX ?v h)"
    "view (wr_reg m UEINTX ?v h) = (view h)\<lparr>c_in := [], c_sent := c_sent (view h) @ [c_in (view h)], c_busy := n, c_ack := k\<rparr>"
    by auto
  moreover have "Endpoint_ClearIN m s = wr m UEINTX ?v (s\<lparr>hw := h\<rparr>)"
    using r by (simp add: Endpoint_ClearIN_def wr_clr_def rd_device)
  moreover from i obtain j l where "view h = (view (hw s))\<lparr>c_busy := j, c_ack := l\<rparr>" by auto
  ultimately show ?thesis using assms by (auto simp: ctl_step_def ctl_ok_def wr_def)
qed

text \<open>The polls still to be waited for.\<close>

definition waits :: "'h fw \<Rightarrow> nat" where
  "waits s = c_busy (view (hw s)) + c_ack (view (hw s))"

text \<open>The head of one turn of the loop: three polls.\<close>

lemma turn:
  assumes "ok s" "c_stage (view (hw s)) = Data_Stage" "L \<noteq> 0 \<or> F"
  obtains t where "step s t" "ok t" "c_stage (view (hw t)) = Data_Stage" "c_in (view (hw t)) = c_in (view (hw s))"
    "c_sent (view (hw t)) = c_sent (view (hw s))"
    "write_stream_loop m ds L F s = Some (None, t) \<and> complete limit (c_sent (view (hw s)))
     \<or> write_stream_loop m ds L F s = irq_point m t \<bind> write_stream_loop m ds L F
        \<and> waits t < waits s
     \<or> write_stream_loop m ds L F s = (case Endpoint_BytesInEndpoint m t of (n, s) \<Rightarrow>
          case fill_packet m ds L n s of (ds, L, n, s) \<Rightarrow>
          irq_point m (Endpoint_ClearIN m s) \<bind> write_stream_loop m ds L (n = ucast FIXED_CONTROL_ENDPOINT_SIZE))
        \<and> c_busy (view (hw t)) = 0"
proof -
  obtain v a where a: "rd m UEINTX s = (v, a)" "polled v s a" using poll [OF assms(1)] .
  then have pa: "step s a" "ok a" "\<not> tst v RXSTPI" "c_stage (view (hw a)) = Data_Stage" "waits a \<le> waits s"
    "c_in (view (hw a)) = c_in (view (hw s))" "c_sent (view (hw a)) = c_sent (view (hw s))"
    using assms(2) by (auto simp: polled_def waits_def)
  obtain w b where b: "rd m UEINTX a = (w, b)" "polled w a b" using poll [OF pa(2)] .
  then have pb: "step a b" "ok b" "c_stage (view (hw b)) = Data_Stage" "waits b \<le> waits a"
    "c_in (view (hw b)) = c_in (view (hw s))" "c_sent (view (hw b)) = c_sent (view (hw s))"
    "tst w RXOUTI \<longrightarrow> complete limit (c_sent (view (hw s)))"
    "\<not> tst w RXOUTI \<and> complete limit (c_sent (view (hw s))) \<longrightarrow> waits b < waits a"
    using pa by (auto simp: polled_def waits_def)
  obtain x c where c: "rd m UEINTX b = (x, c)" "polled x b c" using poll [OF pb(2)] .
  then have pc: "step b c" "ok c" "c_stage (view (hw c)) = Data_Stage" "waits c \<le> waits b"
    "c_in (view (hw c)) = c_in (view (hw s))" "c_sent (view (hw c)) = c_sent (view (hw s))"
    "tst x TXINI \<longrightarrow> c_busy (view (hw c)) = 0"
    "\<not> tst x TXINI \<and> \<not> complete limit (c_sent (view (hw s))) \<longrightarrow> waits c < waits b"
    using pb by (auto simp: polled_def waits_def)
  have loop: "write_stream_loop m ds L F s = (if tst w RXOUTI then Some (None, b)
      else if tst x TXINI then (case Endpoint_BytesInEndpoint m c of (n, s) \<Rightarrow>
          case fill_packet m ds L n s of (ds, L, n, s) \<Rightarrow>
          irq_point m (Endpoint_ClearIN m s) \<bind> write_stream_loop m ds L (n = ucast FIXED_CONTROL_ENDPOINT_SIZE))
      else irq_point m c \<bind> write_stream_loop m ds L F)"
    using assms(1,3) a(1) pa(1,3) b(1) c(1)
    by (subst write_stream_loop.simps)
      (simp add: stream_abort_def Endpoint_IsSETUPReceived_def Endpoint_IsOUTReceived_def Endpoint_IsINReady_def
        ctl_ok_def)
  show thesis
  proof (cases "tst w RXOUTI")
    case True
    show thesis by (rule that [of b]) (use loop True pa pb step_trans [OF pa(1) pb(1)] in auto)
  next
    case False
    show thesis
      by (rule that [of c]) (use loop False pa pb pc step_trans [OF pa(1) step_trans [OF pb(1) pc(1)]] in fastforce)+
  qed
qed

definition stream_inv :: "u8 list \<Rightarrow> u16 \<Rightarrow> bool \<Rightarrow> 'h fw \<Rightarrow> bool" where
  "stream_inv ds L F s \<longleftrightarrow> ok s \<and> c_stage (view (hw s)) = Data_Stage \<and> c_in (view (hw s)) = [] \<and> unat L \<le> length ds
     \<and> length (concat (c_sent (view (hw s)))) + unat L \<le> limit
     \<and> (if L \<noteq> 0 \<or> F then \<forall>p \<in> set (c_sent (view (hw s))). length p = 8
        else complete limit (c_sent (view (hw s))) \<and> packets (c_sent (view (hw s))))"

lemma stream_inv_step:
  assumes "stream_inv ds L F s" "step s t" "c_stage (view (hw t)) = Data_Stage" "c_in (view (hw t)) = c_in (view (hw s))"
    "c_sent (view (hw t)) = c_sent (view (hw s))"
  shows "stream_inv ds L F t"
  using assms by (auto simp: stream_inv_def dest: step_ok)

text \<open>One packet.\<close>

lemma send_packet:
  assumes "stream_inv ds L F s" "L \<noteq> 0 \<or> F" "c_busy (view (hw s)) = 0" "k = min (unat L) 8"
  obtains t where "(case Endpoint_BytesInEndpoint m s of (n, s) \<Rightarrow>
          case fill_packet m ds L n s of (ds, L, n, s) \<Rightarrow>
          irq_point m (Endpoint_ClearIN m s) \<bind> write_stream_loop m ds L (n = ucast FIXED_CONTROL_ENDPOINT_SIZE))
       = write_stream_loop m (drop k ds) (L - of_nat k) (k = 8) t"
    "step s t" "c_sent (view (hw t)) = c_sent (view (hw s)) @ [take k ds]"
    "stream_inv (drop k ds) (L - of_nat k) (k = 8) t"
proof -
  note inv = assms(1) [unfolded stream_inv_def]
  from BytesInEndpoint_ctl [of s] inv obtain a where a: "Endpoint_BytesInEndpoint m s = (0, a)" "step s a"
    "view (hw a) = view (hw s)" by auto
  have oa: "ok a" using step_ok [OF a(2)] inv by simp
  from fill_packet_ctl [OF oa, of 0 L ds k] a(3) inv assms(3,4) obtain b where
    b: "fill_packet m ds L 0 a = (drop k ds, L - of_nat k, of_nat k, b)" "step a b"
      "view (hw b) = (view (hw s))\<lparr>c_in := take k ds\<rparr>" by auto
  have ob: "ok b" using step_ok [OF b(2) oa] .
  from ClearIN_ctl [OF ob] b(3) assms(3) inv obtain n j where
    c: "step b (Endpoint_ClearIN m b)" "view (hw (Endpoint_ClearIN m b)) = (view (hw s))\<lparr>c_in := [],
        c_sent := c_sent (view (hw s)) @ [take k ds], c_busy := n, c_ack := j\<rparr>" by auto
  from irq_point_ctl [OF step_ok [OF c(1) ob]] obtain t where t: "irq_point m (Endpoint_ClearIN m b) = Some t"
    "step (Endpoint_ClearIN m b) t" "view (hw t) = view (hw (Endpoint_ClearIN m b))" by blast
  have k: "k \<le> unat L" "k \<le> 8" "length (take k ds) = k" using assms(4) inv by auto
  have uk: "unat (of_nat k :: u16) = k" using k(2) by (simp add: unat_of_nat)
  have uL: "unat (L - of_nat k) = unat L - k"
    using k(1) uk unat_sub [of "of_nat k" L] by (simp add: word_le_nat_alt)
  have full: "(of_nat k :: u16) = ucast FIXED_CONTROL_ENDPOINT_SIZE \<longleftrightarrow> k = 8"
    using uk by (simp add: word_unat_eq_iff)
  have all8: "\<forall>p \<in> set (c_sent (view (hw s))). length p = 8" using inv assms(2) by simp
  have st: "step s t" using step_trans [OF a(2) step_trans [OF b(2) step_trans [OF c(1) t(2)]]] .
  have v: "c_sent (view (hw t)) = c_sent (view (hw s)) @ [take k ds]" "c_in (view (hw t)) = []"
    "c_stage (view (hw t)) = Data_Stage" using t(3) c(2) inv by simp_all
  have "k = 8" if "L - of_nat k \<noteq> 0" using that uL k assms(4) by (auto simp: word_unat_eq_iff min_def split: if_splits)
  moreover have "complete limit (c_sent (view (hw t)))" if "k \<noteq> 8"
    using that k v(1) by (simp add: complete_def)
  moreover have "packets (c_sent (view (hw t)))" using packets_snoc [OF all8, of "take k ds"] k v(1) by simp
  ultimately have "stream_inv (drop k ds) (L - of_nat k) (k = 8) t"
    using inv v uL k all8 step_ok [OF st] by (auto simp: stream_inv_def)
  then show thesis
    by (rule that [of t, rotated 3]) (use a(1) b(1) t(1) full st v in simp_all)
qed

text \<open>The whole loop, by the bytes left and the polls until the bank is free.\<close>

lemma stream_loop:
  assumes "stream_inv ds L F s"
  shows "\<exists>t qs. write_stream_loop m ds L F s = Some (None, t) \<and> step s t \<and> c_sent (view (hw t)) = c_sent (view (hw s)) @ qs
    \<and> concat qs = take (unat L) ds \<and> stream_inv [] 0 False t"
  using assms
proof (induction "unat L + of_bool F" arbitrary: ds L F s rule: less_induct)
  case outer: less
  from outer.prems show ?case
  proof (induction "waits s" arbitrary: s rule: less_induct)
    case less
    show ?case
    proof (cases "L \<noteq> 0 \<or> F")
      case False
      then show ?thesis using less.prems
        by (subst write_stream_loop.simps) (auto simp: stream_inv_def)
    next
      case True
      note inv = less.prems [unfolded stream_inv_def]
      from turn [OF _ _ True, of s ds] inv obtain t where t: "step s t" "ok t" "c_stage (view (hw t)) = Data_Stage"
        "c_in (view (hw t)) = c_in (view (hw s))" "c_sent (view (hw t)) = c_sent (view (hw s))"
        "write_stream_loop m ds L F s = Some (None, t) \<and> complete limit (c_sent (view (hw s)))
         \<or> write_stream_loop m ds L F s = irq_point m t \<bind> write_stream_loop m ds L F
            \<and> waits t < waits s
         \<or> write_stream_loop m ds L F s = (case Endpoint_BytesInEndpoint m t of (n, s) \<Rightarrow>
              case fill_packet m ds L n s of (ds, L, n, s) \<Rightarrow>
              irq_point m (Endpoint_ClearIN m s) \<bind> write_stream_loop m ds L (n = ucast FIXED_CONTROL_ENDPOINT_SIZE))
            \<and> c_busy (view (hw t)) = 0" by blast
      have it: "stream_inv ds L F t" by (rule stream_inv_step [OF less.prems t(1,3-5)])
      from t(6) consider
        (over) "write_stream_loop m ds L F s = Some (None, t)" "complete limit (c_sent (view (hw s)))"
      | (wait) "write_stream_loop m ds L F s = irq_point m t \<bind> write_stream_loop m ds L F"
          "waits t < waits s"
      | (send) "write_stream_loop m ds L F s = (case Endpoint_BytesInEndpoint m t of (n, s) \<Rightarrow>
              case fill_packet m ds L n s of (ds, L, n, s) \<Rightarrow>
              irq_point m (Endpoint_ClearIN m s) \<bind> write_stream_loop m ds L (n = ucast FIXED_CONTROL_ENDPOINT_SIZE))"
          "c_busy (view (hw t)) = 0" by (elim disjE) auto
      then show ?thesis
      proof cases
        case over
        have all8: "\<forall>p \<in> set (c_sent (view (hw s))). length p = 8" using inv True by simp
        have "\<not> length (concat (c_sent (view (hw s)))) < limit" using not_complete [OF all8] over(2) by blast
        with inv have "unat L = 0" by linarith
        then have "L = 0" by (simp add: word_unat_eq_iff)
        moreover have "packets (c_sent (view (hw s)))" using all8 by (auto simp: packets_def dest: in_set_butlastD)
        ultimately show ?thesis using over t it all8 by (auto simp: stream_inv_def)
      next
        case wait
        from irq_point_ctl [OF t(2)] obtain u where u: "irq_point m t = Some u" "step t u" "view (hw u) = view (hw t)"
          by blast
        have "stream_inv ds L F u" by (rule stream_inv_step [OF it u(2)]) (use u(3) t(3) in simp_all)
        moreover have "waits u < waits s" using u(3) wait(2) by (simp add: waits_def)
        ultimately show ?thesis using less.hyps [of u] wait(1) u t(1,5) step_trans [OF t(1) u(2)]
          by (fastforce dest: step_trans [rotated])
      next
        case send
        define k where "k = min (unat L) 8"
        from send_packet [OF it True send(2) k_def] obtain u where
          u: "write_stream_loop m ds L F s = write_stream_loop m (drop k ds) (L - of_nat k) (k = 8) u" "step t u"
            "c_sent (view (hw u)) = c_sent (view (hw t)) @ [take k ds]"
            "stream_inv (drop k ds) (L - of_nat k) (k = 8) u" unfolding send(1) by blast
        have uk: "unat (of_nat k :: u16) = k" "k \<le> unat L" by (auto simp: k_def unat_of_nat)
        then have uL: "unat (L - of_nat k) = unat L - k"
          using unat_sub [of "of_nat k" L] by (simp add: word_le_nat_alt)
        have "unat L - k + of_bool (k = 8) < unat L + of_bool F"
        proof (cases "unat L = 0")
          case True
          then have "F" using \<open>L \<noteq> 0 \<or> F\<close> by (simp add: word_unat_eq_iff)
          then show ?thesis using True by (simp add: k_def)
        qed (cases "unat L < 8"; simp add: k_def)
        then have "unat (L - of_nat k) + of_bool (k = 8) < unat L + of_bool F" using uL by simp
        from outer.hyps [OF this u(4)] obtain w qs where
          w: "write_stream_loop m ds L F s = Some (None, w)" "step u w" "c_sent (view (hw w)) = c_sent (view (hw u)) @ qs"
            "concat qs = take (unat L - k) (drop k ds)" "stream_inv [] 0 False w" using u(1) uL by auto
        have "concat (take k ds # qs) = take (unat L) ds"
          using w(4) uk(2) by (simp add: take_add [symmetric])
        then show ?thesis using w u(3) t(1,5) step_trans [OF t(1) step_trans [OF u(2) w(2)]]
          by (intro exI [of _ w] exI [of _ "take k ds # qs"]) simp
      qed
    qed
  qed
qed

text \<open>The status stage.\<close>

lemma status_wait:
  assumes "ok s" "complete limit (c_sent (view (hw s)))" "c_stage (view (hw s)) = Data_Stage"
  shows "\<exists>t. stream_status Endpoint_IsOUTReceived m s = Some (ENDPOINT_RWCSTREAM_NoError, t) \<and> step s t
    \<and> c_sent (view (hw t)) = c_sent (view (hw s)) \<and> c_stage (view (hw t)) = c_stage (view (hw s))
    \<and> c_ack (view (hw t)) = 0"
  using assms
proof (induction "c_ack (view (hw s))" arbitrary: s rule: less_induct)
  case less
  obtain v a where a: "rd m UEINTX s = (v, a)" "polled v s a" using poll [OF less.prems(1)] .
  then have pa: "step s a" "ok a" "c_sent (view (hw a)) = c_sent (view (hw s))"
    "c_stage (view (hw a)) = c_stage (view (hw s))" "tst v RXOUTI \<longleftrightarrow> c_ack (view (hw s)) = 0"
    "c_ack (view (hw a)) = c_ack (view (hw s)) - 1"
    using less.prems(2,3) by (simp_all add: polled_def)
  show ?case
  proof (cases "tst v RXOUTI")
    case True
    then show ?thesis using a(1) pa
      by (subst stream_status.simps) (simp add: Endpoint_IsOUTReceived_def)
  next
    case False
    from irq_point_ctl [OF pa(2)] obtain b where b: "irq_point m a = Some b" "step a b" "view (hw b) = view (hw a)" by blast
    have "c_ack (view (hw b)) < c_ack (view (hw s))" "ok b" "complete limit (c_sent (view (hw b)))"
      "c_stage (view (hw b)) = Data_Stage"
      using b pa False less.prems(2,3) step_ok [OF b(2) pa(2)] by simp_all
    from less.hyps [OF this] obtain t where
      t: "stream_status Endpoint_IsOUTReceived m b = Some (ENDPOINT_RWCSTREAM_NoError, t)" "step b t"
        "c_sent (view (hw t)) = c_sent (view (hw b))" "c_stage (view (hw t)) = c_stage (view (hw b))"
        "c_ack (view (hw t)) = 0" by blast
    have "stream_status Endpoint_IsOUTReceived m s = stream_status Endpoint_IsOUTReceived m b"
      using a(1) b(1) False pa(2)
      by (subst stream_status.simps) (simp add: Endpoint_IsOUTReceived_def ctl_ok_def)
    then show ?thesis using t b(3) pa(3,4) step_trans [OF pa(1) step_trans [OF b(2) t(2)]] by auto
  qed
qed

lemma Write_Control_Stream:
  assumes "ok s" "c_stage (view (hw s)) = Data_Stage" "c_in (view (hw s)) = []" "c_sent (view (hw s)) = []"
    "c_busy (view (hw s)) = 0" "unat len \<le> length buf" "limit = unat (wLength (USB_ControlRequest s))"
  shows "\<exists>t. Endpoint_Write_Control_Stream_LE m buf len s = Some (ENDPOINT_RWCSTREAM_NoError, t) \<and> step s t
    \<and> concat (c_sent (view (hw t))) = take (min (unat len) limit) buf \<and> packets (c_sent (view (hw t)))
    \<and> complete limit (c_sent (view (hw t))) \<and> c_stage (view (hw t)) = Data_Stage \<and> c_ack (view (hw t)) = 0"
proof -
  define L where "L = (if len > wLength (USB_ControlRequest s) then wLength (USB_ControlRequest s) else len)"
  have uL: "unat L = min (unat len) limit" using assms(7) by (auto simp: L_def word_less_nat_alt)
  define a where "a = (if len > wLength (USB_ControlRequest s) then s else if len = 0 then Endpoint_ClearIN m s else s)"
  have "step s a \<and> stream_inv buf L False a \<and> concat (c_sent (view (hw a))) = []"
  proof (cases "\<not> len > wLength (USB_ControlRequest s) \<and> len = 0")
    case True
    then have [simp]: "a = Endpoint_ClearIN m s" "L = 0" by (auto simp: a_def L_def)
    from ClearIN_ctl [OF assms(1,2,5)] assms(2-4) show ?thesis
      using step_ok [of s "Endpoint_ClearIN m s"] assms(1)
      by (auto simp: stream_inv_def complete_def packets_def)
  next
    case False
    then have [simp]: "a = s" by (auto simp: a_def)
    have "L \<noteq> 0 \<or> limit = 0" using False assms(7) by (auto simp: L_def)
    then show ?thesis using assms(1-6) uL by (auto simp: stream_inv_def complete_def packets_def)
  qed
  then have a: "step s a" "stream_inv buf L False a" "concat (c_sent (view (hw a))) = []" by simp_all
  from stream_loop [OF a(2)] obtain b qs where b: "write_stream_loop m buf L False a = Some (None, b)" "step a b"
    "c_sent (view (hw b)) = c_sent (view (hw a)) @ qs" "concat qs = take (unat L) buf" "stream_inv [] 0 False b" by blast
  have ib: "ok b" "complete limit (c_sent (view (hw b)))" "packets (c_sent (view (hw b)))" "c_stage (view (hw b)) = Data_Stage"
    using b(5) by (simp_all add: stream_inv_def)
  from status_wait [OF ib(1,2,4)] obtain t where
    t: "stream_status Endpoint_IsOUTReceived m b = Some (ENDPOINT_RWCSTREAM_NoError, t)" "step b t"
      "c_sent (view (hw t)) = c_sent (view (hw b))" "c_stage (view (hw t)) = c_stage (view (hw b))"
      "c_ack (view (hw t)) = 0" by blast
  have "Endpoint_Write_Control_Stream_LE m buf len s = Some (ENDPOINT_RWCSTREAM_NoError, t)"
    using b(1) t(1) by (auto simp: Endpoint_Write_Control_Stream_LE_def a_def L_def split: if_splits)
  then show ?thesis using t ib a(3) b(3,4) uL step_trans [OF a(1) step_trans [OF b(2) t(2)]] by auto
qed

lemma ClearSETUP_ctl:
  assumes "ok s" "c_busy (view (hw s)) = 0" "c_stage (view (hw s)) = Setup_Pending"
  shows "\<exists>k. step s (Endpoint_ClearSETUP m s)
    \<and> view (hw (Endpoint_ClearSETUP m s)) = (view (hw s))\<lparr>c_busy := 0, c_stage := Data_Stage, c_ack := k\<rparr>"
proof -
  obtain v h where r: "rd_reg m UEINTX (hw s) = (v, h)" by fastforce
  have c: "calm (hw s)" using assms by (simp add: ctl_ok_def)
  from intx [OF c r] assms(2) obtain j where i: "calm h" "tst v TXINI" "view h = (view (hw s))\<lparr>c_busy := 0, c_ack := j\<rparr>" by auto
  from clear_other [OF i(1), of "v AND NOT (BV RXSTPI)"] i(2,3) assms(3) obtain k where
    "calm (wr_reg m UEINTX (v AND NOT (BV RXSTPI)) h)"
    "view (wr_reg m UEINTX (v AND NOT (BV RXSTPI)) h) = (view h)\<lparr>c_stage := Data_Stage, c_ack := k\<rparr>"
    by (auto simp: next_stage_def)
  moreover have "Endpoint_ClearSETUP m s = wr m UEINTX (v AND NOT (BV RXSTPI)) (s\<lparr>hw := h\<rparr>)"
    using r by (simp add: Endpoint_ClearSETUP_def wr_clr_def rd_device)
  ultimately show ?thesis using i assms(1) by (auto simp: ctl_step_def ctl_ok_def wr_def)
qed

text \<open>The status packet is acknowledged; a bank that the host no longer takes stays as it is.\<close>

lemma ClearOUT_ctl:
  assumes "ok s" "complete limit (c_sent (view (hw s)))" "c_ack (view (hw s)) = 0" "c_stage (view (hw s)) = Data_Stage"
  shows "step s (Endpoint_ClearOUT m s) \<and> c_stage (view (hw (Endpoint_ClearOUT m s))) = Acknowledged \<and> c_sent (view (hw (Endpoint_ClearOUT m s))) = c_sent (view (hw s))"
proof -
  obtain v h where r: "rd_reg m UEINTX (hw s) = (v, h)" by fastforce
  have c: "calm (hw s)" using assms by (simp add: ctl_ok_def)
  from intx [OF c r] assms(2,3) have i: "calm h" "tst v TXINI \<longleftrightarrow> c_busy (view h) = 0"
    "c_sent (view h) = c_sent (view (hw s))" "c_stage (view h) = Data_Stage" "c_ack (view h) = 0"
    using assms(4) by auto
  let ?v = "v AND NOT (BV RXOUTI OR BV FIFOCON)"
  have "next_stage limit ?v (view h) = Acknowledged" using i(3-5) assms(2) by (simp add: next_stage_def)
  with clear_other [OF i(1), of ?v] i(2) obtain k where
    "calm (wr_reg m UEINTX ?v h)" "view (wr_reg m UEINTX ?v h) = (view h)\<lparr>c_stage := Acknowledged, c_ack := k\<rparr>"
    by auto
  moreover have "Endpoint_ClearOUT m s = wr m UEINTX ?v (s\<lparr>hw := h\<rparr>)"
    using r by (simp add: Endpoint_ClearOUT_def wr_clr_def rd_device)
  ultimately show ?thesis using i assms(1) by (auto simp: ctl_step_def ctl_ok_def wr_def)
qed

end

section \<open>Properties\<close>

text \<open>The data stage of a control read: for any buffer the stream returns without error, and the host has been
  given exactly the first bytes of it, as many as it asked for or as there are, in full packets of eight
  bytes of which only the last may be short; the host's transfer is complete.\<close>

theorem control_stream_delivers:
  assumes "ctl_link m view calm (unat (wLength (USB_ControlRequest s)))" "ctl_ok calm s"
    and "c_stage (view (hw s)) = Data_Stage" "c_in (view (hw s)) = []" "c_sent (view (hw s)) = []" "c_busy (view (hw s)) = 0"
    and "unat len \<le> length buf"
  shows "\<exists>t. Endpoint_Write_Control_Stream_LE m buf len s = Some (ENDPOINT_RWCSTREAM_NoError, t)
    \<and> concat (c_sent (view (hw t))) = take (min (unat len) (unat (wLength (USB_ControlRequest s)))) buf
    \<and> packets (c_sent (view (hw t))) \<and> complete (unat (wLength (USB_ControlRequest s))) (c_sent (view (hw t)))"
  using ctl_link.Write_Control_Stream [OF assms refl] by blast


end
