(* ===== verification/Control_Requests.thy ===== *)
theory Control_Requests
  imports Control_Stream
begin

text \<open>
  The dispatch of control requests and the requests that change the state of the device: which requests
  are answered at all, the address, the configuration.
\<close>

section \<open>Dispatch\<close>

text \<open>The requests some handler answers, by \<^verbatim>\<open>bmRequestType\<close> and \<^verbatim>\<open>bRequest\<close>; all others fall through.\<close>

definition known_requests :: "(u8 \<times> u8) list" where
  "known_requests =
     [(0x82, REQ_GetStatus), (0x02, REQ_ClearFeature), (0x02, REQ_SetFeature), (0x00, REQ_SetAddress),
      (0x80, REQ_GetDescriptor), (0x81, REQ_GetDescriptor), (0x80, REQ_GetConfiguration), (0x00, REQ_SetConfiguration),
      (0xA1, CDC_REQ_GetLineEncoding), (0x21, CDC_REQ_SetLineEncoding), (0x21, CDC_REQ_SetControlLineState)]"

definition known :: "USB_Request_Header_t \<Rightarrow> bool" where
  "known r \<longleftrightarrow> (bmRequestType r, bRequest r) \<in> set known_requests"

lemma unknown_event: "\<not> known (USB_ControlRequest s) \<Longrightarrow> EVENT_USB_Device_ControlRequest m s = Some s"
  by (auto simp: EVENT_USB_Device_ControlRequest_def Let_def known_def known_requests_def)

lemma unknown_standard: "\<not> known (USB_ControlRequest s) \<Longrightarrow> standard_request m s = Some s"
  by (auto simp: standard_request_def Let_def known_def known_requests_def USB_Device_GetStatus_def
      USB_Device_ClearSetFeature_def)

text \<open>(C40) A request that no handler knows (the device status among them, which this build leaves out) is refused:
  the eight bytes of its header are read, nothing else happens, and if its SETUP packet is still
  pending a stall is requested and the packet is acknowledged, in this order.\<close>

theorem unknown_request_stalled:
  assumes "read_bytes m 8 s = (hdr, a)" "\<not> known (request_of_bytes hdr)"
    and "rd m UEINTX (a\<lparr>USB_ControlRequest := request_of_bytes hdr\<rparr>) = (v, b)" "rd m UEINTX b = (w, c)"
  shows "USB_Device_ProcessControlRequest m s = Some (if tst w RXSTPI
      then wr_clr m UEINTX (BV RXSTPI) (wr_or m UECONX (BV STALLRQ) c) else c)"
proof -
  have r: "USB_ControlRequest b = request_of_bytes hdr"
    using assms(3) by (auto simp: rd_def split: if_splits prod.splits)
  show ?thesis
    using assms unknown_event [of "a\<lparr>USB_ControlRequest := request_of_bytes hdr\<rparr>" m] unknown_standard [of b m] r
    by (simp add: USB_Device_ProcessControlRequest_def Endpoint_IsSETUPReceived_def Endpoint_ClearSETUP_def
        Endpoint_StallTransaction_def)
qed

section \<open>Address and configuration\<close>

text \<open>A host that has always taken the last packet by the time the device polls.\<close>

definition in_ready :: "'h mcu \<Rightarrow> bool" where
  "in_ready m \<longleftrightarrow> (\<forall>h. tst (fst (rd_reg m UEINTX h)) TXINI)"

lemma wait_IN_ready:
  assumes "in_ready m"
  shows "wait_status_IN m s = Some (Endpoint_ClearIN m (s\<lparr>hw := snd (rd_reg m UEINTX (hw s))\<rparr>))"
    "wait_INReady m s = Some (s\<lparr>hw := snd (rd_reg m UEINTX (hw s))\<rparr>)"
  using assms
  by (subst wait_status_IN.simps wait_INReady.simps, simp add: Endpoint_IsINReady_def rd_device in_ready_def)+

lemma low7: "(0x7F :: u8) = mask 7" "(0x7F :: u16) = mask 7"
  by (simp_all add: mask_eq_exp_minus_1)

lemma address_bits:
  "((v AND BV 7 OR lo8 (w AND 0x7F)) OR BV 7) AND 0x7F = lo8 (w AND 0x7F)"
  "lo8 (w AND 0x7F) AND 0x7F = lo8 (w AND 0x7F)" "lo8 (w AND 0x7F) = 0 \<longleftrightarrow> w AND 0x7F = 0"
proof -
  show "((v AND BV 7 OR lo8 (w AND 0x7F)) OR BV 7) AND 0x7F = lo8 (w AND 0x7F)"
    unfolding low7 lo8_def by (rule bit_word_eqI) (auto simp: bit_simps)
  show "lo8 (w AND 0x7F) AND 0x7F = lo8 (w AND 0x7F)"
    unfolding low7 lo8_def by (rule bit_word_eqI) (auto simp: bit_simps)
  have "w AND 0x7F = ucast (lo8 (w AND 0x7F))"
    unfolding low7 lo8_def by (rule bit_word_eqI) (auto simp: bit_simps)
  then show "lo8 (w AND 0x7F) = 0 \<longleftrightarrow> w AND 0x7F = 0" by (metis lo8_def unsigned_0)
qed

text \<open>\<^verbatim>\<open>SET_ADDRESS\<close>: the device takes the address (its low seven bits) only after the status stage; the address
  register is written with the enable bit last, the interrupt flag is as before, and the device is
  addressed, or back in the default state for address 0.\<close>

theorem set_address_state:
  assumes "in_ready m" "bmRequestType (USB_ControlRequest s) = 0"
  shows "\<exists>t. USB_Device_SetAddress m s = Some t
    \<and> USB_DeviceState t = (if wValue (USB_ControlRequest s) AND 0x7F \<noteq> 0 then DEVICE_STATE_Addressed else DEVICE_STATE_Default)
    \<and> io t UDADDR AND 0x7F = lo8 (wValue (USB_ControlRequest s) AND 0x7F) \<and> tst (io t UDADDR) ADDEN
    \<and> I_flag t = I_flag s \<and> USB_Device_ConfigurationNumber t = USB_Device_ConfigurationNumber s"
  using assms
  by (simp add: USB_Device_SetAddress_def Endpoint_ClearStatusStage_def wait_IN_ready code_defs reg_simps Let_def
      address_bits)

text \<open>\<^verbatim>\<open>SET_CONFIGURATION\<close>: a number above the only configuration leaves everything as it was, so that the caller
  stalls; otherwise the number is stored and the device is configured. For number 0 the code goes by the
  address: a device that has one counts as configured, one that has none as powered.\<close>

theorem set_configuration_state:
  assumes "in_ready m" "bmRequestType (USB_ControlRequest s) = 0"
    and "\<forall>h. tst (fst (rd_reg m UDADDR h)) ADDEN \<longleftrightarrow> has_address"
  shows "if lo8 (wValue (USB_ControlRequest s)) > 1 then USB_Device_SetConfiguration m s = Some s
    else \<exists>t. USB_Device_SetConfiguration m s = Some t
      \<and> USB_Device_ConfigurationNumber t = lo8 (wValue (USB_ControlRequest s))
      \<and> USB_DeviceState t = (if lo8 (wValue (USB_ControlRequest s)) \<noteq> 0 \<or> has_address
           then DEVICE_STATE_Configured else DEVICE_STATE_Powered)"
  using assms
  by (auto simp: USB_Device_SetConfiguration_def Endpoint_ClearStatusStage_def wait_IN_ready configured_state_def
      EVENT_USB_Device_ConfigurationChanged_def Endpoint_ConfigureEndpoint_8_16 code_defs reg_simps Let_def
      case_prod_unfold)

end
