(* ===== verification/Usb_Interlock.thy ===== *)
theory Usb_Interlock
  imports Usb_Port
begin

text \<open>
  The interlock of the suspend and wake-up interrupts through the whole USB stack: the initialisation, the
  interrupt handlers (\<open>Lufa_Controller\<close>), the control requests, which set the device state too
  (\<open>Lufa_Control\<close>), and the byte port (\<open>Usb_Port\<close>), loops and preemption points included.
\<close>

section \<open>Straight-line code\<close>

lemma il_upd [simp]:
  "interlock (s\<lparr>hw := h\<rparr>) = interlock s" "interlock (s\<lparr>USB_Device_ConfigurationNumber := n\<rparr>) = interlock s"
  "interlock (s\<lparr>USB_ControlRequest := c\<rparr>) = interlock s" "interlock (s\<lparr>LineEncoding := e\<rparr>) = interlock s"
  "interlock (s\<lparr>rts_pulse := n\<rparr>) = interlock s" "interlock (s\<lparr>DeviceDescriptor := dd\<rparr>) = interlock s"
  "interlock (s\<lparr>Timeout := n\<rparr>) = interlock s" "interlock (s\<lparr>led_counter := w\<rparr>) = interlock s"
  "interlock (s\<lparr>buffer := b\<rparr>) = interlock s" "interlock (s\<lparr>buffer_in := n\<rparr>) = interlock s"
  "interlock (s\<lparr>I_flag := i\<rparr>) = interlock s"
  by (simp_all add: interlock_def)

text \<open>A new state of the device other than the suspended one keeps it.\<close>

lemma il_state: "interlock s \<Longrightarrow> d \<noteq> DEVICE_STATE_Suspended \<Longrightarrow> interlock (s\<lparr>USB_DeviceState := d\<rparr>)"
  by (simp add: interlock_def)

lemma il_rd [simp]: "interlock (snd (rd m r s)) = interlock s"
  by (simp add: rd_def case_prod_unfold Let_def)

lemma il_wr: "r \<noteq> UDIEN \<Longrightarrow> interlock (wr m r v s) = interlock s"
  by (simp add: interlock_def wr_def)

lemma il_rmw: "r \<noteq> UDIEN \<Longrightarrow> interlock (wr_or m r v s) = interlock s" "r \<noteq> UDIEN \<Longrightarrow> interlock (wr_clr m r v s) = interlock s"
  by (simp_all add: wr_or_def wr_clr_def case_prod_unfold Let_def il_wr)

lemmas il_simps = il_wr il_rmw case_prod_unfold Let_def

lemma il_endpoint [simp]:
  "interlock (Endpoint_SelectEndpoint m n s) = interlock s" "interlock (Endpoint_ClearSETUP m s) = interlock s"
  "interlock (Endpoint_ClearIN m s) = interlock s" "interlock (Endpoint_ClearOUT m s) = interlock s"
  "interlock (Endpoint_StallTransaction m s) = interlock s" "interlock (Endpoint_ClearStall m s) = interlock s"
  "interlock (Endpoint_ResetDataToggle m s) = interlock s" "interlock (Endpoint_ResetEndpoint m n s) = interlock s"
  "interlock (Endpoint_Write_8 m d s) = interlock s" "interlock (Endpoint_Write_16_LE m w s) = interlock s"
  "interlock (USB_Device_SetDeviceAddress m a s) = interlock s"
  by (simp_all add: code_defs il_simps)

lemma il_endpoint_read [simp]:
  "interlock (snd (Endpoint_GetCurrentEndpoint m s)) = interlock s" "interlock (snd (Endpoint_IsINReady m s)) = interlock s"
  "interlock (snd (Endpoint_IsOUTReceived m s)) = interlock s" "interlock (snd (Endpoint_IsSETUPReceived m s)) = interlock s"
  "interlock (snd (Endpoint_BytesInEndpoint m s)) = interlock s"
  "interlock (snd (Endpoint_IsReadWriteAllowed m s)) = interlock s" "interlock (snd (Endpoint_IsStalled m s)) = interlock s"
  "interlock (snd (Endpoint_IsEnabled m s)) = interlock s" "interlock (snd (Endpoint_Read_8 m s)) = interlock s"
  "interlock (snd (USB_Device_IsAddressSet m s)) = interlock s"
  "interlock (snd (Endpoint_ConfigureEndpoint_Prv m n c0 c1 s)) = interlock s"
  by (simp_all add: code_defs il_simps)

lemma il_Configure: "Endpoint_ConfigureEndpoint m n ty d b k s = Some (r, t) \<Longrightarrow> interlock t = interlock s"
  by (auto simp: Endpoint_ConfigureEndpoint_def bind_Some_iff dest!: arg_cong [of _ _ snd])

lemma il_configured_state: "interlock s \<Longrightarrow> interlock (configured_state m s)"
  by (auto simp: configured_state_def case_prod_unfold intro!: il_state)

section \<open>The interrupt handlers\<close>

lemma il_isr [simp]:
  "interlock (USART1_RX_isr m s) = interlock s" "interlock (TIMER1_COMPA_isr s) = interlock s"
  by (simp_all add: USART1_RX_isr_def TIMER1_COMPA_isr_def ring_put_def Let_def case_prod_unfold)

lemma il_irq: "irq_point m s = Some t \<Longrightarrow> interlock s \<Longrightarrow> interlock t"
  by (auto simp: irq_point_def Let_def case_prod_unfold split: if_splits option.splits vect.splits
      dest: interlock_isr)

section \<open>The control endpoint\<close>

lemmas il_loop = bind_Some_iff il_simps

lemma il_wait_status_OUT: "wait_status_OUT m s = Some t \<Longrightarrow> interlock s \<Longrightarrow> interlock t"
  by (rule wait_status_OUT.raw_induct [of "\<lambda>m s t. interlock s \<longrightarrow> interlock t", rule_format])
    (auto simp: il_loop dest: il_irq split: if_splits)

lemma il_wait_status_IN: "wait_status_IN m s = Some t \<Longrightarrow> interlock s \<Longrightarrow> interlock t"
  by (rule wait_status_IN.raw_induct [of "\<lambda>m s t. interlock s \<longrightarrow> interlock t", rule_format])
    (auto simp: il_loop dest: il_irq split: if_splits)

lemma il_wait_INReady: "wait_INReady m s = Some t \<Longrightarrow> interlock s \<Longrightarrow> interlock t"
  by (rule wait_INReady.raw_induct [of "\<lambda>m s t. interlock s \<longrightarrow> interlock t", rule_format])
    (auto simp: il_loop dest: il_irq split: if_splits)

lemma il_ClearStatusStage: "Endpoint_ClearStatusStage m s = Some t \<Longrightarrow> interlock s \<Longrightarrow> interlock t"
  by (auto simp: Endpoint_ClearStatusStage_def split: if_splits dest: il_wait_status_OUT il_wait_status_IN)

lemma il_stream_abort [simp]: "interlock (snd (stream_abort m s)) = interlock s"
  by (simp add: stream_abort_def il_simps)

lemma il_stream_status:
  assumes "\<And>m (s :: 'h fw). interlock (snd (ready m s)) = interlock s"
    and "stream_status ready m (s :: 'h fw) = Some r" "interlock s"
  shows "interlock (snd r)"
  by (rule stream_status.raw_induct [of "\<lambda>ready m s r.
        (\<forall>m s. interlock (snd (ready m s)) = interlock s) \<longrightarrow> interlock s \<longrightarrow> interlock (snd r)", OF _ assms(2), rule_format])
    (auto simp: il_loop assms(1,3) dest: il_irq split: if_splits)

lemmas il_status =
  il_stream_status [of Endpoint_IsOUTReceived, OF il_endpoint_read(3)]
  il_stream_status [of Endpoint_IsINReady, OF il_endpoint_read(2)]

lemma il_fill_packet [simp]: "interlock (snd (snd (snd (fill_packet m ds l n s)))) = interlock s"
  by (induction m ds l n s rule: fill_packet.induct) (subst fill_packet.simps, simp)

lemma il_drain_packet [simp]: "interlock (snd (snd (drain_packet m got l s))) = interlock s"
proof (induction m got l s rule: drain_packet.induct)
  case (1 m got l s)
  then show ?case
    using 1 [OF _ prod.collapse _ prod.collapse]
    by (subst drain_packet.simps) (simp add: case_prod_unfold)
qed

lemma il_write_stream_loop: "write_stream_loop m ds l f s = Some r \<Longrightarrow> interlock s \<Longrightarrow> interlock (snd r)"
  by (rule write_stream_loop.raw_induct [of "\<lambda>m ds l f s r. interlock s \<longrightarrow> interlock (snd r)", rule_format])
    (auto simp: il_loop dest: il_irq split: if_splits)

lemma il_read_stream_loop: "read_stream_loop m got l s = Some r \<Longrightarrow> interlock s \<Longrightarrow> interlock (snd (snd r))"
  by (rule read_stream_loop.raw_induct [of "\<lambda>m got l s r. interlock s \<longrightarrow> interlock (snd (snd r))", rule_format])
    (auto simp: il_loop dest: il_irq split: if_splits)

lemma il_Write_Control_Stream:
  assumes "Endpoint_Write_Control_Stream_LE m b l s = Some (e, t)" "interlock s"
  shows "interlock t"
proof -
  define p where "p = (if l > wLength (USB_ControlRequest s) then (wLength (USB_ControlRequest s), s)
             else if l = 0 then (l, Endpoint_ClearIN m s) else (l, s))"
  then have "interlock (snd p)" using assms(2) by simp
  moreover obtain e' u where w: "write_stream_loop m b (fst p) False (snd p) = Some (e', u)"
    and r: "(case e' of Some c \<Rightarrow> Some (c, u) | None \<Rightarrow> stream_status Endpoint_IsOUTReceived m u) = Some (e, t)"
    using assms(1) unfolding Endpoint_Write_Control_Stream_LE_def p_def [symmetric] Let_def
    by (cases p) (auto simp: bind_Some_iff)
  ultimately have "interlock u" using il_write_stream_loop [OF w] by simp
  then show ?thesis using r by (cases e') (auto dest: il_status)
qed

lemma il_Read_Control_Stream:
  assumes "Endpoint_Read_Control_Stream_LE m l s = Some (e, got, t)" "interlock s"
  shows "interlock t"
proof -
  define s' where "s' = (if l = 0 then Endpoint_ClearOUT m s else s)"
  then have "interlock s'" using assms(2) by simp
  moreover obtain e' g u where w: "read_stream_loop m [] l s' = Some (e', g, u)"
    and r: "(case e' of Some c \<Rightarrow> Some (c, g, u)
      | None \<Rightarrow> stream_status Endpoint_IsINReady m u \<bind> (\<lambda>(c, s). Some (c, g, s))) = Some (e, got, t)"
    using assms(1) unfolding Endpoint_Read_Control_Stream_LE_def s'_def [symmetric] Let_def
    by (auto simp: bind_Some_iff)
  ultimately have "interlock u" using il_read_stream_loop [OF w] by simp
  then show ?thesis using r by (cases e') (auto simp: bind_Some_iff dest: il_status)
qed

section \<open>The requests\<close>

lemma il_ConfigurationChanged: "EVENT_USB_Device_ConfigurationChanged m s = Some t \<Longrightarrow> interlock t = interlock s"
  by (auto simp: EVENT_USB_Device_ConfigurationChanged_def bind_Some_iff dest!: il_Configure)

lemma il_ControlRequest: "EVENT_USB_Device_ControlRequest m s = Some t \<Longrightarrow> interlock s \<Longrightarrow> interlock t"
  by (auto simp: EVENT_USB_Device_ControlRequest_def Let_def bind_Some_iff split: if_splits
      dest!: il_Write_Control_Stream il_Read_Control_Stream il_ClearStatusStage)

lemma il_SetAddress: "USB_Device_SetAddress m s = Some t \<Longrightarrow> interlock s \<Longrightarrow> interlock t"
  by (auto simp: USB_Device_SetAddress_def Let_def bind_Some_iff cli_def
      dest!: il_ClearStatusStage il_wait_INReady intro!: il_state)

lemma il_SetConfiguration: "USB_Device_SetConfiguration m s = Some t \<Longrightarrow> interlock s \<Longrightarrow> interlock t"
  by (auto simp: USB_Device_SetConfiguration_def Let_def bind_Some_iff split: if_splits
      dest!: il_ClearStatusStage il_ConfigurationChanged intro: il_configured_state)

lemma il_shadow [simp]: "interlock (shadow_vid_pid_from_sketch m s) = interlock s"
  by (simp add: shadow_vid_pid_from_sketch_def) (subst shadow_loop_frame, simp)

lemma il_GetDescriptor: "USB_Device_GetDescriptor m s = Some t \<Longrightarrow> interlock s \<Longrightarrow> interlock t"
  by (auto simp: USB_Device_GetDescriptor_def CALLBACK_USB_GetDescriptor_def Let_def bind_Some_iff
      split: if_splits dest!: il_Write_Control_Stream)

lemma il_GetStatus: "USB_Device_GetStatus m s = Some t \<Longrightarrow> interlock s \<Longrightarrow> interlock t"
  by (auto simp: USB_Device_GetStatus_def il_simps split: if_splits dest!: il_ClearStatusStage)

lemma il_set_endpoint_halt: "set_endpoint_halt m s = Some t \<Longrightarrow> interlock t = interlock s"
  by (auto simp: set_endpoint_halt_def il_simps split: if_splits)

lemma il_ClearSetFeature: "USB_Device_ClearSetFeature m s = Some t \<Longrightarrow> interlock s \<Longrightarrow> interlock t"
  by (auto simp: USB_Device_ClearSetFeature_def Let_def split: if_splits option.splits
      dest!: il_ClearStatusStage il_set_endpoint_halt)

lemma il_GetConfiguration: "USB_Device_GetConfiguration m s = Some t \<Longrightarrow> interlock s \<Longrightarrow> interlock t"
  by (auto simp: USB_Device_GetConfiguration_def Let_def dest!: il_ClearStatusStage)

lemma il_standard_request: "standard_request m s = Some t \<Longrightarrow> interlock s \<Longrightarrow> interlock t"
  by (auto simp: standard_request_def Let_def split: if_splits dest: il_GetStatus il_ClearSetFeature
      il_SetAddress il_GetDescriptor il_GetConfiguration il_SetConfiguration)

lemma il_read_bytes [simp]: "interlock (snd (read_bytes m n s)) = interlock s"
  by (induction n arbitrary: s) (simp_all add: case_prod_unfold)

lemma il_ProcessControlRequest: "USB_Device_ProcessControlRequest m s = Some t \<Longrightarrow> interlock s \<Longrightarrow> interlock t"
  by (auto simp: USB_Device_ProcessControlRequest_def il_simps bind_Some_iff split: if_splits
      dest!: il_standard_request il_ControlRequest)

lemma il_USBTask: "USB_USBTask m s = Some t \<Longrightarrow> interlock s \<Longrightarrow> interlock t"
  by (auto simp: USB_USBTask_def USB_DeviceTask_def il_simps bind_Some_iff split: if_splits
      dest!: il_irq il_ProcessControlRequest)

section \<open>The byte port\<close>

lemma il_byte_available: "usb_byte_available m s = Some (r, t) \<Longrightarrow> interlock s \<Longrightarrow> interlock t"
  by (auto simp: usb_byte_available_def il_loop split: if_splits dest!: il_USBTask)

lemma il_read_byte: "usb_read_byte m s = Some r \<Longrightarrow> interlock s \<longrightarrow> interlock (snd r)"
proof (erule usb_read_byte.raw_induct [of "\<lambda>m s r. interlock s \<longrightarrow> interlock (snd r)", rotated])
  fix f :: "'a mcu \<Rightarrow> 'a fw \<Rightarrow> (u8 \<times> 'a fw) option" and m s r
  assume IH: "\<And>m s r. f m s = Some r \<Longrightarrow> interlock s \<longrightarrow> interlock (snd r)"
    and "usb_byte_available m s \<bind> (\<lambda>(r, s). if r then Some (Endpoint_Read_8 m s)
      else if endpoint_detached s then Some (0, s) else f m s) = Some r"
  then show "interlock s \<longrightarrow> interlock (snd r)"
    by (auto simp: bind_Some_iff split: if_splits dest!: il_byte_available IH)
qed

lemma il_flush_wait: "flush_wait m s = Some t \<Longrightarrow> interlock s \<Longrightarrow> interlock t"
  by (rule flush_wait.raw_induct [of "\<lambda>m s t. interlock s \<longrightarrow> interlock t", rule_format])
    (auto simp: il_loop dest: il_irq split: if_splits)

lemma il_flush_endpoint: "usb_flush_endpoint m s = Some t \<Longrightarrow> interlock s \<Longrightarrow> interlock t"
  by (auto simp: usb_flush_endpoint_def dest: il_flush_wait)

lemma il_flush: "usb_flush m s = Some t \<Longrightarrow> interlock s \<Longrightarrow> interlock t"
  by (auto simp: usb_flush_def il_loop split: if_splits dest!: il_flush_endpoint)

lemma il_write_byte: "usb_write_byte m b s = Some t \<Longrightarrow> interlock s \<Longrightarrow> interlock t"
  by (auto simp: usb_write_byte_def il_loop split: if_splits dest!: il_USBTask il_flush_endpoint)

section \<open>The reachable states\<close>

text \<open>The states of the USB stack: from the initialisation on, an interrupt is taken (any of the three handlers),
  the stack is polled, which serves control requests, or the byte port is called; in between the
  hardware changes arbitrarily, and the rest of the firmware changes whatever is not the stack's
  (\<open>usb_part\<close>: the state of the device and the mask of the bus interrupts).\<close>

definition usb_part :: "'h fw \<Rightarrow> USB_Device_States_t \<times> u8 \<times> u8" where
  "usb_part s = (USB_DeviceState s, USB_Device_ConfigurationNumber s, io s UDIEN)"

inductive usb_reach :: "'h mcu \<Rightarrow> 'h fw \<Rightarrow> bool" for m where
  init: "USB_Init m s0 = Some s \<Longrightarrow> usb_reach m s"
| preempt: "usb_reach m s \<Longrightarrow> irq_point m s = Some t \<Longrightarrow> usb_reach m t"
| isr: "usb_reach m s \<Longrightarrow> USB_GEN_isr m s = Some t \<Longrightarrow> usb_reach m t"
| poll: "usb_reach m s \<Longrightarrow> USB_USBTask m s = Some t \<Longrightarrow> usb_reach m t"
| request: "usb_reach m s \<Longrightarrow> USB_Device_ProcessControlRequest m s = Some t \<Longrightarrow> usb_reach m t"
| receive: "usb_reach m s \<Longrightarrow> usb_read_byte m s = Some (b, t) \<Longrightarrow> usb_reach m t"
| send: "usb_reach m s \<Longrightarrow> usb_write_byte m b s = Some t \<Longrightarrow> usb_reach m t"
| flush: "usb_reach m s \<Longrightarrow> usb_flush m s = Some t \<Longrightarrow> usb_reach m t"
| other: "usb_reach m s \<Longrightarrow> usb_part t = usb_part s \<Longrightarrow> usb_reach m t"

text \<open>(C27) The suspend and wake-up interlock. From the initialisation on, whatever the bus does and the host
  requests, the end-of-reset interrupt stays enabled, exactly one of the suspend and wake-up interrupts is
  enabled, and a device that is suspended has its wake-up interrupt enabled, so it can always be woken.\<close>

theorem usb_interlock:
  assumes "usb_reach m s"
  shows "interlock s"
  using assms
proof (induction rule: usb_reach.induct)
  case (other s t)
  then show ?case by (simp add: interlock_def usb_part_def)
next
  case (receive s b t)
  then show ?case using il_read_byte [of m s "(b, t)"] by simp
qed (blast intro: interlock_init interlock_isr il_irq il_USBTask il_ProcessControlRequest il_write_byte il_flush)+

end
