(* ===== verification/Sim_Mcu.thy ===== *)
theory Sim_Mcu
  imports Bridge Control_Requests Usb_Interlock
begin

text \<open>
  An executable part: hardware that follows the data sheet for what the firmware uses (endpoints,
  UART, flash self-programming, PLL, reset switch), driven by a script of interrupt requests. It shows that the
  laws the theorems assume of the hardware can be met, and the theorems are applied to it at concrete
  inputs.
\<close>

section \<open>The simulated part\<close>

record sim =
  s_reg :: "reg \<Rightarrow> u8"
  s_usb :: usb_view
  s_flash :: flash_view
  s_script :: "vect option list"
  s_uart_in :: "u8 list"
  s_uart_out :: "u8 list"
  s_switch :: "bool list"
  s_ctl :: ctl_view
  s_limit :: nat

fun sim_ep :: "usb_view \<Rightarrow> u8 list" where
  "sim_ep u = (if sel u = CDC_TX_EPNUM then txb u
     else if sel u = CDC_RX_EPNUM then (case rxq u of [] \<Rightarrow> [] | p # _ \<Rightarrow> p) else [])"

text \<open>The control endpoint: the host takes a bank in two polls and acknowledges in one more.\<close>

definition sim_ctl_rd :: "nat \<Rightarrow> ctl_view \<Rightarrow> u8 \<times> ctl_view" where
  "sim_ctl_rd limit c =
     (let done = complete limit (c_sent c) in
      ((if c_stage c = Setup_Pending then BV RXSTPI else 0) OR (if c_busy c = 0 then BV TXINI else 0)
         OR (if c_stage c = Data_Stage \<and> done \<and> c_ack c = 0 then BV RXOUTI else 0),
       c\<lparr>c_busy := (if done \<and> c_ack c = 0 then c_busy c else c_busy c - 1),
         c_ack := (if done then c_ack c - 1 else c_ack c)\<rparr>))"

definition sim_ctl_wr :: "nat \<Rightarrow> u8 \<Rightarrow> ctl_view \<Rightarrow> ctl_view" where
  "sim_ctl_wr limit v c =
     (if c_stage c = Data_Stage \<and> c_busy c = 0 \<and> \<not> tst v TXINI \<and> \<not> tst v FIFOCON
      then c\<lparr>c_in := [], c_sent := c_sent c @ [c_in c], c_busy := 2, c_ack := 1\<rparr>
      else c\<lparr>c_stage := next_stage limit v c\<rparr>)"

definition sim_UEINTX :: "usb_view \<Rightarrow> u8 \<times> usb_view" where
  "sim_UEINTX u =
     (if sel u = CDC_TX_EPNUM then
        ((if busy u = 0 then BV TXINI OR (if length (txb u) < 16 then BV RWAL else 0) else 0), u\<lparr>busy := busy u - 1\<rparr>)
      else if sel u = CDC_RX_EPNUM then ((if rxq u \<noteq> [] then BV RXOUTI else 0), u)
      else (BV TXINI, u))"

fun sim_rd :: "reg \<Rightarrow> sim \<Rightarrow> u8 \<times> sim" where
  "sim_rd UEINTX h =
     (if sel (s_usb h) = ENDPOINT_CONTROLEP
      then (case sim_ctl_rd (s_limit h) (s_ctl h) of (v, c) \<Rightarrow> (v, h\<lparr>s_ctl := c\<rparr>))
      else (case sim_UEINTX (s_usb h) of (v, u) \<Rightarrow> (v, h\<lparr>s_usb := u\<rparr>)))"
| "sim_rd UEBCHX h = (0, h)"
| "sim_rd UEBCLX h = (of_nat (length
     (if sel (s_usb h) = ENDPOINT_CONTROLEP then c_in (s_ctl h) else sim_ep (s_usb h))), h)"
| "sim_rd UEDATX h =
     (if sel (s_usb h) = CDC_RX_EPNUM then
        (case rxq (s_usb h) of (b # p) # q \<Rightarrow> (b, h\<lparr>s_usb := (s_usb h)\<lparr>rxq := p # q\<rparr>\<rparr>) | _ \<Rightarrow> (0, h))
      else (0, h))"
| "sim_rd UDR1 h = (case s_uart_in h of [] \<Rightarrow> (0, h) | b # bs \<Rightarrow> (b, h\<lparr>s_uart_in := bs\<rparr>))"
| "sim_rd UCSR1A h = (BV UDRE1, h)"
| "sim_rd PIND h = (case s_switch h of [] \<Rightarrow> (BV 5, h) | b # bs \<Rightarrow> (if b then 0 else BV 5, h\<lparr>s_switch := bs\<rparr>))"
| "sim_rd PLLCSR h = (s_reg h PLLCSR OR (if tst (s_reg h PLLCSR) PLLE then BV PLOCK else 0), h)"
| "sim_rd r h = (s_reg h r, h)"

definition sim_wr_UEINTX :: "u8 \<Rightarrow> usb_view \<Rightarrow> usb_view" where
  "sim_wr_UEINTX v u =
     (if sel u = CDC_RX_EPNUM \<and> \<not> tst v RXOUTI \<and> \<not> tst v FIFOCON then u\<lparr>rxq := tl (rxq u)\<rparr>
      else if sel u = CDC_TX_EPNUM \<and> busy u = 0 \<and> \<not> tst v TXINI \<and> \<not> tst v FIFOCON
      then u\<lparr>txb := [], sent := sent u @ [txb u], busy := 2\<rparr> else u)"

fun sim_wr :: "reg \<Rightarrow> u8 \<Rightarrow> sim \<Rightarrow> sim" where
  "sim_wr UENUM v h = h\<lparr>s_usb := (s_usb h)\<lparr>sel := v\<rparr>\<rparr>"
| "sim_wr UEINTX v h =
     (if sel (s_usb h) = ENDPOINT_CONTROLEP then h\<lparr>s_ctl := sim_ctl_wr (s_limit h) v (s_ctl h)\<rparr>
      else h\<lparr>s_usb := sim_wr_UEINTX v (s_usb h)\<rparr>)"
| "sim_wr UEDATX v h =
     (if sel (s_usb h) = CDC_TX_EPNUM \<and> busy (s_usb h) = 0 \<and> length (txb (s_usb h)) < 16
      then h\<lparr>s_usb := (s_usb h)\<lparr>txb := txb (s_usb h) @ [v]\<rparr>\<rparr>
      else if sel (s_usb h) = ENDPOINT_CONTROLEP \<and> c_busy (s_ctl h) = 0 \<and> length (c_in (s_ctl h)) < 8
      then h\<lparr>s_ctl := (s_ctl h)\<lparr>c_in := c_in (s_ctl h) @ [v]\<rparr>\<rparr> else h)"
| "sim_wr UDR1 v h = h\<lparr>s_uart_out := s_uart_out h @ [v]\<rparr>"
| "sim_wr r v h = h\<lparr>s_reg := (s_reg h)(r := v)\<rparr>"

text \<open>The script of interrupt requests; a receive interrupt needs a byte received.\<close>

definition sim_irq :: "bool \<Rightarrow> sim \<Rightarrow> vect option \<times> sim" where
  "sim_irq i h = (case s_script h of [] \<Rightarrow> (None, h) | v # vs \<Rightarrow>
     (if v = Some USART1_RX_vect \<and> s_uart_in h = [] then None else v, h\<lparr>s_script := vs\<rparr>))"

definition sim_erase :: "u32 \<Rightarrow> flash_view \<Rightarrow> flash_view" where
  "sim_erase a f = f\<lparr>mem := \<lambda>i. if same_page a i then 0xFF else mem f i, rww := False\<rparr>"

definition sim_fill :: "u32 \<Rightarrow> u16 \<Rightarrow> flash_view \<Rightarrow> flash_view" where
  "sim_fill a w f = f\<lparr>tmp := (tmp f)((unat a mod SPM_PAGESIZE) div 2 := w)\<rparr>"

definition sim_page_write :: "u32 \<Rightarrow> flash_view \<Rightarrow> flash_view" where
  "sim_page_write a f = f\<lparr>mem := \<lambda>i. if same_page a i then mem f i AND page_byte (tmp f) i else mem f i,
     tmp := \<lambda>_. 0xFFFF, rww := False\<rparr>"

definition sim_rww :: "flash_view \<Rightarrow> flash_view" where
  "sim_rww f = f\<lparr>tmp := \<lambda>_. 0xFFFF, rww := True\<rparr>"

definition sim_mcu :: "sim mcu" where
  "sim_mcu = \<lparr>rd_reg = sim_rd, wr_reg = sim_wr, irq_line = sim_irq, hw_delay_ms = (\<lambda>_ h. h),
     hw_wdt_disable = (\<lambda>h. h), hw_pgm_byte = (\<lambda>a h. mem (s_flash h) (unat a)),
     hw_boot_page_erase = (\<lambda>a h. h\<lparr>s_flash := sim_erase a (s_flash h)\<rparr>),
     hw_boot_page_fill = (\<lambda>a w h. h\<lparr>s_flash := sim_fill a w (s_flash h)\<rparr>),
     hw_boot_page_write = (\<lambda>a h. h\<lparr>s_flash := sim_page_write a (s_flash h)\<rparr>),
     hw_boot_spm_busy_wait = (\<lambda>h. h),
     hw_boot_rww_enable = (\<lambda>h. h\<lparr>s_flash := sim_rww (s_flash h)\<rparr>),
     hw_boot_rww_enable_safe = (\<lambda>h. h\<lparr>s_flash := sim_rww (s_flash h)\<rparr>)\<rparr>"

section \<open>It meets the laws\<close>

definition sim_ticks :: "sim \<Rightarrow> nat" where
  "sim_ticks h = count_list (s_script h) (Some TIMER1_COMPA_vect)"

definition sim_arr :: "sim \<Rightarrow> u8 list" where
  "sim_arr h = s_uart_in h"

definition sim_calm :: "sim \<Rightarrow> bool" where
  "sim_calm h \<longleftrightarrow> Some USB_GEN_vect \<notin> set (s_script h) \<and> (\<forall>p \<in> set (rxq (s_usb h)). length p \<le> 16)
     \<and> length (txb (s_usb h)) \<le> 16 \<and> c_stage (s_ctl h) \<noteq> Setup_Pending"

lemma sim_mcu_simps [simp]:
  "rd_reg sim_mcu = sim_rd" "wr_reg sim_mcu = sim_wr" "irq_line sim_mcu = sim_irq"
  "hw_delay_ms sim_mcu n h = h" "hw_wdt_disable sim_mcu h = h"
  "hw_pgm_byte sim_mcu x h = mem (s_flash h) (unat x)"
  "hw_boot_page_erase sim_mcu a = (\<lambda>h. h\<lparr>s_flash := sim_erase a (s_flash h)\<rparr>)"
  "hw_boot_page_fill sim_mcu a w = (\<lambda>h. h\<lparr>s_flash := sim_fill a w (s_flash h)\<rparr>)"
  "hw_boot_page_write sim_mcu a = (\<lambda>h. h\<lparr>s_flash := sim_page_write a (s_flash h)\<rparr>)"
  "hw_boot_spm_busy_wait sim_mcu = (\<lambda>h. h)"
  "hw_boot_rww_enable sim_mcu = (\<lambda>h. h\<lparr>s_flash := sim_rww (s_flash h)\<rparr>)"
  "hw_boot_rww_enable_safe sim_mcu = (\<lambda>h. h\<lparr>s_flash := sim_rww (s_flash h)\<rparr>)"
  by (simp_all add: sim_mcu_def)

lemma in_set_tlD: "x \<in> set (tl xs) \<Longrightarrow> x \<in> set xs"
  by (cases xs) auto

interpretation pll: pll_locks sim_mcu
proof
  fix v :: u8 and h :: sim
  assume "tst v PLLE"
  then show "\<exists>n. tst (fst (rd_reg sim_mcu PLLCSR (((\<lambda>h. snd (rd_reg sim_mcu PLLCSR h)) ^^ n)
      (wr_reg sim_mcu PLLCSR v h)))) PLOCK"
    by (intro exI [of _ 0]) simp
qed

text \<open>The byte port, for any part of the hardware that it does not reach.\<close>

lemma sim_cdc_link:
  assumes rest [simp]: "\<And>h x. rest (h\<lparr>s_usb := x\<rparr>) = rest h" "\<And>h x. rest (h\<lparr>s_ctl := x\<rparr>) = rest h"
    "\<And>h x. rest (h\<lparr>s_script := x\<rparr>) = rest h" "\<And>h x. rest (h\<lparr>s_uart_in := x\<rparr>) = rest h"
  shows "cdc_link sim_mcu s_usb rest sim_ticks sim_arr sim_calm"
proof
  fix h :: sim and p q :: "u8 list" and r :: reg and v b n :: u8 and i x h' and qq
  assume calm: "sim_calm h"
  show "p \<in> set (rxq (s_usb h)) \<Longrightarrow> length p \<le> 16" using calm by (simp add: sim_calm_def)
  show "length (txb (s_usb h)) \<le> 16" using calm by (simp add: sim_calm_def)
  show "r \<in> {UEINTX, UEBCHX, UEBCLX, UEDATX, UDR1} \<Longrightarrow> sim_calm (snd (rd_reg sim_mcu r h)) \<and>
      rest (snd (rd_reg sim_mcu r h)) = rest h \<and> sim_ticks (snd (rd_reg sim_mcu r h)) = sim_ticks h
      \<and> (r \<noteq> UDR1 \<longrightarrow> sim_arr (snd (rd_reg sim_mcu r h)) = sim_arr h)"
    using calm by (auto simp: sim_calm_def sim_ticks_def sim_arr_def sim_ctl_rd_def Let_def sim_UEINTX_def split: list.splits prod.splits if_splits)
  show "sim_arr h = b # bs \<Longrightarrow> fst (rd_reg sim_mcu UDR1 h) = b \<and> sim_arr (snd (rd_reg sim_mcu UDR1 h)) = bs" for bs
    by (simp add: sim_arr_def)
  show "r \<in> {UENUM, UEINTX, UEDATX} \<Longrightarrow> sim_calm (wr_reg sim_mcu r v h) \<and>
      rest (wr_reg sim_mcu r v h) = rest h \<and> sim_ticks (wr_reg sim_mcu r v h) = sim_ticks h
      \<and> sim_arr (wr_reg sim_mcu r v h) = sim_arr h"
    using calm by (auto simp: sim_calm_def sim_ticks_def sim_arr_def sim_ctl_wr_def next_stage_def sim_wr_UEINTX_def split: if_splits dest!: in_set_tlD)
  show "s_usb (wr_reg sim_mcu UENUM n h) = (s_usb h)\<lparr>sel := n\<rparr>" by simp
  show "sel (s_usb h) = ENDPOINT_CONTROLEP \<Longrightarrow> \<not> tst (fst (rd_reg sim_mcu UEINTX h)) RXSTPI
      \<and> s_usb (snd (rd_reg sim_mcu UEINTX h)) = s_usb h"
    using calm by (simp add: sim_ctl_rd_def sim_calm_def Let_def)
  show "sel (s_usb h) = CDC_RX_EPNUM \<Longrightarrow> tst (fst (rd_reg sim_mcu UEINTX h)) RXOUTI = (rxq (s_usb h) \<noteq> [])
      \<and> s_usb (snd (rd_reg sim_mcu UEINTX h)) = s_usb h"
    by (simp add: sim_UEINTX_def)
  show "sel (s_usb h) = CDC_TX_EPNUM \<Longrightarrow>
      tst (fst (rd_reg sim_mcu UEINTX h)) TXINI = (busy (s_usb h) = 0)
      \<and> tst (fst (rd_reg sim_mcu UEINTX h)) RWAL = (busy (s_usb h) = 0 \<and> length (txb (s_usb h)) < 16)
      \<and> s_usb (snd (rd_reg sim_mcu UEINTX h)) = (s_usb h)\<lparr>busy := busy (s_usb h) - 1\<rparr>"
    by (simp add: sim_UEINTX_def)
  show "sel (s_usb h) = CDC_RX_EPNUM \<Longrightarrow> rxq (s_usb h) = p # qq \<Longrightarrow>
      fst (rd_reg sim_mcu UEBCHX h) = 0 \<and> fst (rd_reg sim_mcu UEBCLX h) = word_of_nat (length p)"
    by simp
  show "sel (s_usb h) = CDC_TX_EPNUM \<Longrightarrow>
      fst (rd_reg sim_mcu UEBCHX h) = 0 \<and> fst (rd_reg sim_mcu UEBCLX h) = word_of_nat (length (txb (s_usb h)))"
    by simp
  show "r \<in> {UEBCHX, UEBCLX, UDR1} \<Longrightarrow> s_usb (snd (rd_reg sim_mcu r h)) = s_usb h"
    by (auto split: list.splits)
  show "sel (s_usb h) = CDC_RX_EPNUM \<Longrightarrow> rxq (s_usb h) = (b # p) # qq \<Longrightarrow>
      fst (rd_reg sim_mcu UEDATX h) = b \<and> s_usb (snd (rd_reg sim_mcu UEDATX h)) = (s_usb h)\<lparr>rxq := p # qq\<rparr>"
    by simp
  show "sel (s_usb h) = CDC_TX_EPNUM \<Longrightarrow> busy (s_usb h) = 0 \<Longrightarrow> length (txb (s_usb h)) < 16 \<Longrightarrow>
      s_usb (wr_reg sim_mcu UEDATX b h) = (s_usb h)\<lparr>txb := txb (s_usb h) @ [b]\<rparr>"
    by simp
  show "sel (s_usb h) = CDC_RX_EPNUM \<Longrightarrow> \<not> tst v RXOUTI \<Longrightarrow> \<not> tst v FIFOCON \<Longrightarrow>
      s_usb (wr_reg sim_mcu UEINTX v h) = (s_usb h)\<lparr>rxq := tl (rxq (s_usb h))\<rparr>"
    by (simp add: sim_wr_UEINTX_def)
  show "sel (s_usb h) = CDC_TX_EPNUM \<Longrightarrow> busy (s_usb h) = 0 \<Longrightarrow> \<not> tst v TXINI \<Longrightarrow> \<not> tst v FIFOCON \<Longrightarrow>
      \<exists>n. s_usb (wr_reg sim_mcu UEINTX v h) =
        (s_usb h)\<lparr>txb := [], sent := sent (s_usb h) @ [txb (s_usb h)], busy := n\<rparr>"
    by (intro exI [of _ 2]) (simp add: sim_wr_UEINTX_def)
  show "irq_line sim_mcu i h = (x, h') \<Longrightarrow> sim_calm h' \<and> s_usb h' = s_usb h \<and> rest h' = rest h
      \<and> x \<noteq> Some USB_GEN_vect \<and> sim_ticks h' + (if x = Some TIMER1_COMPA_vect then 1 else 0) \<le> sim_ticks h
      \<and> sim_arr h' = sim_arr h \<and> (x = Some USART1_RX_vect \<longrightarrow> sim_arr h \<noteq> [])"
    using calm by (auto simp: sim_irq_def sim_calm_def sim_ticks_def sim_arr_def split: list.splits if_splits)
qed

interpretation dev: cdc_link sim_mcu s_usb s_flash sim_ticks sim_arr sim_calm
  by (rule sim_cdc_link) simp_all

interpretation dev: spm_link sim_mcu s_usb s_flash sim_ticks sim_arr sim_calm
proof
  fix h :: sim and f :: "sim \<Rightarrow> sim" and v :: u8 and a :: u32 and w x :: u16
  assume calm: "sim_calm h"
  show "sim_calm (wr_reg sim_mcu TIMSK1 v h) \<and> s_usb (wr_reg sim_mcu TIMSK1 v h) = s_usb h
      \<and> s_flash (wr_reg sim_mcu TIMSK1 v h) = s_flash h \<and> sim_ticks (wr_reg sim_mcu TIMSK1 v h) = sim_ticks h"
    using calm by (simp add: sim_calm_def sim_ticks_def)
  show "f \<in> {hw_boot_page_erase sim_mcu a, hw_boot_page_fill sim_mcu a w, hw_boot_page_write sim_mcu a,
        hw_boot_spm_busy_wait sim_mcu, hw_boot_rww_enable sim_mcu, hw_boot_rww_enable_safe sim_mcu} \<Longrightarrow>
      sim_calm (f h) \<and> s_usb (f h) = s_usb h \<and> sim_ticks (f h) = sim_ticks h"
    using calm by (auto simp: sim_calm_def sim_ticks_def)
qed (simp_all add: same_flash_def sim_erase_def sim_fill_def sim_page_write_def sim_rww_def)

text \<open>The UART: the data register is always empty when polled.\<close>

interpretation ser: uart_link sim_mcu s_usb s_uart_out sim_ticks sim_arr sim_calm "\<lambda>_. 0"
proof (rule uart_link.intro)
  show "cdc_link sim_mcu s_usb s_uart_out sim_ticks sim_arr sim_calm" by (rule sim_cdc_link) simp_all
  show "uart_link_axioms sim_mcu s_usb s_uart_out sim_ticks sim_arr sim_calm (\<lambda>_. 0)"
    by unfold_locales (auto simp: sim_calm_def sim_ticks_def sim_arr_def)
qed

text \<open>The control endpoint, with a host that asks for \<open>n\<close> bytes.\<close>

definition ctl_calm :: "nat \<Rightarrow> sim \<Rightarrow> bool" where
  "ctl_calm n h \<longleftrightarrow> sel (s_usb h) = ENDPOINT_CONTROLEP \<and> s_limit h = n \<and> Some USB_GEN_vect \<notin> set (s_script h)"

lemma sim_ctl_rd_flags:
  "tst (fst (sim_ctl_rd n c)) RXSTPI \<longleftrightarrow> c_stage c = Setup_Pending" "tst (fst (sim_ctl_rd n c)) TXINI \<longleftrightarrow> c_busy c = 0"
  "tst (fst (sim_ctl_rd n c)) RXOUTI \<longleftrightarrow> c_stage c = Data_Stage \<and> complete n (c_sent c) \<and> c_ack c = 0"
  by (simp_all add: sim_ctl_rd_def Let_def)

lemma sim_ctl_rd_next:
  "\<exists>k \<le> c_busy c. snd (sim_ctl_rd n c) = c\<lparr>c_busy := k, c_ack := (if complete n (c_sent c) then c_ack c - 1 else c_ack c)\<rparr>
    \<and> (c_busy c \<noteq> 0 \<and> \<not> complete n (c_sent c) \<longrightarrow> k < c_busy c)
    \<and> (complete n (c_sent c) \<and> c_ack c = 0 \<longrightarrow> k = c_busy c)"
  by (intro exI [of _ "if complete n (c_sent c) \<and> c_ack c = 0 then c_busy c else c_busy c - 1"])
    (simp add: sim_ctl_rd_def Let_def)

interpretation ep0: ctl_link sim_mcu s_ctl "ctl_calm n" n for n
proof
  fix h h' :: sim and v b :: u8 and i x
  assume calm: "ctl_calm n h"
  show "rd_reg sim_mcu UEINTX h = (v, h') \<Longrightarrow> ctl_calm n h'
      \<and> (tst v RXSTPI \<longleftrightarrow> c_stage (s_ctl h) = Setup_Pending) \<and> (tst v TXINI \<longleftrightarrow> c_busy (s_ctl h) = 0)
      \<and> (tst v RXOUTI \<longleftrightarrow> c_stage (s_ctl h) = Data_Stage \<and> complete n (c_sent (s_ctl h)) \<and> c_ack (s_ctl h) = 0)
      \<and> (\<exists>k \<le> c_busy (s_ctl h). s_ctl h' = (s_ctl h)\<lparr>c_busy := k,
            c_ack := (if complete n (c_sent (s_ctl h)) then c_ack (s_ctl h) - 1 else c_ack (s_ctl h))\<rparr>
          \<and> (c_busy (s_ctl h) \<noteq> 0 \<and> \<not> complete n (c_sent (s_ctl h)) \<longrightarrow> k < c_busy (s_ctl h))
          \<and> (complete n (c_sent (s_ctl h)) \<and> c_ack (s_ctl h) = 0 \<longrightarrow> k = c_busy (s_ctl h)))"
    using calm sim_ctl_rd_flags [of n "s_ctl h"] sim_ctl_rd_next [of "s_ctl h" n]
    by (auto simp: ctl_calm_def case_prod_unfold)
  show "rd_reg sim_mcu UEBCLX h = (v, h') \<Longrightarrow> v = word_of_nat (length (c_in (s_ctl h))) \<and> ctl_calm n h' \<and> s_ctl h' = s_ctl h"
    "rd_reg sim_mcu UEBCHX h = (v, h') \<Longrightarrow> v = 0 \<and> ctl_calm n h' \<and> s_ctl h' = s_ctl h"
    using calm by (auto simp: ctl_calm_def)
  show "c_busy (s_ctl h) = 0 \<Longrightarrow> length (c_in (s_ctl h)) < 8 \<Longrightarrow> ctl_calm n (wr_reg sim_mcu UEDATX b h)
      \<and> s_ctl (wr_reg sim_mcu UEDATX b h) = (s_ctl h)\<lparr>c_in := c_in (s_ctl h) @ [b]\<rparr>"
    using calm by (simp add: ctl_calm_def)
  show "c_stage (s_ctl h) = Data_Stage \<Longrightarrow> c_busy (s_ctl h) = 0 \<Longrightarrow> \<not> tst v TXINI \<Longrightarrow> \<not> tst v FIFOCON \<Longrightarrow> \<exists>k j.
      ctl_calm n (wr_reg sim_mcu UEINTX v h) \<and> s_ctl (wr_reg sim_mcu UEINTX v h) =
        (s_ctl h)\<lparr>c_in := [], c_sent := c_sent (s_ctl h) @ [c_in (s_ctl h)], c_busy := k, c_ack := j\<rparr>"
    using calm by (auto simp: ctl_calm_def sim_ctl_wr_def)
  show "tst v TXINI \<or> c_busy (s_ctl h) \<noteq> 0 \<Longrightarrow> \<exists>k. ctl_calm n (wr_reg sim_mcu UEINTX v h) \<and>
      s_ctl (wr_reg sim_mcu UEINTX v h) = (s_ctl h)\<lparr>c_stage := next_stage n v (s_ctl h), c_ack := k\<rparr>"
    using calm by (intro exI [of _ "c_ack (s_ctl h)"]) (auto simp: ctl_calm_def sim_ctl_wr_def)
  show "irq_line sim_mcu i h = (x, h') \<Longrightarrow> ctl_calm n h' \<and> s_ctl h' = s_ctl h \<and> x \<noteq> Some USB_GEN_vect"
    using calm by (auto simp: ctl_calm_def sim_irq_def split: list.splits if_splits)
  show "rd_reg sim_mcu UDR1 h = (v, h') \<Longrightarrow> ctl_calm n h' \<and> s_ctl h' = s_ctl h"
    using calm by (auto simp: ctl_calm_def split: list.splits)
qed

section \<open>Concrete runs\<close>

text \<open>A configured device with packets waiting and interrupts to come; flash reads \<open>0x5A\<close> everywhere.\<close>

definition demo_hw :: "u8 list list \<Rightarrow> vect option list \<Rightarrow> sim" where
  "demo_hw ps vs = \<lparr>s_reg = (\<lambda>_. 0), s_usb = \<lparr>sel = 0, rxq = ps, txb = [], sent = [], busy = 0\<rparr>,
     s_flash = \<lparr>mem = (\<lambda>_. 0x5A), tmp = (\<lambda>_. 0xFFFF), rww = False\<rparr>, s_script = vs,
     s_uart_in = [0x61, 0x62], s_uart_out = [], s_switch = [],
     s_ctl = \<lparr>c_stage = Acknowledged, c_in = [], c_sent = [], c_busy = 0, c_ack = 0\<rparr>, s_limit = 0\<rparr>"

definition demo_io :: "reg \<Rightarrow> u8" where
  "demo_io = (\<lambda>_. 0)(TIMSK1 := BV OCIE1A, UCSR1B := BV RXCIE1)"

definition demo :: "u8 list list \<Rightarrow> vect option list \<Rightarrow> sim fw" where
  "demo ps vs = (startup DeviceDescriptor_init 0 (demo_hw ps vs))
     \<lparr>Timeout := 60, USB_DeviceState := DEVICE_STATE_Configured, I_flag := True, io := demo_io\<rparr>"

lemma demo_ready:
  assumes "\<forall>p \<in> set ps. length p \<le> 16" "Some USB_GEN_vect \<notin> set vs" "count_list vs (Some TIMER1_COMPA_vect) < 60"
  shows "port_ready s_usb sim_ticks sim_calm (demo ps vs)" "timely sim_ticks (demo ps vs)"
  using assms
  by (simp_all add: port_ready_def link_up_def timely_def demo_def demo_hw_def startup_def sim_calm_def sim_ticks_def)

lemma demo_streams [simp]:
  "rx_stream s_usb (demo ps vs) = concat ps" "tx_stream s_usb (demo ps vs) = []"
  "hw (demo ps vs) = demo_hw ps vs" "CurrAddress (demo ps vs) = 0" "Timeout (demo ps vs) = 60"
  "io (demo ps vs) = demo_io" "boot_mode (demo ps vs) = 0"
  by (simp_all add: rx_stream_def tx_stream_def demo_def demo_hw_def startup_def)

lemma demo_hw_simps [simp]:
  "s_flash (demo_hw ps vs) = \<lparr>mem = (\<lambda>_. 0x5A), tmp = (\<lambda>_. 0xFFFF), rww = False\<rparr>"
  "s_usb (demo_hw ps vs) = \<lparr>sel = 0, rxq = ps, txb = [], sent = [], busy = 0\<rparr>"
  "sim_ticks (demo_hw ps vs) = count_list vs (Some TIMER1_COMPA_vect)"
  by (simp_all add: demo_hw_def sim_ticks_def)

text \<open>A byte behind an empty packet, with a timer interrupt in between.\<close>

theorem usb_read_byte_next_witness:
  "\<exists>t. usb_read_byte sim_mcu (demo [[], [7, 8]] [Some TIMER1_COMPA_vect]) = Some (7, t)
     \<and> rx_stream s_usb t = [8] \<and> tx_stream s_usb t = []"
proof -
  let ?s = "demo [[], [7, 8]] [Some TIMER1_COMPA_vect]"
  have r: "port_ready s_usb sim_ticks sim_calm ?s" by (rule demo_ready) simp_all
  have x: "rx_stream s_usb ?s = 7 # [8]" by simp
  from usb_read_byte_next [OF dev.cdc_link_axioms r x] show ?thesis by auto
qed

theorem usb_write_byte_appends_witness:
  "\<exists>t. usb_write_byte sim_mcu 65 (demo [] [None, Some USART1_RX_vect]) = Some t \<and> tx_stream s_usb t = [65]"
proof -
  have r: "port_ready s_usb sim_ticks sim_calm (demo [] [None, Some USART1_RX_vect])"
    by (rule demo_ready) simp_all
  from usb_write_byte_appends [OF dev.cdc_link_axioms r, of 65] show ?thesis by auto
qed

text \<open>A full bank is followed by an empty packet.\<close>

theorem usb_flush_ends_transfer_witness:
  "\<exists>s t ps. txb (s_usb (hw s)) = replicate 16 1 \<and> usb_flush sim_mcu s = Some t \<and> concat ps = replicate 16 1
     \<and> length (last ps) < 16 \<and> sent (s_usb (hw t)) = ps"
proof -
  let ?s = "(demo [] [])\<lparr>hw := (demo_hw [] [])\<lparr>s_usb := \<lparr>sel = 0, rxq = [], txb = replicate 16 1, sent = [], busy = 0\<rparr>\<rparr>\<rparr>"
  have r: "port_ready s_usb sim_ticks sim_calm ?s"
    by (simp add: port_ready_def link_up_def timely_def demo_def demo_hw_def startup_def sim_calm_def sim_ticks_def)
  from usb_flush_ends_transfer [OF dev.cdc_link_axioms r] obtain t ps where
    "usb_flush sim_mcu ?s = Some t" "concat ps = replicate 16 1" "length (last ps) < 16"
    "sent (s_usb (hw t)) = ps" by (auto simp: numeral_eq_Suc)
  then show ?thesis by (intro exI [of _ ?s] exI [of _ t] exI [of _ ps]) simp
qed

text \<open>After the initialisation the bus goes idle and the device is suspended.\<close>

theorem usb_interlock_witness:
  "\<exists>s u. USB_Init sim_mcu (demo [] []) = Some s \<and> USB_GEN_isr sim_mcu (s\<lparr>hw := (hw s)\<lparr>s_reg := (\<lambda>_. 0)(UDINT := BV SUSPI)\<rparr>\<rparr>) = Some u
    \<and> USB_DeviceState u = DEVICE_STATE_Suspended \<and> tst (io u UDIEN) WAKEUPE \<and> \<not> tst (io u UDIEN) SUSPE"
proof -
  obtain s where s: "USB_Init sim_mcu (demo [] []) = Some s" "tst (io s UDIEN) SUSPE" "\<not> tst (io s UDIEN) WAKEUPE"
    by (simp add: USB_Init_def USB_ResetInterface_def USB_Init_Device_def Endpoint_ConfigureEndpoint_8_16
        case_prod_unfold Let_def code_defs reg_simps)
  let ?t = "s\<lparr>hw := (hw s)\<lparr>s_reg := (\<lambda>_. 0)(UDINT := BV SUSPI)\<rparr>\<rparr>"
  have "usb_reach sim_mcu ?t" by (rule usb_reach.other [OF usb_reach.init [OF s(1)]]) (simp add: usb_part_def)
  moreover obtain u where u: "USB_GEN_isr sim_mcu ?t = Some u" "USB_DeviceState u = DEVICE_STATE_Suspended"
    using s(2) by (simp add: USB_GEN_isr_def usb_gen_vbus_def usb_gen_suspend_def usb_gen_wakeup_def usb_gen_reset_def
        int_pending_def case_prod_unfold Let_def code_defs reg_simps)
  ultimately have "usb_reach sim_mcu u" by (blast intro: usb_reach.isr)
  from usb_interlock [OF this] s(1) u show ?thesis by (auto simp: interlock_def)
qed

text \<open>Blocks: three bytes at address 0 (the odd one is dropped), then reading two bytes.\<close>

theorem write_block_stores_page_witness:
  "\<exists>t. ReadWriteMemoryBlock sim_mcu 66 (demo [[0, 3, 70, 1, 2, 3]] [Some TIMER1_COMPA_vect]) = Some t
     \<and> tx_stream s_usb t = [13] \<and> mem (s_flash (hw t)) 0 = 1 \<and> mem (s_flash (hw t)) 1 = 2
     \<and> mem (s_flash (hw t)) 2 = 0xFF \<and> mem (s_flash (hw t)) 128 = 0x5A"
proof -
  let ?s = "demo [[0, 3, 70, 1, 2, 3]] [Some TIMER1_COMPA_vect]"
  have r: "port_ready s_usb sim_ticks sim_calm ?s" "timely sim_ticks ?s" by (rule demo_ready; simp)+
  from write_block_stores_page [OF dev.spm_link_axioms r, of 0 3 "[1, 2, 3]" "[]" 66] show ?thesis
    by (fastforce simp: mk16_def programmed_def same_page_def FLASH_SIZE_def BOOT_START_ADDR_def)
qed

theorem read_block_sends_flash_witness:
  "\<exists>t. ReadWriteMemoryBlock sim_mcu 103 (demo [[0, 2, 70]] []) = Some t \<and> tx_stream s_usb t = [0x5A, 0x5A]"
proof -
  let ?s = "demo [[0, 2, 70]] []"
  have r: "port_ready s_usb sim_ticks sim_calm ?s" "timely sim_ticks ?s" by (rule demo_ready; simp)+
  from read_block_sends_flash [OF dev.spm_link_axioms r, of 0 2 "[]"] show ?thesis
    by (fastforce simp: unat_mk16 upt_rec)
qed

theorem other_memory_refused_witness:
  "\<exists>t. ReadWriteMemoryBlock sim_mcu 66 (demo [[0, 2, 69]] []) = Some t \<and> tx_stream s_usb t = [63]"
proof -
  let ?s = "demo [[0, 2, 69]] []"
  have r: "port_ready s_usb sim_ticks sim_calm ?s" "timely sim_ticks ?s" by (rule demo_ready; simp)+
  from other_memory_refused [OF dev.spm_link_axioms r, of 0 2 69 "[]" 66] show ?thesis by fastforce
qed

theorem silent_host_hangs_block_witness:
  "write_block sim_mcu 4 ((demo [[1, 2]] [Some TIMER1_COMPA_vect, Some TIMER1_COMPA_vect])\<lparr>io := \<lambda>_. 0\<rparr>) = None"
proof -
  let ?s = "(demo [[1, 2]] [Some TIMER1_COMPA_vect, Some TIMER1_COMPA_vect])\<lparr>io := \<lambda>_. 0\<rparr>"
  have r: "port_ready s_usb sim_ticks sim_calm ?s"
    using demo_ready(1) [of "[[1, 2]]" "[Some TIMER1_COMPA_vect, Some TIMER1_COMPA_vect]"]
    by (simp add: port_ready_def link_up_def timely_def demo_def startup_def)
  have "rx_stream s_usb ?s = [1, 2]" by (simp add: rx_stream_def)
  then show ?thesis by (intro silent_host_hangs_block [OF dev.spm_link_axioms r]) simp_all
qed

theorem page_program_verify_witness:
  "\<exists>n t. avr109_turns n sim_mcu (demo [[65, 0, 64, 66, 0, 2, 70, 0xCA, 0xFE, 65, 0, 64, 103, 0, 2, 70]] [Some USART1_RX_vect])
      = Some t \<and> tx_stream s_usb t = [13, 13, 13, 0xCA, 0xFE] \<and> rx_stream s_usb t = []
      \<and> boot_mode t = BM_NORMAL_BOOT"
proof -
  let ?s = "demo [[65, 0, 64, 66, 0, 2, 70, 0xCA, 0xFE, 65, 0, 64, 103, 0, 2, 70]] [Some USART1_RX_vect]"
  have r: "port_ready s_usb sim_ticks sim_calm ?s" "timely sim_ticks ?s" by (rule demo_ready; simp)+
  from page_program_verify [OF dev.spm_link_axioms r, of 0 64 0 2 "[0xCA, 0xFE]" "[]"] show ?thesis
    by (fastforce simp: ascii_def mk16_def)
qed

theorem simple_commands_answered_witness:
  "\<exists>n t. avr109_turns n sim_mcu (demo [[27, 83], [120, 97]] []) = Some t
      \<and> tx_stream s_usb t = map ascii ''ADELINO?Y''"
proof -
  let ?s = "demo [[27, 83], [120, 97]] []"
  have r: "port_ready s_usb sim_ticks sim_calm ?s" "timely sim_ticks ?s" by (rule demo_ready; simp)+
  from simple_commands_answered [OF dev.spm_link_axioms r, of "[27, 83, 120, 97]" "[]"] show ?thesis
    by (fastforce simp: only_answers_def avr109_reply_def ascii_def)
qed

theorem address_command_sets_witness:
  "\<exists>t. avr109_command sim_mcu (ascii CHR ''A'') (demo [[1], [2]] []) = Some t
      \<and> tx_stream s_usb t = [13] \<and> unat (CurrAddress t) = 516"
proof -
  let ?s = "demo [[1], [2]] []"
  have r: "port_ready s_usb sim_ticks sim_calm ?s" "timely sim_ticks ?s" by (rule demo_ready; simp)+
  from address_command_sets [OF dev.spm_link_axioms r, of 1 2 "[]"] show ?thesis
    by (fastforce simp: unat_mk16)
qed

section \<open>Isolation, pins and the boot decision\<close>

lemma demo_ring: "ring_inv (demo ps vs)" "ring_list (demo ps vs) = []"
  by (simp_all add: demo_def startup_def ring_inv_def ring_list_def)

theorem usb_stack_isolated_witness:
  "\<exists>t. USB_USBTask sim_mcu (demo [] [Some TIMER1_COMPA_vect]) = Some t \<and> core t = core (demo [] [Some TIMER1_COMPA_vect])"
proof -
  let ?s = "demo [] [Some TIMER1_COMPA_vect]"
  have "link_up sim_ticks sim_calm ?s" using demo_ready(1) [of "[]" "[Some TIMER1_COMPA_vect]"]
    by (simp add: port_ready_def)
  from dev.USB_USBTask_up [OF this] obtain t where t: "USB_USBTask sim_mcu ?s = Some t" by blast
  from usb_stack_isolated [OF t] t show ?thesis by blast
qed

theorem reset_esp_pins_witness:
  "\<exists>t. reset_esp sim_mcu True (demo [] []) = Some t \<and> tst (io t PORTE) 2 \<and> \<not> tst (io t PORTC) 7"
proof -
  obtain t where t: "reset_esp sim_mcu True (demo [] []) = Some t"
    by (simp add: reset_esp_def esp_strap_def irq_point_def reg_simps Let_def demo_def startup_def sim_irq_def
        demo_hw_def)
  from reset_esp_pins [OF t] t show ?thesis by blast
qed

text \<open>Power-on with a sketch in flash.\<close>

definition powered_on :: "sim fw" where
  "powered_on = startup DeviceDescriptor_init 0x7777 ((demo_hw [] [])\<lparr>s_reg := (\<lambda>_. 0)(MCUSR := BV PORF)\<rparr>)"

lemma powered_on_prologue: "\<exists>u. boot_prologue sim_mcu powered_on = ((BV PORF, 0x7777, True), u)"
  by (simp add: boot_prologue_def powered_on_def startup_def reg_simps Let_def pgm_read_word_def pgm_read_byte_def
      demo_hw_def mk16_def)

theorem boot_decision_witness:
  "\<exists>t. main sim_mcu powered_on = Some t \<and> at_sketch t \<and> bootKeyMem t = 0 \<and> io t UDCON = 0"
proof -
  have "first_word sim_mcu powered_on = 0x5A5A" "reset_cause sim_mcu powered_on = BV PORF" "io powered_on UDCON = 0"
    by (simp_all add: first_word_def reset_cause_def powered_on_def startup_def Let_def demo_hw_def mk16_def)
  with boot_decision [of sim_mcu powered_on] show ?thesis by auto
qed

theorem main_hands_over_witness:
  "\<exists>t. main sim_mcu powered_on = Some t \<and> at_sketch t \<and> \<not> I_flag t \<and> bootKeyMem t = 0 \<and> io t MCUCR = 0"
proof -
  from powered_on_prologue obtain u where u: "boot_prologue sim_mcu powered_on = ((BV PORF, 0x7777, True), u)" by blast
  then have t: "main sim_mcu powered_on = Some (start_sketch sim_mcu u)"
    by (simp add: main_def skip_bootloader_def)
  from main_hands_over [OF t] t show ?thesis by blast
qed

section \<open>The bridge\<close>

text \<open>Two bytes are in the ring buffer; a third arrives while they are forwarded.\<close>

definition demo_ring_state :: "u8 list list \<Rightarrow> vect option list \<Rightarrow> sim fw" where
  "demo_ring_state ps vs = ring_put 2 (ring_put 1 (demo ps vs))"

lemma demo_ring_ready:
  assumes "\<forall>p \<in> set ps. length p \<le> 16" "Some USB_GEN_vect \<notin> set vs" "count_list vs (Some TIMER1_COMPA_vect) < 60"
  shows "port_ready s_usb sim_ticks sim_calm (demo_ring_state ps vs)" "ring_inv (demo_ring_state ps vs)"
    "ring_list (demo_ring_state ps vs) = [1, 2]" "hw (demo_ring_state ps vs) = demo_hw ps vs"
    "boot_mode (demo_ring_state ps vs) = 0"
proof -
  have i: "ring_inv (ring_put 1 (demo ps vs))" "ring_list (ring_put 1 (demo ps vs)) = [1]"
    using rq.put_inv [OF demo_ring(1), of 1] rq.put_abs [OF demo_ring(1), of 1] by (simp_all add: demo_ring list_put_def)
  show "ring_inv (demo_ring_state ps vs)" "ring_list (demo_ring_state ps vs) = [1, 2]"
    using rq.put_inv [OF i(1), of 2] rq.put_abs [OF i(1), of 2] i(2) by (simp_all add: demo_ring_state_def list_put_def)
  show "port_ready s_usb sim_ticks sim_calm (demo_ring_state ps vs)" "hw (demo_ring_state ps vs) = demo_hw ps vs"
    "boot_mode (demo_ring_state ps vs) = 0"
    using demo_ready [OF assms] by (simp_all add: demo_ring_state_def ring_put_def port_ready_def link_up_def timely_def Let_def)
qed

theorem bridge_serial_to_host_witness:
  "\<exists>t as. CDC_Task sim_mcu (demo_ring_state [] [None, Some USART1_RX_vect]) = Some t \<and> tx_stream s_usb t = [1, 2] @ as
    \<and> as @ ring_list t @ s_uart_in (hw t) = [0x61, 0x62]"
proof -
  let ?s = "demo_ring_state [] [None, Some USART1_RX_vect]"
  have r: "port_ready s_usb sim_ticks sim_calm ?s" "ring_inv ?s" "ring_list ?s = [1, 2]" "hw ?s = demo_hw [] [None, Some USART1_RX_vect]"
    by (rule demo_ring_ready; simp)+
  have "rx_stream s_usb ?s = []" "tx_stream s_usb ?s = []" "sim_arr (hw ?s) = [0x61, 0x62]"
    using r(4) by (simp_all add: rx_stream_def tx_stream_def sim_arr_def demo_hw_def)
  with bridge_serial_to_host [OF dev.cdc_link_axioms r(1,2)] r(3) show ?thesis
    unfolding sim_arr_def by fastforce
qed

theorem bridge_host_to_serial_witness:
  "\<exists>t as. CDC_Task sim_mcu (demo_ring_state [[65, 66]] []) = Some t \<and> s_uart_out (hw t) = [65] \<and> rx_stream s_usb t = [66]
    \<and> tx_stream s_usb t = [1, 2] @ as"
proof -
  let ?s = "demo_ring_state [[65, 66]] []"
  have r: "port_ready s_usb sim_ticks sim_calm ?s" "ring_inv ?s" "ring_list ?s = [1, 2]" "hw ?s = demo_hw [[65, 66]] []"
    by (rule demo_ring_ready; simp)+
  have "rxq (s_usb (hw ?s)) = (65 # [66]) # []" "tx_stream s_usb ?s = []" "s_uart_out (hw ?s) = []"
    using r(4) by (simp_all add: tx_stream_def demo_hw_def)
  with bridge_host_to_serial [OF ser.uart_link_axioms r(1,2), of 65 "[66]" "[]"] r(3) show ?thesis by fastforce
qed

theorem bridge_status_query_witness:
  "\<exists>t as. CDC_Task sim_mcu (demo_ring_state [[4]] []) = Some t \<and> tx_stream s_usb t = [1, 2] @ as @ [92, 68, 0]"
proof -
  let ?s = "demo_ring_state [[4]] []"
  have r: "port_ready s_usb sim_ticks sim_calm ?s" "ring_inv ?s" "ring_list ?s = [1, 2]" "hw ?s = demo_hw [[4]] []"
    "boot_mode ?s = 0" by (rule demo_ring_ready; simp)+
  have "rxq (s_usb (hw ?s)) = (4 # []) # []" "tx_stream s_usb ?s = []"
    using r(4) by (simp_all add: tx_stream_def demo_hw_def)
  with bridge_status_query [OF dev.cdc_link_axioms r(1,2), of "[]" "[]"] r(3,5) show ?thesis by fastforce
qed

section \<open>Control requests\<close>

text \<open>The host asks for the first eight bytes of the device descriptor.\<close>

definition demo_request :: "ctl_stage \<Rightarrow> sim fw" where
  "demo_request stage = (demo [] [])\<lparr>USB_ControlRequest := \<lparr>bmRequestType = 0x80, bRequest = 6, wValue = 0x0100,
       wIndex = 0, wLength = 8\<rparr>,
     hw := (demo_hw [] [])\<lparr>s_limit := 8,
       s_ctl := \<lparr>c_stage = stage, c_in = [], c_sent = [], c_busy = 0, c_ack = 0\<rparr>\<rparr>\<rparr>"

lemma demo_request_ok: "ctl_ok (ctl_calm 8) (demo_request b)" "unat (wLength (USB_ControlRequest (demo_request b))) = 8"
  "s_ctl (hw (demo_request b)) = \<lparr>c_stage = b, c_in = [], c_sent = [], c_busy = 0, c_ack = 0\<rparr>"
  by (simp_all add: demo_request_def ctl_ok_def ctl_calm_def demo_def startup_def demo_hw_def)

theorem control_stream_delivers_witness:
  "\<exists>t. Endpoint_Write_Control_Stream_LE sim_mcu [1, 2, 3, 4, 5, 6, 7, 8, 9, 10] 10 (demo_request Data_Stage)
      = Some (ENDPOINT_RWCSTREAM_NoError, t) \<and> concat (c_sent (s_ctl (hw t))) = [1, 2, 3, 4, 5, 6, 7, 8]"
proof -
  note ok = demo_request_ok [of Data_Stage]
  have l: "ctl_link sim_mcu s_ctl (ctl_calm 8) (unat (wLength (USB_ControlRequest (demo_request Data_Stage))))"
    unfolding ok(2) by (rule ep0.ctl_link_axioms)
  from control_stream_delivers [OF l ok(1), of 10 "[1, 2, 3, 4, 5, 6, 7, 8, 9, 10]"] ok(2,3) show ?thesis by auto
qed


text \<open>A sketch whose own device descriptor, with vendor \<open>0x2341\<close> and product \<open>0x8036\<close>, follows the vectors.\<close>

definition demo_sketch :: "sim fw" where
  "demo_sketch = (demo [] [])\<lparr>hw := (demo_hw [] [])\<lparr>s_flash := \<lparr>mem = (\<lambda>_. 0)(172 := 0xEF, 173 := 2, 174 := 1, 175 := 0x40,
     176 := 0x41, 177 := 0x23, 178 := 0x36, 179 := 0x80), tmp = \<lambda>_. 0xFFFF, rww = True\<rparr>\<rparr>\<rparr>"

theorem sketch_identifiers_witness:
  "Dev_Size (DeviceDescriptor demo_sketch) = 0 \<and> VendorID (shadowed sim_mcu demo_sketch) = 0x2341
    \<and> ProductID (shadowed sim_mcu demo_sketch) = 0x8036"
proof -
  have d: "Dev_Size (DeviceDescriptor demo_sketch) = 0"
    by (simp add: demo_sketch_def demo_def startup_def DeviceDescriptor_init_def)
  have "sketch_desc_at sim_mcu 172 demo_sketch" "pgm_read_word sim_mcu (of_nat (172 + 4)) demo_sketch = 0x2341"
    "pgm_read_word sim_mcu (of_nat (172 + 6)) demo_sketch = 0x8036"
    by (simp_all add: sketch_desc_at_def pgm_read_word_def pgm_read_byte_def demo_sketch_def mk16_def)
  moreover have "shadowed sim_mcu demo_sketch = DeviceDescriptor demo_sketch\<lparr>Dev_Size := 18,
        VendorID := pgm_read_word sim_mcu (of_nat (172 + 4)) demo_sketch,
        ProductID := pgm_read_word sim_mcu (of_nat (172 + 6)) demo_sketch\<rparr>"
    using sketch_identifiers [OF d, of sim_mcu, THEN conjunct1, rule_format, of 172] calculation(1) by fastforce
  ultimately show ?thesis using d by simp
qed

text \<open>The configuration.\<close>

theorem descriptors_well_formed_witness:
  "\<exists>img s' ds. CALLBACK_USB_GetDescriptor sim_mcu 0x0200 0 (demo [] []) = ((62, img), s')
    \<and> walk 9 img = Some ds \<and> length ds = 9"
proof -
  obtain s' where cb: "CALLBACK_USB_GetDescriptor sim_mcu 0x0200 0 (demo [] [])
      = ((62, bytes_of_Configuration ConfigurationDescriptor), s')"
    by (simp add: CALLBACK_USB_GetDescriptor_def Let_def hi8_def)
  have "device_ok (DeviceDescriptor (demo [] []))"
    by (simp add: device_ok_def demo_def startup_def DeviceDescriptor_init_def)
  from descriptors_well_formed [OF this cb] cb show ?thesis by (auto simp: hi8_def)
qed

section \<open>A session nobody takes part in\<close>

text \<open>Nothing comes from the host, and the timer runs.\<close>

definition idle :: "nat \<Rightarrow> sim fw \<Rightarrow> bool" where
  "idle n s \<longleftrightarrow> I_flag s \<and> USB_DeviceState s = DEVICE_STATE_Configured \<and> rxq (s_usb (hw s)) = []
     \<and> c_stage (s_ctl (hw s)) = Acknowledged \<and> tst (io s TIMSK1) OCIE1A
     \<and> s_script (hw s) = replicate n (Some TIMER1_COMPA_vect) \<and> unat (Timeout s) \<le> n"

lemma idle_poll:
  assumes "idle (Suc n) s"
  shows "\<exists>t. usb_byte_available sim_mcu s = Some (False, t) \<and> idle n t"
proof -
  let ?a = "TIMER1_COMPA_isr (s\<lparr>hw := (hw s)\<lparr>s_script := replicate n (Some TIMER1_COMPA_vect)\<rparr>\<rparr>)"
  have a: "irq_point sim_mcu s = Some ?a"
    using assms by (simp add: irq_point_def idle_def sim_irq_def)
  have t: "unat (Timeout ?a) \<le> n"
    using assms by (auto simp: idle_def timer_isr_Timeout)
  show ?thesis using assms a t
    by (auto simp: usb_byte_available_def USB_USBTask_def USB_DeviceTask_def idle_def code_defs reg_simps Let_def
        TIMER1_COMPA_isr_def sim_ctl_rd_def sim_UEINTX_def)
qed

lemma idle_session: "idle n s \<Longrightarrow> \<exists>t. avr109_loop sim_mcu s = Some t"
proof (induction n arbitrary: s)
  case 0
  then show ?case by (subst avr109_loop.simps) (simp add: idle_def unat_eq_zero)
next
  case (Suc n)
  from idle_poll [OF Suc.prems] obtain t where t: "usb_byte_available sim_mcu s = Some (False, t)" "idle n t" by blast
  from Suc.IH [OF t(2)] obtain u where "avr109_loop sim_mcu t = Some u" by blast
  then show ?case using t(1) by (subst avr109_loop.simps) (simp add: avr109_turn_def)
qed

theorem avr109_session_frame_witness:
  "\<exists>t. AVR109_programmer sim_mcu (demo [] (replicate 60 (Some TIMER1_COMPA_vect))) = Some t \<and> Timeout t = 0
    \<and> boot_mode t \<in> {0, BM_NORMAL_BOOT} \<and> io t PORTC = 0"
proof -
  let ?s = "demo [] (replicate 60 (Some TIMER1_COMPA_vect))"
  have "idle 60 (?s\<lparr>Timeout := AVR_PROGRAMMER_TIMEOUT\<rparr>)"
    by (simp add: idle_def demo_def startup_def demo_hw_def demo_io_def AVR_PROGRAMMER_TIMEOUT_def TICKS_MS_def)
  from idle_session [OF this] obtain t where t: "AVR109_programmer sim_mcu ?s = Some t"
    by (auto simp: AVR109_programmer_def)
  from avr109_session_frame [OF t] have "Timeout t = 0" "boot_mode t \<in> {0, BM_NORMAL_BOOT}" "io t PORTC = io ?s PORTC"
    by (auto simp: usb_reg_def)
  then show ?thesis using t by (simp add: demo_io_def)
qed

section \<open>Witnesses for the control requests\<close>

theorem usb_interrupt_terminates_witness: "\<exists>s'. USB_GEN_isr sim_mcu (demo [[1]] [None]) = Some s'"
  by (rule usb_interrupt_terminates) (rule pll.pll_locks_axioms)

text \<open>A request of eight zero bytes (\<^verbatim>\<open>GET_STATUS\<close> sent to the device in the wrong direction) is not known.\<close>

lemma demo_request_byte: "Endpoint_Read_8 sim_mcu (demo_request b) = (0, demo_request b)"
  by (simp add: Endpoint_Read_8_def rd_device demo_request_def demo_hw_def)

lemma demo_request_bytes: "read_bytes sim_mcu n (demo_request b) = (replicate n 0, demo_request b)"
  by (induction n) (simp_all add: demo_request_byte)

theorem unknown_request_stalled_witness:
  "\<exists>t. USB_Device_ProcessControlRequest sim_mcu (demo_request Setup_Pending) = Some t \<and> tst (io t UECONX) STALLRQ"
proof -
  define a where "a = (demo_request Setup_Pending)\<lparr>USB_ControlRequest := request_of_bytes (replicate 8 0)\<rparr>"
  have u: "\<not> known (request_of_bytes (replicate 8 0))"
    by (simp add: known_def known_requests_def request_of_bytes_def)
  define b where "b = snd (rd sim_mcu UEINTX a)"
  have v: "rd sim_mcu UEINTX a = (fst (rd sim_mcu UEINTX a), b)" by (simp add: b_def)
  have w: "rd sim_mcu UEINTX b = (fst (rd sim_mcu UEINTX b), snd (rd sim_mcu UEINTX b))" by simp
  have "tst (fst (rd sim_mcu UEINTX b)) RXSTPI"
    by (simp add: a_def b_def demo_request_def demo_hw_def rd_device sim_ctl_rd_flags case_prod_unfold)
      (simp add: sim_ctl_rd_def Let_def)
  then show ?thesis
    using unknown_request_stalled [OF demo_request_bytes u v [unfolded a_def] w]
    by (simp add: reg_simps)
qed

text \<open>A host that is always ready for the next packet, and a device that has been given an address.\<close>

definition ready_mcu :: "sim mcu" where
  "ready_mcu = sim_mcu\<lparr>rd_reg := \<lambda>r h. if r = UEINTX then (BV TXINI, h) else if r = UDADDR then (BV ADDEN, h) else sim_rd r h\<rparr>"

definition ready_request :: "u16 \<Rightarrow> sim fw" where
  "ready_request v = (demo_request Data_Stage)\<lparr>USB_ControlRequest := \<lparr>bmRequestType = 0, bRequest = REQ_SetAddress, wValue = v,
     wIndex = 0, wLength = 0\<rparr>\<rparr>"

lemma ready_mcu_in: "in_ready ready_mcu" "tst (fst (rd_reg ready_mcu UDADDR h)) ADDEN"
  by (simp_all add: in_ready_def ready_mcu_def)

theorem set_address_state_witness:
  "\<exists>t. USB_Device_SetAddress ready_mcu (ready_request 0x85) = Some t
    \<and> USB_DeviceState t = DEVICE_STATE_Addressed \<and> io t UDADDR AND 0x7F = 5"
  using set_address_state [OF ready_mcu_in(1), of "ready_request 0x85"] by (auto simp: ready_request_def lo8_def)

theorem set_configuration_state_witness:
  "\<exists>t. USB_Device_SetConfiguration ready_mcu (ready_request 1) = Some t
    \<and> USB_DeviceState t = DEVICE_STATE_Configured \<and> USB_Device_ConfigurationNumber t = 1"
  using set_configuration_state [OF ready_mcu_in(1), of "ready_request 1" True] ready_mcu_in(2)
  by (auto simp: ready_request_def lo8_def)

end
