(* ===== verification/Cdc_Touch.thy ===== *)
theory Cdc_Touch
  imports Boot
begin

text \<open>
  The sketch's side of the boot key, from the Arduino core for the AVR: the class requests of the serial port,
  \<^verbatim>\<open>CDC.cpp\<close>, with the transfers on the control endpoint that they use, from \<^verbatim>\<open>USBCore.cpp\<close>. Closing the port at 1200 baud
  writes the boot key and starts the watchdog; opening it again takes both back. The request handler runs in
  the interrupt of the control endpoint and is not preempted. Together with \<^verbatim>\<open>main\<close> of the boot loader, which
  reads the key, this is how an upload reaches the loader.
\<close>

section \<open>State\<close>

record LineInfo =
  dwDTERate :: u32
  bCharFormat :: u8
  bParityType :: u8
  bDataBits :: u8
  lineState :: u8

record USBSetup =
  su_bmRequestType :: u8
  su_bRequest :: u8
  su_wValueL :: u8
  su_wValueH :: u8
  su_wIndex :: u16
  su_wLength :: u16

text \<open>The watchdog functions of avr-libc.\<close>

record 'h wdt =
  hw_wdt_enable :: "nat \<Rightarrow> 'h \<Rightarrow> 'h"
  hw_wdt_reset :: "'h \<Rightarrow> 'h"

record 'h core =
  c_hw :: 'h
  c_ram :: "nat \<Rightarrow> u8"
  usbLineInfo :: LineInfo
  breakValue :: int
  wdtcsr_save :: u8
  cmark :: int
  cend :: int
  RxLEDPulse :: u8
  usbConfiguration :: u8
  peek_buffer :: int

definition core_rd :: "'h mcu \<Rightarrow> reg \<Rightarrow> 'h core \<Rightarrow> u8 \<times> 'h core" where
  "core_rd m r c = (case rd_reg m r (c_hw c) of (v, h) \<Rightarrow> (v, c\<lparr>c_hw := h\<rparr>))"

definition core_wr :: "'h mcu \<Rightarrow> reg \<Rightarrow> u8 \<Rightarrow> 'h core \<Rightarrow> 'h core" where
  "core_wr m r v c = c\<lparr>c_hw := wr_reg m r v (c_hw c)\<rparr>"

text \<open>Words in memory.\<close>

definition ram_word :: "nat \<Rightarrow> 'h core \<Rightarrow> u16" where
  "ram_word a c = mk16 (c_ram c (a + 1)) (c_ram c a)"

definition set_ram_word :: "nat \<Rightarrow> u16 \<Rightarrow> 'h core \<Rightarrow> 'h core" where
  "set_ram_word a v c = c\<lparr>c_ram := (c_ram c)(a := lo8 v, a + 1 := hi8 v)\<rparr>"

section \<open>The control endpoint\<close>

partial_function (option) core_WaitOUT :: "'h mcu \<Rightarrow> 'h core \<Rightarrow> 'h core option" where
  "core_WaitOUT m c = (case core_rd m UEINTX c of (v, c) \<Rightarrow> if tst v RXOUTI then Some c else core_WaitOUT m c)"

partial_function (option) core_WaitForINOrOUT :: "'h mcu \<Rightarrow> 'h core \<Rightarrow> (bool \<times> 'h core) option" where
  "core_WaitForINOrOUT m c = (case core_rd m UEINTX c of (v, c) \<Rightarrow>
     if tst v TXINI \<or> tst v RXOUTI then (case core_rd m UEINTX c of (v, c) \<Rightarrow> Some (\<not> tst v RXOUTI, c))
     else core_WaitForINOrOUT m c)"

definition core_ClearIN :: "'h mcu \<Rightarrow> 'h core \<Rightarrow> 'h core" where
  "core_ClearIN m c = core_wr m UEINTX (NOT (BV TXINI)) c"

definition core_ClearOUT :: "'h mcu \<Rightarrow> 'h core \<Rightarrow> 'h core" where
  "core_ClearOUT m c = core_wr m UEINTX (NOT (BV RXOUTI)) c"

fun core_bytes :: "'h mcu \<Rightarrow> nat \<Rightarrow> 'h core \<Rightarrow> u8 list \<times> 'h core" where
  "core_bytes m 0 c = ([], c)"
| "core_bytes m (Suc n) c = (case core_rd m UEDATX c of (b, c) \<Rightarrow> case core_bytes m n c of (bs, c) \<Rightarrow> (b # bs, c))"

definition core_RXLED1 :: "'h mcu \<Rightarrow> 'h core \<Rightarrow> 'h core" where
  "core_RXLED1 m c = (case core_rd m PORTB c of (v, c) \<Rightarrow> core_wr m PORTB (v OR BV 0) c\<lparr>RxLEDPulse := 100\<rparr>)"

definition core_Recv :: "'h mcu \<Rightarrow> nat \<Rightarrow> 'h core \<Rightarrow> u8 list \<times> 'h core" where
  "core_Recv m n c = (case core_bytes m n c of (bs, c) \<Rightarrow> (bs, core_RXLED1 m c))"

definition InitControl :: "'h mcu \<Rightarrow> int \<Rightarrow> 'h core \<Rightarrow> 'h core" where
  "InitControl m e c = (core_wr m UENUM 0 c)\<lparr>cmark := 0, cend := e\<rparr>"

definition SendControl :: "'h mcu \<Rightarrow> u8 \<Rightarrow> 'h core \<Rightarrow> (bool \<times> 'h core) option" where
  "SendControl m d c =
     (if cmark c < cend c then do {
        (ok, c) \<leftarrow> core_WaitForINOrOUT m c;
        if \<not> ok then Some (False, c)
        else let c = core_wr m UEDATX d c;
                 c = (if (cmark c + 1) mod 64 = 0 then core_ClearIN m c else c)
             in Some (True, c\<lparr>cmark := cmark c + 1\<rparr>)
      } else Some (True, c\<lparr>cmark := cmark c + 1\<rparr>))"

fun USB_SendControl :: "'h mcu \<Rightarrow> u8 list \<Rightarrow> 'h core \<Rightarrow> (int \<times> 'h core) option" where
  "USB_SendControl m [] c = Some (0, c)"
| "USB_SendControl m (d # ds) c = do {
     (ok, c) \<leftarrow> SendControl m d c;
     if \<not> ok then Some (- 1, c)
     else do { (n, c) \<leftarrow> USB_SendControl m ds c; Some (if n < 0 then - 1 else n + 1, c) } }"

partial_function (option) USB_RecvControl :: "'h mcu \<Rightarrow> nat \<Rightarrow> 'h core \<Rightarrow> (u8 list \<times> 'h core) option" where
  "USB_RecvControl m len c =
     (if len = 0 then Some ([], c)
      else do {
        let recvLength = (if len > 64 then 64 else len);
        c \<leftarrow> core_WaitOUT m c;
        let (bs, c) = core_Recv m recvLength c;
        let c = core_ClearOUT m c;
        (rest, c) \<leftarrow> USB_RecvControl m (len - recvLength) c;
        Some (bs @ rest, c) })"

section \<open>Class requests\<close>

definition RAMEND :: nat where
  "RAMEND = 0x0AFF"

definition MAGIC_KEY :: u16 where
  "MAGIC_KEY = 0x7777"

definition MAGIC_KEY_POS :: nat where
  "MAGIC_KEY_POS = 0x0800"

definition NEW_LUFA_SIGNATURE :: u16 where
  "NEW_LUFA_SIGNATURE = 0xDCFB"

definition isLUFAbootloader :: "'h mcu \<Rightarrow> 'h core \<Rightarrow> bool" where
  "isLUFAbootloader m c \<longleftrightarrow> mk16 (hw_pgm_byte m 0x7FFF (c_hw c)) (hw_pgm_byte m 0x7FFE (c_hw c)) = NEW_LUFA_SIGNATURE"

text \<open>The seven bytes of the line coding.\<close>

definition line_bytes :: "LineInfo \<Rightarrow> u8 list" where
  "line_bytes l = map (\<lambda>i. ucast (drop_bit (8 * i) (dwDTERate l))) [0..<4] @ [bCharFormat l, bParityType l, bDataBits l]"

definition line_of_bytes :: "u8 list \<Rightarrow> LineInfo \<Rightarrow> LineInfo" where
  "line_of_bytes bs l = l\<lparr>dwDTERate := push_bit 16 (ucast (mk16 (bs ! 3) (bs ! 2))) OR ucast (mk16 (bs ! 1) (bs ! 0)),
     bCharFormat := bs ! 4, bParityType := bs ! 5, bDataBits := bs ! 6\<rparr>"

text \<open>\<^verbatim>\<open>CDC_SET_CONTROL_LINE_STATE\<close>; \<^verbatim>\<open>WDTO_120MS\<close> is 3.\<close>

definition set_line_state :: "'h mcu \<Rightarrow> 'h wdt \<Rightarrow> u8 \<Rightarrow> 'h core \<Rightarrow> 'h core" where
  "set_line_state m w v c =
     (let c = c\<lparr>usbLineInfo := (usbLineInfo c)\<lparr>lineState := v\<rparr>\<rparr>;
          magic_key_pos = (if isLUFAbootloader m c then RAMEND - 1 else MAGIC_KEY_POS)
      in if dwDTERate (usbLineInfo c) = 1200 \<and> \<not> tst (lineState (usbLineInfo c)) 0 then
           (let c = (if magic_key_pos \<noteq> RAMEND - 1 \<and> ram_word magic_key_pos c \<noteq> MAGIC_KEY
                     then set_ram_word (RAMEND - 1) (ram_word magic_key_pos c) c else c);
                c = set_ram_word magic_key_pos MAGIC_KEY c;
                (x, c) = core_rd m WDTCSR c;
                c = c\<lparr>wdtcsr_save := x\<rparr>
            in c\<lparr>c_hw := hw_wdt_enable w 3 (c_hw c)\<rparr>)
         else if ram_word magic_key_pos c = MAGIC_KEY then
           (let c = c\<lparr>c_hw := hw_wdt_reset w (c_hw c)\<rparr>;
                (x, c) = core_rd m WDTCSR c;
                c = core_wr m WDTCSR (x OR BV WDCE OR BV WDE) c;
                c = core_wr m WDTCSR (wdtcsr_save c) c
            in if magic_key_pos \<noteq> RAMEND - 1 then set_ram_word magic_key_pos (ram_word (RAMEND - 1) c) c
               else set_ram_word magic_key_pos 0 c)
         else c)"

definition CDC_Setup :: "'h mcu \<Rightarrow> 'h wdt \<Rightarrow> USBSetup \<Rightarrow> 'h core \<Rightarrow> (bool \<times> 'h core) option" where
  "CDC_Setup m w setup c =
     (let r = su_bRequest setup; requestType = su_bmRequestType setup in
      if requestType = 0xA1 \<and> r = 0x21 then do {
        (_, c) \<leftarrow> USB_SendControl m (line_bytes (usbLineInfo c)) c;
        Some (True, c)
      } else if requestType = 0x21 then do {
        let c = (if r = 0x23 then c\<lparr>breakValue := uint (mk16 (su_wValueH setup) (su_wValueL setup))\<rparr> else c);
        c \<leftarrow> (if r = 0x20 then do { (bs, c) \<leftarrow> USB_RecvControl m 7 c; Some (c\<lparr>usbLineInfo := line_of_bytes bs (usbLineInfo c)\<rparr>) } else Some c);
        Some (True, if r = 0x22 then set_line_state m w (su_wValueL setup) c else c)
      } else Some (False, c))"

text \<open>Without pluggable devices there is only the interface of the serial port.\<close>

definition ClassInterfaceRequest :: "'h mcu \<Rightarrow> 'h wdt \<Rightarrow> USBSetup \<Rightarrow> 'h core \<Rightarrow> (bool \<times> 'h core) option" where
  "ClassInterfaceRequest m w setup c = (if (ucast (su_wIndex setup) :: u8) = 0 then CDC_Setup m w setup c else Some (False, c))"

section \<open>The serial port\<close>

definition USB_Available :: "'h mcu \<Rightarrow> u8 \<Rightarrow> 'h core \<Rightarrow> u8 \<times> 'h core" where
  "USB_Available m ep c = core_rd m UEBCLX (core_wr m UENUM (ep AND 7) c)"

text \<open>\<^verbatim>\<open>USB_Recv\<close> for a single byte: \<open>- 1\<close> if there is none.\<close>

definition USB_Recv :: "'h mcu \<Rightarrow> u8 \<Rightarrow> 'h core \<Rightarrow> int \<times> 'h core" where
  "USB_Recv m ep c =
     (if usbConfiguration c = 0 then (- 1, c)
      else case USB_Available m ep c of (n, c) \<Rightarrow>
        if n = 0 then (- 1, c)
        else let c = core_RXLED1 m c;
                 (b, c) = core_rd m UEDATX c;
                 (n, c) = core_rd m UEBCLX c;
                 c = (if n = 0 then core_wr m UEINTX 0x6B c else c)
             in (uint b, c))"

definition Serial_begin :: "'h core \<Rightarrow> 'h core" where
  "Serial_begin c = c\<lparr>peek_buffer := - 1\<rparr>"

definition Serial_available :: "'h mcu \<Rightarrow> 'h core \<Rightarrow> int \<times> 'h core" where
  "Serial_available m c = (case USB_Available m 2 c of (n, c) \<Rightarrow> (if peek_buffer c \<ge> 0 then 1 + uint n else uint n, c))"

definition Serial_peek :: "'h mcu \<Rightarrow> 'h core \<Rightarrow> int \<times> 'h core" where
  "Serial_peek m c =
     (let c = (if peek_buffer c < 0 then case USB_Recv m 2 c of (b, c) \<Rightarrow> c\<lparr>peek_buffer := b\<rparr> else c) in (peek_buffer c, c))"

definition Serial_read :: "'h mcu \<Rightarrow> 'h core \<Rightarrow> int \<times> 'h core" where
  "Serial_read m c = (if peek_buffer c \<ge> 0 then (peek_buffer c, c\<lparr>peek_buffer := - 1\<rparr>) else USB_Recv m 2 c)"

definition readBreak :: "'h core \<Rightarrow> int \<times> 'h core" where
  "readBreak c = (breakValue c, c\<lparr>breakValue := - 1\<rparr>)"

section \<open>What the transfers leave alone\<close>

definition kept :: "'h core \<Rightarrow> (nat \<Rightarrow> u8) \<times> LineInfo \<times> u8 \<times> int" where
  "kept c = (c_ram c, usbLineInfo c, wdtcsr_save c, peek_buffer c)"

lemma kept_simps [simp]:
  "kept (snd (core_rd m r c)) = kept c" "kept (core_wr m r v c) = kept c" "kept (c\<lparr>cmark := i\<rparr>) = kept c" "kept (c\<lparr>c_hw := h\<rparr>) = kept c"
  "kept (c\<lparr>RxLEDPulse := l\<rparr>) = kept c" "kept (core_ClearIN m c) = kept c" "kept (core_ClearOUT m c) = kept c"
  by (simp_all add: kept_def core_rd_def core_wr_def core_ClearIN_def core_ClearOUT_def case_prod_unfold)

lemma kept_WaitOUT: "core_WaitOUT m c = Some c' \<Longrightarrow> kept c' = kept c"
  by (rule core_WaitOUT.raw_induct [of "\<lambda>m c c'. kept c' = kept c"]) (fastforce simp: case_prod_unfold split: if_splits)

lemma kept_WaitForINOrOUT: "core_WaitForINOrOUT m c = Some r \<Longrightarrow> kept (snd r) = kept c"
  by (rule core_WaitForINOrOUT.raw_induct [of "\<lambda>m c r. kept (snd r) = kept c"]) (fastforce simp: case_prod_unfold split: if_splits)

lemma kept_bytes [simp]: "kept (snd (core_bytes m n c)) = kept c" "length (fst (core_bytes m n c)) = n"
  by (induction n arbitrary: c) (simp_all add: case_prod_unfold)

lemma kept_Recv [simp]: "kept (snd (core_Recv m n c)) = kept c" "length (fst (core_Recv m n c)) = n" "kept (core_RXLED1 m c) = kept c"
  by (simp_all add: core_Recv_def core_RXLED1_def case_prod_unfold)

lemma kept_SendControl: "SendControl m d c = Some r \<Longrightarrow> kept (snd r) = kept c"
  by (auto simp: SendControl_def Let_def bind_eq_Some_conv dest!: kept_WaitForINOrOUT split: if_splits)

lemma kept_USB_SendControl: "USB_SendControl m ds c = Some r \<Longrightarrow> kept (snd r) = kept c"
proof (induction ds arbitrary: c r)
  case (Cons d ds)
  obtain ok c1 where s: "SendControl m d c = Some (ok, c1)" using Cons.prems by (auto simp: bind_eq_Some_conv)
  show ?case using Cons.prems s kept_SendControl [OF s] by (auto simp: bind_eq_Some_conv dest!: Cons.IH split: if_splits)
qed auto

lemma kept_USB_RecvControl: "USB_RecvControl m len c = Some r \<Longrightarrow> kept (snd r) = kept c \<and> length (fst r) = len"
proof (rule USB_RecvControl.raw_induct [of "\<lambda>m len c r. kept (snd r) = kept c \<and> length (fst r) = len"])
  fix f :: "'h mcu \<Rightarrow> nat \<Rightarrow> 'h core \<Rightarrow> (u8 list \<times> 'h core) option" and m len c r
  assume IH: "\<And>m len c r. f m len c = Some r \<Longrightarrow> kept (snd r) = kept c \<and> length (fst r) = len"
    and e: "(if len = 0 then Some ([], c) else do {
        let recvLength = (if len > 64 then 64 else len);
        c \<leftarrow> core_WaitOUT m c;
        let (bs, c) = core_Recv m recvLength c;
        let c = core_ClearOUT m c;
        (rest, c) \<leftarrow> f m (len - recvLength) c;
        Some (bs @ rest, c) }) = Some r"
  show "kept (snd r) = kept c \<and> length (fst r) = len"
    using e by (auto simp: Let_def bind_eq_Some_conv case_prod_unfold dest!: IH kept_WaitOUT split: if_splits)
qed

lemma CDC_Setup_ram:
  "CDC_Setup m w setup c = Some (ok, c') \<Longrightarrow> su_bmRequestType setup \<noteq> 0x21 \<or> su_bRequest setup \<noteq> 0x22 \<Longrightarrow> c_ram c' = c_ram c"
  by (auto simp: CDC_Setup_def Let_def bind_eq_Some_conv kept_def dest!: kept_USB_SendControl kept_USB_RecvControl split: if_splits)

section \<open>The boot key\<close>

text \<open>The line state request as a definite step.\<close>

lemma CDC_Setup_line:
  "su_bmRequestType setup = 0x21 \<Longrightarrow> su_bRequest setup = 0x22 \<Longrightarrow> CDC_Setup m w setup c = Some (True, set_line_state m w (su_wValueL setup) c)"
  by (simp add: CDC_Setup_def)

lemmas key_defs = ram_word_def set_ram_word_def MAGIC_KEY_POS_def RAMEND_def

text \<open>Its effect on the memory, for a loader without the signature: arming saves the word at the place of the key and writes the key; disarming
  brings the word back.\<close>

lemma set_line_state_ram:
  assumes "\<not> isLUFAbootloader m c"
  shows "c_ram (set_line_state m w v c) =
    (if dwDTERate (usbLineInfo c) = 1200 \<and> \<not> tst v 0 then
       (if ram_word MAGIC_KEY_POS c \<noteq> MAGIC_KEY then (c_ram c)(0x0AFE := c_ram c 0x0800, 0x0AFF := c_ram c 0x0801) else c_ram c)
         (0x0800 := lo8 MAGIC_KEY, 0x0801 := hi8 MAGIC_KEY)
     else if ram_word MAGIC_KEY_POS c = MAGIC_KEY then (c_ram c)(0x0800 := c_ram c 0x0AFE, 0x0801 := c_ram c 0x0AFF)
     else c_ram c)"
  using assms
  by (auto simp: set_line_state_def Let_def case_prod_unfold core_rd_def core_wr_def isLUFAbootloader_def key_defs fun_eq_iff)

lemma set_line_state_info: "usbLineInfo (set_line_state m w v c) = (usbLineInfo c)\<lparr>lineState := v\<rparr>"
  by (simp add: set_line_state_def Let_def case_prod_unfold core_rd_def core_wr_def set_ram_word_def)

text \<open>A memory that held \<open>f\<close>: outside of the place for the copy only the key can be in it that was not, and then the copy is the word
  that was in its place.\<close>

definition touched :: "(nat \<Rightarrow> u8) \<Rightarrow> (nat \<Rightarrow> u8) \<Rightarrow> bool" where
  "touched f r \<longleftrightarrow>
     (let key = (mk16 (r 0x0801) (r 0x0800) = MAGIC_KEY) in
      (\<forall>a. a \<noteq> 0x0AFE \<and> a \<noteq> 0x0AFF \<and> (key \<longrightarrow> a \<noteq> 0x0800 \<and> a \<noteq> 0x0801) \<longrightarrow> r a = f a)
      \<and> (key \<longrightarrow> r 0x0AFE = f 0x0800 \<and> r 0x0AFF = f 0x0801))"

lemma ram_key: "ram_word MAGIC_KEY_POS c = mk16 (c_ram c 0x0801) (c_ram c 0x0800)"
  by (simp add: ram_word_def MAGIC_KEY_POS_def)

lemma touchedD:
  assumes "touched f r"
  shows "a \<noteq> 0x0AFE \<Longrightarrow> a \<noteq> 0x0AFF \<Longrightarrow> a \<noteq> 0x0800 \<Longrightarrow> a \<noteq> 0x0801 \<Longrightarrow> r a = f a"
    "mk16 (r 0x0801) (r 0x0800) \<noteq> MAGIC_KEY \<Longrightarrow> a \<noteq> 0x0AFE \<Longrightarrow> a \<noteq> 0x0AFF \<Longrightarrow> r a = f a"
    "mk16 (r 0x0801) (r 0x0800) = MAGIC_KEY \<Longrightarrow> r 0x0AFE = f 0x0800 \<and> r 0x0AFF = f 0x0801"
  using assms unfolding touched_def Let_def by blast+

lemma line_state_touched:
  assumes "touched f (c_ram c)" "\<not> isLUFAbootloader m c" "mk16 (f 0x0801) (f 0x0800) \<noteq> MAGIC_KEY"
  shows "touched f (c_ram (set_line_state m w v c))"
    "ram_word MAGIC_KEY_POS (set_line_state m w v c) = MAGIC_KEY \<longleftrightarrow> dwDTERate (usbLineInfo c) = 1200 \<and> \<not> tst v 0"
proof -
  let ?arm = "dwDTERate (usbLineInfo c) = 1200 \<and> \<not> tst v 0" and ?k = "ram_word MAGIC_KEY_POS c = MAGIC_KEY"
  note ram = set_line_state_ram [OF assms(2), of w v]
  have t1: "a \<noteq> 0x0AFE \<Longrightarrow> a \<noteq> 0x0AFF \<Longrightarrow> a \<noteq> 0x0800 \<Longrightarrow> a \<noteq> 0x0801 \<Longrightarrow> c_ram c a = f a" for a
    by (rule touchedD(1) [OF assms(1)])
  have t2: "\<not> ?k \<Longrightarrow> c_ram c 0x0800 = f 0x0800 \<and> c_ram c 0x0801 = f 0x0801"
    unfolding ram_key by (intro conjI touchedD(2) [OF assms(1)]) simp_all
  have t3: "?k \<Longrightarrow> c_ram c 0x0AFE = f 0x0800 \<and> c_ram c 0x0AFF = f 0x0801"
    unfolding ram_key by (rule touchedD(3) [OF assms(1)])
  have key: "mk16 (c_ram (set_line_state m w v c) 0x0801) (c_ram (set_line_state m w v c) 0x0800) = (if ?arm then MAGIC_KEY else mk16 (f 0x0801) (f 0x0800))"
    using t2 t3 by (simp add: ram)
  then have w: "mk16 (c_ram (set_line_state m w v c) 0x0801) (c_ram (set_line_state m w v c) 0x0800) = MAGIC_KEY \<longleftrightarrow> ?arm" using assms(3) by simp
  then show "ram_word MAGIC_KEY_POS (set_line_state m w v c) = MAGIC_KEY \<longleftrightarrow> ?arm" by (simp only: ram_key)
  show "touched f (c_ram (set_line_state m w v c))"
    unfolding touched_def w Let_def unfolding ram using t1 t2 t3 by auto
qed

text \<open>Requests one after the other.\<close>

fun cdc_run :: "'h mcu \<Rightarrow> 'h wdt \<Rightarrow> USBSetup list \<Rightarrow> 'h core \<Rightarrow> 'h core option" where
  "cdc_run m w [] c = Some c"
| "cdc_run m w (r # rs) c = do { (_, c) \<leftarrow> CDC_Setup m w r c; cdc_run m w rs c }"

lemma cdc_run_touched:
  assumes "\<And>c. \<not> isLUFAbootloader m c" "mk16 (f 0x0801) (f 0x0800) \<noteq> MAGIC_KEY"
  shows "touched f (c_ram c) \<Longrightarrow> cdc_run m w rs c = Some c' \<Longrightarrow> touched f (c_ram c')"
proof (induction rs arbitrary: c)
  case (Cons r rs)
  obtain ok c1 where 1: "CDC_Setup m w r c = Some (ok, c1)" "cdc_run m w rs c1 = Some c'" using Cons.prems(2) by (auto simp: bind_eq_Some_conv)
  have "touched f (c_ram c1)"
  proof (cases "su_bmRequestType r = 0x21 \<and> su_bRequest r = 0x22")
    case True
    then show ?thesis using 1(1) CDC_Setup_line [of r m w c] line_state_touched(1) [OF Cons.prems(1) assms, of w "su_wValueL r"] by auto
  next
    case False
    then have "c_ram c1 = c_ram c" using CDC_Setup_ram [OF 1(1)] by blast
    then show ?thesis using Cons.prems(1) by (simp only:)
  qed
  then show ?case using Cons.IH 1(2) by blast
qed simp

section \<open>An upload reaches the boot loader\<close>

text \<open>(C6) The 1200 baud touch, across the sketch and the boot loader, which has no signature at the end of the flash. After any requests, a line
  state request returns at once. If the rate is 1200 baud and the port was closed, the watchdog is started, and after its
  reset the boot loader stays; otherwise a watchdog reset starts the sketch, and the memory of the sketch is as it was
  before the first request, except for the word at its end.\<close>

theorem touch_enters_loader:
  assumes "\<forall>h. mk16 (hw_pgm_byte m 0x7FFF h) (hw_pgm_byte m 0x7FFE h) \<noteq> NEW_LUFA_SIGNATURE"
    and "ram_word MAGIC_KEY_POS c \<noteq> MAGIC_KEY" "cdc_run m w reqs c = Some c1"
    and "su_bmRequestType setup = 0x21" "su_bRequest setup = 0x22"
    and armed: "armed \<longleftrightarrow> dwDTERate (usbLineInfo c1) = 1200 \<and> \<not> tst (su_wValueL setup) 0"
  shows "\<exists>c2. CDC_Setup m w setup c1 = Some (True, c2)
    \<and> (armed \<longrightarrow> (\<exists>h. c_hw c2 = hw_wdt_enable w 3 h))
    \<and> (\<not> armed \<longrightarrow> (\<forall>a. a \<noteq> RAMEND - 1 \<and> a \<noteq> RAMEND \<longrightarrow> c_ram c2 a = c_ram c a))
    \<and> (\<forall>d h v k a u. boot_prologue n (startup d (ram_word MAGIC_KEY_POS c2) h) = ((v, k, a), u) \<and> tst v WDRF \<and> \<not> tst v EXTRF \<and> \<not> tst v PORF
        \<longrightarrow> (skip_bootloader v k a \<longleftrightarrow> a \<and> \<not> armed))"
proof -
  have l: "\<not> isLUFAbootloader m c" for c using assms(1) by (simp add: isLUFAbootloader_def)
  have key: "mk16 (c_ram c 0x0801) (c_ram c 0x0800) \<noteq> MAGIC_KEY" using assms(2) by (simp add: ram_word_def MAGIC_KEY_POS_def)
  have "touched (c_ram c) (c_ram c)" unfolding touched_def Let_def using key by blast
  from cdc_run_touched [OF l key this assms(3)] have t: "touched (c_ram c) (c_ram c1)" .
  define c2 where "c2 = set_line_state m w (su_wValueL setup) c1"
  have c2: "touched (c_ram c) (c_ram c2)" "ram_word MAGIC_KEY_POS c2 = MAGIC_KEY \<longleftrightarrow> armed"
    using line_state_touched [OF t l key, of w "su_wValueL setup"] by (simp_all add: c2_def armed)
  have "armed \<Longrightarrow> \<exists>h. c_hw c2 = hw_wdt_enable w 3 h"
    by (auto simp: armed c2_def set_line_state_def Let_def case_prod_unfold)
  moreover have "\<not> armed \<Longrightarrow> a \<noteq> RAMEND - 1 \<Longrightarrow> a \<noteq> RAMEND \<Longrightarrow> c_ram c2 a = c_ram c a" for a
    using c2(2) unfolding ram_key RAMEND_def by (intro touchedD(2) [OF c2(1)]) simp_all
  moreover have "boot_prologue n (startup d (ram_word MAGIC_KEY_POS c2) h) = ((v, k, a), u) \<Longrightarrow> k = ram_word MAGIC_KEY_POS c2" for d h v k a u
    by (auto simp: boot_prologue_def startup_def Let_def case_prod_unfold)
  ultimately show ?thesis
    using CDC_Setup_line [OF assms(4,5), of m w c1] c2(2) by (fastforce simp: c2_def skip_bootloader_def bootKey_def MAGIC_KEY_def)
qed

text \<open>A board on which the sketch's watchdog is the only register that matters, and which was reset by it.\<close>

definition touch_mcu :: "u8 mcu" where
  "touch_mcu = \<lparr>rd_reg = (\<lambda>r h. (if r = MCUSR then BV WDRF else h, h)), wr_reg = (\<lambda>r v h. if r = WDTCSR then v else h),
     irq_line = (\<lambda>_ h. (None, h)), hw_delay_ms = (\<lambda>_ h. h), hw_wdt_disable = (\<lambda>_. 0), hw_pgm_byte = (\<lambda>_ _. 0),
     hw_boot_page_erase = (\<lambda>_ h. h), hw_boot_page_fill = (\<lambda>_ _ h. h), hw_boot_page_write = (\<lambda>_ h. h),
     hw_boot_spm_busy_wait = (\<lambda>h. h), hw_boot_rww_enable = (\<lambda>h. h), hw_boot_rww_enable_safe = (\<lambda>h. h)\<rparr>"

definition touch_wdt :: "u8 wdt" where
  "touch_wdt = \<lparr>hw_wdt_enable = (\<lambda>t h. BV WDE OR of_nat t), hw_wdt_reset = (\<lambda>h. h)\<rparr>"

definition open_port :: "u8 core" where
  "open_port = \<lparr>c_hw = 0, c_ram = (\<lambda>_. 5), usbLineInfo = \<lparr>dwDTERate = 1200, bCharFormat = 0, bParityType = 0, bDataBits = 8, lineState = 3\<rparr>,
     breakValue = - 1, wdtcsr_save = 0, cmark = 0, cend = 0, RxLEDPulse = 0, usbConfiguration = 1, peek_buffer = - 1\<rparr>"

definition line_state_request :: "u8 \<Rightarrow> USBSetup" where
  "line_state_request v = \<lparr>su_bmRequestType = 0x21, su_bRequest = 0x22, su_wValueL = v, su_wValueH = 0, su_wIndex = 0, su_wLength = 0\<rparr>"

text \<open>The host closes the port, opens it, and closes it again.\<close>

theorem touch_enters_loader_witness:
  "\<exists>c1 c2. cdc_run touch_mcu touch_wdt [line_state_request 0, line_state_request 1] open_port = Some c1
    \<and> CDC_Setup touch_mcu touch_wdt (line_state_request 0) c1 = Some (True, c2)
    \<and> (\<forall>d v k a u. boot_prologue touch_mcu (startup d (ram_word MAGIC_KEY_POS c2) 0) = ((v, k, a), u) \<longrightarrow> \<not> skip_bootloader v k a)"
proof -
  define c1 where "c1 = set_line_state touch_mcu touch_wdt 1 (set_line_state touch_mcu touch_wdt 0 open_port)"
  have run: "cdc_run touch_mcu touch_wdt [line_state_request 0, line_state_request 1] open_port = Some c1"
    by (simp add: CDC_Setup_line line_state_request_def c1_def)
  have sig: "\<forall>h. mk16 (hw_pgm_byte touch_mcu 0x7FFF h) (hw_pgm_byte touch_mcu 0x7FFE h) \<noteq> NEW_LUFA_SIGNATURE"
    by (simp add: touch_mcu_def mk16_def NEW_LUFA_SIGNATURE_def)
  have key: "ram_word MAGIC_KEY_POS open_port \<noteq> MAGIC_KEY" by (simp add: open_port_def ram_word_def mk16_def MAGIC_KEY_def)
  have "True \<longleftrightarrow> dwDTERate (usbLineInfo c1) = 1200 \<and> \<not> tst (su_wValueL (line_state_request 0)) 0"
    by (simp add: c1_def set_line_state_info open_port_def line_state_request_def tst_def)
  from touch_enters_loader [OF sig key run _ _ this, of touch_mcu] obtain c2 where
    c2: "CDC_Setup touch_mcu touch_wdt (line_state_request 0) c1 = Some (True, c2)" and
    boot: "\<forall>d h v k a u. boot_prologue touch_mcu (startup d (ram_word MAGIC_KEY_POS c2) h) = ((v, k, a), u)
      \<and> tst v WDRF \<and> \<not> tst v EXTRF \<and> \<not> tst v PORF \<longrightarrow> (skip_bootloader v k a \<longleftrightarrow> a \<and> \<not> True)"
    by (auto simp: line_state_request_def)
  have "boot_prologue touch_mcu s = ((v, k, a), u) \<Longrightarrow> v = BV WDRF" for s v k a u
    by (auto simp: boot_prologue_def rd_def touch_mcu_def Let_def case_prod_unfold)
  moreover have "tst (BV WDRF) WDRF" "\<not> tst (BV WDRF) EXTRF" "\<not> tst (BV WDRF) PORF" by simp_all
  ultimately show ?thesis using run c2 boot by metis
qed

section \<open>Reading\<close>

text \<open>Looking at the next byte does not consume it: a read after it gives the same byte.\<close>

lemma peek_then_read:
  "Serial_peek m c = (b, c1) \<Longrightarrow> 0 \<le> b \<Longrightarrow> \<exists>c2. Serial_read m c1 = (b, c2) \<and> peek_buffer c2 = - 1"
  by (auto simp: Serial_peek_def Serial_read_def Let_def case_prod_unfold split: if_splits)

text \<open>A loader with the signature gets the key at the end of the memory, where the boot loader of this board does not look.\<close>

lemma signature_misses:
  "isLUFAbootloader m c \<Longrightarrow> ram_word MAGIC_KEY_POS (set_line_state m w v c) = ram_word MAGIC_KEY_POS c"
  by (auto simp: set_line_state_def Let_def case_prod_unfold core_rd_def core_wr_def isLUFAbootloader_def key_defs)

end
