(* ===== verification/Hardware_Serial.thy ===== *)
theory Hardware_Serial
  imports Mcu Bounded_Queue
begin

text \<open>
  The serial port of the Arduino core for the AVR, \<^verbatim>\<open>HardwareSerial.cpp\<close> and \<^verbatim>\<open>HardwareSerial_private.h\<close>, for the second USART, the
  one that the ATmega32U4 has. Received bytes go through a ring buffer that an interrupt fills; bytes to be sent go
  through another that an interrupt empties, or directly to the data register. Both keep the order: what is
  read is a queue of 63 bytes of what arrived, and what is sent and waits is what was written.
\<close>

section \<open>State\<close>

text \<open>\<open>udre_fires\<close> lets time pass in a loop that waits, and says whether the interrupt for an empty data register comes.\<close>

record 'h uart =
  u_mcu :: "'h mcu"
  udre_fires :: "'h \<Rightarrow> bool \<times> 'h"

record 'h serial =
  s_hw :: 'h
  SREG_I :: bool
  s_written :: bool
  rx_head :: u8
  rx_tail :: u8
  tx_head :: u8
  tx_tail :: u8
  rx_buffer :: "u8 list"
  tx_buffer :: "u8 list"

definition SERIAL_BUFFER_SIZE :: nat where
  "SERIAL_BUFFER_SIZE = 64"

definition s_rd :: "'h uart \<Rightarrow> reg \<Rightarrow> 'h serial \<Rightarrow> u8 \<times> 'h serial" where
  "s_rd u r s = (case rd_reg (u_mcu u) r (s_hw s) of (v, h) \<Rightarrow> (v, s\<lparr>s_hw := h\<rparr>))"

definition s_wr :: "'h uart \<Rightarrow> reg \<Rightarrow> u8 \<Rightarrow> 'h serial \<Rightarrow> 'h serial" where
  "s_wr u r v s = s\<lparr>s_hw := wr_reg (u_mcu u) r v (s_hw s)\<rparr>"

definition sbi :: "'h uart \<Rightarrow> reg \<Rightarrow> nat \<Rightarrow> 'h serial \<Rightarrow> 'h serial" where
  "sbi u r n s = (case s_rd u r s of (v, s) \<Rightarrow> s_wr u r (v OR BV n) s)"

definition cbi :: "'h uart \<Rightarrow> reg \<Rightarrow> nat \<Rightarrow> 'h serial \<Rightarrow> 'h serial" where
  "cbi u r n s = (case s_rd u r s of (v, s) \<Rightarrow> s_wr u r (v AND NOT (BV n)) s)"

text \<open>The next index of a buffer of 64 bytes.\<close>

definition next_index :: "u8 \<Rightarrow> u8" where
  "next_index i = (i + 1) mod 64"

definition HardwareSerial_new :: "'h \<Rightarrow> (nat \<Rightarrow> u8) \<Rightarrow> 'h serial" where
  "HardwareSerial_new h fresh = \<lparr>s_hw = h, SREG_I = True, s_written = False, rx_head = 0, rx_tail = 0, tx_head = 0, tx_tail = 0,
     rx_buffer = map fresh [0..<64], tx_buffer = map fresh [0..<64]\<rparr>"

section \<open>Receiving\<close>

definition rx_store :: "u8 \<Rightarrow> 'h serial \<Rightarrow> 'h serial" where
  "rx_store c s =
     (let i = next_index (rx_head s) in
      if i \<noteq> rx_tail s then s\<lparr>rx_buffer := (rx_buffer s)[unat (rx_head s) := c], rx_head := i\<rparr> else s)"

text \<open>Bit 2 of the status register is the parity error.\<close>

definition rx_complete_irq :: "'h uart \<Rightarrow> 'h serial \<Rightarrow> 'h serial" where
  "rx_complete_irq u s =
     (case s_rd u UCSR1A s of (v, s) \<Rightarrow> case s_rd u UDR1 s of (c, s) \<Rightarrow> if \<not> tst v 2 then rx_store c s else s)"

definition serial_available :: "'h serial \<Rightarrow> int" where
  "serial_available s = (64 + uint (rx_head s) - uint (rx_tail s)) mod 65536 mod 64"

definition serial_peek :: "'h serial \<Rightarrow> int" where
  "serial_peek s = (if rx_head s = rx_tail s then - 1 else uint (rx_buffer s ! unat (rx_tail s)))"

definition serial_read :: "'h serial \<Rightarrow> int \<times> 'h serial" where
  "serial_read s =
     (if rx_head s = rx_tail s then (- 1, s)
      else (uint (rx_buffer s ! unat (rx_tail s)), s\<lparr>rx_tail := next_index (rx_tail s)\<rparr>))"

section \<open>Sending\<close>

text \<open>The transmit complete flag, bit 6, is cleared by writing a one.\<close>

definition clear_TXC :: "'h uart \<Rightarrow> 'h serial \<Rightarrow> 'h serial" where
  "clear_TXC u s = (case s_rd u UCSR1A s of (v, s) \<Rightarrow> s_wr u UCSR1A (v AND (BV U2X1 OR BV 6)) s)"

text \<open>Bit 5 of \<^verbatim>\<open>UCSR1B\<close> enables the interrupt.\<close>

definition tx_udr_empty_irq :: "'h uart \<Rightarrow> 'h serial \<Rightarrow> 'h serial" where
  "tx_udr_empty_irq u s =
     (let c = tx_buffer s ! unat (tx_tail s);
          s = s\<lparr>tx_tail := next_index (tx_tail s)\<rparr>;
          s = clear_TXC u (s_wr u UDR1 c s)
      in if tx_head s = tx_tail s then cbi u UCSR1B 5 s else s)"

definition availableForWrite :: "'h serial \<Rightarrow> int" where
  "availableForWrite s =
     (if tx_head s \<ge> tx_tail s then 64 - 1 - uint (tx_head s) + uint (tx_tail s) else uint (tx_tail s) - uint (tx_head s) - 1)"

definition poll_tx :: "'h uart \<Rightarrow> 'h serial \<Rightarrow> 'h serial" where
  "poll_tx u s = (case s_rd u UCSR1A s of (v, s) \<Rightarrow> if tst v UDRE1 then tx_udr_empty_irq u s else s)"

definition wait_irq :: "'h uart \<Rightarrow> 'h serial \<Rightarrow> 'h serial" where
  "wait_irq u s = (case udre_fires u (s_hw s) of (f, h) \<Rightarrow> let s = s\<lparr>s_hw := h\<rparr> in if f then tx_udr_empty_irq u s else s)"

partial_function (option) wait_room :: "'h uart \<Rightarrow> u8 \<Rightarrow> 'h serial \<Rightarrow> 'h serial option" where
  "wait_room u i s =
     (if i = tx_tail s then wait_room u i (if \<not> SREG_I s then poll_tx u s else wait_irq u s) else Some s)"

definition serial_write :: "'h uart \<Rightarrow> u8 \<Rightarrow> 'h serial \<Rightarrow> 'h serial option" where
  "serial_write u c s =
     (let s = s\<lparr>s_written := True\<rparr>;
          (direct, s) = (if tx_head s = tx_tail s then case s_rd u UCSR1A s of (v, s) \<Rightarrow> (tst v UDRE1, s) else (False, s))
      in if direct then Some (clear_TXC u (s_wr u UDR1 c s))
         else do {
           let i = next_index (tx_head s);
           s \<leftarrow> wait_room u i s;
           let s = s\<lparr>tx_buffer := (tx_buffer s)[unat (tx_head s) := c]\<rparr>;
           Some (sbi u UCSR1B 5 (s\<lparr>tx_head := i\<rparr>)) })"

partial_function (option) flush_loop :: "'h uart \<Rightarrow> 'h serial \<Rightarrow> 'h serial option" where
  "flush_loop u s =
     (case s_rd u UCSR1B s of (b, s) \<Rightarrow>
      let (busy, s) = (if tst b 5 then (True, s) else case s_rd u UCSR1A s of (a, s) \<Rightarrow> (\<not> tst a 6, s)) in
      if busy then
        (let s = (if \<not> SREG_I s then case s_rd u UCSR1B s of (b, s) \<Rightarrow> if tst b 5 then poll_tx u s else s else wait_irq u s)
         in flush_loop u s)
      else Some s)"

definition serial_flush :: "'h uart \<Rightarrow> 'h serial \<Rightarrow> 'h serial option" where
  "serial_flush u s = (if \<not> s_written s then Some s else flush_loop u s)"

section \<open>Opening and closing\<close>

definition baud_setting :: "u32 \<Rightarrow> u32 \<Rightarrow> u16" where
  "baud_setting d baud = ucast ((16000000 div d div baud - 1) div 2 :: u32)"

definition serial_begin :: "'h uart \<Rightarrow> u32 \<Rightarrow> u8 \<Rightarrow> 'h serial \<Rightarrow> 'h serial" where
  "serial_begin u baud config s =
     (let s = s_wr u UCSR1A (BV U2X1) s;
          slow = (baud = 57600 \<or> baud_setting 4 baud > 4095);
          s = (if slow then s_wr u UCSR1A 0 s else s);
          setting = (if slow then baud_setting 8 baud else baud_setting 4 baud);
          s = s_wr u UBRR1L (lo8 setting) (s_wr u UBRR1H (hi8 setting) s);
          s = s_wr u UCSR1C config (s\<lparr>s_written := False\<rparr>)
      in cbi u UCSR1B 5 (sbi u UCSR1B RXCIE1 (sbi u UCSR1B TXEN1 (sbi u UCSR1B RXEN1 s))))"

definition serial_end :: "'h uart \<Rightarrow> 'h serial \<Rightarrow> 'h serial option" where
  "serial_end u s = do {
     s \<leftarrow> serial_flush u s;
     let s = cbi u UCSR1B 5 (cbi u UCSR1B RXCIE1 (cbi u UCSR1B TXEN1 (cbi u UCSR1B RXEN1 s)));
     Some (s\<lparr>rx_head := rx_tail s\<rparr>) }"

section \<open>The rings\<close>

text \<open>The bytes in a buffer of 64 bytes with a head, where the next byte goes, and a tail, where the oldest is.\<close>

definition fill :: "u8 \<Rightarrow> u8 \<Rightarrow> nat" where
  "fill h t = (if t \<le> h then unat h - unat t else unat h + 64 - unat t)"

definition ring_ok :: "u8 list \<Rightarrow> u8 \<Rightarrow> u8 \<Rightarrow> bool" where
  "ring_ok buf h t \<longleftrightarrow> length buf = 64 \<and> unat h < 64 \<and> unat t < 64"

definition ring_items :: "u8 list \<Rightarrow> u8 \<Rightarrow> u8 \<Rightarrow> u8 list" where
  "ring_items buf h t = circ buf (unat t) (fill h t)"

lemma unat_next_index: "unat i < 64 \<Longrightarrow> unat (next_index i) = Suc (unat i) mod 64"
  using unat_word_ariths(1) [of i 1] by (simp add: next_index_def unat_mod)

lemma fill_less: "unat h < 64 \<Longrightarrow> unat t < 64 \<Longrightarrow> fill h t < 64"
  by (auto simp: fill_def word_le_nat_alt)

lemma fill_zero: "unat h < 64 \<Longrightarrow> unat t < 64 \<Longrightarrow> fill h t = 0 \<longleftrightarrow> h = t"
  by (auto simp: fill_def word_le_nat_alt word_unat_eq_iff)

lemma fill_head: "unat h < 64 \<Longrightarrow> unat t < 64 \<Longrightarrow> (unat t + fill h t) mod 64 = unat h"
  by (auto simp: fill_def word_le_nat_alt)

lemma fill_next_head:
  assumes "unat h < 64" "unat t < 64"
  shows "next_index h = t \<longleftrightarrow> fill h t = 63" "next_index h \<noteq> t \<Longrightarrow> fill (next_index h) t = Suc (fill h t)"
  using assms unat_next_index [OF assms(1)] by (auto simp: fill_def word_le_nat_alt word_unat_eq_iff mod_Suc split: if_splits)

lemma fill_next_tail:
  assumes "unat h < 64" "unat t < 64" "h \<noteq> t"
  shows "fill h t = Suc (fill h (next_index t))"
  using assms unat_next_index [OF assms(2)] by (auto simp: fill_def word_le_nat_alt word_unat_eq_iff mod_Suc split: if_splits)

lemma length_ring_items [simp]: "length (ring_items buf h t) = fill h t"
  by (simp add: ring_items_def)

lemma ring_empty: "ring_ok buf h t \<Longrightarrow> ring_items buf h t = [] \<longleftrightarrow> h = t"
  using fill_zero [of h t] by (metis length_0_conv length_ring_items ring_ok_def)

lemma ring_push:
  assumes "ring_ok buf h t" "next_index h \<noteq> t"
  shows "ring_items (buf[unat h := c]) (next_index h) t = ring_items buf h t @ [c]" "ring_ok (buf[unat h := c]) (next_index h) t"
proof -
  have ok: "length buf = 64" "unat h < 64" "unat t < 64" using assms(1) by (simp_all add: ring_ok_def)
  have k: "fill h t < length buf" "(unat t + fill h t) mod length buf = unat h" using ok fill_less fill_head by simp_all
  then show "ring_items (buf[unat h := c]) (next_index h) t = ring_items buf h t @ [c]"
    using circ_put [OF k(1), of "unat t" c] fill_next_head(2) [OF ok(2,3) assms(2)] by (simp add: ring_items_def)
  show "ring_ok (buf[unat h := c]) (next_index h) t" using ok by (simp add: ring_ok_def unat_next_index)
qed

lemma ring_pop:
  assumes "ring_ok buf h t" "h \<noteq> t"
  shows "ring_items buf h t = buf ! unat t # ring_items buf h (next_index t)" "ring_ok buf h (next_index t)"
proof -
  have ok: "length buf = 64" "unat h < 64" "unat t < 64" using assms(1) by (simp_all add: ring_ok_def)
  show "ring_items buf h t = buf ! unat t # ring_items buf h (next_index t)"
    using circ_get [of buf "unat t" "fill h (next_index t)"] fill_next_tail [OF ok(2,3) assms(2)] ok
    by (simp add: ring_items_def unat_next_index)
  show "ring_ok buf h (next_index t)" using ok by (simp add: ring_ok_def unat_next_index)
qed

section \<open>Received bytes are a queue\<close>

definition rx_list :: "'h serial \<Rightarrow> u8 list" where
  "rx_list s = ring_items (rx_buffer s) (rx_head s) (rx_tail s)"

definition rx_ok :: "'h serial \<Rightarrow> bool" where
  "rx_ok s \<longleftrightarrow> ring_ok (rx_buffer s) (rx_head s) (rx_tail s)"

definition rx_get :: "'h serial \<Rightarrow> u8 \<times> 'h serial" where
  "rx_get s = (case serial_read s of (c, s) \<Rightarrow> (word_of_int c, s))"

interpretation hs: bounded_queue rx_store "\<lambda>s. serial_peek s \<noteq> - 1" rx_get rx_list rx_ok 63
proof
  fix s :: "'h serial" and x
  assume inv: "rx_ok s"
  then have ok: "ring_ok (rx_buffer s) (rx_head s) (rx_tail s)" "unat (rx_head s) < 64" "unat (rx_tail s) < 64" by (simp_all add: rx_ok_def ring_ok_def)
  have room: "next_index (rx_head s) \<noteq> rx_tail s \<longleftrightarrow> length (rx_list s) < 63"
    using fill_next_head(1) [OF ok(2,3)] fill_less [OF ok(2,3)] by (auto simp: rx_list_def)
  show "rx_list (rx_store x s) = list_put 63 x (rx_list s)" "rx_ok (rx_store x s)"
    using room ring_push [OF ok(1), of x] inv by (auto simp: rx_store_def Let_def list_put_def rx_list_def rx_ok_def)
  have p: "uint b \<noteq> - 1" for b :: u8 using unsigned_greater_eq [of b, where ?'a = int] by linarith
  show "serial_peek s \<noteq> - 1 \<longleftrightarrow> rx_list s \<noteq> []" using ring_empty [OF ok(1)] p by (auto simp: serial_peek_def rx_list_def)
  assume "rx_list s \<noteq> []"
  then have "rx_head s \<noteq> rx_tail s" using ring_empty [OF ok(1)] by (simp add: rx_list_def)
  then show "fst (rx_get s) = hd (rx_list s)" "rx_list (snd (rx_get s)) = tl (rx_list s)" "rx_ok (snd (rx_get s))"
    using ring_pop [OF ok(1)] by (simp_all add: rx_get_def serial_read_def rx_list_def rx_ok_def)
qed

lemma available_counts:
  assumes "rx_ok s"
  shows "serial_available s = int (length (rx_list s))"
proof -
  define h t where "h = unat (rx_head s)" and "t = unat (rx_tail s)"
  have u: "uint (rx_head s) = int h" "uint (rx_tail s) = int t" by (simp_all add: h_def t_def)
  have "h < 64" "t < 64" using assms by (simp_all add: rx_ok_def ring_ok_def h_def t_def)
  then have "(64 + int h - int t) mod 65536 = 64 + int h - int t" by (intro mod_pos_pos_trivial) linarith+
  moreover have "(64 + int h - int t) mod 64 = int (if t \<le> h then h - t else h + 64 - t)"
  proof (cases "t \<le> h")
    case True
    then have e: "64 + int h - int t = int (h - t) + 64" by simp
    have "int (h - t) mod 64 = int (h - t)" using \<open>h < 64\<close> by (intro mod_pos_pos_trivial) simp_all
    then show ?thesis unfolding e mod_add_self2 using True by simp
  next
    case False
    then have e: "64 + int h - int t = int (h + 64 - t)" and "h + 64 - t < 64" using \<open>t < 64\<close> by simp_all
    then have "int (h + 64 - t) mod 64 = int (h + 64 - t)" by (intro mod_pos_pos_trivial) simp_all
    then show ?thesis unfolding e using False by simp
  qed
  ultimately have "(64 + int h - int t) mod 65536 mod 64 = int (if t \<le> h then h - t else h + 64 - t)" by (simp only:)
  then show ?thesis unfolding serial_available_def u by (simp add: rx_list_def fill_def word_le_nat_alt h_def t_def)
qed

section \<open>Sent bytes keep their order\<close>

definition tx_list :: "'h serial \<Rightarrow> u8 list" where
  "tx_list s = ring_items (tx_buffer s) (tx_head s) (tx_tail s)"

text \<open>The transmitter: the bytes that the data register has taken, how many of them have left on the line, whether the data
  register is empty, the flag for a complete transmission, and the control register \<^verbatim>\<open>UCSR1B\<close>.\<close>

record line_view =
  lv_sent :: "u8 list"
  lv_done :: nat
  lv_free :: bool
  lv_txc :: bool
  lv_ctl :: u8

text \<open>What may happen while time passes: bytes leave, the data register becomes empty, and the flag is set at the moment when the last byte
  has left.\<close>

definition flows :: "line_view \<Rightarrow> line_view \<Rightarrow> bool" where
  "flows v w \<longleftrightarrow> lv_sent w = lv_sent v \<and> lv_ctl w = lv_ctl v \<and> lv_done v \<le> lv_done w \<and> lv_done w \<le> length (lv_sent v)
     \<and> (lv_free v \<longrightarrow> lv_free w)
     \<and> (lv_txc w \<longleftrightarrow> lv_txc v \<or> lv_done v < length (lv_sent v) \<and> lv_done w = length (lv_sent v))"

text \<open>All bytes that were written: those that the data register took and those that wait.\<close>

definition tx_line :: "('h \<Rightarrow> line_view) \<Rightarrow> 'h serial \<Rightarrow> u8 list" where
  "tx_line view s = lv_sent (view (s_hw s)) @ tx_list s"

text \<open>The interrupt is enabled exactly as long as bytes wait. The flag is never set too early, and once something was written it is set or will be.\<close>

definition tx_inv :: "('h \<Rightarrow> line_view) \<Rightarrow> 'h serial \<Rightarrow> bool" where
  "tx_inv view s \<longleftrightarrow> ring_ok (tx_buffer s) (tx_head s) (tx_tail s) \<and> (tst (lv_ctl (view (s_hw s))) 5 \<longleftrightarrow> tx_head s \<noteq> tx_tail s)
     \<and> lv_done (view (s_hw s)) \<le> length (lv_sent (view (s_hw s)))
     \<and> (lv_txc (view (s_hw s)) \<longrightarrow> lv_done (view (s_hw s)) = length (lv_sent (view (s_hw s))))
     \<and> (if s_written s
        then lv_txc (view (s_hw s)) \<or> lv_done (view (s_hw s)) < length (lv_sent (view (s_hw s))) \<or> tx_head s \<noteq> tx_tail s
        else tx_head s = tx_tail s \<and> lv_done (view (s_hw s)) = length (lv_sent (view (s_hw s))))"

text \<open>The program writes, and the interrupt handlers run in between; that for an empty data register if it is enabled.\<close>

datatype serial_event = SWrite u8 | SEmpty | SReceive

fun serial_run :: "'h uart \<Rightarrow> serial_event list \<Rightarrow> 'h serial \<Rightarrow> 'h serial option" where
  "serial_run u [] s = Some s"
| "serial_run u (SWrite c # es) s = do { s \<leftarrow> serial_write u c s; serial_run u es s }"
| "serial_run u (SEmpty # es) s = serial_run u es (wait_irq u s)"
| "serial_run u (SReceive # es) s = serial_run u es (rx_complete_irq u s)"

fun written_bytes :: "serial_event list \<Rightarrow> u8 list" where
  "written_bytes [] = []"
| "written_bytes (SWrite c # es) = c # written_bytes es"
| "written_bytes (SEmpty # es) = written_bytes es"
| "written_bytes (SReceive # es) = written_bytes es"

text \<open>The data sheet. A byte that is written to the data register is taken if the register is empty and ignored otherwise; the flag for a
  complete transmission is cleared by writing a one; a byte that was just taken is not out at the next access, which is
  a few cycles later. The interrupt for an empty data register comes only when it is enabled and the register is empty. While a loop
  waits the interrupt comes in the end, and all bytes are out in the end: \<open>wait\<close> is a bound.\<close>

locale serial_line =
  fixes u :: "'h uart" and view :: "'h \<Rightarrow> line_view" and wait :: "'h \<Rightarrow> nat"
  assumes read_law: "flows (view h) (view (snd (rd_reg (u_mcu u) r h)))" "wait (snd (rd_reg (u_mcu u) r h)) \<le> wait h"
      "fst (rd_reg (u_mcu u) UCSR1B h) = lv_ctl (view h)"
      "tst (fst (rd_reg (u_mcu u) UCSR1A h)) UDRE1 \<longleftrightarrow> lv_free (view (snd (rd_reg (u_mcu u) UCSR1A h)))"
      "tst (fst (rd_reg (u_mcu u) UCSR1A h)) 6 \<longleftrightarrow> lv_txc (view (snd (rd_reg (u_mcu u) UCSR1A h)))"
    and data_law: "\<not> lv_free (view h) \<Longrightarrow> view (wr_reg (u_mcu u) UDR1 c h) = view h"
      "lv_free (view h) \<Longrightarrow> \<exists>b. view (wr_reg (u_mcu u) UDR1 c h) = (view h)\<lparr>lv_sent := lv_sent (view h) @ [c], lv_free := b\<rparr>"
      "lv_free (view h) \<Longrightarrow> lv_done (view h) \<le> length (lv_sent (view h)) \<Longrightarrow>
        lv_done (view (snd (rd_reg (u_mcu u) UCSR1A (wr_reg (u_mcu u) UDR1 c h)))) \<le> length (lv_sent (view h))"
    and write_law: "view (wr_reg (u_mcu u) UCSR1A v h) = (view h)\<lparr>lv_txc := lv_txc (view h) \<and> \<not> tst v 6\<rparr>"
      "view (wr_reg (u_mcu u) UCSR1B v h) = (view h)\<lparr>lv_ctl := v\<rparr>"
    and fires_law: "flows (view h) (view (snd (udre_fires u h)))"
      "fst (udre_fires u h) \<Longrightarrow> tst (lv_ctl (view h)) 5 \<and> lv_free (view (snd (udre_fires u h)))"
      "tst (lv_ctl (view h)) 5 \<Longrightarrow> fst (udre_fires u h) \<or> wait (snd (udre_fires u h)) < wait h"
      "lv_done (view h) < length (lv_sent (view h)) \<Longrightarrow>
        lv_done (view (snd (udre_fires u h))) = length (lv_sent (view h)) \<or> wait (snd (udre_fires u h)) < wait h"
begin

abbreviation inv where "inv \<equiv> tx_inv view"

abbreviation out where "out \<equiv> tx_line view"

lemma reg_simps [simp]:
  "s_rd u r s = (fst (rd_reg (u_mcu u) r (s_hw s)), s\<lparr>s_hw := snd (rd_reg (u_mcu u) r (s_hw s))\<rparr>)"
  "s_wr u r v s = s\<lparr>s_hw := wr_reg (u_mcu u) r v (s_hw s)\<rparr>"
  by (simp_all add: s_rd_def s_wr_def case_prod_unfold)

lemmas flowsD = flows_def [THEN iffD1]

lemma inv_flows:
  assumes "inv s" "flows (view (s_hw s)) (view h)"
  shows "inv (s\<lparr>s_hw := h\<rparr>)" "out (s\<lparr>s_hw := h\<rparr>) = out s"
  using assms by (auto simp: flows_def tx_inv_def tx_line_def tx_list_def split: if_splits)

lemma cbi_view: "\<exists>h. cbi u UCSR1B n s = s\<lparr>s_hw := h\<rparr> \<and> flows ((view (s_hw s))\<lparr>lv_ctl := lv_ctl (view (s_hw s)) AND NOT (BV n)\<rparr>) (view h)"
  using read_law(1) [of "s_hw s" UCSR1B] by (auto simp: cbi_def read_law(3) write_law flows_def)

lemma sbi_view: "\<exists>h. sbi u UCSR1B n s = s\<lparr>s_hw := h\<rparr> \<and> flows ((view (s_hw s))\<lparr>lv_ctl := lv_ctl (view (s_hw s)) OR BV n\<rparr>) (view h)"
  using read_law(1) [of "s_hw s" UCSR1B] by (auto simp: sbi_def read_law(3) write_law flows_def)

text \<open>A byte for an empty data register: afterwards it is under way and the flag is clear.\<close>

lemma send_byte:
  assumes "lv_free (view (s_hw s))" "lv_done (view (s_hw s)) \<le> length (lv_sent (view (s_hw s)))"
  shows "\<exists>h. clear_TXC u (s_wr u UDR1 c s) = s\<lparr>s_hw := h\<rparr> \<and> lv_sent (view h) = lv_sent (view (s_hw s)) @ [c]
    \<and> lv_ctl (view h) = lv_ctl (view (s_hw s)) \<and> \<not> lv_txc (view h) \<and> lv_done (view h) < length (lv_sent (view h))"
proof -
  let ?w = "wr_reg (u_mcu u) UDR1 c (s_hw s)"
  let ?r = "snd (rd_reg (u_mcu u) UCSR1A ?w)" and ?v = "fst (rd_reg (u_mcu u) UCSR1A ?w)"
  obtain b where w: "view ?w = (view (s_hw s))\<lparr>lv_sent := lv_sent (view (s_hw s)) @ [c], lv_free := b\<rparr>" using data_law(2) [OF assms(1)] by blast
  have r: "lv_sent (view ?r) = lv_sent (view (s_hw s)) @ [c]" "lv_ctl (view ?r) = lv_ctl (view (s_hw s))"
    using read_law(1) [of ?w UCSR1A] by (simp_all add: w flows_def)
  have "lv_txc (view ?r) \<longleftrightarrow> tst ?v 6" using read_law(5) by simp
  then have "\<not> lv_txc (view (wr_reg (u_mcu u) UCSR1A (?v AND (BV U2X1 OR BV 6)) ?r))" by (simp add: write_law(1))
  then show ?thesis using data_law(3) [OF assms, of c] r
    by (intro exI [of _ "wr_reg (u_mcu u) UCSR1A (?v AND (BV U2X1 OR BV 6)) ?r"]) (simp add: clear_TXC_def write_law(1))
qed

lemma tx_irq:
  assumes "inv s" "tx_head s \<noteq> tx_tail s" "lv_free (view (s_hw s))"
  shows "out (tx_udr_empty_irq u s) = out s" "inv (tx_udr_empty_irq u s)" "tx_head (tx_udr_empty_irq u s) = tx_head s"
    "s_written (tx_udr_empty_irq u s) = s_written s" "SREG_I (tx_udr_empty_irq u s) = SREG_I s"
    "tx_tail (tx_udr_empty_irq u s) = next_index (tx_tail s)"
    "length (lv_sent (view (s_hw s))) \<le> length (lv_sent (view (s_hw (tx_udr_empty_irq u s))))"
proof -
  let ?c = "tx_buffer s ! unat (tx_tail s)" and ?s = "s\<lparr>tx_tail := next_index (tx_tail s)\<rparr>"
  have i: "ring_ok (tx_buffer s) (tx_head s) (tx_tail s)" "tst (lv_ctl (view (s_hw s))) 5" "s_written s" using assms(1,2) by (auto simp: tx_inv_def split: if_splits)
  note pop = ring_pop [OF i(1) assms(2)]
  have "lv_done (view (s_hw s)) \<le> length (lv_sent (view (s_hw s)))" using assms(1) by (simp add: tx_inv_def)
  with send_byte [of ?s ?c] assms(3) obtain h where h: "clear_TXC u (s_wr u UDR1 ?c ?s) = ?s\<lparr>s_hw := h\<rparr>" "lv_sent (view h) = lv_sent (view (s_hw s)) @ [?c]"
    "lv_ctl (view h) = lv_ctl (view (s_hw s))" "\<not> lv_txc (view h)" "lv_done (view h) < length (lv_sent (view h))" by auto
  obtain h' where h': "cbi u UCSR1B 5 (?s\<lparr>s_hw := h\<rparr>) = ?s\<lparr>s_hw := h'\<rparr>" "flows ((view h)\<lparr>lv_ctl := lv_ctl (view h) AND NOT (BV 5)\<rparr>) (view h')"
    using cbi_view [of 5 "?s\<lparr>s_hw := h\<rparr>"] by auto
  have e: "tx_udr_empty_irq u s = (if tx_head s = next_index (tx_tail s) then ?s\<lparr>s_hw := h'\<rparr> else ?s\<lparr>s_hw := h\<rparr>)"
    unfolding tx_udr_empty_irq_def Let_def h(1) using h'(1) by simp
  show "out (tx_udr_empty_irq u s) = out s" using pop(1) h(2) h'(2) by (simp add: e tx_line_def tx_list_def flows_def)
  show "inv (tx_udr_empty_irq u s)" using pop(2) h(3-5) h'(2) i(2,3) by (auto simp: e tx_inv_def flows_def)
  show "tx_head (tx_udr_empty_irq u s) = tx_head s" "s_written (tx_udr_empty_irq u s) = s_written s" "SREG_I (tx_udr_empty_irq u s) = SREG_I s"
    "tx_tail (tx_udr_empty_irq u s) = next_index (tx_tail s)"
    "length (lv_sent (view (s_hw s))) \<le> length (lv_sent (view (s_hw (tx_udr_empty_irq u s))))" using h(2) h'(2) by (simp_all add: e flows_def)
qed

text \<open>What a turn of a waiting loop keeps.\<close>

definition kept :: "'h serial \<Rightarrow> 'h serial \<Rightarrow> bool" where
  "kept s t \<longleftrightarrow> inv t \<and> out t = out s \<and> tx_head t = tx_head s \<and> s_written t = s_written s \<and> SREG_I t = SREG_I s
    \<and> length (lv_sent (view (s_hw s))) \<le> length (lv_sent (view (s_hw t)))"

lemma kept_trans: "kept s t \<Longrightarrow> kept t v \<Longrightarrow> kept s v"
  by (auto simp: kept_def)

lemma kept_flows: "inv s \<Longrightarrow> flows (view (s_hw s)) (view h) \<Longrightarrow> kept s (s\<lparr>s_hw := h\<rparr>)"
  using inv_flows [of s h] by (simp add: kept_def flows_def)

lemma kept_read: "inv s \<Longrightarrow> kept s (s\<lparr>s_hw := snd (rd_reg (u_mcu u) r (s_hw s))\<rparr>)"
  by (intro kept_flows read_law)

lemma wait_irq_kept:
  assumes "inv s"
  shows "kept s (wait_irq u s)"
    "tx_head s \<noteq> tx_tail s \<Longrightarrow> tx_tail (wait_irq u s) = next_index (tx_tail s) \<or> tx_tail (wait_irq u s) = tx_tail s
      \<and> wait (s_hw (wait_irq u s)) < wait (s_hw s) \<and> flows (view (s_hw s)) (view (s_hw (wait_irq u s)))"
    "tx_head s = tx_tail s \<Longrightarrow> wait_irq u s = s\<lparr>s_hw := snd (udre_fires u (s_hw s))\<rparr>"
proof -
  let ?h = "snd (udre_fires u (s_hw s))"
  let ?t = "s\<lparr>s_hw := ?h\<rparr>"
  have t: "kept s ?t" using kept_flows [OF assms fires_law(1)] .
  have e: "wait_irq u s = (if fst (udre_fires u (s_hw s)) then tx_udr_empty_irq u ?t else ?t)" by (simp add: wait_irq_def case_prod_unfold Let_def)
  have on: "tst (lv_ctl (view (s_hw s))) 5 \<longleftrightarrow> tx_head s \<noteq> tx_tail s" using assms by (simp add: tx_inv_def)
  have f: "kept ?t (tx_udr_empty_irq u ?t) \<and> tx_tail (tx_udr_empty_irq u ?t) = next_index (tx_tail s)" if "fst (udre_fires u (s_hw s))"
    using tx_irq [of ?t] t fires_law(2) [OF that] on by (simp add: kept_def)
  show "kept s (wait_irq u s)" using t f kept_trans by (auto simp: e)
  show "tx_head s \<noteq> tx_tail s \<Longrightarrow> tx_tail (wait_irq u s) = next_index (tx_tail s) \<or> tx_tail (wait_irq u s) = tx_tail s
      \<and> wait (s_hw (wait_irq u s)) < wait (s_hw s) \<and> flows (view (s_hw s)) (view (s_hw (wait_irq u s)))"
    using f fires_law(1,3) [of "s_hw s"] on by (auto simp: e)
  show "tx_head s = tx_tail s \<Longrightarrow> wait_irq u s = ?t" using fires_law(2) [of "s_hw s"] on by (auto simp: e)
qed

lemma poll_tx_kept: "inv s \<Longrightarrow> tx_head s \<noteq> tx_tail s \<Longrightarrow> kept s (poll_tx u s)"
proof -
  assume s: "inv s" "tx_head s \<noteq> tx_tail s"
  let ?t = "s\<lparr>s_hw := snd (rd_reg (u_mcu u) UCSR1A (s_hw s))\<rparr>"
  have t: "kept s ?t" using kept_read [OF s(1)] .
  have "kept ?t (tx_udr_empty_irq u ?t)" if "lv_free (view (s_hw ?t))"
    using tx_irq [of ?t] t s(2) that by (simp add: kept_def)
  then show ?thesis using t kept_trans read_law(4) [of "s_hw s"] by (auto simp: poll_tx_def)
qed

lemma next_neq: "unat i < 64 \<Longrightarrow> next_index i \<noteq> i"
  using unat_next_index [of i] by (auto simp: mod_Suc split: if_splits)

lemma full_nonempty: "inv s \<Longrightarrow> next_index (tx_head s) = tx_tail s \<Longrightarrow> tx_head s \<noteq> tx_tail s"
  using next_neq [of "tx_head s"] by (auto simp: tx_inv_def ring_ok_def)

lemma wait_room_kept:
  assumes "wait_room u i s = Some t" "inv s" "i = next_index (tx_head s)"
  shows "kept s t \<and> tx_tail t \<noteq> i"
proof -
  let ?P = "\<lambda>i s t. inv s \<and> i = next_index (tx_head s) \<longrightarrow> kept s t \<and> tx_tail t \<noteq> i"
  have "u = u \<longrightarrow> ?P i s t"
  proof (rule wait_room.raw_induct [OF _ assms(1), of "\<lambda>v i s t. v = u \<longrightarrow> ?P i s t"])
    fix f :: "'h uart \<Rightarrow> u8 \<Rightarrow> 'h serial \<Rightarrow> 'h serial option" and v i s t
    assume IH: "\<And>v i s t. f v i s = Some t \<Longrightarrow> v = u \<longrightarrow> ?P i s t"
      and e: "(if i = tx_tail s then f v i (if \<not> SREG_I s then poll_tx v s else wait_irq v s) else Some s) = Some t"
    show "v = u \<longrightarrow> ?P i s t"
    proof (intro impI)
      assume v: "v = u" and inv: "inv s \<and> i = next_index (tx_head s)"
      show "kept s t \<and> tx_tail t \<noteq> i"
      proof (cases "i = tx_tail s")
        case True
        define s' where "s' = (if \<not> SREG_I s then poll_tx u s else wait_irq u s)"
        have s': "kept s s'" using poll_tx_kept [of s] wait_irq_kept(1) [of s] full_nonempty [of s] inv True by (simp add: s'_def)
        have "f u i s' = Some t" using e True unfolding v s'_def by simp
        from IH [OF this] s' inv show ?thesis using kept_trans by (auto simp: kept_def)
      next
        case False
        then show ?thesis using e inv by (auto simp: kept_def)
      qed
    qed
  qed
  then show ?thesis using assms(2,3) by blast
qed

lemma wait_room_now: "i \<noteq> tx_tail s \<Longrightarrow> wait_room u i s = Some s"
  by (subst wait_room.simps) simp

text \<open>With interrupts enabled the wait for room ends.\<close>

lemma wait_room_returns: "inv s \<Longrightarrow> SREG_I s \<Longrightarrow> \<exists>t. wait_room u (next_index (tx_head s)) s = Some t"
proof (induction "wait (s_hw s)" arbitrary: s rule: less_induct)
  case less
  let ?i = "next_index (tx_head s)"
  show ?case
  proof (cases "?i = tx_tail s")
    case True
    have k: "kept s (wait_irq u s)" using wait_irq_kept(1) [OF less.prems(1)] .
    have ne: "tx_head s \<noteq> tx_tail s" using full_nonempty [OF less.prems(1) True] .
    have e: "wait_room u ?i s = wait_room u ?i (wait_irq u s)" using True less.prems(2) by (subst wait_room.simps) simp
    have t: "unat (tx_tail s) < 64" using less.prems(1) by (simp add: tx_inv_def ring_ok_def)
    from wait_irq_kept(2) [OF less.prems(1) ne] show ?thesis
    proof
      assume "tx_tail (wait_irq u s) = next_index (tx_tail s)"
      then have "?i \<noteq> tx_tail (wait_irq u s)" using next_neq [OF t] True by simp
      then show ?thesis using e wait_room_now by auto
    next
      assume "tx_tail (wait_irq u s) = tx_tail s
      \<and> wait (s_hw (wait_irq u s)) < wait (s_hw s) \<and> flows (view (s_hw s)) (view (s_hw (wait_irq u s)))"
      then show ?thesis using less.hyps [of "wait_irq u s"] k less.prems(2) e by (auto simp: kept_def)
    qed
  qed (use wait_room_now in auto)
qed

text \<open>The write, up to the choice between the data register and the buffer.\<close>

lemma write_cases:
  assumes "inv s"
  obtains (direct) h where "lv_free (view h)" "flows (view (s_hw s)) (view h)" "tx_head s = tx_tail s"
      "serial_write u c s = Some (clear_TXC u (s_wr u UDR1 c (s\<lparr>s_written := True, s_hw := h\<rparr>)))"
    | (wait) h where "flows (view (s_hw s)) (view h)"
      "serial_write u c s = wait_room u (next_index (tx_head s)) (s\<lparr>s_written := True, s_hw := h\<rparr>) \<bind>
        (\<lambda>r. Some (sbi u UCSR1B 5 (r\<lparr>tx_buffer := (tx_buffer r)[unat (tx_head r) := c], tx_head := next_index (tx_head s)\<rparr>)))"
proof (cases "tx_head s = tx_tail s")
  case True
  let ?h = "snd (rd_reg (u_mcu u) UCSR1A (s_hw s))"
  note f = read_law(1) [of "s_hw s" UCSR1A] and free = read_law(4) [of "s_hw s"]
  show ?thesis
  proof (cases "lv_free (view ?h)")
    case True
    then show ?thesis using direct [OF True f \<open>tx_head s = tx_tail s\<close>] \<open>tx_head s = tx_tail s\<close> free by (simp add: serial_write_def Let_def)
  next
    case False
    then show ?thesis using wait [OF f] \<open>tx_head s = tx_tail s\<close> free by (simp add: serial_write_def Let_def)
  qed
next
  case False
  have "flows (view (s_hw s)) (view (s_hw s))" using assms by (auto simp: flows_def tx_inv_def)
  then show ?thesis using wait [of "s_hw s"] False by (simp add: serial_write_def Let_def)
qed

lemma write_line:
  assumes "inv s" "serial_write u c s = Some t"
  shows "out t = out s @ [c]" "inv t" "SREG_I t = SREG_I s" "length (lv_sent (view (s_hw s))) \<le> length (lv_sent (view (s_hw t)))"
proof -
  have "out t = out s @ [c] \<and> inv t \<and> SREG_I t = SREG_I s \<and> length (lv_sent (view (s_hw s))) \<le> length (lv_sent (view (s_hw t)))"
  proof (rule write_cases [OF assms(1), of c])
    fix h
    assume h: "lv_free (view h)" "flows (view (s_hw s)) (view h)" "tx_head s = tx_tail s"
      "serial_write u c s = Some (clear_TXC u (s_wr u UDR1 c (s\<lparr>s_written := True, s_hw := h\<rparr>)))"
    have d: "lv_done (view h) \<le> length (lv_sent (view h))" using h(2) by (simp add: flows_def)
    obtain h' where h': "t = s\<lparr>s_written := True, s_hw := h'\<rparr>" "lv_sent (view h') = lv_sent (view h) @ [c]" "lv_ctl (view h') = lv_ctl (view h)"
      "\<not> lv_txc (view h')" "lv_done (view h') < length (lv_sent (view h'))"
      using send_byte [of "s\<lparr>s_written := True, s_hw := h\<rparr>" c] h(1,4) d assms(2) by auto
    have "tx_list s = []" using ring_empty h(3) assms(1) by (simp add: tx_inv_def tx_list_def)
    then show ?thesis using h(2,3) h' assms(1) by (auto simp: tx_line_def tx_list_def tx_inv_def flows_def)
  next
    fix h
    let ?s = "s\<lparr>s_written := True, s_hw := h\<rparr>"
    assume h: "flows (view (s_hw s)) (view h)" and w: "serial_write u c s = wait_room u (next_index (tx_head s)) ?s \<bind>
      (\<lambda>r. Some (sbi u UCSR1B 5 (r\<lparr>tx_buffer := (tx_buffer r)[unat (tx_head r) := c], tx_head := next_index (tx_head s)\<rparr>)))"
    then obtain r where r: "wait_room u (next_index (tx_head s)) ?s = Some r"
      "t = sbi u UCSR1B 5 (r\<lparr>tx_buffer := (tx_buffer r)[unat (tx_head r) := c], tx_head := next_index (tx_head s)\<rparr>)"
      using assms(2) by (cases "wait_room u (next_index (tx_head s)) ?s") auto
    have ok: "ring_ok (tx_buffer r) (tx_head s) (tx_tail r) \<and> out r = out s \<and> tx_head r = tx_head s \<and> s_written r \<and> SREG_I r = SREG_I s
      \<and> tx_tail r \<noteq> next_index (tx_head s) \<and> lv_done (view (s_hw r)) \<le> length (lv_sent (view (s_hw r)))
      \<and> (lv_txc (view (s_hw r)) \<longrightarrow> lv_done (view (s_hw r)) = length (lv_sent (view (s_hw r))))
      \<and> length (lv_sent (view (s_hw s))) \<le> length (lv_sent (view (s_hw r)))"
    proof (cases "tx_head s = tx_tail s")
      case True
      then have "next_index (tx_head s) \<noteq> tx_tail s" using next_neq [of "tx_head s"] assms(1) by (simp add: tx_inv_def ring_ok_def)
      then have "r = ?s" using r(1) wait_room_now [of _ ?s] by simp
      then show ?thesis using assms(1) h \<open>next_index (tx_head s) \<noteq> tx_tail s\<close> by (auto simp: tx_inv_def flows_def tx_line_def tx_list_def split: if_splits)
    next
      case False
      then have i: "inv ?s" "out ?s = out s" using assms(1) h by (auto simp: tx_inv_def flows_def tx_line_def tx_list_def split: if_splits)
      from wait_room_kept [OF r(1) i(1)] show ?thesis using i(2) h by (auto simp: kept_def tx_inv_def flows_def)
    qed
    let ?r = "r\<lparr>tx_buffer := (tx_buffer r)[unat (tx_head r) := c], tx_head := next_index (tx_head s)\<rparr>"
    obtain h' where h': "t = ?r\<lparr>s_hw := h'\<rparr>" "flows ((view (s_hw r))\<lparr>lv_ctl := lv_ctl (view (s_hw r)) OR BV 5\<rparr>) (view h')"
      using sbi_view [of 5 ?r] r(2) by auto
    have "next_index (tx_head s) \<noteq> tx_tail r" using ok by auto
    from ring_push [OF _ this, of "tx_buffer r" c] ok show ?thesis
      using h' by (auto simp: tx_line_def tx_list_def tx_inv_def flows_def)
  qed
  then show "out t = out s @ [c]" "inv t" "SREG_I t = SREG_I s" "length (lv_sent (view (s_hw s))) \<le> length (lv_sent (view (s_hw t)))" by simp_all
qed

text \<open>A write with room returns at once, and any other with interrupts enabled.\<close>

lemma write_returns:
  assumes "inv s" "next_index (tx_head s) \<noteq> tx_tail s \<or> SREG_I s"
  shows "\<exists>t. serial_write u c s = Some t"
proof (rule write_cases [OF assms(1), of c])
  fix h
  let ?s = "s\<lparr>s_written := True, s_hw := h\<rparr>"
  assume h: "flows (view (s_hw s)) (view h)" and w: "serial_write u c s = wait_room u (next_index (tx_head s)) ?s \<bind>
    (\<lambda>r. Some (sbi u UCSR1B 5 (r\<lparr>tx_buffer := (tx_buffer r)[unat (tx_head r) := c], tx_head := next_index (tx_head s)\<rparr>)))"
  show ?thesis
  proof (cases "next_index (tx_head s) = tx_tail s")
    case True
    then have "tx_head s \<noteq> tx_tail s" using full_nonempty [OF assms(1)] by simp
    then have "inv ?s" using assms(1) h by (auto simp: tx_inv_def flows_def split: if_splits)
    from wait_room_returns [OF this] show ?thesis using w True assms(2) by auto
  next
    case False
    then show ?thesis using w wait_room_now [of "next_index (tx_head s)" ?s] by simp
  qed
qed simp

lemma rx_irq_kept: "inv s \<Longrightarrow> inv (rx_complete_irq u s) \<and> out (rx_complete_irq u s) = out s \<and> SREG_I (rx_complete_irq u s) = SREG_I s"
proof -
  assume s: "inv s"
  let ?s = "s\<lparr>s_hw := snd (rd_reg (u_mcu u) UCSR1A (s_hw s))\<rparr>"
  let ?t = "?s\<lparr>s_hw := snd (rd_reg (u_mcu u) UDR1 (s_hw ?s))\<rparr>"
  have "kept s ?t" using kept_trans [OF kept_read [OF s, of UCSR1A]] kept_read [of ?s UDR1] kept_read [OF s, of UCSR1A] by (simp add: kept_def)
  moreover have "inv (rx_store b r) = inv r" "out (rx_store b r) = out r" "SREG_I (rx_store b r) = SREG_I r" for b and r :: "'h serial"
    by (simp_all add: rx_store_def Let_def tx_inv_def tx_line_def tx_list_def)
  ultimately show ?thesis by (simp add: rx_complete_irq_def kept_def)
qed

lemma run_line:
  "inv s \<Longrightarrow> SREG_I s \<Longrightarrow> \<exists>t. serial_run u es s = Some t \<and> out t = out s @ written_bytes es \<and> inv t \<and> SREG_I t"
proof (induction es arbitrary: s rule: written_bytes.induct)
  case (2 c es)
  from write_returns [of s c] 2(2,3) obtain t where t: "serial_write u c s = Some t" by blast
  from 2(1) [of t] write_line [OF 2(2) t] 2(3) show ?case by (simp add: t)
next
  case (3 es)
  then show ?case using wait_irq_kept(1) [of s] 3(1) [of "wait_irq u s"] by (simp add: kept_def)
next
  case (4 es)
  then show ?case using rx_irq_kept [of s] 4(1) [of "rx_complete_irq u s"] by simp
qed simp

text \<open>\<^verbatim>\<open>flush\<close> returns, and all bytes are out.\<close>

lemma flows_trans: "flows v w \<Longrightarrow> flows w x \<Longrightarrow> flows v x"
  by (auto simp: flows_def)

lemma flush_loop_done:
  assumes "inv s" "SREG_I s" "s_written s"
  shows "\<exists>t. flush_loop u s = Some t \<and> inv t \<and> out t = out s \<and> tx_list t = [] \<and> lv_done (view (s_hw t)) = length (lv_sent (view (s_hw t)))"
  using assms
proof (induction "(fill (tx_head s) (tx_tail s), if lv_txc (view (s_hw s)) then 0 else (1 :: nat), wait (s_hw s))" arbitrary: s
    rule: wf_induct_rule [OF wf_lex_prod [OF wf_less_than wf_lex_prod [OF wf_less_than wf_less_than]]])
  case (1 s)
  let ?h1 = "snd (rd_reg (u_mcu u) UCSR1B (s_hw s))"
  let ?s1 = "s\<lparr>s_hw := ?h1\<rparr>"
  have s1: "kept s ?s1" "wait ?h1 \<le> wait (s_hw s)" "flows (view (s_hw s)) (view ?h1)" using kept_read [OF 1(2)] read_law(1,2) by simp_all
  have on: "tst (lv_ctl (view (s_hw s))) 5 \<longleftrightarrow> tx_head s \<noteq> tx_tail s" using 1(2) by (simp add: tx_inv_def)
  have ok: "unat (tx_head s) < 64" "unat (tx_tail s) < 64" using 1(2) by (simp_all add: tx_inv_def ring_ok_def)
  show ?case
  proof (cases "tx_head s = tx_tail s")
    case False
    let ?t = "wait_irq u ?s1"
    have k: "kept s ?t" using kept_trans [OF s1(1)] wait_irq_kept(1) [of ?s1] s1(1) by (simp add: kept_def)
    have e: "flush_loop u s = flush_loop u ?t" using False on 1(3) by (subst flush_loop.simps) (simp add: read_law(3))
    have th: "tx_head ?t = tx_head s" "inv ?s1" using k s1(1) by (simp_all add: kept_def)
    have mono: "lv_txc (view (s_hw s)) \<Longrightarrow> lv_txc (view ?h1)" using s1(3) by (simp add: flows_def)
    from wait_irq_kept(2) [OF th(2)] False have
      "tx_tail ?t = next_index (tx_tail s) \<or> tx_tail ?t = tx_tail s \<and> wait (s_hw ?t) < wait ?h1 \<and> flows (view ?h1) (view (s_hw ?t))" by simp
    then have "fill (tx_head ?t) (tx_tail ?t) < fill (tx_head s) (tx_tail s) \<or> fill (tx_head ?t) (tx_tail ?t) = fill (tx_head s) (tx_tail s)
        \<and> wait (s_hw ?t) < wait (s_hw s) \<and> (lv_txc (view (s_hw s)) \<longrightarrow> lv_txc (view (s_hw ?t)))"
      unfolding th(1) using fill_next_tail [OF ok False] s1(2) mono by (auto simp: flows_def)
    then have "((fill (tx_head ?t) (tx_tail ?t), if lv_txc (view (s_hw ?t)) then 0 else 1, wait (s_hw ?t)),
        fill (tx_head s) (tx_tail s), if lv_txc (view (s_hw s)) then 0 else (1 :: nat), wait (s_hw s)) \<in> less_than <*lex*> less_than <*lex*> less_than"
      by (elim disjE) simp_all
    from 1(1) [OF this] show ?thesis using k e 1(3,4) by (auto simp: kept_def)
  next
    case True
    let ?h2 = "snd (rd_reg (u_mcu u) UCSR1A ?h1)"
    let ?s2 = "s\<lparr>s_hw := ?h2\<rparr>"
    have s2: "kept s ?s2" "wait ?h2 \<le> wait (s_hw s)" "flows (view (s_hw s)) (view ?h2)"
      using kept_trans [OF s1(1)] kept_read [of ?s1 UCSR1A] s1 order_trans [OF read_law(2) s1(2)] flows_trans [OF s1(3) read_law(1)] by (simp_all add: kept_def)
    have i2: "inv ?s2" using s2(1) by (simp add: kept_def)
    have empty: "tx_list s = []" using ring_empty True 1(2) by (simp add: tx_inv_def tx_list_def)
    show ?thesis
    proof (cases "lv_txc (view ?h2)")
      case True
      have "flush_loop u s = Some ?s2" using True \<open>tx_head s = tx_tail s\<close> on read_law(5) [of ?h1]
        by (subst flush_loop.simps) (simp add: read_law(3))
      then show ?thesis using s2(1) i2 empty True by (auto simp: kept_def tx_inv_def tx_list_def)
    next
      case False
      let ?t = "wait_irq u ?s2" and ?h3 = "snd (udre_fires u ?h2)"
      have t: "?t = s\<lparr>s_hw := ?h3\<rparr>" using wait_irq_kept(3) [OF i2] \<open>tx_head s = tx_tail s\<close> by simp
      have k: "kept s ?t" using kept_trans [OF s2(1) wait_irq_kept(1) [OF i2]] .
      have e: "flush_loop u s = flush_loop u ?t" using False \<open>tx_head s = tx_tail s\<close> on 1(3) read_law(5) [of ?h1]
        by (subst flush_loop.simps) (simp add: read_law(3))
      have "lv_done (view ?h2) < length (lv_sent (view ?h2))" using i2 False \<open>tx_head s = tx_tail s\<close> 1(4) by (simp add: tx_inv_def)
      then have "lv_txc (view ?h3) \<or> wait ?h3 < wait ?h2" using fires_law(1,4) [of ?h2] by (auto simp: flows_def)
      moreover have "\<not> lv_txc (view (s_hw s))" using False s2(3) by (auto simp: flows_def)
      ultimately have "((fill (tx_head ?t) (tx_tail ?t), if lv_txc (view (s_hw ?t)) then 0 else 1, wait (s_hw ?t)),
          fill (tx_head s) (tx_tail s), if lv_txc (view (s_hw s)) then 0 else (1 :: nat), wait (s_hw s)) \<in> less_than <*lex*> less_than <*lex*> less_than"
        using s2(2) by (auto simp: t)
      from 1(1) [OF this] show ?thesis using k e 1(3,4) by (auto simp: kept_def)
    qed
  qed
qed

lemma flush_done:
  assumes "inv s" "SREG_I s"
  shows "\<exists>t. serial_flush u s = Some t \<and> lv_sent (view (s_hw t)) = out s \<and> lv_done (view (s_hw t)) = length (out s)"
proof (cases "s_written s")
  case True
  from flush_loop_done [OF assms True] show ?thesis using True by (auto simp: serial_flush_def tx_line_def)
next
  case False
  then have "tx_list s = []" using assms(1) ring_empty [of "tx_buffer s" "tx_head s" "tx_tail s"] by (auto simp: tx_inv_def tx_list_def)
  then show ?thesis using False assms(1) by (simp add: serial_flush_def tx_line_def tx_inv_def)
qed

end

text \<open>(C9) What is sent keeps the order and is complete: every sequence of writes, with the interrupts in between, returns. The bytes that the data
  register took followed by those that wait are the bytes that were written, and at most 63 wait. Then \<^verbatim>\<open>flush\<close> returns, and
  every byte has left on the line. At the start the transmitter is idle and its interrupt disabled.\<close>

theorem serial_output_in_order:
  assumes "serial_line u view wait" "\<not> tst (lv_ctl (view h)) 5" "lv_done (view h) = length (lv_sent (view h))"
  shows "\<exists>t. serial_run u es (HardwareSerial_new h fresh) = Some t \<and> lv_sent (view (s_hw t)) @ tx_list t = lv_sent (view h) @ written_bytes es
    \<and> length (tx_list t) \<le> 63
    \<and> (\<exists>t'. serial_flush u t = Some t' \<and> lv_sent (view (s_hw t')) = lv_sent (view h) @ written_bytes es
          \<and> lv_done (view (s_hw t')) = length (lv_sent (view (s_hw t'))))"
proof -
  have new: "tx_inv view (HardwareSerial_new h fresh)" "tx_line view (HardwareSerial_new h fresh) = lv_sent (view h)" "SREG_I (HardwareSerial_new h fresh)"
    using assms(2,3) by (simp_all add: HardwareSerial_new_def tx_inv_def ring_ok_def tx_line_def tx_list_def ring_items_def fill_def del: upt_rec_numeral)
  obtain t where t: "serial_run u es (HardwareSerial_new h fresh) = Some t" "tx_line view t = lv_sent (view h) @ written_bytes es" "tx_inv view t" "SREG_I t"
    using serial_line.run_line [OF assms(1) new(1,3)] new(2) by auto
  have "unat (tx_head t) < 64" "unat (tx_tail t) < 64" using t(3) by (simp_all add: tx_inv_def ring_ok_def)
  then have "length (tx_list t) \<le> 63" using fill_less [of "tx_head t" "tx_tail t"] by (simp add: tx_list_def)
  then show ?thesis using t serial_line.flush_done [OF assms(1) t(3,4)] by (auto simp: tx_line_def)
qed

section \<open>A line in the computer\<close>

text \<open>The bytes that the data register took, how many are in it or in the shift register, at most two, and the flag and the control
  register. One byte leaves whenever a loop waits.\<close>

record wire =
  w_sent :: "u8 list"
  w_busy :: nat
  w_txc :: bool
  w_ctl :: u8

definition wire_view :: "wire \<Rightarrow> line_view" where
  "wire_view h = \<lparr>lv_sent = w_sent h, lv_done = length (w_sent h) - w_busy h, lv_free = (w_busy h < 2), lv_txc = w_txc h, lv_ctl = w_ctl h\<rparr>"

definition wire_pass :: "wire \<Rightarrow> wire" where
  "wire_pass h = h\<lparr>w_busy := w_busy h - 1, w_txc := w_txc h \<or> w_busy h = 1 \<and> w_sent h \<noteq> []\<rparr>"

definition wire_mcu :: "wire mcu" where
  "wire_mcu = \<lparr>rd_reg = (\<lambda>r h. (if r = UCSR1B then w_ctl h
       else if r = UCSR1A then (if w_busy h < 2 then BV UDRE1 else 0) OR (if w_txc h then BV 6 else 0) else 0, h)),
     wr_reg = (\<lambda>r v h. if r = UDR1 then (if w_busy h < 2 then h\<lparr>w_sent := w_sent h @ [v], w_busy := Suc (w_busy h)\<rparr> else h)
       else if r = UCSR1A then h\<lparr>w_txc := w_txc h \<and> \<not> tst v 6\<rparr> else if r = UCSR1B then h\<lparr>w_ctl := v\<rparr> else h),
     irq_line = (\<lambda>_ h. (None, h)), hw_delay_ms = (\<lambda>_ h. h), hw_wdt_disable = (\<lambda>h. h), hw_pgm_byte = (\<lambda>_ _. 0),
     hw_boot_page_erase = (\<lambda>_ h. h), hw_boot_page_fill = (\<lambda>_ _ h. h), hw_boot_page_write = (\<lambda>_ h. h),
     hw_boot_spm_busy_wait = (\<lambda>h. h), hw_boot_rww_enable = (\<lambda>h. h), hw_boot_rww_enable_safe = (\<lambda>h. h)\<rparr>"

definition wire_uart :: "wire uart" where
  "wire_uart = \<lparr>u_mcu = wire_mcu, udre_fires = (\<lambda>h. (tst (w_ctl h) 5 \<and> w_busy (wire_pass h) < 2, wire_pass h))\<rparr>"

interpretation wire: serial_line wire_uart wire_view w_busy
  by unfold_locales (auto simp: wire_uart_def wire_mcu_def wire_view_def wire_pass_def flows_def)

definition idle_wire :: wire where
  "idle_wire = \<lparr>w_sent = [], w_busy = 0, w_txc = False, w_ctl = 0\<rparr>"

theorem serial_output_in_order_witness:
  "\<exists>t t'. serial_run wire_uart [SWrite 1, SWrite 2, SWrite 3, SReceive, SEmpty] (HardwareSerial_new idle_wire (\<lambda>_. 0)) = Some t
    \<and> serial_flush wire_uart t = Some t' \<and> w_sent (s_hw t') = [1, 2, 3]"
  using serial_output_in_order [OF wire.serial_line_axioms, of idle_wire "[SWrite 1, SWrite 2, SWrite 3, SReceive, SEmpty]" "\<lambda>_. 0"]
  by (auto simp: idle_wire_def wire_view_def)

end
