(* ===== verification/Arduino_Print.thy ===== *)
theory Arduino_Print
  imports Hardware_Serial Usb_Types
begin

text \<open>
  Text output of the Arduino core for the AVR: numbers, \<^verbatim>\<open>Print.cpp\<close>, and addresses, \<^verbatim>\<open>IPAddress.cpp\<close>, which can also be read
  from text. The class \<^verbatim>\<open>Print\<close> rests on the virtual function that writes one byte, here the parameter \<open>w\<close>; it returns
  the number of bytes written. Characters are bytes.
\<close>

section \<open>Printing\<close>

fun Print_write :: "(u8 \<Rightarrow> 'p \<Rightarrow> nat \<times> 'p) \<Rightarrow> u8 list \<Rightarrow> 'p \<Rightarrow> nat \<times> 'p" where
  "Print_write w [] p = (0, p)"
| "Print_write w (b # bs) p =
     (case w b p of (k, p) \<Rightarrow> if k \<noteq> 0 then (case Print_write w bs p of (n, p) \<Rightarrow> (Suc n, p)) else (0, p))"

text \<open>A string ends at the first NUL.\<close>

definition Print_write_str :: "(u8 \<Rightarrow> 'p \<Rightarrow> nat \<times> 'p) \<Rightarrow> u8 list \<Rightarrow> 'p \<Rightarrow> nat \<times> 'p" where
  "Print_write_str w str p = Print_write w (takeWhile (\<lambda>c. c \<noteq> 0) str) p"

text \<open>The loop that writes the digits from the last to the first; the type \<^verbatim>\<open>char\<close> is signed.\<close>

partial_function (option) number_chars :: "u32 \<Rightarrow> u8 \<Rightarrow> u8 list \<Rightarrow> u8 list option" where
  "number_chars n base str =
     (let c = ucast (n mod ucast base) :: u8;
          n = n div ucast base;
          str = (if sint c < 10 then c + 48 else c + 65 - 10) # str
      in if n \<noteq> 0 then number_chars n base str else Some str)"

definition printNumber :: "(u8 \<Rightarrow> 'p \<Rightarrow> nat \<times> 'p) \<Rightarrow> u32 \<Rightarrow> u8 \<Rightarrow> 'p \<Rightarrow> (nat \<times> 'p) option" where
  "printNumber w n base p = do {
     let base = (if base < 2 then 10 else base);
     str \<leftarrow> number_chars n base [];
     Some (Print_write_str w str p) }"

definition print_ulong :: "(u8 \<Rightarrow> 'p \<Rightarrow> nat \<times> 'p) \<Rightarrow> u32 \<Rightarrow> int \<Rightarrow> 'p \<Rightarrow> (nat \<times> 'p) option" where
  "print_ulong w n base p = (if base = 0 then Some (w (ucast n) p) else printNumber w n (word_of_int base) p)"

definition print_long :: "(u8 \<Rightarrow> 'p \<Rightarrow> nat \<times> 'p) \<Rightarrow> 32 word \<Rightarrow> int \<Rightarrow> 'p \<Rightarrow> (nat \<times> 'p) option" where
  "print_long w n base p =
     (if base = 0 then Some (w (ucast n) p)
      else if base = 10 then
        (if sint n < 0 then do {
           let (t, p) = w 45 p;
           (k, p) \<leftarrow> printNumber w (- n) 10 p;
           Some (k + t, p) }
         else printNumber w n 10 p)
      else printNumber w n (word_of_int base) p)"

definition print_uchar :: "(u8 \<Rightarrow> 'p \<Rightarrow> nat \<times> 'p) \<Rightarrow> u8 \<Rightarrow> int \<Rightarrow> 'p \<Rightarrow> (nat \<times> 'p) option" where
  "print_uchar w b base p = print_ulong w (ucast b) base p"

definition print_int :: "(u8 \<Rightarrow> 'p \<Rightarrow> nat \<times> 'p) \<Rightarrow> 16 word \<Rightarrow> int \<Rightarrow> 'p \<Rightarrow> (nat \<times> 'p) option" where
  "print_int w n base p = print_long w (scast n) base p"

definition print_uint :: "(u8 \<Rightarrow> 'p \<Rightarrow> nat \<times> 'p) \<Rightarrow> 16 word \<Rightarrow> int \<Rightarrow> 'p \<Rightarrow> (nat \<times> 'p) option" where
  "print_uint w n base p = print_ulong w (ucast n) base p"

definition println :: "(u8 \<Rightarrow> 'p \<Rightarrow> nat \<times> 'p) \<Rightarrow> 'p \<Rightarrow> nat \<times> 'p" where
  "println w p = Print_write_str w [13, 10] p"

definition println_long :: "(u8 \<Rightarrow> 'p \<Rightarrow> nat \<times> 'p) \<Rightarrow> 32 word \<Rightarrow> int \<Rightarrow> 'p \<Rightarrow> (nat \<times> 'p) option" where
  "println_long w n base p = do {
     (k, p) \<leftarrow> print_long w n base p;
     let (r, p) = println w p;
     Some (k + r, p) }"

section \<open>Addresses\<close>

text \<open>The union of four bytes and a little endian word.\<close>

record IPAddress =
  addr :: "u8 list"

definition IPAddress_default :: IPAddress where
  "IPAddress_default = \<lparr>addr = bytes32 0\<rparr>"

definition IPAddress_octets :: "u8 \<Rightarrow> u8 \<Rightarrow> u8 \<Rightarrow> u8 \<Rightarrow> IPAddress" where
  "IPAddress_octets a b c d = \<lparr>addr = [a, b, c, d]\<rparr>"

definition IPAddress_dword :: "u32 \<Rightarrow> IPAddress" where
  "IPAddress_dword n = \<lparr>addr = bytes32 n\<rparr>"

definition IPAddress_bytes :: "u8 list \<Rightarrow> IPAddress" where
  "IPAddress_bytes bs = \<lparr>addr = take 4 bs\<rparr>"

definition IPAddress_to_dword :: "IPAddress \<Rightarrow> u32" where
  "IPAddress_to_dword a = mk32 (addr a ! 3) (addr a ! 2) (addr a ! 1) (addr a ! 0)"

definition IPAddress_eq :: "IPAddress \<Rightarrow> IPAddress \<Rightarrow> bool" where
  "IPAddress_eq a b \<longleftrightarrow> IPAddress_to_dword a = IPAddress_to_dword b"

definition IPAddress_eq_bytes :: "IPAddress \<Rightarrow> u8 list \<Rightarrow> bool" where
  "IPAddress_eq_bytes a bs \<longleftrightarrow> take 4 bs = addr a"

text \<open>Assignment to an address, and to one of its octets through the reference; outside of the array nothing is known.\<close>

definition IPAddress_assign_bytes :: "u8 list \<Rightarrow> IPAddress \<Rightarrow> IPAddress" where
  "IPAddress_assign_bytes bs a = a\<lparr>addr := take 4 bs\<rparr>"

definition IPAddress_assign_dword :: "u32 \<Rightarrow> IPAddress \<Rightarrow> IPAddress" where
  "IPAddress_assign_dword n a = a\<lparr>addr := bytes32 n\<rparr>"

definition IPAddress_get :: "int \<Rightarrow> IPAddress \<Rightarrow> u8 option" where
  "IPAddress_get i a = (if 0 \<le> i \<and> i < 4 then Some (addr a ! nat i) else None)"

definition IPAddress_set :: "int \<Rightarrow> u8 \<Rightarrow> IPAddress \<Rightarrow> IPAddress option" where
  "IPAddress_set i b a = (if 0 \<le> i \<and> i < 4 then Some (a\<lparr>addr := (addr a)[nat i := b]\<rparr>) else None)"

text \<open>Reading text. The first component says where the loop ended, unless it returned.\<close>

fun fromString_loop :: "u8 list \<Rightarrow> u16 \<Rightarrow> u8 \<Rightarrow> IPAddress \<Rightarrow> (u16 \<times> u8) option \<times> IPAddress" where
  "fromString_loop [] acc dots a = (Some (acc, dots), a)"
| "fromString_loop (c # cs) acc dots a =
     (if c \<ge> 48 \<and> c \<le> 57 then
        (let acc = acc * 10 + ucast (c - 48) in
         if acc > 255 then (None, a) else fromString_loop cs acc dots a)
      else if c = 46 then
        (if dots = 3 then (None, a)
         else fromString_loop cs 0 (dots + 1) (a\<lparr>addr := (addr a)[unat dots := ucast acc]\<rparr>))
      else (None, a))"

definition fromString :: "u8 list \<Rightarrow> IPAddress \<Rightarrow> bool \<times> IPAddress" where
  "fromString cs a =
     (case fromString_loop cs 0 0 a of
        (None, a) \<Rightarrow> (False, a)
      | (Some (acc, dots), a) \<Rightarrow> if dots \<noteq> 3 then (False, a) else (True, a\<lparr>addr := (addr a)[3 := ucast acc]\<rparr>))"

fun printTo_octets :: "(u8 \<Rightarrow> 'p \<Rightarrow> nat \<times> 'p) \<Rightarrow> u8 list \<Rightarrow> 'p \<Rightarrow> (nat \<times> 'p) option" where
  "printTo_octets w [] p = Some (0, p)"
| "printTo_octets w (b # bs) p = do {
     (n, p) \<leftarrow> print_uchar w b 10 p;
     let (k, p) = w 46 p;
     (r, p) \<leftarrow> printTo_octets w bs p;
     Some (n + k + r, p) }"

definition printTo :: "(u8 \<Rightarrow> 'p \<Rightarrow> nat \<times> 'p) \<Rightarrow> IPAddress \<Rightarrow> 'p \<Rightarrow> (nat \<times> 'p) option" where
  "printTo w a p = do {
     (n, p) \<leftarrow> printTo_octets w (take 3 (addr a)) p;
     (k, p) \<leftarrow> print_uchar w (addr a ! 3) 10 p;
     Some (n + k, p) }"

section \<open>Decimal numbers\<close>

fun dec :: "nat \<Rightarrow> u8 list" where
  "dec n = (if n < 10 then [of_nat n + 48] else dec (n div 10) @ [of_nat (n mod 10) + 48])"

declare dec.simps [simp del]

lemma number_chars_step:
  "number_chars n b str =
     (let c = ucast (n mod ucast b) :: u8; str = (if sint c < 10 then c + 48 else c + 65 - 10) # str
      in if n div ucast b \<noteq> 0 then number_chars (n div ucast b) b str else Some str)"
  by (subst number_chars.simps) (simp add: Let_def)

text \<open>The buffer of 33 bytes is large enough for every base.\<close>

lemma number_fits:
  "2 \<le> b \<Longrightarrow> unat n < 2 ^ k \<Longrightarrow> 0 < k \<Longrightarrow> \<exists>str'. number_chars n b str = Some (str' @ str) \<and> length str' \<le> k"
proof (induction k arbitrary: n str)
  case (Suc k)
  let ?n = "n div ucast b" and ?c = "ucast (n mod ucast b) :: u8"
  let ?d = "if sint ?c < 10 then ?c + 48 else ?c + 65 - 10"
  have b: "2 \<le> unat (ucast b :: u32)" using Suc.prems(1) unsigned_less [of b, where ?'a = nat] by (simp add: word_le_nat_alt unsigned_ucast_eq take_bit_nat_eq_self)
  have "unat ?n = unat n div unat (ucast b :: u32)" by (rule unat_div)
  also have "\<dots> \<le> unat n div 2" using b by (intro div_le_mono2) simp_all
  finally have n: "unat ?n < 2 ^ k" using Suc.prems(2) by simp
  show ?case
  proof (cases "?n = 0")
    case True
    then show ?thesis by (subst number_chars_step) (simp add: Let_def)
  next
    case False
    then have "0 < k" using n by (cases k) (simp_all add: unat_eq_0)
    from Suc.IH [OF Suc.prems(1) n this, of "?d # str"] obtain str' where
      "number_chars ?n b (?d # str) = Some (str' @ ?d # str)" "length str' \<le> k" by blast
    then show ?thesis using False by (intro exI [of _ "str' @ [?d]"]) (subst number_chars_step, simp add: Let_def)
  qed
qed simp

lemma number_chars_dec: "number_chars n 10 str = Some (dec (unat n) @ str)"
proof (induction "unat n" arbitrary: n str rule: less_induct)
  case less
  define k where "k = unat n"
  have d: "unat (n div 10) = k div 10" "unat (n mod 10) = k mod 10" by (simp_all add: unat_div unat_mod k_def)
  have c: "(ucast (n mod 10) :: u8) = of_nat (k mod 10)" unfolding d(2) [symmetric] by simp
  have s: "sint (of_nat (k mod 10) :: u8) < 10" by (simp add: sint_uint unsigned_of_nat take_bit_eq_mod signed_take_bit_int_eq_self)
  show ?case
  proof (cases "k < 10")
    case True
    then have "n div 10 = 0" using d(1) by (simp add: unat_eq_0 [symmetric])
    then show ?thesis using True c s by (subst number_chars_step) (simp add: Let_def dec.simps [of k] k_def [symmetric])
  next
    case False
    then have "n div 10 \<noteq> 0" "unat (n div 10) < unat n" using d(1) by (auto simp: unat_eq_0 [symmetric] k_def)
    then show ?thesis using less [of "n div 10"] False c s d(1) by (subst number_chars_step) (simp add: Let_def dec.simps [of k] k_def [symmetric])
  qed
qed

lemma length_dec: "n < 10 ^ k \<Longrightarrow> 0 < k \<Longrightarrow> length (dec n) \<le> k"
proof (induction k arbitrary: n)
  case (Suc k)
  then have "n div 10 < 10 ^ k" by auto
  then show ?case using Suc.IH [of "n div 10"] by (cases "k = 0") (auto simp: dec.simps [of n])
qed simp

lemma digit_char: "\<forall>d<10. of_nat d + 48 \<ge> (48 :: u8) \<and> of_nat d + 48 \<le> (57 :: u8) \<and> of_nat d + 48 \<noteq> (0 :: u8)"
  by code_simp

lemma dec_nonzero: "c \<in> set (dec n) \<Longrightarrow> c \<noteq> 0"
proof (induction n rule: dec.induct)
  case (1 n)
  then show ?case using digit_char by (subst (asm) (2) dec.simps) (auto split: if_splits)
qed

lemma dec_str [simp]: "takeWhile (\<lambda>c. c \<noteq> 0) (dec n) = dec n"
  using dec_nonzero by (intro takeWhile_eq_all_conv [THEN iffD2]) blast

definition signed_dec :: "32 word \<Rightarrow> u8 list" where
  "signed_dec n = (if sint n < 0 then 45 # dec (unat (- n)) else dec (unat n))"

lemma length_signed_dec: "length (signed_dec n) \<le> 11"
  using length_dec [of "unat n" 10] length_dec [of "unat (- n)" 10] unsigned_less [of n, where ?'a = nat] unsigned_less [of "- n", where ?'a = nat]
  by (simp add: signed_dec_def)

section \<open>Reading an address that was printed\<close>

definition address_text :: "IPAddress \<Rightarrow> u8 list" where
  "address_text a = concat (map (\<lambda>b. dec (unat b) @ [46]) (take 3 (addr a))) @ dec (unat (addr a ! 3))"

lemma parse_dec: "n \<le> 255 \<Longrightarrow> fromString_loop (dec n @ cs) 0 dots a = fromString_loop cs (of_nat n) dots a"
proof (induction n arbitrary: cs rule: dec.induct)
  case (1 n)
  have digit: "fromString_loop ((of_nat d + 48) # cs) (of_nat k) dots a = fromString_loop cs (of_nat n) dots a" if "d < 10" "n = k * 10 + d" for k d
  proof -
    have "ucast (of_nat d :: u8) = (of_nat d :: u16)" using that(1) by (simp add: unsigned_of_nat take_bit_nat_eq_self)
    then have e: "of_nat k * 10 + ucast (of_nat d + 48 - 48 :: u8) = (of_nat n :: u16)" using that by simp
    have "\<not> (of_nat n :: u16) > 255" using "1.prems" by (simp add: word_less_nat_alt unat_of_nat)
    then show ?thesis using digit_char that(1) unfolding fromString_loop.simps e Let_def by simp
  qed
  show ?case
  proof (cases "n < 10")
    case True
    then show ?thesis using digit [of n 0] by (subst dec.simps) simp
  next
    case False
    then have "fromString_loop (dec (n div 10) @ (of_nat (n mod 10) + 48) # cs) 0 dots a = fromString_loop cs (of_nat n) dots a"
      using 1 digit [of "n mod 10" "n div 10"] by simp
    then show ?thesis using False by (subst dec.simps) simp
  qed
qed

lemma u8_255: "unat (b :: u8) \<le> 255"
  using unsigned_less [of b, where ?'a = nat] by simp

lemma back8: "ucast (ucast b :: u16) = (b :: u8)"
  by (rule bit_word_eqI) (simp add: bit_simps)

lemma fromString_text:
  assumes "length (addr a) = 4" "length (addr b) = 4"
  shows "fromString (address_text a) b = (True, a)"
proof -
  obtain a0 a1 a2 a3 where a: "addr a = [a0, a1, a2, a3]" using assms(1) by (auto simp: numeral_eq_Suc length_Suc_conv)
  obtain b0 b1 b2 b3 where b: "addr b = [b0, b1, b2, b3]" using assms(2) by (auto simp: numeral_eq_Suc length_Suc_conv)
  have "fromString_loop (dec (unat a0) @ 46 # dec (unat a1) @ 46 # dec (unat a2) @ 46 # dec (unat a3) @ []) 0 0 b = (Some (ucast a3, 3), b\<lparr>addr := [a0, a1, a2, b3]\<rparr>)"
    unfolding parse_dec [OF u8_255] by (simp add: parse_dec [OF u8_255] b back8 del: append_Nil2)
  then show ?thesis using a by (simp add: fromString_def address_text_def back8)
qed

section \<open>Printing to a sink with room\<close>

text \<open>The contract of a sink: a byte that finds room is appended to what was put out, and takes at most one place.\<close>

locale print_sink =
  fixes w :: "u8 \<Rightarrow> 'p \<Rightarrow> nat \<times> 'p" and out :: "'p \<Rightarrow> u8 list" and room :: "'p \<Rightarrow> nat" and live :: "'p \<Rightarrow> bool"
  assumes write_law: "live p \<Longrightarrow> 0 < room p \<Longrightarrow> fst (w b p) = 1 \<and> live (snd (w b p)) \<and> out (snd (w b p)) = out p @ [b]
    \<and> room p \<le> Suc (room (snd (w b p)))"
begin

definition emits :: "u8 list \<Rightarrow> 'p \<Rightarrow> nat \<times> 'p \<Rightarrow> bool" where
  "emits bs p r \<longleftrightarrow> fst r = length bs \<and> live (snd r) \<and> out (snd r) = out p @ bs \<and> room p \<le> length bs + room (snd r)"

lemma emits_trans: "emits bs p (n, q) \<Longrightarrow> emits cs q (k, r) \<Longrightarrow> emits (bs @ cs) p (n + k, r)"
  by (auto simp: emits_def)

lemma emits_byte: "live p \<Longrightarrow> 0 < room p \<Longrightarrow> emits [b] p (w b p)"
  using write_law [of p b] by (auto simp: emits_def)

lemma emits_write: "live p \<Longrightarrow> length bs \<le> room p \<Longrightarrow> emits bs p (Print_write w bs p)"
proof (induction bs arbitrary: p)
  case (Cons b bs)
  have b: "emits [b] p (w b p)" using Cons.prems by (intro emits_byte) auto
  then have "emits bs (snd (w b p)) (Print_write w bs (snd (w b p)))" using Cons.prems by (intro Cons.IH) (auto simp: emits_def)
  then show ?case using b by (auto simp: emits_def case_prod_unfold)
qed (simp add: emits_def)

lemma printNumber_emits:
  assumes "live p" "length (dec (unat n)) \<le> room p"
  shows "\<exists>r. printNumber w n 10 p = Some r \<and> emits (dec (unat n)) p r"
  using emits_write [OF assms] by (simp add: printNumber_def number_chars_dec Print_write_str_def)

lemma print_uchar_emits:
  "live p \<Longrightarrow> length (dec (unat b)) \<le> room p \<Longrightarrow> \<exists>r. print_uchar w b 10 p = Some r \<and> emits (dec (unat b)) p r"
  using printNumber_emits [of p "ucast b"] unsigned_less [of b, where ?'a = nat]
  by (simp add: print_uchar_def print_ulong_def unsigned_ucast_eq take_bit_nat_eq_self)

lemma print_octets_emits:
  "live p \<Longrightarrow> length (concat (map (\<lambda>b. dec (unat b) @ [46]) bs)) \<le> room p \<Longrightarrow>
   \<exists>r. printTo_octets w bs p = Some r \<and> emits (concat (map (\<lambda>b. dec (unat b) @ [46]) bs)) p r"
proof (induction bs arbitrary: p)
  case (Cons b bs)
  from print_uchar_emits [of p b] Cons.prems obtain n q where q: "print_uchar w b 10 p = Some (n, q)" "emits (dec (unat b)) p (n, q)" by auto
  obtain k r where r: "w 46 q = (k, r)" by fastforce
  have "emits [46] q (w 46 q)" using q Cons.prems by (intro emits_byte) (auto simp: emits_def)
  from emits_trans [OF q(2) this [unfolded r]] have e: "emits (dec (unat b) @ [46]) p (n + k, r)" .
  then obtain m t where "printTo_octets w bs r = Some (m, t)" "emits (concat (map (\<lambda>b. dec (unat b) @ [46]) bs)) r (m, t)"
    using Cons.IH [of r] Cons.prems by (auto simp: emits_def)
  with emits_trans [OF e this(2)] show ?case using q(1) r by simp
qed (simp add: emits_def)

lemma printTo_emits:
  assumes "live p" "length (address_text a) \<le> room p"
  shows "\<exists>r. printTo w a p = Some r \<and> emits (address_text a) p r"
proof -
  let ?cs = "concat (map (\<lambda>b. dec (unat b) @ [46]) (take 3 (addr a)))"
  from print_octets_emits [OF assms(1), of "take 3 (addr a)"] assms(2) obtain n q where q: "printTo_octets w (take 3 (addr a)) p = Some (n, q)"
    "emits ?cs p (n, q)" by (auto simp: address_text_def)
  then obtain k r where r: "print_uchar w (addr a ! 3) 10 q = Some (k, r)" "emits (dec (unat (addr a ! 3))) q (k, r)"
    using print_uchar_emits [of q "addr a ! 3"] assms(2) by (auto simp: emits_def address_text_def)
  from emits_trans [OF q(2) r(2)] show ?thesis using q(1) r(1) by (simp add: printTo_def address_text_def)
qed

lemma print_long_emits:
  assumes "live p" "length (signed_dec n) \<le> room p"
  shows "\<exists>r. print_long w n 10 p = Some r \<and> emits (signed_dec n) p r"
proof (cases "sint n < 0")
  case True
  obtain k q where q: "w 45 p = (k, q)" by fastforce
  have e: "emits [45] p (k, q)" using emits_byte [of p 45] assms True by (auto simp: q signed_dec_def)
  then obtain j r where r: "printNumber w (- n) 10 q = Some (j, r)" "emits (dec (unat (- n))) q (j, r)"
    using printNumber_emits [of q "- n"] assms True by (auto simp: emits_def signed_dec_def)
  from emits_trans [OF e r(2)] show ?thesis using True q r(1) by (simp add: print_long_def signed_dec_def add.commute)
qed (use printNumber_emits [of p n] assms in \<open>simp add: print_long_def signed_dec_def\<close>)

end

section \<open>The serial port as a sink\<close>

text \<open>Writing a byte to the serial port; the state is undefined when a write does not return.\<close>

definition serial_sink :: "'h uart \<Rightarrow> u8 \<Rightarrow> 'h serial option \<Rightarrow> nat \<times> 'h serial option" where
  "serial_sink u b p = (1, p \<bind> serial_write u b)"

definition port_room :: "'h serial option \<Rightarrow> nat" where
  "port_room p = (case p of Some s \<Rightarrow> 63 - length (tx_list s) | None \<Rightarrow> 0)"

definition port_live :: "('h \<Rightarrow> line_view) \<Rightarrow> 'h serial option \<Rightarrow> bool" where
  "port_live view p \<longleftrightarrow> (\<exists>s. p = Some s \<and> tx_inv view s)"

context serial_line begin

lemma write_room:
  assumes "tx_inv view s" "length (tx_list s) < 63"
  shows "\<exists>t. serial_write u c s = Some t \<and> length (tx_list t) \<le> Suc (length (tx_list s))"
proof -
  have ok: "unat (tx_head s) < 64" "unat (tx_tail s) < 64" using assms(1) by (simp_all add: tx_inv_def ring_ok_def)
  then have "next_index (tx_head s) \<noteq> tx_tail s" using fill_next_head(1) [of "tx_head s" "tx_tail s"] assms(2) by (auto simp: tx_list_def)
  then obtain t where t: "serial_write u c s = Some t" using write_returns [OF assms(1)] by blast
  then show ?thesis using arg_cong [OF write_line(1) [OF assms(1) t], of length] write_line(4) [OF assms(1) t] by (auto simp: tx_line_def)
qed

end

sublocale serial_line \<subseteq> port: print_sink "serial_sink u" "\<lambda>p. tx_line view (the p)" port_room "port_live view"
proof
  fix p :: "'h serial option" and b
  assume "port_live view p" "0 < port_room p"
  then obtain s where s: "p = Some s" "tx_inv view s" "length (tx_list s) < 63" by (auto simp: port_live_def port_room_def)
  from write_room [OF s(2,3), of b] obtain t where t: "serial_write u b s = Some t" "length (tx_list t) \<le> Suc (length (tx_list s))" by blast
  then show "fst (serial_sink u b p) = 1 \<and> port_live view (snd (serial_sink u b p))
      \<and> tx_line view (the (snd (serial_sink u b p))) = tx_line view (the p) @ [b]
      \<and> port_room p \<le> Suc (port_room (snd (serial_sink u b p)))"
    using write_line [OF s(2) t(1)] s by (auto simp: serial_sink_def port_live_def port_room_def)
qed

context serial_line begin

lemma emitted:
  assumes "port.emits bs (Some s) r"
  shows "\<exists>t. r = (length bs, Some t) \<and> tx_inv view t \<and> tx_line view t = tx_line view s @ bs"
  using assms by (cases r) (auto simp: port.emits_def port_live_def)

lemma port_ready: "tx_inv view s \<Longrightarrow> length (tx_list s) + n \<le> 63 \<Longrightarrow> port_live view (Some s) \<and> n \<le> port_room (Some s)"
  by (simp add: port_live_def port_room_def)

lemma printed_address:
  "tx_inv view s \<Longrightarrow> length (tx_list s) + length (address_text a) \<le> 63 \<Longrightarrow>
   \<exists>t. printTo (serial_sink u) a (Some s) = Some (length (address_text a), Some t) \<and> tx_line view t = tx_line view s @ address_text a"
  using port.printTo_emits [of "Some s" a] port_ready [of s "length (address_text a)"] emitted by fastforce

lemma printed_long:
  "tx_inv view s \<Longrightarrow> length (tx_list s) + length (signed_dec n) \<le> 63 \<Longrightarrow>
   \<exists>t. print_long (serial_sink u) n 10 (Some s) = Some (length (signed_dec n), Some t) \<and> tx_line view t = tx_line view s @ signed_dec n"
  using port.print_long_emits [of "Some s" n] port_ready [of s "length (signed_dec n)"] emitted by fastforce

end

interpretation wp: print_sink "serial_sink wire_uart" "\<lambda>p. tx_line wire_view (the p)" port_room "port_live wire_view"
  by (rule wire.port.print_sink_axioms)

lemma length_address_text:
  assumes "length (addr a) = 4"
  shows "length (address_text a) \<le> 15"
proof -
  have d: "length (dec (unat b)) \<le> 3" for b :: u8 using length_dec [of "unat b" 3] u8_255 [of b] by simp
  obtain a0 a1 a2 a3 where "addr a = [a0, a1, a2, a3]" using assms by (auto simp: numeral_eq_Suc length_Suc_conv)
  then show ?thesis using d [of a0] d [of a1] d [of a2] d [of a3] by (simp add: address_text_def)
qed

text \<open>(C18) An address that is printed to the serial port with room for it can be read again: printing returns, the line has been given a text of the
  length returned, and \<^verbatim>\<open>fromString\<close> makes the same address of that text.\<close>

theorem printed_address_read:
  assumes "serial_line u view wait" "tx_inv view s" "length (tx_list s) \<le> 48" "length (addr a) = 4" "length (addr b) = 4"
  shows "\<exists>text t. printTo (serial_sink u) a (Some s) = Some (length text, Some t) \<and> tx_line view t = tx_line view s @ text
    \<and> fromString text b = (True, a)"
proof -
  have "length (tx_list s) + length (address_text a) \<le> 63" using length_address_text [OF assms(4)] assms(3) by simp
  from serial_line.printed_address [OF assms(1,2) this] show ?thesis using fromString_text [OF assms(4,5)] by blast
qed

lemma idle_port: "tx_inv wire_view (HardwareSerial_new idle_wire (\<lambda>_. 0))" "tx_list (HardwareSerial_new idle_wire (\<lambda>_. 0)) = []"
  by (simp_all add: HardwareSerial_new_def tx_inv_def ring_ok_def tx_list_def ring_items_def fill_def idle_wire_def wire_view_def del: upt_rec_numeral)

theorem printed_address_read_witness:
  "\<exists>text t. printTo (serial_sink wire_uart) (IPAddress_octets 192 168 4 1) (Some (HardwareSerial_new idle_wire (\<lambda>_. 0))) = Some (length text, Some t)
    \<and> fromString text IPAddress_default = (True, IPAddress_octets 192 168 4 1)"
proof -
  from printed_address_read [OF wire.serial_line_axioms idle_port(1), of "IPAddress_octets 192 168 4 1" IPAddress_default] idle_port(2)
  show ?thesis by (auto simp: IPAddress_octets_def IPAddress_default_def)
qed

text \<open>A text that is refused may have changed the address.\<close>

lemma refused_text_changes: "fromString [49, 46, 120] IPAddress_default = (False, IPAddress_octets 1 0 0 0)"
  by (simp add: fromString_def IPAddress_default_def IPAddress_octets_def bytes32_def)

text \<open>Empty numbers are read as zero.\<close>

lemma dots_accepted: "fromString [46, 46, 46] a = (True, a\<lparr>addr := (addr a)[0 := 0, 1 := 0, 2 := 0, 3 := 0]\<rparr>)"
  by (simp add: fromString_def)

lemma set_get_octet:
  "length (addr a) = 4 \<Longrightarrow> IPAddress_set i b a = Some a' \<Longrightarrow> 0 \<le> j \<and> j < 4 \<Longrightarrow> IPAddress_get j a' = (if j = i then Some b else IPAddress_get j a)"
  by (auto simp: IPAddress_set_def IPAddress_get_def nth_list_update eq_nat_nat_iff split: if_splits)

lemma dword_roundtrip: "IPAddress_to_dword (IPAddress_dword n) = n"
  by (simp add: IPAddress_to_dword_def IPAddress_dword_def bytes32_def mk32_bytes32)

end
