(* ===== verification/Wiring.thy ===== *)
theory Wiring
  imports Mcu
begin

text \<open>
  Time in the Arduino core for the AVR, \<^verbatim>\<open>wiring.c\<close>: the interrupt handler of timer 0, which counts its overflows, every 256
  ticks of 4 microseconds, and keeps the milliseconds with a fraction in units of 8 microseconds; \<^verbatim>\<open>millis\<close>,
  \<^verbatim>\<open>micros\<close> and \<^verbatim>\<open>delay\<close>. The timer itself is a parameter.
\<close>

section \<open>Definitions\<close>

text \<open>The timer. \<open>pass\<close> lets time pass while interrupts are enabled, and says whether the interrupt came.\<close>

record 'h timer0 =
  rd_TCNT0 :: "'h \<Rightarrow> u8 \<times> 'h"
  rd_TIFR0 :: "'h \<Rightarrow> u8 \<times> 'h"
  pass :: "'h \<Rightarrow> bool \<times> 'h"

record 'h clock =
  t_hw :: 'h
  timer0_overflow_count :: u32
  timer0_millis :: u32
  timer0_fract :: u8

text \<open>The macros for a clock of 16 MHz.\<close>

definition MICROSECONDS_PER_TIMER0_OVERFLOW :: nat where
  "MICROSECONDS_PER_TIMER0_OVERFLOW = 64 * 256 div 16"

definition MILLIS_INC :: u32 where
  "MILLIS_INC = of_nat (MICROSECONDS_PER_TIMER0_OVERFLOW div 1000)"

definition FRACT_INC :: u8 where
  "FRACT_INC = of_nat (drop_bit 3 (MICROSECONDS_PER_TIMER0_OVERFLOW mod 1000))"

definition FRACT_MAX :: u8 where
  "FRACT_MAX = of_nat (drop_bit 3 (1000 :: nat))"

definition TIMER0_OVF_isr :: "'h clock \<Rightarrow> 'h clock" where
  "TIMER0_OVF_isr s =
     (let m = timer0_millis s + MILLIS_INC;
          f = timer0_fract s + FRACT_INC;
          (f, m) = (if f \<ge> FRACT_MAX then (f - FRACT_MAX, m + 1) else (f, m))
      in s\<lparr>timer0_fract := f, timer0_millis := m, timer0_overflow_count := timer0_overflow_count s + 1\<rparr>)"

text \<open>The program runs on with interrupts enabled.\<close>

definition run_on :: "'h timer0 \<Rightarrow> 'h clock \<Rightarrow> 'h clock" where
  "run_on d s = (case pass d (t_hw s) of (i, h) \<Rightarrow> let s = s\<lparr>t_hw := h\<rparr> in if i then TIMER0_OVF_isr s else s)"

text \<open>Both functions are called with interrupts enabled and disable them for the reading only.\<close>

definition millis :: "'h timer0 \<Rightarrow> 'h clock \<Rightarrow> u32 \<times> 'h clock" where
  "millis d s = (let s = run_on d s in (timer0_millis s, s))"

definition micros :: "'h timer0 \<Rightarrow> 'h clock \<Rightarrow> u32 \<times> 'h clock" where
  "micros d s =
     (let s = run_on d s;
          m = timer0_overflow_count s;
          (t, h) = rd_TCNT0 d (t_hw s);
          (v, h) = rd_TIFR0 d h;
          m = (if tst v 0 \<and> t < 255 then m + 1 else m)
      in ((push_bit 8 m + ucast t) * 4, s\<lparr>t_hw := h\<rparr>))"

text \<open>The two loops of \<^verbatim>\<open>delay\<close>; \<^verbatim>\<open>yield\<close> does nothing unless a sketch defines it.\<close>

partial_function (option) delay_steps :: "'h timer0 \<Rightarrow> u32 \<Rightarrow> u32 \<Rightarrow> 'h clock \<Rightarrow> (u32 \<times> u32 \<times> 'h clock) option" where
  "delay_steps d ms start s =
     (if ms > 0 then
        (case micros d s of (c, s) \<Rightarrow> if c - start \<ge> 1000 then delay_steps d (ms - 1) (start + 1000) s else Some (ms, start, s))
      else Some (ms, start, s))"

partial_function (option) delay_loop :: "'h timer0 \<Rightarrow> u32 \<Rightarrow> u32 \<Rightarrow> 'h clock \<Rightarrow> 'h clock option" where
  "delay_loop d ms start s =
     (if ms > 0 then do { (ms, start, s) \<leftarrow> delay_steps d ms start s; delay_loop d ms start s } else Some s)"

definition delay :: "'h timer0 \<Rightarrow> u32 \<Rightarrow> 'h clock \<Rightarrow> 'h clock option" where
  "delay d ms s = (case micros d s of (start, s) \<Rightarrow> delay_loop d ms start s)"

section \<open>The milliseconds\<close>

lemma isr_eval:
  "timer0_millis (TIMER0_OVF_isr s) = timer0_millis s + (if timer0_fract s + 3 \<ge> 125 then 2 else 1)"
  "timer0_fract (TIMER0_OVF_isr s) = (if timer0_fract s + 3 \<ge> 125 then timer0_fract s + 3 - 125 else timer0_fract s + 3)"
  "timer0_overflow_count (TIMER0_OVF_isr s) = timer0_overflow_count s + 1" "t_hw (TIMER0_OVF_isr s) = t_hw s"
  by (simp_all add: TIMER0_OVF_isr_def Let_def MILLIS_INC_def FRACT_INC_def FRACT_MAX_def MICROSECONDS_PER_TIMER0_OVERFLOW_def drop_bit_eq_div)

text \<open>(C20) The milliseconds are exact: after any number of overflows the counter is the time that has passed, in whole milliseconds,
  and the fraction is the rest, in units of 8 microseconds; no error builds up.\<close>

theorem millis_exact:
  assumes "timer0_millis s = 0" "timer0_fract s = 0" "t = (TIMER0_OVF_isr ^^ n) s"
  shows "timer0_millis t = of_nat (n * 1024 div 1000) \<and> timer0_fract t = of_nat (n * 1024 mod 1000 div 8)"
proof -
  have "timer0_millis ((TIMER0_OVF_isr ^^ n) s) = of_nat (n * 1024 div 1000)
    \<and> timer0_fract ((TIMER0_OVF_isr ^^ n) s) = of_nat (n * 1024 mod 1000 div 8)"
  proof (induction n)
    case (Suc n)
    define f where "f = n * 1024 mod 1000 div 8"
    define q where "q = n * 1024 div 1000"
    have "8 dvd n * 1024 mod 1000" by (intro dvd_mod) simp_all
    then have m: "n * 1024 mod 1000 = 8 * f" by (simp add: f_def)
    then have f: "f < 125" using mod_less_divisor [of 1000 "n * 1024"] by linarith
    have "n * 1024 = q * 1000 + 8 * f" using div_mult_mod_eq [of "n * 1024" 1000] m by (simp add: q_def)
    then have e: "Suc n * 1024 = 8 * (f + 3) + (q + 1) * 1000" "f + 3 \<ge> 125 \<Longrightarrow> Suc n * 1024 = 8 * (f + 3 - 125) + (q + 2) * 1000"
      by (simp_all add: algebra_simps diff_mult_distrib2)
    have "Suc n * 1024 div 1000 = q + (if f + 3 \<ge> 125 then 2 else 1)
      \<and> Suc n * 1024 mod 1000 div 8 = (if f + 3 \<ge> 125 then f + 3 - 125 else f + 3)"
    proof (cases "f + 3 \<ge> 125")
      case True
      then show ?thesis unfolding e(2) [OF True] div_mult_self1 mod_mult_self1 using f by simp
    next
      case False
      then show ?thesis unfolding e(1) div_mult_self1 mod_mult_self1 by simp
    qed
    moreover have "(of_nat f + 3 \<ge> (125 :: u8)) = (f + 3 \<ge> 125)" using f by (simp add: word_le_nat_alt unat_word_ariths unat_of_nat)
    ultimately show ?case using Suc by (simp add: isr_eval f_def [symmetric] q_def [symmetric] of_nat_diff)
  qed (simp add: assms)
  then show ?thesis using assms(3) by simp
qed

section \<open>A running timer\<close>

text \<open>The contract of the timer and its interrupt. \<open>now\<close> is the time in ticks and \<open>taken\<close> the number of overflows whose interrupt came. While the program runs
  with interrupts enabled time passes, and the interrupt of an overflow comes within 253 ticks. Reading a register takes
  at most one tick; the counter is the time modulo 256, the flag says that an overflow waits for its interrupt.\<close>

definition lag_ok :: "('h \<Rightarrow> nat) \<Rightarrow> ('h \<Rightarrow> nat) \<Rightarrow> 'h \<Rightarrow> bool" where
  "lag_ok now taken h \<longleftrightarrow> now h div 256 = taken h \<or> now h div 256 = Suc (taken h)"

definition prompt :: "('h \<Rightarrow> nat) \<Rightarrow> ('h \<Rightarrow> nat) \<Rightarrow> 'h \<Rightarrow> bool" where
  "prompt now taken h \<longleftrightarrow> now h div 256 = taken h \<or> now h div 256 = Suc (taken h) \<and> now h mod 256 < 253"

definition time_inv :: "('h \<Rightarrow> nat) \<Rightarrow> ('h \<Rightarrow> nat) \<Rightarrow> 'h clock \<Rightarrow> bool" where
  "time_inv now taken s \<longleftrightarrow> lag_ok now taken (t_hw s) \<and> timer0_overflow_count s = of_nat (taken (t_hw s))"

locale timer_runs =
  fixes d :: "'h timer0" and now taken :: "'h \<Rightarrow> nat"
  assumes pass_law: "lag_ok now taken h \<Longrightarrow> now h < now (snd (pass d h)) \<and> prompt now taken (snd (pass d h))
      \<and> taken (snd (pass d h)) = taken h + (if fst (pass d h) then 1 else 0)"
    and TCNT0_law: "fst (rd_TCNT0 d h) = of_nat (now (snd (rd_TCNT0 d h)) mod 256)" "now h \<le> now (snd (rd_TCNT0 d h))"
      "now (snd (rd_TCNT0 d h)) \<le> Suc (now h)" "taken (snd (rd_TCNT0 d h)) = taken h"
    and TIFR0_law: "tst (fst (rd_TIFR0 d h)) 0 \<longleftrightarrow> taken (snd (rd_TIFR0 d h)) < now (snd (rd_TIFR0 d h)) div 256" "now h \<le> now (snd (rd_TIFR0 d h))"
      "now (snd (rd_TIFR0 d h)) \<le> Suc (now h)" "taken (snd (rd_TIFR0 d h)) = taken h"
begin

abbreviation inv where "inv \<equiv> time_inv now taken"

lemma run_on_law:
  assumes "inv s"
  shows "inv (run_on d s)" "prompt now taken (t_hw (run_on d s))" "now (t_hw s) < now (t_hw (run_on d s))"
    "now (t_hw (run_on d s)) < now (t_hw s) + 768"
proof -
  show "inv (run_on d s)" "prompt now taken (t_hw (run_on d s))" "now (t_hw s) < now (t_hw (run_on d s))"
    using pass_law [of "t_hw s"] assms by (auto simp: run_on_def case_prod_unfold Let_def isr_eval time_inv_def prompt_def lag_ok_def)
  have "now (t_hw (run_on d s)) div 256 \<le> now (t_hw s) div 256 + 2"
    using pass_law [of "t_hw s"] assms by (auto simp: run_on_def case_prod_unfold Let_def isr_eval time_inv_def prompt_def lag_ok_def)
  then show "now (t_hw (run_on d s)) < now (t_hw s) + 768" by linarith
qed

lemma counter_word: "(push_bit 8 (of_nat (T div 256)) + ucast (of_nat (T mod 256) :: u8)) * 4 = (of_nat (4 * T) :: u32)"
proof -
  have "ucast (of_nat (T mod 256) :: u8) = (of_nat (T mod 256) :: u32)" by (simp add: unsigned_of_nat take_bit_eq_mod)
  then have "push_bit 8 (of_nat (T div 256)) + ucast (of_nat (T mod 256) :: u8) = (of_nat (T div 256 * 256 + T mod 256) :: u32)"
    by (simp only: push_bit_eq_mult of_nat_add of_nat_mult) simp
  then show ?thesis by (simp only: div_mult_mod_eq) simp
qed

text \<open>The value is the time of a moment during the call.\<close>

lemma micros_law:
  assumes "inv s"
  shows "\<exists>T s'. micros d s = (of_nat (4 * T), s') \<and> inv s' \<and> now (t_hw s) < T \<and> T \<le> now (t_hw s') \<and> now (t_hw s') \<le> Suc T
    \<and> T < now (t_hw s) + 1000"
proof -
  define s1 where "s1 = run_on d s"
  define a where "a = rd_TCNT0 d (t_hw s1)"
  define b where "b = rd_TIFR0 d (snd a)"
  define T where "T = now (snd a)"
  have s1: "inv s1" "prompt now taken (t_hw s1)" "now (t_hw s) < now (t_hw s1)" "now (t_hw s1) < now (t_hw s) + 768" using run_on_law [OF assms] by (simp_all add: s1_def)
  have a: "fst a = of_nat (T mod 256)" "now (t_hw s1) \<le> T" "T \<le> Suc (now (t_hw s1))" "taken (snd a) = taken (t_hw s1)"
    using TCNT0_law [of "t_hw s1"] by (simp_all add: a_def T_def)
  have b: "tst (fst b) 0 \<longleftrightarrow> taken (t_hw s1) < now (snd b) div 256" "T \<le> now (snd b)" "now (snd b) \<le> Suc T" "taken (snd b) = taken (t_hw s1)"
    using TIFR0_law [of "snd a"] a(4) by (simp_all add: b_def T_def)
  define m where "m = (if tst (fst b) 0 \<and> fst a < 255 then timer0_overflow_count s1 + 1 else timer0_overflow_count s1)"
  have t: "fst a < 255 \<longleftrightarrow> T mod 256 < 255" unfolding a(1) by (simp add: word_less_nat_alt unat_of_nat)
  have T: "T = now (t_hw s1) \<or> T = Suc (now (t_hw s1))" and nb: "now (snd b) = T \<or> now (snd b) = Suc T" using a(2,3) b(2,3) by auto
  have lag: "now (snd b) div 256 = taken (t_hw s1) \<or> now (snd b) div 256 = Suc (taken (t_hw s1))"
    and cnt: "T div 256 = (if taken (t_hw s1) < now (snd b) div 256 \<and> T mod 256 < 255 then Suc (taken (t_hw s1)) else taken (t_hw s1))"
    using s1(2) T nb by (auto simp: prompt_def div_Suc mod_Suc split: if_splits)
  have "m = of_nat (T div 256)" using s1(1) cnt b(1) t by (simp add: m_def time_inv_def)
  moreover have "micros d s = ((push_bit 8 m + ucast (fst a)) * 4, s1\<lparr>t_hw := snd b\<rparr>)"
    by (simp add: micros_def Let_def case_prod_unfold m_def s1_def a_def b_def)
  ultimately have "micros d s = (of_nat (4 * T), s1\<lparr>t_hw := snd b\<rparr>)" unfolding a(1) using counter_word [of T] by simp
  moreover have "inv (s1\<lparr>t_hw := snd b\<rparr>)" using s1(1) lag b(4) by (simp add: time_inv_def lag_ok_def)
  ultimately show ?thesis using s1(3,4) a(2,3) b(2,3) by (intro exI [of _ T] exI [of _ "s1\<lparr>t_hw := snd b\<rparr>"]) simp
qed

text \<open>\<^verbatim>\<open>delay\<close> polls the time: every poll either counts a millisecond or finds that none is over.\<close>

lemma delay_loop_step:
  assumes "0 < ms" "micros d s = (c, s1)"
  shows "delay_loop d ms start s = (if c - start \<ge> 1000 then delay_loop d (ms - 1) (start + 1000) s1 else delay_loop d ms start s1)"
proof -
  have "delay_steps d n p t \<bind> (\<lambda>(n, p, t). delay_loop d n p t) = delay_loop d n p t" for n p t
  proof (cases "n = 0")
    case True
    then show ?thesis by (subst delay_steps.simps) simp
  next
    case False
    then show ?thesis by (subst (2) delay_loop.simps) (simp add: word_neq_0_conv)
  qed
  then show ?thesis using assms by (subst delay_loop.simps, subst delay_steps.simps) simp
qed

text \<open>With the time \<open>S\<close> in microseconds of the start, polls below a millisecond come closer to it.\<close>

definition wait_left :: "nat \<Rightarrow> u32 \<Rightarrow> 'h clock \<Rightarrow> nat" where
  "wait_left S ms s = (let g = (4 * now (t_hw s) - S) mod 2 ^ 32 in unat ms * 2000 + (if g < 1004 then 1004 - g else 1005))"

lemma wait_left_bounds: "unat ms * 2000 < wait_left S ms s" "wait_left S ms s \<le> unat ms * 2000 + 1005"
  by (auto simp: wait_left_def Let_def)

lemma closer:
  assumes "S \<le> 4 * n" "n < T" "T < n + 1000" "T \<le> n'" "n' \<le> Suc T" "(4 * T - S) mod 2 ^ 32 < 1000"
  shows "(4 * n' - S) mod 2 ^ 32 < 1004" "(4 * n - S) mod 2 ^ 32 < 1004 \<Longrightarrow> (4 * n - S) mod 2 ^ 32 < (4 * n' - S) mod 2 ^ 32"
proof -
  have step: "(x + k) mod 2 ^ 32 = x mod 2 ^ 32 + k" if "x mod 2 ^ 32 < 1004" "k < 5000" for x k :: nat
    using mod_add_left_eq [of x "2 ^ 32" k] that by (simp add: mod_less)
  have n': "4 * n' - S = (4 * T - S) + 4 * (n' - T)" "4 * (n' - T) \<le> 4" using assms by auto
  then show "(4 * n' - S) mod 2 ^ 32 < 1004" using step [of "4 * T - S" "4 * (n' - T)"] assms(6) by simp
  have "4 * n' - S = (4 * n - S) + 4 * (n' - n)" using assms by auto
  then show "(4 * n - S) mod 2 ^ 32 < 1004 \<Longrightarrow> (4 * n - S) mod 2 ^ 32 < (4 * n' - S) mod 2 ^ 32"
    using step [of "4 * n - S" "4 * (n' - n)"] assms by simp
qed

lemma delay_loop_lasts:
  assumes "inv s" "S \<le> 4 * now (t_hw s)"
  shows "\<exists>s'. delay_loop d ms (of_nat S) s = Some s' \<and> S + 1000 * unat ms \<le> 4 * now (t_hw s') \<and> inv s'"
  using assms
proof (induction "wait_left S ms s" arbitrary: S ms s rule: less_induct)
  case less
  show ?case
  proof (cases "ms = 0")
    case True
    then show ?thesis using less.prems by (subst delay_loop.simps) simp
  next
    case False
    then have ms: "0 < ms" "unat (ms - 1) = unat ms - 1" "0 < unat ms" by (simp_all add: word_neq_0_conv unat_minus_one unat_gt_0)
    from micros_law [OF less.prems(1)] obtain T s1 where T: "micros d s = (of_nat (4 * T), s1)" "inv s1" "now (t_hw s) < T"
      "T \<le> now (t_hw s1)" "now (t_hw s1) \<le> Suc T" "T < now (t_hw s) + 1000" by blast
    define g where "g = (4 * T - S) mod 2 ^ 32"
    have "S \<le> 4 * T" using less.prems(2) T(3) by linarith
    then have "(of_nat (4 * T) - of_nat S :: u32) = of_nat (4 * T - S)" by (simp only: of_nat_diff)
    then have c: "(of_nat (4 * T) - of_nat S :: u32) \<ge> 1000 \<longleftrightarrow> g \<ge> 1000" by (simp add: word_le_nat_alt unat_of_nat g_def)
    show ?thesis
    proof (cases "g \<ge> 1000")
      case True
      have "g \<le> 4 * T - S" by (simp add: g_def)
      then have S: "S + 1000 \<le> 4 * now (t_hw s1)" using True T(4) \<open>S \<le> 4 * T\<close> by linarith
      have "wait_left (S + 1000) (ms - 1) s1 < wait_left S ms s"
        using wait_left_bounds(2) [of "S + 1000" "ms - 1" s1] wait_left_bounds(1) [of ms S s] ms by (cases "unat ms") auto
      from less.hyps [OF this T(2) S] obtain s' where
        s': "delay_loop d (ms - 1) (of_nat S + 1000) s1 = Some s'" "S + 1000 + 1000 * unat (ms - 1) \<le> 4 * now (t_hw s')" "inv s'" by auto
      have e: "S + 1000 + 1000 * unat (ms - 1) = S + 1000 * unat ms" using ms by (cases "unat ms") auto
      show ?thesis using s'(1,3) s'(2) [unfolded e] delay_loop_step [OF ms(1) T(1), of "of_nat S"] c True by simp
    next
      case False
      have "wait_left S ms s1 < wait_left S ms s"
        using closer [OF less.prems(2) T(3,6,4,5)] False by (auto simp: wait_left_def Let_def g_def intro: diff_less_mono2 split: if_splits)
      from less.hyps [OF this T(2)] show ?thesis using delay_loop_step [OF ms(1) T(1), of "of_nat S"] c False T(4) \<open>S \<le> 4 * T\<close> by simp
    qed
  qed
qed

lemma delay_law:
  assumes "inv s"
  shows "\<exists>s'. delay d ms s = Some s' \<and> 4 * now (t_hw s) + 1000 * unat ms \<le> 4 * now (t_hw s') \<and> inv s'"
proof -
  from micros_law [OF assms] obtain T s1 where T: "micros d s = (of_nat (4 * T), s1)" "inv s1" "now (t_hw s) < T" "T \<le> now (t_hw s1)" by blast
  from delay_loop_lasts [OF T(2), of "4 * T" ms] T(4) obtain s' where
    "delay_loop d ms (of_nat (4 * T)) s1 = Some s'" "4 * T + 1000 * unat ms \<le> 4 * now (t_hw s')" "inv s'" by auto
  then show ?thesis using T(1,3) by (auto simp: delay_def)
qed

lemma millis_inv: "inv s \<Longrightarrow> inv (snd (millis d s))"
  using run_on_law(1) by (simp add: millis_def Let_def)

end

text \<open>(C19) Waiting is never too short: \<^verbatim>\<open>delay\<close> returns, whatever the time of its start, even when the counters wrap meanwhile, and not
  before the milliseconds have passed, in ticks of 4 microseconds.\<close>

theorem delay_lasts:
  assumes "timer_runs d now taken" "time_inv now taken s"
  shows "\<exists>s'. delay d ms s = Some s' \<and> 4 * now (t_hw s) + 1000 * unat ms \<le> 4 * now (t_hw s')"
  using timer_runs.delay_law [OF assms] by blast

section \<open>A timer\<close>

text \<open>The time and the overflows taken; a tick passes whenever the program runs, and the interrupt comes at once.\<close>

definition tick_timer :: "(nat \<times> nat) timer0" where
  "tick_timer = \<lparr>rd_TCNT0 = (\<lambda>h. (of_nat (fst h mod 256), h)), rd_TIFR0 = (\<lambda>h. (if snd h < fst h div 256 then 1 else 0, h)),
     pass = (\<lambda>(n, k). (k < Suc n div 256, Suc n, if k < Suc n div 256 then Suc k else k))\<rparr>"

interpretation tick: timer_runs tick_timer fst snd
  by unfold_locales (auto simp: tick_timer_def lag_ok_def prompt_def div_Suc mod_Suc tst_def split: if_splits)

theorem delay_lasts_witness:
  "\<exists>s'. delay tick_timer 5 \<lparr>t_hw = (1000, 3), timer0_overflow_count = 3, timer0_millis = 3, timer0_fract = 9\<rparr> = Some s' \<and> 9000 \<le> 4 * fst (t_hw s')"
  using delay_lasts [OF tick.timer_runs_axioms, of "\<lparr>t_hw = (1000, 3), timer0_overflow_count = 3, timer0_millis = 3, timer0_fract = 9\<rparr>" 5]
  by (simp add: time_inv_def lag_ok_def)

theorem millis_exact_witness:
  "timer0_millis ((TIMER0_OVF_isr ^^ 1000) \<lparr>t_hw = (), timer0_overflow_count = 0, timer0_millis = 0, timer0_fract = 0\<rparr>) = 1024"
  using millis_exact [OF _ _ refl, of "\<lparr>t_hw = (), timer0_overflow_count = 0, timer0_millis = 0, timer0_fract = 0\<rparr>" 1000] by simp

end
