(* ===== verification/Stream_Parse.thy ===== *)
theory Stream_Parse
  imports Arduino_Print Wiring "HOL-Library.Sublist"
begin

text \<open>
  Reading text in the Arduino core for the AVR, \<^verbatim>\<open>Stream.cpp\<close>: reading with a time-out, searching for strings, reading
  numbers, bytes and strings. The class \<^verbatim>\<open>Stream\<close> rests on virtual functions that read and look at one byte and on the
  clock, here the parameter \<open>d\<close>. The function for numbers with a fraction is left out. Signed arithmetic is modelled as wrapping.
\<close>

section \<open>Reading with a time-out\<close>

record 's input =
  in_read :: "'s \<Rightarrow> int \<times> 's"
  in_peek :: "'s \<Rightarrow> int \<times> 's"
  in_millis :: "'s \<Rightarrow> u32 \<times> 's"

record 's text_stream =
  ts_dev :: 's
  ts_timeout :: u32
  startMillis :: u32

definition Stream_new :: "'s \<Rightarrow> u32 \<Rightarrow> 's text_stream" where
  "Stream_new h m = \<lparr>ts_dev = h, ts_timeout = 1000, startMillis = m\<rparr>"

definition setTimeout :: "u32 \<Rightarrow> 's text_stream \<Rightarrow> 's text_stream" where
  "setTimeout timeout s = s\<lparr>ts_timeout := timeout\<rparr>"

text \<open>The loop of \<^verbatim>\<open>timedRead\<close> and of \<^verbatim>\<open>timedPeek\<close>; \<open>get\<close> is the function that is tried.\<close>

partial_function (option) timed_loop :: "('s \<Rightarrow> int \<times> 's) \<Rightarrow> 's input \<Rightarrow> 's text_stream \<Rightarrow> (int \<times> 's text_stream) option" where
  "timed_loop get d s =
     (case get (ts_dev s) of (c, h) \<Rightarrow>
      let s = s\<lparr>ts_dev := h\<rparr> in
      if c \<ge> 0 then Some (c, s)
      else (case in_millis d (ts_dev s) of (m, h) \<Rightarrow>
        let s = s\<lparr>ts_dev := h\<rparr> in
        if m - startMillis s < ts_timeout s then timed_loop get d s else Some (- 1, s)))"

definition start_timer :: "'s input \<Rightarrow> 's text_stream \<Rightarrow> 's text_stream" where
  "start_timer d s = (case in_millis d (ts_dev s) of (m, h) \<Rightarrow> s\<lparr>ts_dev := h, startMillis := m\<rparr>)"

definition timedRead :: "'s input \<Rightarrow> 's text_stream \<Rightarrow> (int \<times> 's text_stream) option" where
  "timedRead d s = timed_loop (in_read d) d (start_timer d s)"

definition timedPeek :: "'s input \<Rightarrow> 's text_stream \<Rightarrow> (int \<times> 's text_stream) option" where
  "timedPeek d s = timed_loop (in_peek d) d (start_timer d s)"

definition discard :: "'s input \<Rightarrow> 's text_stream \<Rightarrow> 's text_stream" where
  "discard d s = s\<lparr>ts_dev := snd (in_read d (ts_dev s))\<rparr>"

section \<open>Reading numbers\<close>

datatype LookaheadMode = SKIP_ALL | SKIP_NONE | SKIP_WHITESPACE

definition is_digit :: "int \<Rightarrow> bool" where
  "is_digit c \<longleftrightarrow> c \<ge> 48 \<and> c \<le> 57"

partial_function (option) peekNextDigit ::
  "'s input \<Rightarrow> LookaheadMode \<Rightarrow> bool \<Rightarrow> 's text_stream \<Rightarrow> (int \<times> 's text_stream) option" where
  "peekNextDigit d lookahead detectDecimal s = do {
     (c, s) \<leftarrow> timedPeek d s;
     if c < 0 \<or> c = 45 \<or> is_digit c \<or> detectDecimal \<and> c = 46 then Some (c, s)
     else if lookahead = SKIP_NONE \<or> lookahead = SKIP_WHITESPACE \<and> c \<notin> {32, 9, 13, 10} then Some (- 1, s)
     else peekNextDigit d lookahead detectDecimal (discard d s) }"

definition NO_IGNORE_CHAR :: u8 where
  "NO_IGNORE_CHAR = 1"

text \<open>The type \<^verbatim>\<open>char\<close> is signed.\<close>

partial_function (option) parseInt_loop ::
  "'s input \<Rightarrow> u8 \<Rightarrow> int \<Rightarrow> bool \<Rightarrow> 32 word \<Rightarrow> 's text_stream \<Rightarrow> (bool \<times> 32 word \<times> 's text_stream) option" where
  "parseInt_loop d ignore c isNegative val s = do {
     let (isNegative, val) =
       (if c = sint ignore then (isNegative, val)
        else if c = 45 then (True, val)
        else if is_digit c then (isNegative, val * 10 + word_of_int c - 48)
        else (isNegative, val));
     (c, s) \<leftarrow> timedPeek d (discard d s);
     if is_digit c \<or> c = sint ignore then parseInt_loop d ignore c isNegative val s else Some (isNegative, val, s) }"

definition parseInt :: "'s input \<Rightarrow> LookaheadMode \<Rightarrow> u8 \<Rightarrow> 's text_stream \<Rightarrow> (32 word \<times> 's text_stream) option" where
  "parseInt d lookahead ignore s = do {
     (c, s) \<leftarrow> peekNextDigit d lookahead False s;
     if c < 0 then Some (0, s)
     else do {
       (isNegative, val, s) \<leftarrow> parseInt_loop d ignore c False 0 s;
       Some (if isNegative then - val else val, s) } }"

section \<open>Reading bytes and strings\<close>

text \<open>The bytes placed in the buffer; their number is what the functions return.\<close>

fun readBytes :: "'s input \<Rightarrow> nat \<Rightarrow> 's text_stream \<Rightarrow> (u8 list \<times> 's text_stream) option" where
  "readBytes d 0 s = Some ([], s)"
| "readBytes d (Suc n) s = do {
     (c, s) \<leftarrow> timedRead d s;
     if c < 0 then Some ([], s)
     else do { (bs, s) \<leftarrow> readBytes d n s; Some (word_of_int c # bs, s) } }"

fun readBytesUntil :: "'s input \<Rightarrow> u8 \<Rightarrow> nat \<Rightarrow> 's text_stream \<Rightarrow> (u8 list \<times> 's text_stream) option" where
  "readBytesUntil d terminator 0 s = Some ([], s)"
| "readBytesUntil d terminator (Suc n) s = do {
     (c, s) \<leftarrow> timedRead d s;
     if c < 0 \<or> c = sint terminator then Some ([], s)
     else do { (bs, s) \<leftarrow> readBytesUntil d terminator n s; Some (word_of_int c # bs, s) } }"

partial_function (option) readString :: "'s input \<Rightarrow> u8 list \<Rightarrow> 's text_stream \<Rightarrow> (u8 list \<times> 's text_stream) option" where
  "readString d ret s = do {
     (c, s) \<leftarrow> timedRead d s;
     if c \<ge> 0 then readString d (ret @ [word_of_int c]) s else Some (ret, s) }"

partial_function (option) readStringUntil :: "'s input \<Rightarrow> u8 \<Rightarrow> u8 list \<Rightarrow> 's text_stream \<Rightarrow> (u8 list \<times> 's text_stream) option" where
  "readStringUntil d terminator ret s = do {
     (c, s) \<leftarrow> timedRead d s;
     if c \<ge> 0 \<and> c \<noteq> sint terminator then readStringUntil d terminator (ret @ [word_of_int c]) s else Some (ret, s) }"

section \<open>Searching\<close>

record MultiTarget =
  t_str :: "u8 list"
  t_len :: nat
  t_index :: nat

text \<open>The loop after a mismatch: from the index \<open>orig\<close> downwards, the first at which the character fits and the string so far is found
  again.\<close>

fun back_off :: "int \<Rightarrow> u8 list \<Rightarrow> nat \<Rightarrow> nat \<Rightarrow> nat" where
  "back_off c str orig 0 = 0"
| "back_off c str orig (Suc k) =
     (if c \<noteq> sint (str ! k) then back_off c str orig k
      else if k = 0 then Suc k
      else if list_all (\<lambda>i. str ! i = str ! (i + (orig - k))) [0..<k] then Suc k
      else back_off c str orig k)"

text \<open>One character against all targets, and the number of the first that is complete.\<close>

fun match_targets :: "int \<Rightarrow> nat \<Rightarrow> MultiTarget list \<Rightarrow> nat option \<times> MultiTarget list" where
  "match_targets c n [] = (None, [])"
| "match_targets c n (t # ts) =
     (let rest = (\<lambda>t. case match_targets c (Suc n) ts of (r, ts) \<Rightarrow> (r, t # ts)) in
      if c = sint (t_str t ! t_index t) then
        (let t = t\<lparr>t_index := Suc (t_index t)\<rparr> in if t_index t = t_len t then (Some n, t # ts) else rest t)
      else if t_index t = 0 then rest t
      else rest (t\<lparr>t_index := back_off c (t_str t) (t_index t) (t_index t)\<rparr>))"

partial_function (option) findMulti_loop ::
  "'s input \<Rightarrow> MultiTarget list \<Rightarrow> 's text_stream \<Rightarrow> (int \<times> MultiTarget list \<times> 's text_stream) option" where
  "findMulti_loop d targets s = do {
     (c, s) \<leftarrow> timedRead d s;
     if c < 0 then Some (- 1, targets, s)
     else (case match_targets c 0 targets of
         (Some n, targets) \<Rightarrow> Some (int n, targets, s)
       | (None, targets) \<Rightarrow> findMulti_loop d targets s) }"

fun empty_target :: "nat \<Rightarrow> MultiTarget list \<Rightarrow> nat option" where
  "empty_target n [] = None"
| "empty_target n (t # ts) = (if t_len t \<le> 0 then Some n else empty_target (Suc n) ts)"

definition findMulti :: "'s input \<Rightarrow> MultiTarget list \<Rightarrow> 's text_stream \<Rightarrow> (int \<times> MultiTarget list \<times> 's text_stream) option" where
  "findMulti d targets s =
     (case empty_target 0 targets of Some n \<Rightarrow> Some (int n, targets, s) | None \<Rightarrow> findMulti_loop d targets s)"

definition findUntil :: "'s input \<Rightarrow> u8 list \<Rightarrow> u8 list option \<Rightarrow> 's text_stream \<Rightarrow> (bool \<times> 's text_stream) option" where
  "findUntil d target terminator s = do {
     let t = \<lparr>t_str = target, t_len = length target, t_index = 0\<rparr>;
     let ts = (case terminator of None \<Rightarrow> [t] | Some r \<Rightarrow> [t, \<lparr>t_str = r, t_len = length r, t_index = 0\<rparr>]);
     (n, ts, s) \<leftarrow> findMulti d ts s;
     Some (n = 0, s) }"

definition Stream_find :: "'s input \<Rightarrow> u8 list \<Rightarrow> 's text_stream \<Rightarrow> (bool \<times> 's text_stream) option" where
  "Stream_find d target s = findUntil d target None s"

section \<open>The search finds what a naive search finds\<close>

text \<open>The index after the text \<open>bs\<close> is the length of the longest proper prefix of the target with which the text ends.\<close>

definition is_index :: "u8 list \<Rightarrow> u8 list \<Rightarrow> nat \<Rightarrow> bool" where
  "is_index str bs k \<longleftrightarrow> k < length str \<and> suffix (take k str) bs \<and> (\<forall>j<length str. suffix (take j str) bs \<longrightarrow> j \<le> k)"

declare suffix_snoc [simp del]

lemma take_snoc_suffix: "k < length str \<Longrightarrow> suffix (take (Suc k) str) (bs @ [b]) \<longleftrightarrow> str ! k = b \<and> suffix (take k str) bs"
  by (simp add: take_Suc_conv_app_nth snoc_suffix_snoc)

lemma suffix_iff_drop: "length xs \<le> length ys \<Longrightarrow> suffix xs ys \<longleftrightarrow> xs = drop (length ys - length xs) ys"
proof
  assume "suffix xs ys"
  then obtain zs where "ys = zs @ xs" by (auto simp: suffix_def)
  then show "xs = drop (length ys - length xs) ys" by simp
next
  assume "xs = drop (length ys - length xs) ys"
  then show "suffix xs ys" using suffix_drop [of "length ys - length xs" ys] by simp
qed

lemma border:
  assumes "k < n" "n \<le> length str" "suffix (take n str) bs"
  shows "suffix (take k str) bs \<longleftrightarrow> list_all (\<lambda>i. str ! i = str ! (i + (n - k))) [0..<k]"
proof -
  have "suffix (take k str) bs \<longleftrightarrow> suffix (take k str) (take n str)"
    using assms suffix_length_suffix [of "take k str" bs "take n str"] suffix_order.trans [of "take k str" "take n str" bs] by auto
  also have "\<dots> \<longleftrightarrow> take k str = drop (n - k) (take n str)"
    using suffix_iff_drop [of "take k str" "take n str"] assms(1,2) by simp
  also have "\<dots> \<longleftrightarrow> list_all (\<lambda>i. str ! i = str ! (i + (n - k))) [0..<k]"
    using assms(1,2) by (auto simp: list_eq_iff_nth_eq list_all_iff add.commute)
  finally show ?thesis .
qed

text \<open>Bytes of a target below 128 compare as they should.\<close>

definition ascii :: "u8 list \<Rightarrow> bool" where
  "ascii str \<longleftrightarrow> list_all (\<lambda>b. b < 128) str"

lemma ascii_nth: "ascii str \<Longrightarrow> k < length str \<Longrightarrow> uint b = sint (str ! k) \<longleftrightarrow> str ! k = b"
proof -
  assume "ascii str" "k < length str"
  then have "uint (str ! k) < 128" by (simp add: ascii_def list_all_length word_less_def)
  moreover have "- 128 \<le> uint (str ! k)" using unsigned_greater_eq [of "str ! k", where ?'a = int] by linarith
  ultimately have "sint (str ! k) = uint (str ! k)" by (simp add: sint_uint signed_take_bit_int_eq_self)
  then show ?thesis by (auto simp: word_uint_eq_iff)
qed

lemma index_unique: "is_index str bs k \<Longrightarrow> str ! k = b \<Longrightarrow> Suc k < length str \<Longrightarrow> is_index str (bs @ [b]) (Suc k)"
  unfolding is_index_def
proof (intro conjI allI impI)
  fix j assume k: "k < length str \<and> suffix (take k str) bs \<and> (\<forall>j<length str. suffix (take j str) bs \<longrightarrow> j \<le> k)"
    and j: "j < length str" "suffix (take j str) (bs @ [b])"
  then show "j \<le> Suc k" by (cases j) (auto simp: take_snoc_suffix)
qed (auto simp: take_snoc_suffix)

lemma back_off_index:
  assumes "ascii str" "is_index str bs n" "str ! n \<noteq> b"
  shows "is_index str (bs @ [b]) (back_off (uint b) str n n)"
proof -
  let ?fit = "\<lambda>k. str ! k = b \<and> suffix (take k str) bs"
  have n: "n < length str" "suffix (take n str) bs" using assms(2) by (simp_all add: is_index_def)
  then have ne: "str \<noteq> []" by auto
  have top: "k < n" if "k < length str" "?fit k" for k
    using assms(2,3) that by (auto simp: is_index_def le_less)
  have "j \<le> n \<Longrightarrow> \<forall>k. j \<le> k \<and> k < n \<longrightarrow> \<not> ?fit k \<Longrightarrow> is_index str (bs @ [b]) (back_off (uint b) str n j)" for j
  proof (induction j)
    case 0
    then have "j = 0" if "j < length str" "suffix (take j str) (bs @ [b])" for j
      using that top [of "j - 1"] by (cases j) (auto simp: take_snoc_suffix)
    then show ?case using n by (auto simp: is_index_def)
  next
    case (Suc k)
    show ?case
    proof (cases "?fit k")
      case True
      then have "k = 0 \<or> list_all (\<lambda>i. str ! i = str ! (i + (n - k))) [0..<k]" using border [of k n str bs] Suc.prems(1) n by auto
      then have e: "back_off (uint b) str n (Suc k) = Suc k" using True ascii_nth [OF assms(1), of k b] Suc.prems(1) n(1) by auto
      have "j \<le> Suc k" if "j < length str" "suffix (take j str) (bs @ [b])" for j
        using that top [of "j - 1"] Suc.prems(2) by (cases j) (auto simp: take_snoc_suffix not_less_eq_eq)
      then show ?thesis unfolding e using True Suc.prems(1) n(1) by (simp add: is_index_def take_snoc_suffix)
    next
      case False
      then have "back_off (uint b) str n (Suc k) = back_off (uint b) str n k"
        using border [of k n str bs] ascii_nth [OF assms(1), of k b] Suc.prems(1) n ne by (cases "k = 0") auto
      moreover have "\<forall>i. k \<le> i \<and> i < n \<longrightarrow> \<not> ?fit i" using False Suc.prems(2) by (metis Suc_leI le_neq_implies_less)
      ultimately show ?thesis using Suc.IH Suc.prems(1) by simp
    qed
  qed
  note main = this
  show ?thesis by (rule main) auto
qed

text \<open>The naive search reads on until the text ends with a target.\<close>

fun scan :: "u8 list list \<Rightarrow> u8 list \<Rightarrow> u8 list \<Rightarrow> (nat \<times> u8 list) option" where
  "scan strs seen [] = None"
| "scan strs seen (b # bs) =
     (case filter (\<lambda>n. suffix (strs ! n) (seen @ [b])) [0..<length strs] of n # _ \<Rightarrow> Some (n, bs) | [] \<Rightarrow> scan strs (seen @ [b]) bs)"

definition target_ok :: "u8 list \<Rightarrow> MultiTarget \<Rightarrow> bool" where
  "target_ok bs t \<longleftrightarrow> t_len t = length (t_str t) \<and> ascii (t_str t) \<and> is_index (t_str t) bs (t_index t)"

lemma complete_iff:
  assumes "is_index str bs k"
  shows "suffix str (bs @ [b]) \<longleftrightarrow> str ! k = b \<and> Suc k = length str"
proof -
  have "length str - 1 \<le> k" if "suffix str (bs @ [b])"
    using that assms take_snoc_suffix [of "length str - 1" str bs b] by (auto simp: is_index_def)
  then show ?thesis using assms take_snoc_suffix [of k str bs b] by (auto simp: is_index_def)
qed

lemma match_targets_scan:
  assumes "list_all (target_ok bs) ts"
  shows "case filter (\<lambda>n. suffix (map t_str ts ! n) (bs @ [b])) [0..<length ts] of
      n # _ \<Rightarrow> fst (match_targets (uint b) m ts) = Some (m + n)
    | [] \<Rightarrow> fst (match_targets (uint b) m ts) = None \<and> list_all (target_ok (bs @ [b])) (snd (match_targets (uint b) m ts))
        \<and> map t_str (snd (match_targets (uint b) m ts)) = map t_str ts"
  using assms
proof (induction ts arbitrary: m)
  case (Cons t ts)
  have t: "t_len t = length (t_str t)" "ascii (t_str t)" "is_index (t_str t) bs (t_index t)" using Cons.prems by (simp_all add: target_ok_def)
  then have k: "t_index t < length (t_str t)" by (simp add: is_index_def)
  note c = ascii_nth [OF t(2) k, of b]
  have shift: "filter (\<lambda>n. suffix (map t_str (t # ts) ! n) (bs @ [b])) [0..<length (t # ts)] =
    (if suffix (t_str t) (bs @ [b]) then [0] else []) @ map Suc (filter (\<lambda>n. suffix (map t_str ts ! n) (bs @ [b])) [0..<length ts])"
    by (simp add: upt_conv_Cons map_Suc_upt [symmetric] filter_map comp_def del: upt_Suc)
  note IH = Cons.IH [of "Suc m"] Cons.prems
  show ?case
  proof (cases "suffix (t_str t) (bs @ [b])")
    case True
    then show ?thesis unfolding shift using c complete_iff [OF t(3), of b] t(1) by simp
  next
    case False
    define t' where "t' = (if t_str t ! t_index t = b then t\<lparr>t_index := Suc (t_index t)\<rparr> else if t_index t = 0 then t
      else t\<lparr>t_index := back_off (uint b) (t_str t) (t_index t) (t_index t)\<rparr>)"
    have "match_targets (uint b) m (t # ts) = (case match_targets (uint b) (Suc m) ts of (r, ts) \<Rightarrow> (r, t' # ts))"
      using False complete_iff [OF t(3), of b] c t(1) by (auto simp: t'_def Let_def)
    moreover have "Suc (t_index t) < length (t_str t)" if "t_str t ! t_index t = b"
      using that False complete_iff [OF t(3), of b] k by (intro Suc_lessI) auto
    then have "target_ok (bs @ [b]) t'"
      using index_unique [OF t(3), of b] back_off_index [OF t(2,3), of b] t
      by (cases "t_index t = 0") (auto simp: target_ok_def t'_def)
    moreover have "t_str t' = t_str t" by (simp add: t'_def)
    ultimately show ?thesis unfolding shift using False IH by (auto simp: case_prod_unfold split: list.splits)
  qed
qed simp

lemma scan_single:
  "t \<noteq> [] \<Longrightarrow> \<not> sublist t seen \<Longrightarrow>
   (case scan [t] seen bs of
      None \<Rightarrow> \<not> sublist t (seen @ bs)
    | Some (n, r) \<Rightarrow> n = 0 \<and> (\<exists>pre. seen @ bs = pre @ t @ r \<and> \<not> sublist t (butlast (pre @ t))))"
proof (induction bs arbitrary: seen)
  case (Cons b bs)
  show ?case
  proof (cases "suffix t (seen @ [b])")
    case True
    then obtain pre where "seen @ [b] = pre @ t" by (auto simp: suffix_def)
    then have "seen @ b # bs = pre @ t @ bs" "butlast (pre @ t) = seen" by (metis append_Cons append_assoc append_Nil, metis butlast_snoc)
    then show ?thesis using True Cons.prems(2) by auto
  next
    case False
    then have "\<not> sublist t (seen @ [b])" using Cons.prems(2) by (simp add: sublist_snoc)
    from Cons.IH [OF Cons.prems(1) this] show ?thesis using False by (auto split: option.splits)
  qed
qed simp

section \<open>The value of digits\<close>

definition digits_value :: "32 word \<Rightarrow> u8 list \<Rightarrow> 32 word" where
  "digits_value v cs = foldl (\<lambda>v c. v * 10 + ucast c - 48) v cs"

lemma digit_value: "\<forall>i<10. ucast (of_nat i + 48 :: u8) = (of_nat i + 48 :: 32 word) \<and> is_digit (uint (of_nat i + 48 :: u8))"
  by code_simp

lemma dec_digits: "dec n \<noteq> []" "\<forall>c \<in> set (dec n). is_digit (uint c)"
proof -
  show "dec n \<noteq> []" by (subst dec.simps) simp
  show "\<forall>c \<in> set (dec n). is_digit (uint c)"
  proof (induction n rule: dec.induct)
    case (1 n)
    then show ?case using digit_value by (subst dec.simps) auto
  qed
qed

lemma digits_value_dec: "digits_value 0 (dec n) = of_nat n"
proof (induction n rule: dec.induct)
  case (1 n)
  have i: "ucast (of_nat i + 48 :: u8) = (of_nat i + 48 :: 32 word)" if "i < 10" for i using digit_value that by blast
  show ?case
  proof (cases "n < 10")
    case True
    then show ?thesis using i [of n] by (subst dec.simps) (simp add: digits_value_def)
  next
    case False
    have "of_nat (n div 10) * 10 + of_nat (n mod 10) = (of_nat (n div 10 * 10 + n mod 10) :: 32 word)" by (simp only: of_nat_add of_nat_mult) simp
    then show ?thesis using False 1 i [of "n mod 10"] by (subst dec.simps) (simp add: digits_value_def)
  qed
qed

lemma high_char: "b \<ge> 128 \<Longrightarrow> uint (c :: u8) \<noteq> sint (b :: u8)"
proof -
  assume "b \<ge> 128"
  then have "128 \<le> uint b" "uint b < 256" using unsigned_less [of b, where ?'a = int] by (simp_all add: word_le_def)
  moreover from this have "(uint b + 128) mod 256 = uint b - 128" using mod_pos_pos_trivial [of "uint b - 128" 256] mod_add_self2 [of "uint b - 128" 256] by (simp add: add.commute)
  ultimately have "sint b < 0" by (simp add: sint_uint signed_take_bit_eq_take_bit_shift take_bit_eq_mod)
  then show ?thesis using unsigned_greater_eq [of c, where ?'a = int] by linarith
qed

section \<open>Readers of a stream\<close>

text \<open>The contract of the functions that read with a time-out: \<open>pend\<close> is what the stream will deliver; then every attempt runs into the
  time-out.\<close>

definition next_char :: "u8 list \<Rightarrow> int" where
  "next_char bs = (case bs of [] \<Rightarrow> - 1 | b # _ \<Rightarrow> uint b)"

lemma next_char_simps [simp]: "next_char [] = - 1" "next_char (b # bs) = uint b"
  by (simp_all add: next_char_def)

locale text_source =
  fixes d :: "'s input" and pend :: "'s text_stream \<Rightarrow> u8 list" and inv :: "'s text_stream \<Rightarrow> bool"
  assumes read_law: "inv s \<Longrightarrow> \<exists>s'. timedRead d s = Some (next_char (pend s), s') \<and> inv s' \<and> pend s' = tl (pend s)"
    and peek_law: "inv s \<Longrightarrow> \<exists>s'. timedPeek d s = Some (next_char (pend s), s') \<and> inv s' \<and> pend s' = pend s"
    and discard_law: "inv s \<Longrightarrow> inv (discard d s) \<and> pend (discard d s) = tl (pend s)"
begin

lemma findMulti_scan:
  "inv s \<Longrightarrow> list_all (target_ok seen) ts \<Longrightarrow>
   \<exists>ts' s'. findMulti_loop d ts s = Some (case scan (map t_str ts) seen (pend s) of None \<Rightarrow> - 1 | Some (n, _) \<Rightarrow> int n, ts', s') \<and> inv s'
     \<and> pend s' = (case scan (map t_str ts) seen (pend s) of None \<Rightarrow> [] | Some (_, r) \<Rightarrow> r)"
proof (induction "pend s" arbitrary: s seen ts)
  case Nil
  then show ?case using read_law [of s] by (subst findMulti_loop.simps) auto
next
  case (Cons b bs)
  have p: "pend s = b # bs" using Cons.hyps(2) by simp
  from read_law [OF Cons.prems(1)] obtain s1 where s1: "timedRead d s = Some (uint b, s1)" "inv s1" "pend s1 = bs" unfolding p by auto
  note m = match_targets_scan [OF Cons.prems(2), of b 0]
  show ?case
  proof (cases "filter (\<lambda>n. suffix (map t_str ts ! n) (seen @ [b])) [0..<length ts]")
    case Nil
    then have n: "fst (match_targets (uint b) 0 ts) = None" "list_all (target_ok (seen @ [b])) (snd (match_targets (uint b) 0 ts))"
      "map t_str (snd (match_targets (uint b) 0 ts)) = map t_str ts" using m by simp_all
    have "findMulti_loop d ts s = findMulti_loop d (snd (match_targets (uint b) 0 ts)) s1"
      using s1(1) n(1) by (subst findMulti_loop.simps) (simp add: case_prod_unfold)
    then show ?thesis using Cons.hyps(1) [OF s1(3) [symmetric] s1(2) n(2)] n(3) s1(3) Nil by (simp add: p)
  next
    case (Cons n ns)
    then have "fst (match_targets (uint b) 0 ts) = Some n" using m by simp
    then have "findMulti_loop d ts s = Some (int n, snd (match_targets (uint b) 0 ts), s1)"
      using s1(1) by (subst findMulti_loop.simps) (simp add: case_prod_unfold)
    then show ?thesis using s1(2,3) Cons by (simp add: p)
  qed
qed

lemma find_scan:
  assumes "inv s" "ascii t" "t \<noteq> []"
  shows "\<exists>s'. Stream_find d t s = Some (sublist t (pend s), s') \<and> inv s'
    \<and> (if sublist t (pend s) then \<exists>pre. pend s = pre @ t @ pend s' \<and> \<not> sublist t (butlast (pre @ t)) else pend s' = [])"
proof -
  let ?t = "\<lparr>t_str = t, t_len = length t, t_index = 0\<rparr>"
  have "is_index t [] 0" using assms(3) by (auto simp: is_index_def)
  then have "list_all (target_ok []) [?t]" using assms(2) by (simp add: target_ok_def)
  from findMulti_scan [OF assms(1) this] obtain ts' s' where
    s': "findMulti_loop d [?t] s = Some (case scan [t] [] (pend s) of None \<Rightarrow> - 1 | Some (n, _) \<Rightarrow> int n, ts', s')" "inv s'"
    "pend s' = (case scan [t] [] (pend s) of None \<Rightarrow> [] | Some (_, r) \<Rightarrow> r)" by auto
  have "Stream_find d t s = Some (scan [t] [] (pend s) \<noteq> None, s')"
    using s'(1) scan_single [OF assms(3), of "[]" "pend s"] assms(3) by (auto simp: Stream_find_def findUntil_def findMulti_def split: option.splits)
  then show ?thesis using s'(2,3) scan_single [OF assms(3), of "[]" "pend s"] assms(3)
    by (cases "scan [t] [] (pend s)") (auto simp: sublist_def)
qed

text \<open>A target of one byte above 127 is never found: the byte that was read is compared with a negative number.\<close>

lemma high_target_missed:
  assumes "inv s" "b \<ge> 128"
  shows "\<exists>s'. Stream_find d [b] s = Some (False, s') \<and> inv s'"
proof -
  let ?t = "\<lparr>t_str = [b], t_len = Suc 0, t_index = 0\<rparr>"
  have b: "uint c \<noteq> sint b" for c :: u8 using high_char [OF assms(2), of c] .
  have "inv s \<Longrightarrow> \<exists>s'. findMulti_loop d [?t] s = Some (- 1, [?t], s') \<and> inv s'" for s
  proof (induction "pend s" arbitrary: s)
    case Nil
    then show ?case using read_law [of s] by (subst findMulti_loop.simps) auto
  next
    case (Cons c cs)
    have p: "pend s = c # cs" using Cons.hyps(2) by simp
    from read_law [OF Cons.prems] obtain s1 where s1: "timedRead d s = Some (uint c, s1)" "inv s1" "pend s1 = cs" unfolding p by auto
    then show ?case using Cons.hyps(1) [OF s1(3) [symmetric] s1(2)] b [of c] by (subst findMulti_loop.simps) (simp add: Let_def)
  qed
  from this [OF assms(1)] show ?thesis by (auto simp: Stream_find_def findUntil_def findMulti_def)
qed

lemma peek_skips:
  "inv s \<Longrightarrow> pend s = junk @ c # rest \<Longrightarrow> \<forall>j \<in> set junk. uint j \<noteq> 45 \<and> \<not> is_digit (uint j) \<Longrightarrow> uint c = 45 \<or> is_digit (uint c) \<Longrightarrow>
   \<exists>s'. peekNextDigit d SKIP_ALL False s = Some (uint c, s') \<and> inv s' \<and> pend s' = c # rest"
proof (induction junk arbitrary: s)
  case Nil
  from peek_law [OF Nil.prems(1)] obtain s' where "timedPeek d s = Some (uint c, s')" "inv s'" "pend s' = c # rest" using Nil.prems(2) by auto
  then show ?case using Nil.prems(4) by (subst peekNextDigit.simps) auto
next
  case (Cons j junk)
  from peek_law [OF Cons.prems(1)] obtain s1 where s1: "timedPeek d s = Some (uint j, s1)" "inv s1" "pend s1 = j # junk @ c # rest"
    using Cons.prems(2) by auto
  have "peekNextDigit d SKIP_ALL False s = peekNextDigit d SKIP_ALL False (discard d s1)"
    using Cons.prems(3) unsigned_greater_eq [of j, where ?'a = int] by (subst peekNextDigit.simps) (simp add: s1(1))
  then show ?case using Cons.IH [of "discard d s1"] discard_law [OF s1(2)] s1(3) Cons.prems(3,4) by simp
qed

lemma parse_digits:
  "inv s \<Longrightarrow> pend s = c # cs @ rest \<Longrightarrow> \<forall>b \<in> set (c # cs). is_digit (uint b) \<Longrightarrow> \<not> is_digit (next_char rest) \<and> next_char rest \<noteq> 1 \<Longrightarrow>
   \<exists>s'. parseInt_loop d NO_IGNORE_CHAR (uint c) neg v s = Some (neg, digits_value v (c # cs), s') \<and> inv s' \<and> pend s' = rest"
proof (induction cs arbitrary: c v s)
  case Nil
  have c: "is_digit (uint c)" "uint c \<noteq> 1" "uint c \<noteq> 45" using Nil.prems(3) by (auto simp: is_digit_def)
  from discard_law [OF Nil.prems(1)] peek_law [of "discard d s"] obtain s' where
    "timedPeek d (discard d s) = Some (next_char rest, s')" "inv s'" "pend s' = rest" using Nil.prems(2) by auto
  then show ?case using c Nil.prems(4) by (subst parseInt_loop.simps) (simp add: NO_IGNORE_CHAR_def digits_value_def)
next
  case (Cons b cs)
  have c: "is_digit (uint c)" "uint c \<noteq> 1" "uint c \<noteq> 45" "is_digit (uint b)" using Cons.prems(3) by (auto simp: is_digit_def)
  from discard_law [OF Cons.prems(1)] peek_law [of "discard d s"] obtain s1 where
    s1: "timedPeek d (discard d s) = Some (uint b, s1)" "inv s1" "pend s1 = b # cs @ rest" using Cons.prems(2) by auto
  have "parseInt_loop d NO_IGNORE_CHAR (uint c) neg v s = parseInt_loop d NO_IGNORE_CHAR (uint b) neg (v * 10 + ucast c - 48) s1"
    using c s1(1) by (subst parseInt_loop.simps) (simp add: NO_IGNORE_CHAR_def)
  then show ?case using Cons.IH [OF s1(2,3), of "v * 10 + ucast c - 48"] Cons.prems(3,4) by (simp add: digits_value_def)
qed

lemma parseInt_signed:
  assumes "inv s" "pend s = junk @ signed_dec n @ rest" "\<forall>j \<in> set junk. uint j \<noteq> 45 \<and> \<not> is_digit (uint j)"
    and "\<not> is_digit (next_char rest) \<and> next_char rest \<noteq> 1"
  shows "\<exists>s'. parseInt d SKIP_ALL NO_IGNORE_CHAR s = Some (n, s') \<and> inv s' \<and> pend s' = rest"
proof (cases "sint n < 0")
  case True
  obtain c cs where cs: "dec (unat (- n)) = c # cs" using dec_digits(1) by (metis list.exhaust)
  then have dg: "\<forall>b \<in> set (c # cs). is_digit (uint b)" using dec_digits(2) by metis
  have "pend s = junk @ 45 # c # cs @ rest" using assms(2) True cs by (simp add: signed_dec_def)
  from peek_skips [OF assms(1) this assms(3)] obtain s1 where
    s1: "peekNextDigit d SKIP_ALL False s = Some (45, s1)" "inv s1" "pend s1 = 45 # c # cs @ rest" by auto
  from discard_law [OF s1(2)] peek_law [of "discard d s1"] obtain s2 where
    s2: "timedPeek d (discard d s1) = Some (uint c, s2)" "inv s2" "pend s2 = c # cs @ rest" using s1(3) by auto
  have l: "parseInt_loop d NO_IGNORE_CHAR 45 False 0 s1 = parseInt_loop d NO_IGNORE_CHAR (uint c) True 0 s2"
    using s2(1) dg by (subst parseInt_loop.simps) (simp add: NO_IGNORE_CHAR_def)
  have "digits_value 0 (c # cs) = - n" using digits_value_dec [of "unat (- n)"] cs by simp
  then show ?thesis using parse_digits [OF s2(2,3) dg assms(4), of True 0] s1(1) l by (auto simp: parseInt_def)
next
  case False
  obtain c cs where cs: "dec (unat n) = c # cs" using dec_digits(1) by (metis list.exhaust)
  then have dg: "\<forall>b \<in> set (c # cs). is_digit (uint b)" using dec_digits(2) by metis
  have "pend s = junk @ c # cs @ rest" using assms(2) False cs by (simp add: signed_dec_def)
  from peek_skips [OF assms(1) this assms(3)] dg obtain s1 where
    s1: "peekNextDigit d SKIP_ALL False s = Some (uint c, s1)" "inv s1" "pend s1 = c # cs @ rest" by auto
  have "digits_value 0 (c # cs) = n" using digits_value_dec [of "unat n"] cs by simp
  then show ?thesis using parse_digits [OF s1(2,3) dg assms(4), of False 0] s1(1) by (auto simp: parseInt_def)
qed

lemma readBytes_law:
  "inv s \<Longrightarrow> \<exists>s'. readBytes d n s = Some (take n (pend s), s') \<and> inv s' \<and> pend s' = drop n (pend s)"
proof (induction n arbitrary: s)
  case (Suc n)
  from read_law [OF Suc.prems] obtain s1 where s1: "timedRead d s = Some (next_char (pend s), s1)" "inv s1" "pend s1 = tl (pend s)" by blast
  show ?case using Suc.IH [OF s1(2)] s1 by (cases "pend s") (auto simp: not_less)
qed simp

lemma readString_law:
  "inv s \<Longrightarrow> \<exists>s'. readString d ret s = Some (ret @ pend s, s') \<and> inv s' \<and> pend s' = []"
proof (induction "pend s" arbitrary: s ret)
  case Nil
  then show ?case using read_law [of s] by (subst readString.simps) auto
next
  case (Cons b bs)
  have p: "pend s = b # bs" using Cons.hyps(2) by simp
  from read_law [OF Cons.prems] obtain s1 where s1: "timedRead d s = Some (uint b, s1)" "inv s1" "pend s1 = bs" unfolding p by auto
  then show ?case using Cons.hyps(1) [OF s1(3) [symmetric] s1(2), of "ret @ [b]"] by (subst readString.simps) (simp add: p)
qed

end

section \<open>The serial port as a stream\<close>

text \<open>Reading from the buffer of the serial port, with the clock.\<close>

definition serial_input :: "'k timer0 \<Rightarrow> ('h serial \<times> 'k clock) input" where
  "serial_input d = \<lparr>in_read = (\<lambda>(s, k). case serial_read s of (c, s) \<Rightarrow> (c, s, k)), in_peek = (\<lambda>(s, k). (serial_peek s, s, k)),
     in_millis = (\<lambda>(s, k). case millis d k of (m, k) \<Rightarrow> (m, s, k))\<rparr>"

definition port_inv :: "('k \<Rightarrow> nat) \<Rightarrow> ('k \<Rightarrow> nat) \<Rightarrow> ('h serial \<times> 'k clock) text_stream \<Rightarrow> bool" where
  "port_inv now taken s \<longleftrightarrow> rx_ok (fst (ts_dev s)) \<and> time_inv now taken (snd (ts_dev s)) \<and> unat (ts_timeout s) < 2 ^ 32 - 1"

definition port_pend :: "('h serial \<times> 'k clock) text_stream \<Rightarrow> u8 list" where
  "port_pend s = rx_list (fst (ts_dev s))"

lemma serial_read_list:
  assumes "rx_ok s"
  shows "fst (serial_read s) = next_char (rx_list s)" "serial_peek s = next_char (rx_list s)" "rx_ok (snd (serial_read s))"
    "rx_list (snd (serial_read s)) = tl (rx_list s)" "rx_list s = [] \<Longrightarrow> snd (serial_read s) = s"
proof -
  have ok: "ring_ok (rx_buffer s) (rx_head s) (rx_tail s)" using assms by (simp add: rx_ok_def)
  show "fst (serial_read s) = next_char (rx_list s)" "serial_peek s = next_char (rx_list s)" "rx_ok (snd (serial_read s))"
    "rx_list (snd (serial_read s)) = tl (rx_list s)" "rx_list s = [] \<Longrightarrow> snd (serial_read s) = s"
    using ring_empty [OF ok] ring_pop [OF ok] assms by (auto simp: serial_read_def serial_peek_def rx_list_def rx_ok_def)
qed

context timer_runs begin

lemma run_on_millis:
  assumes "inv k"
  shows "timer0_millis (run_on d k) = timer0_millis k \<and> taken (t_hw (run_on d k)) = taken (t_hw k)
    \<or> timer0_millis (run_on d k) = timer0_millis k + 1 \<or> timer0_millis (run_on d k) = timer0_millis k + 2"
  using pass_law [of "t_hw k"] assms by (auto simp: run_on_def case_prod_unfold Let_def isr_eval time_inv_def)

text \<open>What is left of a time-out: milliseconds, and ticks to the next overflow.\<close>

definition time_left :: "('p serial \<times> 'h clock) text_stream \<Rightarrow> nat" where
  "time_left s = (let k = snd (ts_dev s) in (unat (ts_timeout s) - unat (timer0_millis k - startMillis s)) * 1024
     + (256 * (taken (t_hw k) + 2) - now (t_hw k)))"

lemma ticks_left:
  assumes "inv k"
  shows "0 < 256 * (taken (t_hw k) + 2) - now (t_hw k)" "256 * (taken (t_hw k) + 2) - now (t_hw k) \<le> 512"
proof -
  define q r where "q = now (t_hw k) div 256" and "r = now (t_hw k) mod 256"
  have "now (t_hw k) = q * 256 + r" "r < 256" by (simp_all add: q_def r_def)
  moreover have "q = taken (t_hw k) \<or> q = Suc (taken (t_hw k))" using assms by (simp add: q_def time_inv_def lag_ok_def)
  ultimately show "0 < 256 * (taken (t_hw k) + 2) - now (t_hw k)" "256 * (taken (t_hw k) + 2) - now (t_hw k) \<le> 512" by auto
qed

lemma time_passes:
  assumes "inv k" "unat T < 2 ^ 32 - 1" "x = unat (timer0_millis k - m)" "x < unat T" "y = unat (timer0_millis (run_on d k) - m)" "y < unat T"
  shows "(unat T - y) * 1024 + (256 * (taken (t_hw (run_on d k)) + 2) - now (t_hw (run_on d k)))
    < (unat T - x) * 1024 + (256 * (taken (t_hw k) + 2) - now (t_hw k))"
proof -
  have u: "unat (timer0_millis k + i - m) = x + unat i" if "unat i \<le> 2" for i :: u32
  proof -
    have e: "timer0_millis k + i - m = (timer0_millis k - m) + i" by simp
    have "unat (timer0_millis k + i - m) = (x + unat i) mod 2 ^ 32" unfolding e assms(3) using unat_word_ariths(1) [of "timer0_millis k - m" i] by simp
    moreover have "x + unat i < 2 ^ 32" using that assms(2,4) by linarith
    ultimately show ?thesis by (simp only: mod_less)
  qed
  from run_on_millis [OF assms(1)] show ?thesis
  proof
    assume "timer0_millis (run_on d k) = timer0_millis k \<and> taken (t_hw (run_on d k)) = taken (t_hw k)"
    then show ?thesis using run_on_law(3) [OF assms(1)] ticks_left [OF assms(1)] assms(3,5) by auto
  next
    assume "timer0_millis (run_on d k) = timer0_millis k + 1 \<or> timer0_millis (run_on d k) = timer0_millis k + 2"
    then have "x < y" using u [of 1] u [of 2] assms(5) by auto
    then have "unat T - y < unat T - x" using assms(4) by simp
    then have "(unat T - y) * 1024 + 1024 \<le> (unat T - x) * 1024" by simp
    then show ?thesis using ticks_left [OF run_on_law(1) [OF assms(1)]] ticks_left [OF assms(1)] by linarith
  qed
qed

lemma timed_out:
  fixes s :: "('p serial \<times> 'h clock) text_stream"
  assumes "ts_dev s = (q, k)" "inv k" "unat (ts_timeout s) < 2 ^ 32 - 1" "\<And>k. get (q, k) = (- 1, q, k)"
    and "unat (timer0_millis k - startMillis s) < unat (ts_timeout s) \<or> timer0_millis k = startMillis s"
  shows "\<exists>k' s'. timed_loop get (serial_input d) s = Some (- 1, s') \<and> ts_dev s' = (q, k') \<and> inv k' \<and> ts_timeout s' = ts_timeout s"
  using assms
proof (induction "time_left s" arbitrary: s k rule: less_induct)
  case less
  let ?k = "run_on d k"
  let ?s = "s\<lparr>ts_dev := (q, ?k)\<rparr>"
  have k: "inv ?k" using run_on_law(1) [OF less.prems(2)] .
  have step: "timed_loop get (serial_input d) s =
    (if timer0_millis ?k - startMillis s < ts_timeout s then timed_loop get (serial_input d) ?s else Some (- 1, ?s))"
    by (subst timed_loop.simps) (simp add: less.prems(1,4) serial_input_def millis_def Let_def)
  show ?case
  proof (cases "timer0_millis ?k - startMillis s < ts_timeout s")
    case True
    then have y: "unat (timer0_millis ?k - startMillis s) < unat (ts_timeout s)" by (simp add: word_less_nat_alt)
    then have "unat (timer0_millis k - startMillis s) < unat (ts_timeout s)" using less.prems(5) by auto
    then have "time_left ?s < time_left s"
      using time_passes [OF less.prems(2,3) refl _ refl y] by (simp add: time_left_def Let_def less.prems(1))
    from less.hyps [OF this _ k _ less.prems(4)] show ?thesis using less.prems(3) y step True by simp
  qed (use step k in auto)
qed

lemma timed_get:
  fixes s :: "('p serial \<times> 'h clock) text_stream"
  assumes "port_inv now taken s" "\<And>q k. get (q, k) = (fst (g q), snd (g q), k)" "fst (g (fst (ts_dev s))) = next_char (port_pend s)"
    and "port_pend s = [] \<Longrightarrow> snd (g (fst (ts_dev s))) = fst (ts_dev s)"
  shows "\<exists>k' s'. timed_loop get (serial_input d) (start_timer (serial_input d) s) = Some (next_char (port_pend s), s')
    \<and> ts_dev s' = (snd (g (fst (ts_dev s))), k') \<and> inv k' \<and> ts_timeout s' = ts_timeout s"
proof -
  obtain q k where h: "ts_dev s = (q, k)" by fastforce
  let ?s = "s\<lparr>ts_dev := (q, run_on d k), startMillis := timer0_millis (run_on d k)\<rparr>"
  have k: "inv (run_on d k)" "unat (ts_timeout s) < 2 ^ 32 - 1" using assms(1) run_on_law(1) [of k] by (simp_all add: port_inv_def h)
  have e: "start_timer (serial_input d) s = ?s" by (simp add: start_timer_def serial_input_def h millis_def Let_def)
  show ?thesis
  proof (cases "port_pend s")
    case Nil
    then have "get (q, k) = (- 1, q, k)" for k using assms(2-4) by (simp add: h)
    from timed_out [of ?s, OF _ k(1) _ this] show ?thesis using k(2) Nil assms(4) unfolding e by (auto simp: h)
  next
    case (Cons b bs)
    then show ?thesis unfolding e using k(1) assms(2,3) unsigned_greater_eq [of b, where ?'a = int]
      by (subst timed_loop.simps) (simp add: h Let_def)
  qed
qed

end

sublocale timer_runs \<subseteq> port: text_source "serial_input d :: ('p serial \<times> 'h clock) input" port_pend "port_inv now taken"
proof
  fix s :: "('p serial \<times> 'h clock) text_stream"
  assume i: "port_inv now taken s"
  let ?q = "fst (ts_dev s)"
  have rx: "rx_ok ?q" "time_inv now taken (snd (ts_dev s))" "unat (ts_timeout s) < 2 ^ 32 - 1" using i by (simp_all add: port_inv_def)
  note r = serial_read_list [OF rx(1)]
  have rd: "in_read (serial_input d) (q, k) = (fst (serial_read q), snd (serial_read q), k)" for q :: "'p serial" and k :: "'h clock"
    by (simp add: serial_input_def case_prod_unfold)
  show "\<exists>s'. timedRead (serial_input d) s = Some (next_char (port_pend s), s') \<and> port_inv now taken s' \<and> port_pend s' = tl (port_pend s)"
    using timed_get [OF i rd] r rx(3) by (fastforce simp: timedRead_def port_pend_def port_inv_def)
  have pk: "in_peek (serial_input d) (q, k) = (fst (serial_peek q, q), snd (serial_peek q, q), k)" for q :: "'p serial" and k :: "'h clock"
    by (simp add: serial_input_def)
  show "\<exists>s'. timedPeek (serial_input d) s = Some (next_char (port_pend s), s') \<and> port_inv now taken s' \<and> port_pend s' = port_pend s"
    using timed_get [OF i, where get = "in_peek (serial_input d)" and g = "\<lambda>q. (serial_peek q, q)"] pk r(2) rx by (fastforce simp: timedPeek_def port_pend_def port_inv_def)
  show "port_inv now taken (discard (serial_input d) s) \<and> port_pend (discard (serial_input d) s) = tl (port_pend s)"
    using r rx by (cases "ts_dev s") (simp add: discard_def port_inv_def port_pend_def rd)
qed

context timer_runs begin

lemmas port_text_source = port.text_source_axioms

end

interpretation tp: text_source "serial_input tick_timer :: ('p serial \<times> (nat \<times> nat) clock) input" port_pend "port_inv fst snd"
  by (rule tick.port.text_source_axioms)

section \<open>Searching and reading numbers on the serial port\<close>

text \<open>(C16) Searching for a text in what the serial port has received: \<^verbatim>\<open>find\<close> returns, tells whether the text occurs, and has read exactly to the end
  of its first occurrence, or everything. The targets of ASCII characters are meant; nothing arrives meanwhile.\<close>

theorem find_first_occurrence:
  assumes "timer_runs d now taken" "port_inv now taken s" "ascii t" "t \<noteq> []"
  shows "\<exists>s'. Stream_find (serial_input d) t s = Some (sublist t (port_pend s), s') \<and> port_inv now taken s'
    \<and> (if sublist t (port_pend s) then \<exists>pre. port_pend s = pre @ t @ port_pend s' \<and> \<not> sublist t (butlast (pre @ t)) else port_pend s' = [])"
  using text_source.find_scan [OF timer_runs.port_text_source [OF assms(1)] assms(2-4)] .

text \<open>(C17) A number that is printed to a serial port with room for it can be read again: printing returns, the line has been given a text of the
  length returned, and wherever that text has been received, with anything but digits and minus signs before and anything
  but a digit and the character 1 behind, \<^verbatim>\<open>parseInt\<close> makes the same number of it and has read exactly to its end.\<close>

theorem printed_number_read:
  assumes "serial_line u view wait" "tx_inv view s" "length (tx_list s) \<le> 52" "timer_runs d now taken"
  shows "\<exists>text t. print_long (serial_sink u) n 10 (Some s) = Some (length text, Some t) \<and> tx_line view t = tx_line view s @ text
    \<and> (\<forall>r junk rest. port_inv now taken r \<and> port_pend r = junk @ text @ rest \<and> (\<forall>j \<in> set junk. uint j \<noteq> 45 \<and> \<not> is_digit (uint j))
        \<and> \<not> is_digit (next_char rest) \<and> next_char rest \<noteq> 1
        \<longrightarrow> (\<exists>r'. parseInt (serial_input d) SKIP_ALL NO_IGNORE_CHAR r = Some (n, r') \<and> port_pend r' = rest))"
proof -
  have "length (tx_list s) + length (signed_dec n) \<le> 63" using length_signed_dec [of n] assms(3) by simp
  from serial_line.printed_long [OF assms(1,2) this] show ?thesis
    using text_source.parseInt_signed [OF timer_runs.port_text_source [OF assms(4)]] by blast
qed

text \<open>A port that has received some bytes.\<close>

definition received :: "u8 list \<Rightarrow> (unit serial \<times> (nat \<times> nat) clock) text_stream" where
  "received bs = Stream_new (\<lparr>s_hw = (), SREG_I = True, s_written = False, rx_head = of_nat (length bs), rx_tail = 0, tx_head = 0, tx_tail = 0,
     rx_buffer = bs @ replicate (64 - length bs) 0, tx_buffer = replicate 64 0\<rparr>,
     \<lparr>t_hw = (0, 0), timer0_overflow_count = 0, timer0_millis = 0, timer0_fract = 0\<rparr>) 0"

lemma received_port:
  assumes "length bs < 64"
  shows "port_pend (received bs) = bs" "port_inv fst snd (received bs)"
proof -
  have n: "unat (of_nat (length bs) :: u8) = length bs" using assms by (simp add: unat_of_nat)
  then show "port_pend (received bs) = bs"
    using assms by (simp add: port_pend_def received_def Stream_new_def rx_list_def ring_items_def fill_def circ_straight)
  show "port_inv fst snd (received bs)"
    using assms n by (simp add: port_inv_def received_def Stream_new_def rx_ok_def ring_ok_def time_inv_def lag_ok_def)
qed

theorem find_first_occurrence_witness:
  "\<exists>s'. Stream_find (serial_input tick_timer) [49, 49, 50] (received [49, 49, 49, 50, 51]) = Some (True, s') \<and> port_pend s' = [51]"
proof -
  let ?s = "received [49, 49, 49, 50, 51]"
  have p: "port_pend ?s = [49, 49, 49, 50, 51]" "port_inv fst snd ?s" by (simp_all add: received_port)
  have l: "sublist [49, 49, 50] [49, 49, 49, 50, 51 :: u8]" by (simp add: sublist_Cons_right)
  from find_first_occurrence [OF tick.timer_runs_axioms p(2), of "[49, 49, 50]"] obtain s' pre where
    s': "Stream_find (serial_input tick_timer) [49, 49, 50] ?s = Some (True, s')" "[49, 49, 49, 50, 51] = pre @ [49, 49, 50] @ port_pend s'"
    by (auto simp: p(1) l ascii_def)
  from s'(2) have "port_pend s' = [51]" by (cases pre) (auto simp: append_eq_Cons_conv Cons_eq_append_conv)
  then show ?thesis using s'(1) by blast
qed

theorem printed_number_read_witness:
  "\<exists>w t. print_long (serial_sink wire_uart) (- 42) 10 (Some (HardwareSerial_new idle_wire (\<lambda>_. 0))) = Some (length w, Some t)
    \<and> w_sent (s_hw t) @ tx_list t = w
    \<and> (\<forall>r :: (unit serial \<times> (nat \<times> nat) clock) text_stream. port_inv fst snd r \<and> port_pend r = 32 # w @ [13, 10]
        \<longrightarrow> (\<exists>r'. parseInt (serial_input tick_timer) SKIP_ALL NO_IGNORE_CHAR r = Some (- 42, r') \<and> port_pend r' = [13, 10]))"
proof -
  from printed_number_read [OF wire.serial_line_axioms idle_port(1) _ tick.timer_runs_axioms, of "- 42"] idle_port(2) obtain w t where
    t: "print_long (serial_sink wire_uart) (- 42) 10 (Some (HardwareSerial_new idle_wire (\<lambda>_. 0))) = Some (length w, Some t)"
      "tx_line wire_view t = tx_line wire_view (HardwareSerial_new idle_wire (\<lambda>_. 0)) @ w"
      "\<And>(r :: (unit serial \<times> (nat \<times> nat) clock) text_stream) junk rest. port_inv fst snd r \<and> port_pend r = junk @ w @ rest \<and> (\<forall>j \<in> set junk. uint j \<noteq> 45 \<and> \<not> is_digit (uint j))
        \<and> \<not> is_digit (next_char rest) \<and> next_char rest \<noteq> 1
        \<longrightarrow> (\<exists>r'. parseInt (serial_input tick_timer) SKIP_ALL NO_IGNORE_CHAR r = Some (- 42, r') \<and> port_pend r' = rest)" by auto
  have "w_sent (s_hw t) @ tx_list t = w" using t(2) idle_port(2) by (simp add: tx_line_def wire_view_def HardwareSerial_new_def idle_wire_def)
  then show ?thesis using t(1) t(3) [of _ "[32]" "[13, 10]"] by (auto simp: is_digit_def)
qed

end
