(* ===== verification/Eboot_Command.thy ===== *)
theory Eboot_Command
  imports Prelude
begin

text \<open>
  The command block by which a running ESP8266 sketch instructs the boot loader \<^verbatim>\<open>eboot\<close>: \<^verbatim>\<open>eboot_command.c\<close> of the
  loader, which reads it, and \<^verbatim>\<open>core_esp8266_eboot_command.c\<close> of the core, which writes it. The block
  lives in the memory of the real-time clock, which survives a reset; \<^verbatim>\<open>RTC_MEM[i]\<close> is the word at index
  \<open>i\<close> of a function. The check sum is a CRC-32 computed bit by bit.
\<close>

section \<open>Data\<close>

definition ACTION_COPY_RAW :: u32 where
  "ACTION_COPY_RAW = 0x00000001"

definition ACTION_LOAD_APP :: u32 where
  "ACTION_LOAD_APP = 0xffffffff"

definition EBOOT_MAGIC :: u32 where
  "EBOOT_MAGIC = 0xeb001000"

definition EBOOT_MAGIC_MASK :: u32 where
  "EBOOT_MAGIC_MASK = 0xfffff000"

record eboot_command =
  magic :: u32
  action :: u32
  args :: "u32 list"
  crc32 :: u32

text \<open>The structure as the array of 32 words that the copy loops see, and back.\<close>

definition words_of_command :: "eboot_command \<Rightarrow> u32 list" where
  "words_of_command c = [magic c, action c] @ args c @ [crc32 c]"

definition command_of_words :: "u32 list \<Rightarrow> eboot_command" where
  "command_of_words ws = \<lparr>magic = ws ! 0, action = ws ! 1, args = take 29 (drop 2 ws), crc32 = ws ! 31\<rparr>"

text \<open>The bytes of a word in memory: the processor is little-endian.\<close>

definition le32 :: "u32 \<Rightarrow> u8 list" where
  "le32 w = [ucast w, ucast (drop_bit 8 w), ucast (drop_bit 16 w), ucast (drop_bit 24 w)]"

section \<open>Operations\<close>

text \<open>One bit of the data, against the top bit of the register.\<close>

definition crc_bit :: "bool \<Rightarrow> u32 \<Rightarrow> u32" where
  "crc_bit b crc =
     (let bit = crc AND 0x80000000 \<noteq> 0;
          bit = (if b then \<not> bit else bit);
          crc = push_bit 1 crc
      in if bit then crc XOR 0x04c11db7 else crc)"

text \<open>The loop over the mask \<^verbatim>\<open>i\<close>, from \<open>0x80\<close> down to \<open>0\<close>.\<close>

function crc_byte :: "u32 \<Rightarrow> u8 \<Rightarrow> u32 \<Rightarrow> u32" where
  "crc_byte i c crc =
     (if i > 0 then crc_byte (drop_bit 1 i) c (crc_bit (ucast c AND i \<noteq> 0) crc) else crc)"
  by pat_completeness auto
termination
proof (relation "measure (\<lambda>(i, _, _). unat i)")
  fix i :: u32 assume "i > 0"
  then have "unat i > 0" by (simp add: word_less_nat_alt)
  then show "((drop_bit 1 i, c, crc_bit b crc), (i, c, crc)) \<in> measure (\<lambda>(i, _, _). unat i)" for c crc b
    by (simp add: drop_bit_eq_div unat_div)
qed simp

declare crc_byte.simps [simp del]

primrec crc_update :: "u32 \<Rightarrow> u8 list \<Rightarrow> u32" where
  "crc_update crc [] = crc"
| "crc_update crc (c # data) = crc_update (crc_byte 0x80 c crc) data"

definition eboot_command_calculate_crc32 :: "eboot_command \<Rightarrow> u32" where
  "eboot_command_calculate_crc32 cmd = crc_update 0xffffffff (concat (map le32 (take 31 (words_of_command cmd))))"

definition eboot_command_read :: "(nat \<Rightarrow> u32) \<Rightarrow> int \<times> eboot_command" where
  "eboot_command_read RTC_MEM =
     (let cmd = command_of_words (map RTC_MEM [0..<32]);
          crc = eboot_command_calculate_crc32 cmd
      in (if magic cmd AND (if EBOOT_MAGIC_MASK \<noteq> EBOOT_MAGIC then 1 else 0) \<noteq> 0 \<or> crc32 cmd \<noteq> crc then 1 else 0, cmd))"

definition store_words :: "u32 list \<Rightarrow> (nat \<Rightarrow> u32) \<Rightarrow> nat \<Rightarrow> u32" where
  "store_words ws mem = (\<lambda>i. if i < 32 then ws ! i else mem i)"

definition eboot_command_write :: "eboot_command \<Rightarrow> (nat \<Rightarrow> u32) \<Rightarrow> eboot_command \<times> (nat \<Rightarrow> u32)" where
  "eboot_command_write cmd RTC_MEM =
     (let cmd = cmd\<lparr>magic := EBOOT_MAGIC\<rparr>;
          cmd = cmd\<lparr>crc32 := eboot_command_calculate_crc32 cmd\<rparr>
      in (cmd, store_words (words_of_command cmd) RTC_MEM))"

definition eboot_command_clear :: "(nat \<Rightarrow> u32) \<Rightarrow> nat \<Rightarrow> u32" where
  "eboot_command_clear RTC_MEM = RTC_MEM(0 := 0, 31 := 0)"

text \<open>The reader of the core, whose test of the magic number has the parentheses that the loader's lacks.\<close>

definition core_eboot_command_read :: "(nat \<Rightarrow> u32) \<Rightarrow> int \<times> eboot_command" where
  "core_eboot_command_read RTC_MEM =
     (let cmd = command_of_words (map RTC_MEM [0..<32]);
          crc = eboot_command_calculate_crc32 cmd
      in (if magic cmd AND EBOOT_MAGIC_MASK \<noteq> EBOOT_MAGIC \<or> crc32 cmd \<noteq> crc then 1 else 0, cmd))"

section \<open>The check sum as a shift register\<close>

text \<open>The reference: bits enter one after the other, the most significant bit of a byte first.\<close>

definition byte_bits :: "u8 \<Rightarrow> bool list" where
  "byte_bits c = map (bit c) [7, 6, 5, 4, 3, 2, 1, 0]"

abbreviation (input) feed :: "bool list \<Rightarrow> u32 \<Rightarrow> u32" where
  "feed bs crc \<equiv> fold crc_bit bs crc"

lemma crc_bit_eq: "crc_bit b crc = push_bit 1 crc XOR (if bit crc 31 \<noteq> b then 0x04c11db7 else 0)"
proof -
  have "(0x80000000 :: u32) = push_bit 31 1" by simp
  then have "crc AND 0x80000000 \<noteq> 0 \<longleftrightarrow> bit crc 31"
    by (metis and_exp_eq_0_iff_not_bit push_bit_of_1)
  then show ?thesis by (auto simp: crc_bit_def Let_def)
qed

lemma mask_bit: "n < 8 \<Longrightarrow> ucast (c :: u8) AND (push_bit n 1 :: u32) \<noteq> 0 \<longleftrightarrow> bit c n"
  by (simp add: push_bit_of_1 and_exp_eq_0_iff_not_bit bit_simps)

lemma crc_byte_feed: "crc_byte 0x80 c crc = feed (byte_bits c) crc"
proof -
  have m: "ucast c AND (0x80 :: u32) \<noteq> 0 \<longleftrightarrow> bit c 7" "ucast c AND (0x40 :: u32) \<noteq> 0 \<longleftrightarrow> bit c 6"
    "ucast c AND (0x20 :: u32) \<noteq> 0 \<longleftrightarrow> bit c 5" "ucast c AND (0x10 :: u32) \<noteq> 0 \<longleftrightarrow> bit c 4"
    "ucast c AND (8 :: u32) \<noteq> 0 \<longleftrightarrow> bit c 3" "ucast c AND (4 :: u32) \<noteq> 0 \<longleftrightarrow> bit c 2"
    "ucast c AND (2 :: u32) \<noteq> 0 \<longleftrightarrow> bit c 1" "ucast c AND (1 :: u32) \<noteq> 0 \<longleftrightarrow> bit c 0"
    using mask_bit [of 7 c] mask_bit [of 6 c] mask_bit [of 5 c] mask_bit [of 4 c] mask_bit [of 3 c]
      mask_bit [of 2 c] mask_bit [of 1 c] mask_bit [of 0 c] by simp_all
  show ?thesis by (simp add: crc_byte.simps byte_bits_def m del: bit_0)
qed

lemma crc_update_feed: "crc_update crc data = feed (concat (map byte_bits data)) crc"
  by (induction data arbitrary: crc) (simp_all add: crc_byte_feed)

declare push_bit_Suc [simp del] drop_bit_Suc [simp del]

text \<open>The register without input is linear and loses nothing: its polynomial is odd.\<close>

definition msb :: "bool \<Rightarrow> u32" where
  "msb b = (if b then push_bit 31 1 else 0)"

lemma bit_msb [simp]: "bit (msb b) n \<longleftrightarrow> b \<and> n = 31"
  unfolding msb_def if_distrib [of bit] if_distribR bit_push_bit_iff by (auto simp: bit_1_iff)

lemma push_msb [simp]: "push_bit (Suc 0) (msb b) = 0"
  by (rule bit_word_eqI) (auto simp: bit_push_bit_iff)

lemma crc_bit_input: "crc_bit b crc = crc_bit False (crc XOR msb b)"
  by (auto simp: crc_bit_eq bit_simps push_bit_xor)

lemma crc_bit_xor: "crc_bit False (x XOR y) = crc_bit False x XOR crc_bit False y"
  by (auto simp: crc_bit_eq bit_simps push_bit_xor ac_simps)

lemma crc_bit_zero: "crc_bit False x = 0 \<Longrightarrow> x = 0"
proof (rule bit_word_eqI)
  fix n assume z: "crc_bit False x = 0" and n: "n < LENGTH(32)"
  have "\<not> bit (crc_bit False x) 0" using z by simp
  then have t: "\<not> bit x 31" by (simp add: crc_bit_eq bit_simps split: if_splits)
  with z have "push_bit 1 x = 0" by (simp add: crc_bit_eq)
  then have "\<not> bit (push_bit 1 x) (Suc n)" by simp
  with t n show "bit x n \<longleftrightarrow> bit (0 :: u32) n"
    by (cases "n = 31") (simp_all add: bit_simps)
qed

lemma xor_cancel: "x XOR a = x XOR b \<longleftrightarrow> a = (b :: u32)"
proof
  assume "x XOR a = x XOR b"
  then have "(x XOR x) XOR a = (x XOR x) XOR b" by (simp only: xor.assoc)
  then show "a = b" by simp
qed simp

lemma crc_bit_inj: "crc_bit b x = crc_bit b y \<longleftrightarrow> x = y"
proof
  assume "crc_bit b x = crc_bit b y"
  then have "crc_bit False ((x XOR msb b) XOR (y XOR msb b)) = 0"
    by (simp only: crc_bit_xor crc_bit_input [of b]) simp
  then have "(x XOR msb b) XOR (y XOR msb b) = 0"
    by (rule crc_bit_zero)
  then have "(x XOR msb b) XOR (y XOR msb b) = (x XOR msb b) XOR (x XOR msb b)" by simp
  then have "y XOR msb b = x XOR msb b" by (simp only: xor_cancel)
  then show "x = y" by (simp only: xor.commute [of _ "msb b"] xor_cancel)
qed simp

lemma feed_inj: "feed bs x = feed bs y \<longleftrightarrow> x = y"
  by (induction bs arbitrary: x y) (simp_all add: crc_bit_inj)

text \<open>At most 32 bits of input amount to changing the register beforehand.\<close>

primrec aligned :: "bool list \<Rightarrow> u32" where
  "aligned [] = 0"
| "aligned (b # bs) = msb b XOR drop_bit 1 (aligned bs)"

lemma bit_aligned: "length bs \<le> 32 \<Longrightarrow> bit (aligned bs) n \<longleftrightarrow> n < 32 \<and> 31 - n < length bs \<and> bs ! (31 - n)"
proof (induction bs arbitrary: n)
  case (Cons b bs)
  have step: "bit (aligned (b # bs)) n \<longleftrightarrow> (b \<and> n = 31) \<noteq> bit (aligned bs) (Suc n)"
    by (simp add: bit_xor_iff bit_drop_bit_eq)
  consider "n < 31" | "n = 31" | "31 < n" by linarith
  then show ?case
  proof cases
    case 1
    then have "31 - n = Suc (31 - Suc n)" by simp
    with 1 Cons show ?thesis unfolding step by auto
  qed (unfold step, use Cons in auto)
qed simp

lemma crc_bit_shifted: "length bs < 32 \<Longrightarrow> crc_bit False (drop_bit 1 (aligned bs)) = aligned bs"
proof -
  assume l: "length bs < 32"
  have "push_bit 1 (drop_bit 1 (aligned bs)) = aligned bs"
    by (rule bit_word_eqI) (use l in \<open>auto simp: bit_simps bit_aligned\<close>)
  moreover have "\<not> bit (drop_bit 1 (aligned bs)) 31"
    using bit_imp_le_length [of "aligned bs" 32] by (auto simp: bit_simps)
  ultimately show ?thesis by (simp add: crc_bit_eq)
qed

lemma feed_aligned: "length bs \<le> 32 \<Longrightarrow> feed bs crc = feed (replicate (length bs) False) (crc XOR aligned bs)"
proof (induction bs arbitrary: crc)
  case (Cons b bs)
  have "feed (b # bs) crc = feed (replicate (length bs) False) (crc_bit b crc XOR aligned bs)"
    using Cons by simp
  also have "crc_bit b crc XOR aligned bs = crc_bit False (crc XOR aligned (b # bs))"
    using Cons.prems
    unfolding aligned.simps crc_bit_input [of b] crc_bit_xor by (simp add: crc_bit_shifted [simplified] xor.assoc)
  finally show ?case by simp
qed simp

lemma aligned_inj: "length bs = length cs \<Longrightarrow> length bs \<le> 32 \<Longrightarrow> aligned bs = aligned cs \<Longrightarrow> bs = cs"
proof (rule nth_equalityI)
  fix i assume l: "length bs = length cs" "length bs \<le> 32" and eq: "aligned bs = aligned cs" and i: "i < length bs"
  have "bit (aligned bs) (31 - i) = bit (aligned cs) (31 - i)" by (simp add: eq)
  then show "bs ! i = cs ! i" using l i by (auto simp: bit_aligned)
qed

lemma feed_window:
  "length bs = length cs \<Longrightarrow> length bs \<le> 32 \<Longrightarrow> feed bs x = feed cs x \<Longrightarrow> bs = cs"
proof (rule aligned_inj)
  assume l: "length bs = length cs" "length bs \<le> 32" and eq: "feed bs x = feed cs x"
  then have "feed (replicate (length cs) False) (x XOR aligned bs) = feed (replicate (length cs) False) (x XOR aligned cs)"
    by (simp only: feed_aligned)
  then have "x XOR aligned bs = x XOR aligned cs" by (simp only: feed_inj)
  then show "aligned bs = aligned cs" by (simp only: xor_cancel)
qed

text \<open>A change confined to at most four bytes changes the check sum.\<close>

lemma byte_bits_inj: "byte_bits b = byte_bits c \<longleftrightarrow> b = c"
proof
  assume eq: "byte_bits b = byte_bits c"
  show "b = c"
  proof (rule bit_word_eqI)
    fix n assume "n < LENGTH(8)"
    then have "n \<in> {0, 1, 2, 3, 4, 5, 6, 7}" by auto
    with eq show "bit b n = bit c n" by (auto simp: byte_bits_def)
  qed
qed simp

lemma length_byte_bits [simp]: "length (byte_bits c) = 8"
  by (simp add: byte_bits_def)

lemma bits_inj: "length xs = length ys \<Longrightarrow> concat (map byte_bits xs) = concat (map byte_bits ys) \<longleftrightarrow> xs = ys"
  by (induction xs ys rule: list_induct2) (auto simp: byte_bits_inj)

lemma length_bits: "length (concat (map byte_bits xs)) = 8 * length xs"
  by (induction xs) auto

lemma crc_window:
  assumes "length x = length y" "length x \<le> 4" "x \<noteq> y"
  shows "crc_update crc (p @ x @ q) \<noteq> crc_update crc (p @ y @ q)"
proof
  assume "crc_update crc (p @ x @ q) = crc_update crc (p @ y @ q)"
  then have "concat (map byte_bits x) = concat (map byte_bits y)"
    by (intro feed_window) (use assms in \<open>simp_all add: crc_update_feed feed_inj length_bits\<close>)
  then show False using assms by (simp add: bits_inj)
qed

section \<open>Hand-over of a command\<close>

lemma command_words:
  "length (args c) = 29 \<Longrightarrow> command_of_words (words_of_command c) = c"
  "length (args c) = 29 \<Longrightarrow> length (words_of_command c) = 32"
  by (simp_all add: command_of_words_def words_of_command_def nth_append)

lemma words_command:
  assumes "length ws = 32"
  shows "words_of_command (command_of_words ws) = ws"
proof (rule nth_equalityI)
  fix i assume "i < length (words_of_command (command_of_words ws))"
  then have "i < 32" using assms by (simp add: command_of_words_def words_of_command_def)
  then have "i = 0 \<or> i = 1 \<or> (\<exists>j. i = j + 2 \<and> j < 29) \<or> i = 31" by presburger
  then show "words_of_command (command_of_words ws) ! i = ws ! i"
    using assms by (auto simp: command_of_words_def words_of_command_def nth_append)
qed (use assms in \<open>simp add: command_of_words_def words_of_command_def\<close>)

lemma le32_inj: "le32 v = le32 w \<longleftrightarrow> v = w"
proof
  assume eq: "le32 v = le32 w"
  have b: "bit v n = bit w n" if "bit (ucast (drop_bit k v) :: u8) (n - k) = bit (ucast (drop_bit k w) :: u8) (n - k)"
    "k \<le> n" "n - k < 8" for n k
    using that by (simp add: bit_simps)
  show "v = w"
  proof (rule bit_word_eqI)
    fix n assume "n < LENGTH(32)"
    then consider "n < 8" | "8 \<le> n" "n < 16" | "16 \<le> n" "n < 24" | "24 \<le> n" "n < 32" by force
    then show "bit v n = bit w n"
      by cases (use eq b [of 0 n] b [of 8 n] b [of 16 n] b [of 24 n] in \<open>simp_all add: le32_def\<close>)
  qed
qed simp

text \<open>What both readers compute, in terms of the words found in memory.\<close>

definition stored_crc :: "u32 list \<Rightarrow> u32" where
  "stored_crc ws = crc_update 0xffffffff (concat (map le32 (take 31 ws)))"

lemma crc_of_words: "length ws = 32 \<Longrightarrow> eboot_command_calculate_crc32 (command_of_words ws) = stored_crc ws"
  by (simp add: eboot_command_calculate_crc32_def words_command stored_crc_def)

lemma read_rejects:
  "length ws = 32 \<Longrightarrow> map mem [0..<32] = ws \<Longrightarrow> ws ! 31 \<noteq> stored_crc ws \<Longrightarrow> fst (eboot_command_read mem) = 1"
  by (simp add: eboot_command_read_def Let_def crc_of_words) (simp add: command_of_words_def)

lemma stored_crc_word:
  assumes "length ws = 32" "i < 31" "w \<noteq> ws ! i"
  shows "stored_crc (ws[i := w]) \<noteq> stored_crc ws"
proof -
  define q where "q = drop (Suc i) (take 31 ws)"
  have t: "take 31 ws = take i ws @ [ws ! i] @ q"
    using assms id_take_nth_drop [of i "take 31 ws"] by (simp add: q_def)
  have u: "take 31 (ws[i := w]) = take i ws @ [w] @ q"
    using assms upd_conv_take_nth_drop [of i "take 31 ws" w] by (simp add: take_update_swap q_def)
  have "length (le32 w) = length (le32 (ws ! i))" "length (le32 w) \<le> 4" "le32 w \<noteq> le32 (ws ! i)"
    using assms by (simp_all add: le32_inj) (simp_all add: le32_def)
  from crc_window [OF this] show ?thesis by (simp add: stored_crc_def t u)
qed

text \<open>What a write leaves behind.\<close>

lemma eboot_written:
  assumes "length (args cmd) = 29" "eboot_command_write cmd mem = (cmd', mem')"
  shows "mem' = store_words (words_of_command cmd') mem" "length (words_of_command cmd') = 32"
    "words_of_command cmd' ! 31 = stored_crc (words_of_command cmd')"
    "action cmd' = action cmd" "args cmd' = args cmd" "eboot_command_read mem' = (0, cmd')" "core_eboot_command_read mem' = (0, cmd')"
proof -
  define ws where "ws = words_of_command cmd'"
  have c: "cmd' = cmd\<lparr>magic := EBOOT_MAGIC, crc32 := eboot_command_calculate_crc32 (cmd\<lparr>magic := EBOOT_MAGIC\<rparr>)\<rparr>"
    and mm: "mem' = store_words ws mem"
    using assms(2) by (auto simp: eboot_command_write_def Let_def ws_def)
  have len: "length ws = 32" and bk: "command_of_words ws = cmd'"
    using assms(1) by (simp_all add: c ws_def command_words)
  have m: "map mem' [0..<32] = ws"
    by (rule nth_equalityI) (simp_all add: len mm store_words_def)
  have crc: "crc32 cmd' = eboot_command_calculate_crc32 cmd'"
    using assms(1) by (simp add: c eboot_command_calculate_crc32_def words_of_command_def)
  then show "words_of_command cmd' ! 31 = stored_crc (words_of_command cmd')"
    using crc_of_words [OF len] assms(1) unfolding bk ws_def [symmetric]
    by (simp add: ws_def words_of_command_def nth_append c)
  show "mem' = store_words (words_of_command cmd') mem" "length (words_of_command cmd') = 32"
    using mm len by (simp_all add: ws_def)
  show "action cmd' = action cmd" "args cmd' = args cmd" by (simp_all add: c)
  have "magic cmd' = EBOOT_MAGIC" by (simp add: c)
  then show "eboot_command_read mem' = (0, cmd')" "core_eboot_command_read mem' = (0, cmd')"
    by (simp_all add: eboot_command_read_def core_eboot_command_read_def Let_def m bk flip: crc)
      (simp_all add: EBOOT_MAGIC_def EBOOT_MAGIC_MASK_def)
qed

text \<open>(C11) The hand-over of a command from the sketch to the boot loader across a reset: what the core has written the
  loader reads back unchanged and accepts, as the core's own reader does; words outside the block are not
  touched; and when any one of the 32 words of the block has been changed in the meantime, to any value,
  the loader rejects it.\<close>

theorem eboot_command_handover:
  assumes "length (args cmd) = 29" "eboot_command_write cmd mem = (cmd', mem')"
  shows "eboot_command_read mem' = (0, cmd') \<and> core_eboot_command_read mem' = (0, cmd')
    \<and> action cmd' = action cmd \<and> args cmd' = args cmd \<and> (\<forall>i. i \<ge> 32 \<longrightarrow> mem' i = mem i)
    \<and> (\<forall>i w. i < 32 \<and> w \<noteq> mem' i \<longrightarrow> fst (eboot_command_read (mem'(i := w))) = 1)"
proof -
  define ws where "ws = words_of_command cmd'"
  note W = eboot_written [OF assms, folded ws_def]
  have "fst (eboot_command_read (mem'(i := w))) = 1" if i: "i < 32" and w: "w \<noteq> mem' i" for i w
  proof -
    have u: "map (mem'(i := w)) [0..<32] = ws[i := w]"
      using i by (intro nth_equalityI) (simp_all add: W(1,2) store_words_def nth_list_update)
    have wi: "w \<noteq> ws ! i" using w i by (simp add: W(1) store_words_def)
    have "ws[i := w] ! 31 \<noteq> stored_crc (ws[i := w])"
    proof (cases "i = 31")
      case True
      then show ?thesis using W(2,3) wi by (simp add: stored_crc_def)
    qed (use W(2,3) stored_crc_word [OF W(2) _ wi] i in auto)
    then show ?thesis using read_rejects [OF _ u] W(2) by simp
  qed
  then show ?thesis using W(4-7) by (simp add: W(1) store_words_def)
qed

text \<open>The command of an update is accepted, and rejected with one word changed.\<close>

theorem eboot_command_handover_witness:
  "\<exists>cmd' mem'. eboot_command_write \<lparr>magic = 0, action = ACTION_COPY_RAW, args = replicate 29 7, crc32 = 0\<rparr> (\<lambda>_. 0) = (cmd', mem')
    \<and> eboot_command_read mem' = (0, cmd') \<and> args cmd' = replicate 29 7 \<and> fst (eboot_command_read (mem'(3 := 8))) = 1"
proof -
  let ?c = "\<lparr>magic = 0, action = ACTION_COPY_RAW, args = replicate 29 7, crc32 = 0\<rparr>"
  obtain cmd' mem' where w: "eboot_command_write ?c (\<lambda>_. 0) = (cmd', mem')" by fastforce
  then have "mem' 3 = 7" by (auto simp: eboot_command_write_def Let_def store_words_def words_of_command_def nth_append)
  with w eboot_command_handover [OF _ w] show ?thesis by auto
qed

section \<open>The loader's test of the magic number\<close>

text \<open>In C \<^verbatim>\<open>magic & EBOOT_MAGIC_MASK != EBOOT_MAGIC\<close> compares first, so that the loader tests the lowest bit of the
  magic number only, and \<^verbatim>\<open>eboot_command_clear\<close>, which zeroes the magic number and the check sum, does not always
  invalidate the block for it: whatever the action and the other arguments are, there is a last argument
  for which the cleared block is accepted. The core's reader rejects every cleared block.\<close>

lemma stored_crc_onto:
  assumes "length ws = 32"
  shows "\<exists>w. stored_crc (ws[30 := w]) = c"
proof -
  have "inj (\<lambda>w. stored_crc (ws[30 := w]))"
  proof (rule injI, rule ccontr)
    fix v w assume eq: "stored_crc (ws[30 := v]) = stored_crc (ws[30 := w])" and "v \<noteq> w"
    then show False using stored_crc_word [of "ws[30 := w]" 30 v] assms by simp
  qed
  then have "surj (\<lambda>w. stored_crc (ws[30 := w]))" by (simp add: finite_UNIV_inj_surj)
  then show ?thesis by (metis surjD)
qed

lemma cleared_block_accepted:
  assumes "length as = 28"
  shows "\<exists>x. \<forall>mem mg c. let cleared = eboot_command_clear
      (store_words (words_of_command \<lparr>magic = mg, action = a, args = as @ [x], crc32 = c\<rparr>) mem)
    in fst (eboot_command_read cleared) = 0 \<and> fst (core_eboot_command_read cleared) = 1"
proof -
  define ws where "ws x = [0, a] @ as @ [x, 0]" for x :: u32
  have len: "length (ws x) = 32" and upd: "(ws y)[30 := x] = ws x" for x y
    using assms by (simp_all add: ws_def list_update_append)
  from stored_crc_onto [OF len, of 0] obtain x where x: "stored_crc (ws x) = 0" unfolding upd by blast
  have m: "map (eboot_command_clear (store_words (words_of_command \<lparr>magic = mg, action = a, args = as @ [x], crc32 = c\<rparr>) mem))
      [0..<32] = ws x" for mem mg c
    using assms by (intro nth_equalityI)
      (auto simp: len eboot_command_clear_def store_words_def words_of_command_def ws_def nth_append nth_Cons')
  have "command_of_words (ws x) = \<lparr>magic = 0, action = a, args = as @ [x], crc32 = 0\<rparr>"
    using assms by (simp add: command_of_words_def ws_def nth_append)
  with x crc_of_words [OF len, of x]
  have "fst (eboot_command_read mem) = 0 \<and> fst (core_eboot_command_read mem) = 1" if "map mem [0..<32] = ws x" for mem
    using that by (simp add: eboot_command_read_def core_eboot_command_read_def EBOOT_MAGIC_def)
  with m show ?thesis unfolding Let_def by blast
qed

end
