(* ===== verification/Eboot.thy ===== *)
theory Eboot
  imports Eboot_Command
begin

text \<open>
  The boot loader of the ESP8266, \<^verbatim>\<open>eboot.c\<close> and \<^verbatim>\<open>flash.c\<close>: copying a staged update inside the flash, loading the
  sections of an application into memory, and the main program that obeys the command block. The
  routines in the ROM of the chip are the fields of the parameter \<open>m\<close>; they act on a hardware state
  \<open>'h\<close> of their own. A status other than 0 is a failure.
\<close>

section \<open>State\<close>

record 'h rom =
  SPIRead :: "u32 \<Rightarrow> u32 \<Rightarrow> 'h \<Rightarrow> (int \<times> u8 list) \<times> 'h"
  SPIWrite :: "u32 \<Rightarrow> u8 list \<Rightarrow> 'h \<Rightarrow> int \<times> 'h"
  SPIEraseSector :: "u32 \<Rightarrow> 'h \<Rightarrow> int \<times> 'h"
  SPIEraseBlock :: "u32 \<Rightarrow> 'h \<Rightarrow> int \<times> 'h"
  ets_putc :: "char \<Rightarrow> 'h \<Rightarrow> 'h"
  ets_printf :: "string \<Rightarrow> u32 \<Rightarrow> 'h \<Rightarrow> 'h"
  ets_wdt_enable :: "'h \<Rightarrow> 'h"
  ets_wdt_disable :: "'h \<Rightarrow> 'h"

record image_header_t =
  img_magic :: u8
  num_segments :: u8
  flash_mode :: u8
  flash_size_freq :: u8
  entry :: u32

record section_header_t =
  address :: u32
  sec_size :: u32

text \<open>The memory of the clock, the main memory, and the hardware behind the ROM.\<close>

record 'h eb =
  RTC_MEM :: "nat \<Rightarrow> u32"
  ram :: "u32 \<Rightarrow> u8"
  chip :: 'h

definition FLASH_SECTOR_SIZE :: u32 where
  "FLASH_SECTOR_SIZE = 0x1000"

definition FLASH_BLOCK_SIZE :: u32 where
  "FLASH_BLOCK_SIZE = 0x10000"

definition APP_START_OFFSET :: u32 where
  "APP_START_OFFSET = 0x1000"

lemmas geometry = FLASH_SECTOR_SIZE_def FLASH_BLOCK_SIZE_def APP_START_OFFSET_def

definition of_le32 :: "u8 list \<Rightarrow> u32" where
  "of_le32 bs = ucast (bs ! 0) OR push_bit 8 (ucast (bs ! 1)) OR push_bit 16 (ucast (bs ! 2)) OR push_bit 24 (ucast (bs ! 3))"

definition image_header_of :: "u8 list \<Rightarrow> image_header_t" where
  "image_header_of bs = \<lparr>img_magic = bs ! 0, num_segments = bs ! 1, flash_mode = bs ! 2, flash_size_freq = bs ! 3,
     entry = of_le32 (drop 4 bs)\<rparr>"

definition section_header_of :: "u8 list \<Rightarrow> section_header_t" where
  "section_header_of bs = \<lparr>address = of_le32 bs, sec_size = of_le32 (drop 4 bs)\<rparr>"

text \<open>Bytes arriving in memory from address \<open>a\<close> on.\<close>

definition poke :: "u32 \<Rightarrow> u8 list \<Rightarrow> (u32 \<Rightarrow> u8) \<Rightarrow> u32 \<Rightarrow> u8" where
  "poke a bs r = (\<lambda>x. if unat (x - a) < length bs then bs ! unat (x - a) else r x)"

section \<open>Erasing an area\<close>

partial_function (option) erase_head :: "'h rom \<Rightarrow> u32 \<Rightarrow> u32 \<Rightarrow> u32 \<Rightarrow> 'h \<Rightarrow> (int \<times> u32 \<times> 'h) option" where
  "erase_head m per_block end current h =
     (if current < end \<and> current AND (per_block - 1) \<noteq> 0 then
        (case SPIEraseSector m current h of (e, h) \<Rightarrow>
           if e \<noteq> 0 then Some (2, current, h) else erase_head m per_block end (current + 1) h)
      else Some (0, current, h))"

partial_function (option) erase_blocks :: "'h rom \<Rightarrow> u32 \<Rightarrow> u32 \<Rightarrow> u32 \<Rightarrow> 'h \<Rightarrow> (int \<times> u32 \<times> 'h) option" where
  "erase_blocks m per_block end current h =
     (if current + per_block \<le> end then
        (case SPIEraseBlock m (current div per_block) h of (e, h) \<Rightarrow>
           if e \<noteq> 0 then Some (3, current, h) else erase_blocks m per_block end (current + per_block) h)
      else Some (0, current, h))"

partial_function (option) erase_tail :: "'h rom \<Rightarrow> u32 \<Rightarrow> u32 \<Rightarrow> 'h \<Rightarrow> (int \<times> 'h) option" where
  "erase_tail m end current h =
     (if current < end then
        (case SPIEraseSector m current h of (e, h) \<Rightarrow>
           if e \<noteq> 0 then Some (4, h) else erase_tail m end (current + 1) h)
      else Some (0, h))"

definition SPIEraseAreaEx :: "'h rom \<Rightarrow> u32 \<Rightarrow> u32 \<Rightarrow> 'h \<Rightarrow> (int \<times> 'h) option" where
  "SPIEraseAreaEx m start sz h =
     (if start AND (if FLASH_SECTOR_SIZE - 1 \<noteq> 0 then 1 else 0) \<noteq> 0 then Some (1, h)
      else do {
        let per_block = FLASH_BLOCK_SIZE div FLASH_SECTOR_SIZE;
        let current = start div FLASH_SECTOR_SIZE;
        let count = (sz + FLASH_SECTOR_SIZE - 1) div FLASH_SECTOR_SIZE;
        let end = current + count;
        (e, current, h) \<leftarrow> erase_head m per_block end current h;
        if e \<noteq> 0 then Some (e, h) else do {
          (e, current, h) \<leftarrow> erase_blocks m per_block end current h;
          if e \<noteq> 0 then Some (e, h) else erase_tail m end current h
        }
      })"

section \<open>Copying inside the flash\<close>

partial_function (option) copy_loop :: "'h rom \<Rightarrow> u32 \<Rightarrow> u32 \<Rightarrow> u32 \<Rightarrow> 'h \<Rightarrow> (int \<times> 'h) option" where
  "copy_loop m saddr daddr left h =
     (if left \<noteq> 0 then
        (case SPIEraseSector m (daddr div FLASH_SECTOR_SIZE) h of (e, h) \<Rightarrow>
           if e \<noteq> 0 then Some (2, h) else
        (case SPIRead m saddr FLASH_SECTOR_SIZE h of ((e, buffer), h) \<Rightarrow>
           if e \<noteq> 0 then Some (3, h) else
        (case SPIWrite m daddr buffer h of (e, h) \<Rightarrow>
           if e \<noteq> 0 then Some (4, h) else
           copy_loop m (saddr + FLASH_SECTOR_SIZE) (daddr + FLASH_SECTOR_SIZE) (left - FLASH_SECTOR_SIZE) h)))
      else Some (0, h))"

definition copy_raw :: "'h rom \<Rightarrow> u32 \<Rightarrow> u32 \<Rightarrow> u32 \<Rightarrow> 'h \<Rightarrow> (int \<times> 'h) option" where
  "copy_raw m src_addr dst_addr sz h =
     (if src_addr AND (if (0xfff :: u32) \<noteq> 0 then 1 else 0) \<noteq> 0 \<or> dst_addr AND (if (0xfff :: u32) \<noteq> 0 then 1 else 0) \<noteq> 0
      then Some (1, h)
      else copy_loop m src_addr dst_addr ((sz + FLASH_SECTOR_SIZE - 1) AND NOT (FLASH_SECTOR_SIZE - 1)) h)"

section \<open>Loading an application\<close>

definition print_version :: "'h rom \<Rightarrow> u32 \<Rightarrow> 'h \<Rightarrow> int \<times> 'h" where
  "print_version m flash_addr h =
     (case SPIRead m (flash_addr + APP_START_OFFSET + 8 + 8) 4 h of ((e, ver), h) \<Rightarrow>
        if e \<noteq> 0 then (1, h) else (0, ets_printf m (''v%08x'' @ [CHR 10]) (of_le32 ver) h))"

definition loadable :: "u32 \<Rightarrow> bool" where
  "loadable a \<longleftrightarrow> a < 0x40000000 \<or> (a \<ge> 0x40100000 \<and> a < 0x40108000) \<or> a \<ge> 0x60000000"

text \<open>The loop over the sections, by the number that is left; a failure is its code.\<close>

fun load_sections :: "'h rom \<Rightarrow> nat \<Rightarrow> u32 \<Rightarrow> 'h eb \<Rightarrow> int option \<times> 'h eb" where
  "load_sections m 0 pos s = (None, s)"
| "load_sections m (Suc n) pos s =
     (case SPIRead m pos 8 (chip s) of ((e, bs), h) \<Rightarrow>
        if e \<noteq> 0 then (Some 2, s\<lparr>chip := h\<rparr>)
        else let sh = section_header_of bs; pos = pos + 8 in
          if \<not> loadable (address sh) then load_sections m n (pos + sec_size sh) (s\<lparr>chip := h\<rparr>)
          else (case SPIRead m pos (sec_size sh) h of ((e, bs), h) \<Rightarrow>
            let s = s\<lparr>chip := h, ram := poke (address sh) bs (ram s)\<rparr> in
            if e \<noteq> 0 then (Some 3, s) else load_sections m n (pos + sec_size sh) s))"

text \<open>\<open>Inr\<close> is the jump to the entry point, \<open>Inl\<close> the returned code.\<close>

definition load_app_from_flash_raw :: "'h rom \<Rightarrow> u32 \<Rightarrow> 'h eb \<Rightarrow> (int + u32) \<times> 'h eb" where
  "load_app_from_flash_raw m flash_addr s =
     (let pos = flash_addr + APP_START_OFFSET in
      case SPIRead m pos 8 (chip s) of ((e, bs), h) \<Rightarrow>
        if e \<noteq> 0 then (Inl 1, s\<lparr>chip := h\<rparr>)
        else let ih = image_header_of bs in
          case load_sections m (unat (num_segments ih)) (pos + 8) (s\<lparr>chip := h\<rparr>) of
            (Some e, s) \<Rightarrow> (Inl e, s)
          | (None, s) \<Rightarrow> (Inr (entry ih), s))"

section \<open>Main program\<close>

datatype boot_end = Jump u32 | Software_Reset | Endless_Loop

definition put_digit :: "'h rom \<Rightarrow> int \<Rightarrow> 'h \<Rightarrow> 'h" where
  "put_digit m res h = ets_putc m (char_of (nat (48 + res))) h"

definition puts :: "'h rom \<Rightarrow> string \<Rightarrow> 'h \<Rightarrow> 'h" where
  "puts m cs h = fold (ets_putc m) cs h"

definition copy_command :: "'h rom \<Rightarrow> eboot_command \<Rightarrow> 'h eb \<Rightarrow> (int \<times> eboot_command \<times> 'h eb) option" where
  "copy_command m cmd s = do {
     let h = ets_wdt_disable m (puts m ''cp:'' (chip s));
     (res, h) \<leftarrow> copy_raw m (args cmd ! 0) (args cmd ! 1) (args cmd ! 2) h;
     let h = puts m [CHR 10] (put_digit m res (ets_wdt_enable m h));
     Some (res,
       if res = 0 then cmd\<lparr>action := ACTION_LOAD_APP, args := (args cmd)[0 := args cmd ! 1]\<rparr> else cmd,
       s\<lparr>chip := h\<rparr>)
   }"

definition eboot_main :: "'h rom \<Rightarrow> 'h eb \<Rightarrow> (boot_end \<times> 'h eb) option" where
  "eboot_main m s = do {
     let s = s\<lparr>chip := snd (print_version m 0 (chip s))\<rparr>;
     let (e, cmd) = eboot_command_read (RTC_MEM s);
     let (cmd, s) =
       (if e = 0 then (cmd, s\<lparr>RTC_MEM := eboot_command_clear (RTC_MEM s), chip := ets_putc m (CHR ''@'') (chip s)\<rparr>)
        else (cmd\<lparr>action := ACTION_LOAD_APP, args := (args cmd)[0 := 0]\<rparr>, s\<lparr>chip := ets_putc m (CHR ''~'') (chip s)\<rparr>));
     (res, cmd, s) \<leftarrow> (if action cmd = ACTION_COPY_RAW then copy_command m cmd s else Some (9, cmd, s));
     let (res, s) =
       (if action cmd = ACTION_LOAD_APP then
          (case load_app_from_flash_raw m (args cmd ! 0) (s\<lparr>chip := puts m (''ld'' @ [CHR 10]) (chip s)\<rparr>) of
             (Inr pc, s) \<Rightarrow> (Inr pc, s)
           | (Inl res, s) \<Rightarrow> (Inl res, s\<lparr>chip := puts m [CHR 10] (put_digit m res (puts m ''e:'' (chip s)))\<rparr>))
        else (Inl res, s));
     Some (case res of Inr pc \<Rightarrow> Jump pc | Inl res \<Rightarrow> if res \<noteq> 0 then Software_Reset else Endless_Loop, s)
   }"

end
