(* ===== verification/Eboot_Update.thy ===== *)
theory Eboot_Update
  imports Eboot
begin

text \<open>
  What the boot loader of the ESP8266 does with a flash chip that works: erasing an area by blocks, copying an
  update over the old application, loading an image, and the whole way from the command a sketch has
  left behind to the jump into the new application.
\<close>

lemma unat_of_nat32: "n < 2 ^ 32 \<Longrightarrow> unat (of_nat n :: u32) = n"
  by (simp add: unat_of_nat take_bit_eq_mod)

lemma unat_add32: "unat (a :: u32) + unat b < 2 ^ 32 \<Longrightarrow> unat (a + b) = unat a + unat b"
  by (simp add: unat_word_ariths)

lemma even_low_bit: "4096 dvd unat (a :: u32) \<Longrightarrow> a AND 1 = 0"
  by (simp add: and_one_eq word_unat_eq_iff unat_mod) (auto elim!: dvdE)

text \<open>The number of sectors that hold a number of bytes, and the rounding of the code.\<close>

definition sectors :: "nat \<Rightarrow> nat" where
  "sectors n = (n + 4095) div 4096"

lemma and_not_low: "x AND NOT (mask n) = push_bit n (drop_bit n (x :: u32))"
  by (rule bit_word_eqI) (auto simp: bit_simps)

lemma round_up:
  assumes "unat sz + 4095 < 2 ^ 32"
  shows "(sz + 4095) AND NOT 4095 = (of_nat (sectors (unat sz) * 4096) :: u32)"
proof -
  have "(4095 :: u32) = mask 12" by (simp add: mask_eq_exp_minus_1)
  then have "(sz + 4095) AND NOT 4095 = push_bit 12 (drop_bit 12 (sz + 4095))" by (simp only: and_not_low)
  also have "\<dots> = (sz + 4095) div 4096 * 4096" by (simp add: push_bit_eq_mult drop_bit_eq_div)
  also have "unat ((sz + 4095) div 4096) = sectors (unat sz)"
    using assms by (simp add: unat_div sectors_def unat_word_ariths)
  then have "(sz + 4095) div 4096 = of_nat (sectors (unat sz))" by (metis of_nat_unat ucast_id)
  finally show ?thesis by simp
qed

lemma low4: "c AND 15 = 0 \<longleftrightarrow> 16 dvd unat (c :: u32)"
proof -
  have "(15 :: u32) = mask 4" by (simp add: mask_eq_exp_minus_1)
  then have "c AND 15 = take_bit 4 c" by (simp only: take_bit_eq_mask)
  then have "c AND 15 = c mod 16" by (simp add: take_bit_eq_mod)
  then show ?thesis by (simp add: word_unat_eq_iff unat_mod dvd_eq_mod_eq_0)
qed

lemma sectors_bound: "sectors (unat sz) * 4096 < 2 ^ 32 \<Longrightarrow> unat (sz :: u32) + 4095 < 2 ^ 32"
  by (simp add: sectors_def div_less_iff_less_mult)

lemma block_of_sector: "16 dvd c \<Longrightarrow> x div 65536 = c div 16 \<longleftrightarrow> c \<le> x div 4096 \<and> x div 4096 < c + (16 :: nat)"
proof -
  assume "16 dvd c"
  then obtain k where k: "c = 16 * k" by (elim dvdE)
  have "x div 65536 = x div 4096 div 16" by (simp add: div_mult2_eq [symmetric])
  then show ?thesis by (simp add: k) linarith
qed

section \<open>Application images\<close>

text \<open>An image as the tools write it: a header, and for each section its address, its length and its bytes.\<close>

type_synonym app_section = "u32 \<times> u8 list"

definition encode_section :: "app_section \<Rightarrow> u8 list" where
  "encode_section sec = le32 (fst sec) @ le32 (of_nat (length (snd sec))) @ snd sec"

definition encode_image :: "u8 \<Rightarrow> u8 \<Rightarrow> u8 \<Rightarrow> u32 \<Rightarrow> app_section list \<Rightarrow> u8 list" where
  "encode_image mg mode freq pc secs = [mg, of_nat (length secs), mode, freq] @ le32 pc @ concat (map encode_section secs)"

definition good_image :: "app_section list \<Rightarrow> bool" where
  "good_image secs \<longleftrightarrow> length secs < 256 \<and> (\<forall>sec \<in> set secs. 4 dvd length (snd sec))"

text \<open>What loading is to do to the memory: the sections for RAM and peripherals are placed, those that are
  executed from flash are skipped.\<close>

definition load_section :: "app_section \<Rightarrow> (u32 \<Rightarrow> u8) \<Rightarrow> u32 \<Rightarrow> u8" where
  "load_section sec r = (if loadable (fst sec) then poke (fst sec) (snd sec) r else r)"

definition holds :: "(nat \<Rightarrow> u8) \<Rightarrow> nat \<Rightarrow> u8 list \<Rightarrow> bool" where
  "holds f p bs \<longleftrightarrow> map f [p..<p + length bs] = bs"

lemma encode_section_pair: "encode_section (a, bs) = le32 a @ le32 (of_nat (length bs)) @ bs"
  by (simp add: encode_section_def)

lemma length_le32 [simp]: "length (le32 w) = 4"
  by (simp add: le32_def)

lemma of_le32 [simp]: "of_le32 (le32 w @ xs) = w" "of_le32 (le32 w) = w"
proof -
  have "of_le32 (le32 w @ ys) = w" for ys
  proof (rule bit_word_eqI)
    fix n assume "n < LENGTH(32)"
    then consider "n < 8" | "8 \<le> n" "n < 16" | "16 \<le> n" "n < 24" | "24 \<le> n" "n < 32" by force
    then show "bit (of_le32 (le32 w @ ys)) n = bit w n"
      by cases (auto simp: of_le32_def le32_def bit_simps)
  qed
  from this [of xs] this [of "[]"] show "of_le32 (le32 w @ xs) = w" "of_le32 (le32 w) = w" by simp_all
qed

lemma holds_append: "holds f p (xs @ ys) \<longleftrightarrow> holds f p xs \<and> holds f (p + length xs) ys"
proof -
  have "[p..<p + (length xs + length ys)] = [p..<p + length xs] @ [p + length xs..<p + length xs + length ys]"
    by (metis add.assoc le_add1 upt_add_eq_append)
  then show ?thesis by (simp add: holds_def append_eq_append_conv)
qed

text \<open>The contents of the flash after \<open>k\<close> bytes have been copied from \<open>s\<close> to \<open>d\<close>.\<close>

definition copied :: "nat \<Rightarrow> nat \<Rightarrow> nat \<Rightarrow> (nat \<Rightarrow> u8) \<Rightarrow> nat \<Rightarrow> u8" where
  "copied s d k f = (\<lambda>x. if d \<le> x \<and> x < d + k then f (x - d + s) else f x)"

section \<open>The flash chip\<close>

text \<open>A NOR flash of \<open>cap\<close> bytes behind the ROM routines, as the data sheets describe it: \<open>img\<close> reads its contents off the
  hardware state, \<open>up\<close> says that it works. Reads and writes are by aligned words; erasing sets the bytes
  of a sector or a block to \<open>0xFF\<close>; writing can only clear bits. The other routines leave it alone.\<close>

locale nor_flash =
  fixes m :: "'h rom" and img :: "'h \<Rightarrow> nat \<Rightarrow> u8" and up :: "'h \<Rightarrow> bool" and cap :: nat
  assumes read_law: "up h \<Longrightarrow> 4 dvd unat a \<Longrightarrow> 4 dvd unat n \<Longrightarrow> unat a + unat n \<le> cap \<Longrightarrow>
      \<exists>h'. SPIRead m a n h = ((0, map (img h) [unat a..<unat a + unat n]), h') \<and> up h' \<and> img h' = img h"
    and write_law: "up h \<Longrightarrow> 4 dvd unat a \<Longrightarrow> 4 dvd length bs \<Longrightarrow> unat a + length bs \<le> cap \<Longrightarrow>
      \<exists>h'. SPIWrite m a bs h = (0, h') \<and> up h'
        \<and> img h' = (\<lambda>x. if unat a \<le> x \<and> x < unat a + length bs then img h x AND bs ! (x - unat a) else img h x)"
    and sector_law: "up h \<Longrightarrow> Suc (unat k) * 4096 \<le> cap \<Longrightarrow>
      \<exists>h'. SPIEraseSector m k h = (0, h') \<and> up h' \<and> img h' = (\<lambda>x. if x div 4096 = unat k then 0xFF else img h x)"
    and block_law: "up h \<Longrightarrow> Suc (unat k) * 65536 \<le> cap \<Longrightarrow>
      \<exists>h'. SPIEraseBlock m k h = (0, h') \<and> up h' \<and> img h' = (\<lambda>x. if x div 65536 = unat k then 0xFF else img h x)"
    and putc_law: "up h \<Longrightarrow> up (ets_putc m c h) \<and> img (ets_putc m c h) = img h"
    and printf_law: "up h \<Longrightarrow> up (ets_printf m f v h) \<and> img (ets_printf m f v h) = img h"
    and wdt_law: "up h \<Longrightarrow> up (ets_wdt_enable m h) \<and> img (ets_wdt_enable m h) = img h"
      "up h \<Longrightarrow> up (ets_wdt_disable m h) \<and> img (ets_wdt_disable m h) = img h"
    and cap_law: "cap < 2 ^ 32"
begin

text \<open>One turn of the copy loop replaces one sector.\<close>

lemma copy_sector:
  assumes "up h" "4096 dvd unat s" "4096 dvd unat d" "unat s + 4096 \<le> cap" "unat d + 4096 \<le> cap" "left \<noteq> 0"
    and disjoint: "unat d + 4096 \<le> unat s \<or> unat s + 4096 \<le> unat d"
  shows "\<exists>h'. copy_loop m s d left h = copy_loop m (s + 4096) (d + 4096) (left - 4096) h' \<and> up h'
    \<and> img h' = copied (unat s) (unat d) 4096 (img h)"
proof -
  obtain k where k: "unat d = 4096 * k" using assms(3) by auto
  obtain j where j: "unat s = 4096 * j" using assms(2) by auto
  have ds: "unat (d div 4096) = k" by (simp add: unat_div k)
  obtain h1 where h1: "SPIEraseSector m (d div 4096) h = (0, h1)" "up h1"
    "img h1 = (\<lambda>x. if x div 4096 = k then 0xFF else img h x)"
    using sector_law [OF assms(1), of "d div 4096"] assms(5) by (auto simp: ds k)
  define bs where "bs = map (img h1) [unat s..<unat s + 4096]"
  obtain h2 where h2: "SPIRead m s 4096 h1 = ((0, bs), h2)" "up h2" "img h2 = img h1"
    using read_law [OF h1(2), of s 4096] assms(4) by (auto simp: j bs_def)
  obtain h3 where h3: "SPIWrite m d bs h2 = (0, h3)" "up h3"
    "img h3 = (\<lambda>x. if unat d \<le> x \<and> x < unat d + length bs then img h2 x AND bs ! (x - unat d) else img h2 x)"
    using write_law [OF h2(2), of d bs] assms(5) by (auto simp: k bs_def)
  have sec: "x div 4096 = k \<longleftrightarrow> unat d \<le> x \<and> x < unat d + 4096" for x
    unfolding k by linarith
  have src: "img h1 x = img h x" if "unat s \<le> x" "x < unat s + 4096" for x
    using that disjoint by (auto simp: h1(3) sec)
  have len: "length bs = 4096" and buf: "i < 4096 \<Longrightarrow> bs ! i = img h (i + unat s)" for i
    by (simp_all add: bs_def src add.commute)
  have "img h3 = copied (unat s) (unat d) 4096 (img h)"
    by (auto simp: fun_eq_iff h3(3) h2(3) h1(3) len buf sec and_FF copied_def)
  then show ?thesis using h1(1) h2(1) h3(1,2) assms(6)
    by (subst copy_loop.simps) (auto simp: FLASH_SECTOR_SIZE_def)
qed

lemma unat_step: "unat (s :: u32) + n \<le> cap \<Longrightarrow> unat (s + of_nat n) = unat s + n"
proof -
  assume l: "unat s + n \<le> cap"
  then have "unat (of_nat n :: u32) = n" using cap_law by (simp add: unat_of_nat32)
  then show ?thesis using l cap_law by (simp add: unat_word_ariths)
qed

lemma copy_loop_copies:
  assumes "up h" "4096 dvd unat s" "4096 dvd unat d" "unat s + n * 4096 \<le> cap" "unat d + n * 4096 \<le> cap"
    and "unat d < unat s \<or> unat s + n * 4096 \<le> unat d"
  shows "\<exists>h'. copy_loop m s d (of_nat (n * 4096)) h = Some (0, h') \<and> up h'
    \<and> img h' = copied (unat s) (unat d) (n * 4096) (img h)"
  using assms
proof (induction n arbitrary: s d h)
  case 0
  then show ?case by (subst copy_loop.simps) (auto simp: fun_eq_iff copied_def)
next
  case (Suc n)
  have left: "of_nat (Suc n * 4096) - 4096 = (of_nat (n * 4096) :: u32)" by simp
  have "unat (of_nat (Suc n * 4096) :: u32) = Suc n * 4096"
    using Suc.prems(4) cap_law unat_of_nat32 [of "Suc n * 4096"] by simp
  then have nz: "of_nat (Suc n * 4096) \<noteq> (0 :: u32)" by (metis mult_is_0 nat.simps(3) unat_0 zero_neq_numeral)
  have us: "unat (s + 4096) = unat s + 4096" and ud: "unat (d + 4096) = unat d + 4096"
    using unat_step [of s 4096] unat_step [of d 4096] Suc.prems(4,5) by simp_all
  have "unat d + 4096 \<le> unat s \<or> unat s + 4096 \<le> unat d"
    using Suc.prems(2,3,6) by (auto elim!: dvdE)
  with Suc.prems nz obtain h1 where h1: "copy_loop m s d (of_nat (Suc n * 4096)) h
      = copy_loop m (s + 4096) (d + 4096) (of_nat (n * 4096)) h1" "up h1"
    "img h1 = copied (unat s) (unat d) 4096 (img h)"
    using copy_sector [of h s d "of_nat (Suc n * 4096)"] unfolding left by auto
  obtain h2 where h2: "copy_loop m (s + 4096) (d + 4096) (of_nat (n * 4096)) h1 = Some (0, h2)" "up h2"
    "img h2 = copied (unat s + 4096) (unat d + 4096) (n * 4096) (img h1)"
    using Suc.IH [OF h1(2), of "s + 4096" "d + 4096", unfolded us ud] Suc.prems by auto
  have "img h2 = copied (unat s) (unat d) (Suc n * 4096) (img h)"
    using Suc.prems(6) by (auto simp: h2(3) h1(3) fun_eq_iff copied_def)
  then show ?case using h1(1) h2(1,2) by auto
qed

lemma copy_raw_copies:
  assumes "up h" "4096 dvd unat src" "4096 dvd unat dst" and n: "n = sectors (unat sz)"
    and "unat src + n * 4096 \<le> cap" "unat dst + n * 4096 \<le> cap" "unat dst < unat src \<or> unat src + n * 4096 \<le> unat dst"
  shows "\<exists>h'. copy_raw m src dst sz h = Some (0, h') \<and> up h'
    \<and> img h' = copied (unat src) (unat dst) (n * 4096) (img h)"
proof -
  have e: "src AND 1 = 0" "dst AND 1 = 0" using assms(2,3) by (simp_all add: even_low_bit)
  have "unat sz + 4095 < 2 ^ 32" using assms(5) cap_law by (intro sectors_bound) (simp add: n)
  then have "(sz + FLASH_SECTOR_SIZE - 1) AND NOT (FLASH_SECTOR_SIZE - 1) = of_nat (n * 4096)"
    using round_up [of sz] by (simp add: n FLASH_SECTOR_SIZE_def add.commute)
  then show ?thesis using copy_loop_copies [OF assms(1-3,5-7)] e by (simp add: copy_raw_def)
qed

section \<open>Erasing by blocks\<close>

text \<open>The contents after the sectors from \<open>i\<close> to \<open>j\<close> have been erased one by one.\<close>

abbreviation (input) erased :: "nat \<Rightarrow> nat \<Rightarrow> 'h \<Rightarrow> nat \<Rightarrow> u8" where
  "erased i j h \<equiv> (\<lambda>x. if i \<le> x div 4096 \<and> x div 4096 < j then 0xFF else img h x)"

lemma erase_sector_step:
  assumes "up h" "Suc (unat c) * 4096 \<le> cap"
  shows "\<exists>h'. SPIEraseSector m c h = (0, h') \<and> up h' \<and> img h' = erased (unat c) (Suc (unat c)) h"
  using sector_law [OF assms] by (auto simp: fun_eq_iff)

lemma erase_tail_erases:
  "up h \<Longrightarrow> unat e * 4096 \<le> cap \<Longrightarrow> unat c \<le> unat e \<Longrightarrow>
   \<exists>h'. erase_tail m e c h = Some (0, h') \<and> up h' \<and> img h' = erased (unat c) (unat e) h"
proof (induction "unat e - unat c" arbitrary: c h)
  case 0
  then show ?case by (subst erase_tail.simps) (auto simp: word_less_nat_alt fun_eq_iff)
next
  case (Suc d)
  then have ce: "unat c < unat e" by simp
  have d: "d = unat e - Suc (unat c)" using Suc.hyps(2) by simp
  have c1: "unat (c + 1) = Suc (unat c)" using ce unat_step [of c 1] Suc.prems(2) by simp
  obtain h1 where h1: "SPIEraseSector m c h = (0, h1)" "up h1" "img h1 = erased (unat c) (Suc (unat c)) h"
    using erase_sector_step [OF Suc.prems(1), of c] Suc.prems(2) ce by auto
  obtain h2 where "erase_tail m e (c + 1) h1 = Some (0, h2)" "up h2" "img h2 = erased (Suc (unat c)) (unat e) h1"
    using Suc.hyps(1) [OF _ h1(2) Suc.prems(2), of "c + 1", unfolded c1] d ce by auto
  then show ?case using h1 ce by (subst erase_tail.simps) (auto simp: word_less_nat_alt fun_eq_iff)
qed

lemma erase_head_erases:
  "up h \<Longrightarrow> unat e * 4096 \<le> cap \<Longrightarrow> unat c \<le> unat e \<Longrightarrow>
   \<exists>c' h'. erase_head m 16 e c h = Some (0, c', h') \<and> up h' \<and> img h' = erased (unat c) (unat c') h
     \<and> unat c \<le> unat c' \<and> unat c' \<le> unat e \<and> (c' = e \<or> c' AND 15 = 0)"
proof (induction "unat e - unat c" arbitrary: c h)
  case 0
  then have "c = e" by (simp add: word_unat_eq_iff)
  with 0 show ?case by (subst erase_head.simps) (auto simp: fun_eq_iff)
next
  case (Suc d)
  then have ce: "unat c < unat e" by simp
  have d: "d = unat e - Suc (unat c)" using Suc.hyps(2) by simp
  show ?case
  proof (cases "c AND 15 = 0")
    case True
    with Suc.prems show ?thesis by (subst erase_head.simps) (auto simp: fun_eq_iff)
  next
    case False
    have c1: "unat (c + 1) = Suc (unat c)" using unat_step [of c 1] Suc.prems(2) ce by simp
    obtain h1 where h1: "SPIEraseSector m c h = (0, h1)" "up h1" "img h1 = erased (unat c) (Suc (unat c)) h"
      using erase_sector_step [OF Suc.prems(1), of c] Suc.prems(2) ce by auto
    obtain c' h2 where "erase_head m 16 e (c + 1) h1 = Some (0, c', h2)" "up h2"
      "img h2 = erased (Suc (unat c)) (unat c') h1" "Suc (unat c) \<le> unat c'" "unat c' \<le> unat e" "c' = e \<or> c' AND 15 = 0"
      using Suc.hyps(1) [OF _ h1(2) Suc.prems(2), of "c + 1", unfolded c1] d ce by auto
    then show ?thesis using h1 ce False
      by (subst erase_head.simps) (auto simp: word_less_nat_alt fun_eq_iff)
  qed
qed

lemma erase_blocks_erases:
  "up h \<Longrightarrow> unat e * 4096 \<le> cap \<Longrightarrow> unat c \<le> unat e \<Longrightarrow> c = e \<or> 16 dvd unat c \<Longrightarrow>
   \<exists>c' h'. erase_blocks m 16 e c h = Some (0, c', h') \<and> up h' \<and> img h' = erased (unat c) (unat c') h
     \<and> unat c \<le> unat c' \<and> unat c' \<le> unat e"
proof (induction "unat e - unat c" arbitrary: c h rule: less_induct)
  case less
  have c16: "unat (c + 16) = unat c + 16"
    using less.prems(2,3) cap_law by (simp add: unat_word_ariths)
  show ?case
  proof (cases "unat c + 16 \<le> unat e")
    case True
    then have dv: "16 dvd unat c" using less.prems(4) by auto
    have bound: "Suc (unat (c div 16)) * 65536 \<le> cap"
      using True less.prems(2) dv by (auto simp: unat_div elim!: dvdE)
    obtain h1 where h1: "SPIEraseBlock m (c div 16) h = (0, h1)" "up h1" "img h1 = erased (unat c) (unat c + 16) h"
      using block_law [OF less.prems(1) bound] by (auto simp: unat_div block_of_sector [OF dv])
    have d: "unat e - (unat c + 16) < unat e - unat c" using True by simp
    obtain c' h2 where "erase_blocks m 16 e (c + 16) h1 = Some (0, c', h2)" "up h2"
      "img h2 = erased (unat c + 16) (unat c') h1" "unat c + 16 \<le> unat c'" "unat c' \<le> unat e"
      using less.hyps [of "c + 16", unfolded c16, OF d h1(2) less.prems(2) True] dv by auto
    then show ?thesis using h1 True
      by (subst erase_blocks.simps) (auto simp: word_le_nat_alt c16 fun_eq_iff)
  next
    case False
    then show ?thesis using less.prems
      by (subst erase_blocks.simps) (auto simp: word_le_nat_alt c16 fun_eq_iff)
  qed
qed

lemma erase_area_erases:
  assumes "up h" "even (unat start)" and c: "c = unat start div 4096" and n: "n = sectors (unat sz)"
    and "(c + n) * 4096 \<le> cap"
  shows "\<exists>h'. SPIEraseAreaEx m start sz h = Some (0, h') \<and> up h' \<and> img h' = erased c (c + n) h"
proof -
  have ev: "start AND 1 = 0" using assms(2) by (simp add: and_one_eq word_unat_eq_iff unat_mod even_iff_mod_2_eq_zero)
  have "unat sz + 4095 < 2 ^ 32" using assms(5) cap_law by (intro sectors_bound) (simp add: n)
  then have q: "unat ((sz + 4095) div 4096) = n"
    using unat_add32 [of sz 4095] by (simp add: n unat_div sectors_def)
  have c0: "unat (start div 4096) = c" by (simp add: unat_div c)
  define e where "e = start div 4096 + (sz + 4095) div 4096"
  have e: "unat e = c + n"
    using unat_add32 [of "start div 4096" "(sz + 4095) div 4096"] assms(5) cap_law by (simp add: e_def c0 q)
  obtain c1 h1 where h1: "erase_head m 16 e (start div 4096) h = Some (0, c1, h1)" "up h1"
    "img h1 = erased c (unat c1) h" "c \<le> unat c1" "unat c1 \<le> unat e" "c1 = e \<or> c1 AND 15 = 0"
    using erase_head_erases [OF assms(1), of e "start div 4096"] assms(5) by (auto simp: e c0)
  obtain c2 h2 where h2: "erase_blocks m 16 e c1 h1 = Some (0, c2, h2)" "up h2"
    "img h2 = erased (unat c1) (unat c2) h1" "unat c1 \<le> unat c2" "unat c2 \<le> unat e"
    using erase_blocks_erases [OF h1(2), of e c1] assms(5) h1(5,6) by (auto simp: e low4)
  obtain h3 where h3: "erase_tail m e c2 h2 = Some (0, h3)" "up h3" "img h3 = erased (unat c2) (unat e) h2"
    using erase_tail_erases [OF h2(2), of e c2] assms(5) h2(5) by (auto simp: e)
  have "img h3 = erased c (c + n) h"
    using h1(3-5) h2(3-5) h3(3) by (auto simp: fun_eq_iff e)
  moreover have "SPIEraseAreaEx m start sz h = Some (0, h3)"
    using h1(1) h2(1) h3(1) ev by (simp add: SPIEraseAreaEx_def geometry e_def add.commute [of 4095])
  ultimately show ?thesis using h3(2) by blast
qed

section \<open>Loading\<close>

lemma read_holds:
  assumes "up h" "holds (img h) (unat a) bs" "4 dvd unat a" "4 dvd length bs" "unat a + length bs \<le> cap"
  shows "\<exists>h'. SPIRead m a (of_nat (length bs)) h = ((0, bs), h') \<and> up h' \<and> img h' = img h"
proof -
  have "unat (of_nat (length bs) :: u32) = length bs" using assms(5) cap_law by (simp add: unat_of_nat32)
  then show ?thesis using read_law [OF assms(1,3), of "of_nat (length bs)"] assms by (simp add: holds_def)
qed

lemma load_sections_loads:
  "up (chip s) \<Longrightarrow> holds (img (chip s)) (unat pos) (concat (map encode_section secs)) \<Longrightarrow> 4 dvd unat pos \<Longrightarrow>
   \<forall>sec \<in> set secs. 4 dvd length (snd sec) \<Longrightarrow> unat pos + length (concat (map encode_section secs)) \<le> cap \<Longrightarrow>
   \<exists>t. load_sections m (length secs) pos s = (None, t) \<and> up (chip t) \<and> img (chip t) = img (chip s)
     \<and> ram t = fold load_section secs (ram s) \<and> RTC_MEM t = RTC_MEM s"
proof (induction secs arbitrary: pos s)
  case (Cons sec secs)
  obtain a bs where sec: "sec = (a, bs)" by (cases sec)
  let ?n = "of_nat (length bs) :: u32"
  have hd: "holds (img (chip s)) (unat pos) (le32 a @ le32 ?n)" and dat: "holds (img (chip s)) (unat pos + 8) bs"
    and tl: "holds (img (chip s)) (unat pos + 8 + length bs) (concat (map encode_section secs))"
    using Cons.prems(2) by (simp_all add: sec encode_section_pair holds_append add.assoc)
  have n: "unat ?n = length bs" using Cons.prems(5) cap_law by (simp add: sec encode_section_pair unat_of_nat32)
  have len: "4 dvd length bs" using Cons.prems(4) by (simp add: sec)
  have bound: "unat pos + 8 + length bs + length (concat (map encode_section secs)) \<le> cap"
    using Cons.prems(5) by (simp add: sec encode_section_pair)
  have p8: "unat (pos + 8) = unat pos + 8" and p8n: "unat (pos + 8 + ?n) = unat pos + 8 + length bs"
    using unat_step [of pos 8] unat_step [of "pos + 8" "length bs"] bound by simp_all
  obtain h1 where h1: "SPIRead m pos 8 (chip s) = ((0, le32 a @ le32 ?n), h1)" "up h1" "img h1 = img (chip s)"
    using read_holds [OF Cons.prems(1) hd] Cons.prems(3) bound by auto
  obtain h2 where h2: "SPIRead m (pos + 8) ?n h1 = ((0, bs), h2)" "up h2" "img h2 = img (chip s)"
    using read_holds [OF h1(2), of "pos + 8" bs] dat Cons.prems(3) len bound by (auto simp: h1(3) p8)
  define s1 where "s1 = (if loadable a then s\<lparr>chip := h2, ram := poke a bs (ram s)\<rparr> else s\<lparr>chip := h1\<rparr>)"
  have "load_sections m (length (sec # secs)) pos s = load_sections m (length secs) (pos + 8 + ?n) s1"
    using h1(1) h2(1) by (simp add: section_header_of_def s1_def Let_def)
  moreover have "up (chip s1)" "img (chip s1) = img (chip s)" "ram s1 = load_section sec (ram s)" "RTC_MEM s1 = RTC_MEM s"
    using h1 h2 by (simp_all add: s1_def load_section_def sec)
  ultimately show ?case
    using Cons.IH [of s1 "pos + 8 + ?n", unfolded p8n] tl Cons.prems(3,4) len bound by auto
qed simp

lemma load_app_loads:
  assumes "up (chip s)" "good_image secs" "4 dvd unat a"
    and "holds (img (chip s)) (unat a + 4096) (encode_image mg mode freq pc secs)"
    and "unat a + 4096 + length (encode_image mg mode freq pc secs) \<le> cap"
  shows "\<exists>t. load_app_from_flash_raw m a s = (Inr pc, t) \<and> up (chip t) \<and> img (chip t) = img (chip s)
    \<and> ram t = fold load_section secs (ram s) \<and> RTC_MEM t = RTC_MEM s"
proof -
  let ?hd = "[mg, of_nat (length secs), mode, freq] @ le32 pc"
  have hd: "holds (img (chip s)) (unat a + 4096) ?hd"
    and tl: "holds (img (chip s)) (unat a + 4096 + 8) (concat (map encode_section secs))"
    using assms(4) unfolding encode_image_def append_assoc [symmetric] by (simp_all only: holds_append) simp_all
  have bound: "unat a + 4096 + 8 + length (concat (map encode_section secs)) \<le> cap"
    using assms(5) by (simp add: encode_image_def)
  have p: "unat (a + 0x1000) = unat a + 4096" and p8: "unat (a + 0x1000 + 8) = unat a + 4096 + 8"
    using unat_step [of a 4096] unat_step [of "a + 4096" 8] bound by simp_all
  obtain h1 where h1: "SPIRead m (a + 0x1000) 8 (chip s) = ((0, ?hd), h1)" "up h1" "img h1 = img (chip s)"
    using read_holds [OF assms(1), of "a + 0x1000" ?hd] hd assms(3) bound by (auto simp: p)
  have "unat (of_nat (length secs) :: u8) = length secs"
    using assms(2) by (simp add: good_image_def unat_of_nat take_bit_eq_mod)
  then show ?thesis
    using load_sections_loads [of "s\<lparr>chip := h1\<rparr>" "a + 0x1000 + 8" secs, unfolded p8] h1 tl assms(2,3) bound
    by (auto simp: load_app_from_flash_raw_def Let_def APP_START_OFFSET_def image_header_of_def good_image_def)
qed

section \<open>The main program\<close>

lemma puts_law: "up h \<Longrightarrow> up (puts m cs h) \<and> img (puts m cs h) = img h"
  by (induction cs arbitrary: h) (simp_all add: puts_def putc_law)

lemma put_digit_law: "up h \<Longrightarrow> up (put_digit m n h) \<and> img (put_digit m n h) = img h"
  by (simp add: put_digit_def putc_law)

lemma print_version_law:
  assumes "up h" "8192 \<le> cap"
  shows "up (snd (print_version m 0 h)) \<and> img (snd (print_version m 0 h)) = img h"
  using read_law [OF assms(1), of "0x1010" 4] assms(2)
  by (auto simp: print_version_def APP_START_OFFSET_def printf_law)

lemma copy_command_copies:
  assumes "up (chip s)" "args cmd = src # dst # sz # rest" "4096 dvd unat src" "4096 dvd unat dst" "n = sectors (unat sz)"
    and "unat src + n * 4096 \<le> cap" "unat dst + n * 4096 \<le> cap" "unat dst < unat src \<or> unat src + n * 4096 \<le> unat dst"
  shows "\<exists>t. copy_command m cmd s = Some (0, cmd\<lparr>action := ACTION_LOAD_APP, args := dst # dst # sz # rest\<rparr>, t)
    \<and> up (chip t) \<and> ram t = ram s \<and> RTC_MEM t = RTC_MEM s
    \<and> img (chip t) = copied (unat src) (unat dst) (n * 4096) (img (chip s))"
proof -
  define h where "h = ets_wdt_disable m (puts m ''cp:'' (chip s))"
  have h: "up h" "img h = img (chip s)" using assms(1) by (simp_all add: h_def puts_law wdt_law)
  obtain h1 where h1: "copy_raw m src dst sz h = Some (0, h1)" "up h1"
    "img h1 = copied (unat src) (unat dst) (n * 4096) (img (chip s))"
    using copy_raw_copies [OF h(1) assms(3-8)] by (auto simp: h(2))
  then show ?thesis
    by (auto simp: copy_command_def assms(2) h_def [symmetric] puts_law put_digit_law wdt_law)
qed

lemma holds_copied:
  assumes "holds f (src + 4096) bs" "4096 + length bs \<le> k"
  shows "holds (copied src dst k f) (dst + 4096) bs"
  unfolding holds_def
proof (rule nth_equalityI)
  fix i assume "i < length (map (copied src dst k f) [dst + 4096..<dst + 4096 + length bs])"
  then have i: "i < length bs" by simp
  have "bs ! i = map f [src + 4096..<src + 4096 + length bs] ! i" using assms(1) by (simp add: holds_def)
  also have "\<dots> = f (4096 + i + src)" using i by (simp add: ac_simps)
  finally show "map (copied src dst k f) [dst + 4096..<dst + 4096 + length bs] ! i = bs ! i"
    using i assms(2) by (simp add: copied_def)
qed simp

lemma eboot_main_installs:
  assumes "up (chip s)" "length rest = 26"
    and "eboot_command_write \<lparr>magic = mg0, action = ACTION_COPY_RAW, args = src # dst # sz # rest, crc32 = c0\<rparr> (RTC_MEM s) = (cmd', rtc)"
    and "4096 dvd unat src" "4096 dvd unat dst" and n: "n = sectors (unat sz)"
    and "unat src + n * 4096 \<le> cap" "unat dst + n * 4096 \<le> cap" "unat dst < unat src \<or> unat src + n * 4096 \<le> unat dst"
    and "good_image secs" "holds (img (chip s)) (unat src + 4096) (encode_image mg mode freq pc secs)"
    and "4096 + length (encode_image mg mode freq pc secs) \<le> n * 4096"
  shows "\<exists>t. eboot_main m (s\<lparr>RTC_MEM := rtc\<rparr>) = Some (Jump pc, t) \<and> ram t = fold load_section secs (ram s)
    \<and> img (chip t) = copied (unat src) (unat dst) (n * 4096) (img (chip s))
    \<and> RTC_MEM t = eboot_command_clear rtc"
proof -
  have "length (args \<lparr>magic = mg0, action = ACTION_COPY_RAW, args = src # dst # sz # rest, crc32 = c0\<rparr>) = 29"
    using assms(2) by simp
  note W = eboot_written [OF this assms(3), simplified]
  have "8 \<le> length (encode_image mg mode freq pc secs)" by (simp add: encode_image_def)
  then have "2 \<le> n" using assms(12) by linarith
  then have "8192 \<le> cap" using assms(7) by linarith
  define s1 where "s1 = s\<lparr>RTC_MEM := eboot_command_clear rtc, chip := ets_putc m (CHR ''@'') (snd (print_version m 0 (chip s)))\<rparr>"
  have s1: "up (chip s1)" "img (chip s1) = img (chip s)" "ram s1 = ram s" "RTC_MEM s1 = eboot_command_clear rtc"
    using print_version_law [OF assms(1) \<open>8192 \<le> cap\<close>] by (simp_all add: s1_def putc_law)
  obtain t where t: "copy_command m cmd' s1 = Some (0, cmd'\<lparr>action := ACTION_LOAD_APP, args := dst # dst # sz # rest\<rparr>, t)"
    "up (chip t)" "ram t = ram s" "RTC_MEM t = eboot_command_clear rtc"
    "img (chip t) = copied (unat src) (unat dst) (n * 4096) (img (chip s))"
    using copy_command_copies [OF s1(1) W(5) assms(4-9)] unfolding s1(2-4) by blast
  define t1 where "t1 = t\<lparr>chip := puts m (''ld'' @ [CHR 10]) (chip t)\<rparr>"
  have t1: "up (chip t1)" "img (chip t1) = img (chip t)" "ram t1 = ram s" "RTC_MEM t1 = eboot_command_clear rtc"
    using t(2-4) by (simp_all add: t1_def puts_law)
  have "4 dvd unat dst" using assms(5) by (auto elim!: dvdE)
  then obtain u where u: "load_app_from_flash_raw m dst t1 = (Inr pc, u)" "img (chip u) = img (chip t1)"
    "ram u = fold load_section secs (ram t1)" "RTC_MEM u = RTC_MEM t1"
    using load_app_loads [OF t1(1) assms(10), of dst mg mode freq pc] holds_copied [OF assms(11,12), of "unat dst"] assms(8,12)
    unfolding t1(2) t(5) by auto
  have "eboot_main m (s\<lparr>RTC_MEM := rtc\<rparr>) = Some (Jump pc, u)"
    using W(4,6) t(1) u(1) by (simp add: eboot_main_def s1_def t1_def ACTION_COPY_RAW_def ACTION_LOAD_APP_def)
  then show ?thesis using u(2-4) t1 t(5) by auto
qed

end

section \<open>Properties\<close>

text \<open>The copy of an update always comes to an end, and with a flash chip that works it succeeds: for areas that
  begin at sector boundaries and lie in the flash, the destination holds what the source held, rounded
  up to whole sectors, and every other byte of the flash is as it was. The areas may overlap if the copy
  goes downwards, as an update does.\<close>

theorem update_copied:
  assumes "nor_flash m img up cap" "up h" "4096 dvd unat src" "4096 dvd unat dst" "n = sectors (unat sz)"
    and "unat src + n * 4096 \<le> cap" "unat dst + n * 4096 \<le> cap" "unat dst < unat src \<or> unat src + n * 4096 \<le> unat dst"
  shows "\<exists>h'. copy_raw m src dst sz h = Some (0, h') \<and> up h' \<and> img h' = copied (unat src) (unat dst) (n * 4096) (img h)"
  by (rule nor_flash.copy_raw_copies [OF assms])

text \<open>(C13) Erasing an area by sectors up to a block boundary, by blocks, and by sectors again gives the contents that
  erasing its sectors one by one gives: exactly the sectors from that of the start address on, as many
  as the size needs, are erased.\<close>

theorem erase_area_by_blocks:
  assumes "nor_flash m img up cap" "up h" "even (unat start)" "c = unat start div 4096" "n = sectors (unat sz)" "(c + n) * 4096 \<le> cap"
  shows "\<exists>h' h''. SPIEraseAreaEx m start sz h = Some (0, h') \<and> erase_tail m (of_nat (c + n)) (of_nat c) h = Some (0, h'')
    \<and> img h' = img h'' \<and> (\<forall>x. img h' x = (if c \<le> x div 4096 \<and> x div 4096 < c + n then 0xFF else img h x))"
proof -
  have "cap < 2 ^ 32" using assms(1) by (rule nor_flash.cap_law)
  then have e: "unat (of_nat (c + n) :: u32) = c + n" and c: "unat (of_nat c :: u32) = c"
    using assms(6) by (simp_all add: unat_of_nat32 del: of_nat_add)
  show ?thesis
    using nor_flash.erase_area_erases [OF assms] nor_flash.erase_tail_erases [OF assms(1,2), of "of_nat (c + n)" "of_nat c"] assms(6)
    unfolding e c by auto
qed

text \<open>(C10) An update from end to end: a sketch has staged an image in the flash and left a copy command in the memory of
  the clock; after the reset the boot loader accepts and clears the command, copies the image over the
  old application and jumps to the entry point of the new one, with exactly the sections meant for memory
  in place.\<close>

theorem eboot_installs_update:
  assumes "nor_flash m img up cap" "up (chip s)" "length rest = 26"
    and "eboot_command_write \<lparr>magic = mg0, action = ACTION_COPY_RAW, args = src # dst # sz # rest, crc32 = c0\<rparr> (RTC_MEM s) = (cmd', rtc)"
    and "4096 dvd unat src" "4096 dvd unat dst" "n = sectors (unat sz)"
    and "unat src + n * 4096 \<le> cap" "unat dst + n * 4096 \<le> cap" "unat dst < unat src \<or> unat src + n * 4096 \<le> unat dst"
    and "good_image secs" "holds (img (chip s)) (unat src + 4096) (encode_image mg mode freq pc secs)"
    and "4096 + length (encode_image mg mode freq pc secs) \<le> n * 4096"
  shows "\<exists>t. eboot_main m (s\<lparr>RTC_MEM := rtc\<rparr>) = Some (Jump pc, t) \<and> ram t = fold load_section secs (ram s)
    \<and> img (chip t) = copied (unat src) (unat dst) (n * 4096) (img (chip s)) \<and> RTC_MEM t = eboot_command_clear rtc"
  by (rule nor_flash.eboot_main_installs [OF assms])

section \<open>A flash of four megabytes\<close>

definition nor_rom :: "(nat \<Rightarrow> u8) rom" where
  "nor_rom = \<lparr>SPIRead = (\<lambda>a n h. ((0, map h [unat a..<unat a + unat n]), h)),
     SPIWrite = (\<lambda>a bs h. (0, \<lambda>x. if unat a \<le> x \<and> x < unat a + length bs then h x AND bs ! (x - unat a) else h x)),
     SPIEraseSector = (\<lambda>k h. (0, \<lambda>x. if x div 4096 = unat k then 0xFF else h x)),
     SPIEraseBlock = (\<lambda>k h. (0, \<lambda>x. if x div 65536 = unat k then 0xFF else h x)),
     ets_putc = (\<lambda>_ h. h), ets_printf = (\<lambda>_ _ h. h), ets_wdt_enable = (\<lambda>h. h), ets_wdt_disable = (\<lambda>h. h)\<rparr>"

interpretation nor: nor_flash nor_rom "\<lambda>h. h" "\<lambda>_. True" "0x400000"
  by unfold_locales (simp_all add: nor_rom_def)

text \<open>Two sectors copied from \<open>0x10000\<close> down to 0.\<close>

theorem update_copied_witness:
  "\<exists>h'. copy_raw nor_rom 0x10000 0 5000 (\<lambda>x. if x = 65541 then 7 else 1) = Some (0, h') \<and> h' 5 = 7 \<and> h' 6 = 1 \<and> h' 8192 = 1"
proof -
  have "\<exists>h'. copy_raw nor_rom 0x10000 0 5000 (\<lambda>x. if x = 65541 then 7 else 1) = Some (0, h') \<and> True
      \<and> h' = copied (unat (0x10000 :: u32)) (unat (0 :: u32)) (2 * 4096) (\<lambda>x. if x = 65541 then 7 else 1)"
    by (rule update_copied [OF nor.nor_flash_axioms]) (simp_all add: sectors_def)
  then show ?thesis by (force simp: copied_def)
qed

theorem erase_area_by_blocks_witness:
  "\<exists>h'. SPIEraseAreaEx nor_rom 0xF000 0x12000 (\<lambda>_. 0) = Some (0, h') \<and> h' 0xEFFF = 0 \<and> h' 0xF000 = 0xFF \<and> h' 0x21000 = 0"
proof -
  have "\<exists>h' h''. SPIEraseAreaEx nor_rom 0xF000 0x12000 (\<lambda>_. 0) = Some (0, h')
      \<and> erase_tail nor_rom (of_nat (15 + 18)) (of_nat 15) (\<lambda>_. 0) = Some (0, h'')
      \<and> h' = h'' \<and> (\<forall>x. h' x = (if 15 \<le> x div 4096 \<and> x div 4096 < 15 + 18 then 0xFF else 0))"
    by (rule erase_area_by_blocks [OF nor.nor_flash_axioms]) (simp_all add: sectors_def)
  then show ?thesis by force
qed

lemma holds_flash: "holds (\<lambda>x. if p \<le> x \<and> x < p + length bs then bs ! (x - p) else d) p bs"
  unfolding holds_def by (rule nth_equalityI) auto

definition demo_image :: "u8 list" where
  "demo_image = encode_image 0xE9 0 0 0x40100000 [(0x3FFE8000, [1, 2, 3, 4]), (0x40201010, [5, 6, 7, 8])]"

definition staged :: "(nat \<Rightarrow> u8) eb" where
  "staged = \<lparr>RTC_MEM = \<lambda>_. 0, ram = \<lambda>_. 0,
     chip = \<lambda>x. if 0x101000 \<le> x \<and> x < 0x101000 + length demo_image then demo_image ! (x - 0x101000) else 0xFF\<rparr>"

text \<open>An image of two sections, the second of which stays in the flash, staged at \<open>0x100000\<close>.\<close>

theorem eboot_installs_update_witness:
  "\<exists>cmd rtc t. eboot_command_write \<lparr>magic = 0, action = ACTION_COPY_RAW, args = 0x100000 # 0 # 0x1800 # replicate 26 0, crc32 = 0\<rparr>
      (RTC_MEM staged) = (cmd, rtc)
    \<and> eboot_main nor_rom (staged\<lparr>RTC_MEM := rtc\<rparr>) = Some (Jump 0x40100000, t)
    \<and> ram t = poke 0x3FFE8000 [1, 2, 3, 4] (\<lambda>_. 0) \<and> RTC_MEM t 0 = 0"
proof -
  obtain cmd rtc where w: "eboot_command_write \<lparr>magic = 0, action = ACTION_COPY_RAW,
      args = 0x100000 # 0 # 0x1800 # replicate 26 0, crc32 = 0\<rparr> (RTC_MEM staged) = (cmd, rtc)" by fastforce
  have h: "holds (chip staged) (unat (0x100000 :: u32) + 4096) demo_image"
    using holds_flash [of "0x101000" demo_image "0xFF"] by (simp add: staged_def)
  have l: "length demo_image = 32"
    by (simp add: demo_image_def encode_image_def encode_section_def)
  have four: "4 dvd Suc (Suc (Suc (Suc 0)))" by (simp add: eval_nat_numeral)
  have "\<exists>t. eboot_main nor_rom (staged\<lparr>RTC_MEM := rtc\<rparr>) = Some (Jump 0x40100000, t)
      \<and> ram t = fold load_section [(0x3FFE8000, [1, 2, 3, 4]), (0x40201010, [5, 6, 7, 8])] (ram staged)
      \<and> chip t = copied (unat (0x100000 :: u32)) (unat (0 :: u32)) (2 * 4096) (chip staged) \<and> RTC_MEM t = eboot_command_clear rtc"
    by (rule eboot_installs_update [OF nor.nor_flash_axioms _ _ w, where mg = "0xE9" and mode = 0 and freq = 0])
      (use h l four in \<open>simp_all add: sectors_def good_image_def demo_image_def\<close>)
  with w show ?thesis
    by (auto simp: load_section_def loadable_def eboot_command_clear_def staged_def)
qed

text \<open>The test for sector boundaries, \<^verbatim>\<open>dst_addr & 0xfff != 0\<close>, looks at the lowest bit only. A copy of one byte to the
  middle of the first sector is accepted, and erases the bytes before its destination.\<close>

lemma misaligned_copy_erases:
  "\<exists>h'. copy_raw nor_rom 0x10000 0x800 1 (\<lambda>_. 0) = Some (0, h') \<and> h' 0 = 0xFF"
proof -
  have left: "(1 + FLASH_SECTOR_SIZE - 1) AND NOT (FLASH_SECTOR_SIZE - 1) = 4096" by (simp add: geometry)
  show ?thesis
    unfolding copy_raw_def left
    by (simp, subst copy_loop.simps, simp add: nor_rom_def geometry del: upt_rec_numeral, subst copy_loop.simps, simp)
qed

end
