(* ===== verification/Esp_Flash.thy ===== *)
theory Esp_Flash
  imports Eboot_Update
begin

text \<open>
  What the ESP8266 core knows about its flash, from \<^verbatim>\<open>Esp.cpp\<close>: the size and the mode of the chip, the size of the
  running sketch, and the access functions; and the digest of \<^verbatim>\<open>MD5Builder.cpp\<close>. The functions of the vendor's
  libraries and of the ROM, and the virtual functions of a stream, are the fields of the parameter \<open>k\<close>; the
  state holds the hardware, the memory of the clock and the static variable of \<^verbatim>\<open>getSketchSize\<close>.
\<close>

section \<open>State\<close>

record ('h, 'c) sdk =
  spi_flash_read :: "u32 \<Rightarrow> u32 \<Rightarrow> 'h \<Rightarrow> (int \<times> u8 list) \<times> 'h"
  spi_flash_write :: "u32 \<Rightarrow> u8 list \<Rightarrow> 'h \<Rightarrow> int \<times> 'h"
  spi_flash_erase_sector :: "u16 \<Rightarrow> 'h \<Rightarrow> int \<times> 'h"
  spi_flash_get_id :: "'h \<Rightarrow> u32"
  system_get_free_heap_size :: "'h \<Rightarrow> u32"
  wifi_set_sleep_none :: "'h \<Rightarrow> 'h"
  sdk_yield :: "'h \<Rightarrow> 'h"
  sdk_delay :: "u32 \<Rightarrow> 'h \<Rightarrow> 'h"
  malloc :: "u32 \<Rightarrow> 'h \<Rightarrow> bool"
  GPI :: "'h \<Rightarrow> u32"
  pinMode_OUTPUT :: "int \<Rightarrow> 'h \<Rightarrow> 'h"
  digitalWrite :: "int \<Rightarrow> bool \<Rightarrow> 'h \<Rightarrow> 'h"
  MD5Init :: 'c
  MD5Update :: "'c \<Rightarrow> u8 list \<Rightarrow> 'c"
  MD5Final :: "'c \<Rightarrow> u8 list"

record 'h esp =
  dev :: 'h
  rtc :: "nat \<Rightarrow> u32"
  sketch_size :: u32

section \<open>Access\<close>

definition flashEraseSector :: "('h, 'c) sdk \<Rightarrow> u32 \<Rightarrow> ('h, 'z) esp_scheme \<Rightarrow> bool \<times> ('h, 'z) esp_scheme" where
  "flashEraseSector k sector s = (case spi_flash_erase_sector k (ucast sector) (dev s) of (rc, h) \<Rightarrow> (rc = 0, s\<lparr>dev := h\<rparr>))"

definition flashWrite :: "('h, 'c) sdk \<Rightarrow> u32 \<Rightarrow> u8 list \<Rightarrow> ('h, 'z) esp_scheme \<Rightarrow> bool \<times> ('h, 'z) esp_scheme" where
  "flashWrite k offset data s = (case spi_flash_write k offset data (dev s) of (rc, h) \<Rightarrow> (rc = 0, s\<lparr>dev := h\<rparr>))"

definition flashRead :: "('h, 'c) sdk \<Rightarrow> u32 \<Rightarrow> u32 \<Rightarrow> ('h, 'z) esp_scheme \<Rightarrow> (bool \<times> u8 list) \<times> ('h, 'z) esp_scheme" where
  "flashRead k offset n s = (case spi_flash_read k offset n (dev s) of ((rc, bs), h) \<Rightarrow> ((rc = 0, bs), s\<lparr>dev := h\<rparr>))"

section \<open>The chip\<close>

text \<open>The modes of the enumeration \<^verbatim>\<open>FlashMode_t\<close> are bytes.\<close>

definition FM_QIO :: u8 where
  "FM_QIO = 0x00"

definition FM_DOUT :: u8 where
  "FM_DOUT = 0x03"

definition FM_UNKNOWN :: u8 where
  "FM_UNKNOWN = 0xff"

definition magicFlashChipMode :: "u8 \<Rightarrow> u8" where
  "magicFlashChipMode byte = (if byte > FM_DOUT then FM_UNKNOWN else byte)"

definition magicFlashChipSize :: "u8 \<Rightarrow> u32" where
  "magicFlashChipSize byte =
     (let b = byte AND 0x0F in
      if b = 0 then 512 * 1024 else if b = 1 then 256 * 1024 else if b = 2 then 1024 * 1024 else if b = 3 then 2 * 1024 * 1024
      else if b = 4 then 4 * 1024 * 1024 else if b = 8 then 8 * 1024 * 1024 else if b = 9 then 16 * 1024 * 1024 else 0)"

definition getFlashChipRealSize :: "('h, 'c) sdk \<Rightarrow> ('h, 'z) esp_scheme \<Rightarrow> u32" where
  "getFlashChipRealSize k s = push_bit (unat (drop_bit 16 (spi_flash_get_id k (dev s)) AND 0xFF)) 1"

definition getFlashChipSize :: "('h, 'c) sdk \<Rightarrow> ('h, 'z) esp_scheme \<Rightarrow> u32 \<times> ('h, 'z) esp_scheme" where
  "getFlashChipSize k s =
     (case spi_flash_read k 0 4 (dev s) of ((rc, bs), h) \<Rightarrow>
        (if rc = 0 then magicFlashChipSize (drop_bit 4 (bs ! 3 AND 0xf0)) else 0, s\<lparr>dev := h\<rparr>))"

definition getFlashChipMode :: "('h, 'c) sdk \<Rightarrow> ('h, 'z) esp_scheme \<Rightarrow> u8 \<times> ('h, 'z) esp_scheme" where
  "getFlashChipMode k s =
     (case spi_flash_read k 0 4 (dev s) of ((rc, bs), h) \<Rightarrow> (if rc = 0 then magicFlashChipMode (bs ! 2) else FM_UNKNOWN, s\<lparr>dev := h\<rparr>))"

definition checkFlashConfig :: "('h, 'c) sdk \<Rightarrow> bool \<Rightarrow> ('h, 'z) esp_scheme \<Rightarrow> bool \<times> ('h, 'z) esp_scheme" where
  "checkFlashConfig k needsEquals s =
     (let real = getFlashChipRealSize k s; (n, s) = getFlashChipSize k s
      in (if needsEquals then real = n else real \<ge> n, s))"

section \<open>The running sketch\<close>

text \<open>The loop over the section headers, by the number that is left; no result is a failed read.\<close>

fun sketch_end :: "('h, 'c) sdk \<Rightarrow> nat \<Rightarrow> u32 \<Rightarrow> ('h, 'z) esp_scheme \<Rightarrow> u32 option \<times> ('h, 'z) esp_scheme" where
  "sketch_end k 0 pos s = (Some pos, s)"
| "sketch_end k (Suc n) pos s =
     (case spi_flash_read k pos 8 (dev s) of ((rc, bs), h) \<Rightarrow>
        let s = s\<lparr>dev := h\<rparr> in
        if rc \<noteq> 0 then (None, s) else sketch_end k n (pos + 8 + sec_size (section_header_of bs)) s)"

definition getSketchSize :: "('h, 'c) sdk \<Rightarrow> ('h, 'z) esp_scheme \<Rightarrow> u32 \<times> ('h, 'z) esp_scheme" where
  "getSketchSize k s =
     (if sketch_size s \<noteq> 0 then (sketch_size s, s)
      else case spi_flash_read k APP_START_OFFSET 8 (dev s) of ((rc, bs), h) \<Rightarrow>
        let s = s\<lparr>dev := h\<rparr> in
        if rc \<noteq> 0 then (0, s)
        else case sketch_end k (unat (num_segments (image_header_of bs))) (APP_START_OFFSET + 8) s of
          (None, s) \<Rightarrow> (0, s)
        | (Some pos, s) \<Rightarrow> let r = (pos + 16) AND NOT 15 in (r, s\<lparr>sketch_size := r\<rparr>))"

definition getFreeSketchSpace :: "('h, 'c) sdk \<Rightarrow> u32 \<Rightarrow> ('h, 'z) esp_scheme \<Rightarrow> u32 \<times> ('h, 'z) esp_scheme" where
  "getFreeSketchSpace k SPIFFS_start s =
     (let (usedSize, s) = getSketchSize k s;
          freeSpaceStart = (usedSize + FLASH_SECTOR_SIZE - 1) AND NOT (FLASH_SECTOR_SIZE - 1);
          freeSpaceEnd = SPIFFS_start - 0x40200000
      in (freeSpaceEnd - freeSpaceStart, s))"

section \<open>Digests\<close>

record 'c md5_builder =
  ctx :: 'c
  md5_buf :: "u8 list"

definition md5_begin :: "('h, 'c) sdk \<Rightarrow> 'c md5_builder" where
  "md5_begin k = \<lparr>ctx = MD5Init k, md5_buf = replicate 16 0\<rparr>"

text \<open>The length is passed in 16 bits.\<close>

definition md5_add :: "('h, 'c) sdk \<Rightarrow> u8 list \<Rightarrow> 'c md5_builder \<Rightarrow> 'c md5_builder" where
  "md5_add k data b = b\<lparr>ctx := MD5Update k (ctx b) (take (length data mod 65536) data)\<rparr>"

definition md5_calculate :: "('h, 'c) sdk \<Rightarrow> 'c md5_builder \<Rightarrow> 'c md5_builder" where
  "md5_calculate k b = b\<lparr>md5_buf := MD5Final k (ctx b)\<rparr>"

definition hex_digit :: "nat \<Rightarrow> char" where
  "hex_digit n = ''0123456789abcdef'' ! n"

definition md5_toString :: "'c md5_builder \<Rightarrow> string" where
  "md5_toString b = concat (map (\<lambda>x. [hex_digit (unat x div 16), hex_digit (unat x mod 16)]) (md5_buf b))"

end
