(* ===== verification/Updater.thy ===== *)
theory Updater
  imports Esp_Flash "HOL-Library.Char_ord"
begin

text \<open>
  The updater of the ESP8266 core, \<^verbatim>\<open>Updater.cpp\<close> and \<^verbatim>\<open>Updater.h\<close>: it collects the bytes of a new image in a buffer, writes
  them to the free part of the flash, checks the result and leaves the command for the boot loader in the
  memory of the clock. The state is that of the class \<^verbatim>\<open>UpdaterClass\<close> on top of the state of the chip; the optional
  objects that check a signature are abstract classes in the source and a parameter here.
\<close>

section \<open>State\<close>

record 'g signer =
  sig_length :: u32
  hash_begin :: "'g \<Rightarrow> 'g"
  hash_add :: "u8 list \<Rightarrow> 'g \<Rightarrow> 'g"
  hash_end :: "'g \<Rightarrow> 'g"
  sig_verify :: "'g \<Rightarrow> u8 list \<Rightarrow> bool"

record ('h, 'c, 'g) upd = "'h esp" +
  async :: bool
  upd_error :: u8
  buffer :: "u8 list"
  bufferLen :: u32
  bufferSize :: u32
  upd_size :: u32
  startAddress :: u32
  currentAddress :: u32
  command :: u32
  target_md5 :: string
  md5 :: "'c md5_builder"
  ledPin :: int
  ledOn :: bool
  verify :: "'g signer option"
  hash :: 'g

definition UPDATE_ERROR_OK :: u8 where
  "UPDATE_ERROR_OK = 0"

definition UPDATE_ERROR_WRITE :: u8 where
  "UPDATE_ERROR_WRITE = 1"

definition UPDATE_ERROR_ERASE :: u8 where
  "UPDATE_ERROR_ERASE = 2"

definition UPDATE_ERROR_READ :: u8 where
  "UPDATE_ERROR_READ = 3"

definition UPDATE_ERROR_SPACE :: u8 where
  "UPDATE_ERROR_SPACE = 4"

definition UPDATE_ERROR_SIZE :: u8 where
  "UPDATE_ERROR_SIZE = 5"

definition UPDATE_ERROR_STREAM :: u8 where
  "UPDATE_ERROR_STREAM = 6"

definition UPDATE_ERROR_MD5 :: u8 where
  "UPDATE_ERROR_MD5 = 7"

definition UPDATE_ERROR_FLASH_CONFIG :: u8 where
  "UPDATE_ERROR_FLASH_CONFIG = 8"

definition UPDATE_ERROR_NEW_FLASH_CONFIG :: u8 where
  "UPDATE_ERROR_NEW_FLASH_CONFIG = 9"

definition UPDATE_ERROR_MAGIC_BYTE :: u8 where
  "UPDATE_ERROR_MAGIC_BYTE = 10"

definition UPDATE_ERROR_BOOTSTRAP :: u8 where
  "UPDATE_ERROR_BOOTSTRAP = 11"

definition UPDATE_ERROR_SIGN :: u8 where
  "UPDATE_ERROR_SIGN = 12"

lemmas update_errors = UPDATE_ERROR_OK_def UPDATE_ERROR_WRITE_def UPDATE_ERROR_ERASE_def UPDATE_ERROR_READ_def UPDATE_ERROR_SPACE_def
  UPDATE_ERROR_SIZE_def UPDATE_ERROR_STREAM_def UPDATE_ERROR_MD5_def UPDATE_ERROR_FLASH_CONFIG_def UPDATE_ERROR_NEW_FLASH_CONFIG_def
  UPDATE_ERROR_MAGIC_BYTE_def UPDATE_ERROR_BOOTSTRAP_def UPDATE_ERROR_SIGN_def

definition U_FLASH :: u32 where
  "U_FLASH = 0"

definition U_SPIFFS :: u32 where
  "U_SPIFFS = 100"

definition hasError :: "('h, 'c, 'g) upd \<Rightarrow> bool" where
  "hasError u \<longleftrightarrow> upd_error u \<noteq> UPDATE_ERROR_OK"

definition isRunning :: "('h, 'c, 'g) upd \<Rightarrow> bool" where
  "isRunning u \<longleftrightarrow> upd_size u > 0"

definition isFinished :: "('h, 'c, 'g) upd \<Rightarrow> bool" where
  "isFinished u \<longleftrightarrow> currentAddress u = startAddress u + upd_size u"

definition progress :: "('h, 'c, 'g) upd \<Rightarrow> u32" where
  "progress u = currentAddress u - startAddress u"

definition remaining :: "('h, 'c, 'g) upd \<Rightarrow> u32" where
  "remaining u = upd_size u - (currentAddress u - startAddress u)"

definition setError :: "u8 \<Rightarrow> ('h, 'c, 'g) upd \<Rightarrow> ('h, 'c, 'g) upd" where
  "setError e u = u\<lparr>upd_error := e\<rparr>"

definition clearError :: "('h, 'c, 'g) upd \<Rightarrow> ('h, 'c, 'g) upd" where
  "clearError u = u\<lparr>upd_error := UPDATE_ERROR_OK\<rparr>"

text \<open>The constructor; the object is static, so what it does not initialise is zero. \<open>c\<close> and \<open>g\<close> are the states of a digest
  and of a hash that have not begun.\<close>

definition Updater_new :: "'c \<Rightarrow> 'g \<Rightarrow> 'h \<Rightarrow> (nat \<Rightarrow> u32) \<Rightarrow> u32 \<Rightarrow> ('h, 'c, 'g) upd" where
  "Updater_new c g h m n = \<lparr>dev = h, rtc = m, sketch_size = n, async = False, upd_error = 0, buffer = [], bufferLen = 0, bufferSize = 0,
     upd_size = 0, startAddress = 0, currentAddress = 0, command = U_FLASH, target_md5 = [], md5 = \<lparr>ctx = c, md5_buf = replicate 16 0\<rparr>,
     ledPin = 0, ledOn = False, verify = None, hash = g\<rparr>"

definition Updater_installSignature :: "'g \<Rightarrow> 'g signer \<Rightarrow> ('h, 'c, 'g) upd \<Rightarrow> ('h, 'c, 'g) upd" where
  "Updater_installSignature g sg u = u\<lparr>hash := g, verify := Some sg\<rparr>"

definition Updater_runAsync :: "bool \<Rightarrow> ('h, 'c, 'g) upd \<Rightarrow> ('h, 'c, 'g) upd" where
  "Updater_runAsync a u = u\<lparr>async := a\<rparr>"

section \<open>Starting\<close>

definition Updater_reset :: "('h, 'c) sdk \<Rightarrow> ('h, 'c, 'g) upd \<Rightarrow> ('h, 'c, 'g) upd" where
  "Updater_reset k u =
     (let u = u\<lparr>buffer := [], bufferLen := 0, startAddress := 0, currentAddress := 0, upd_size := 0, command := U_FLASH\<rparr>
      in if ledPin u \<noteq> - 1 then u\<lparr>dev := digitalWrite k (ledPin u) (\<not> ledOn u) (dev u)\<rparr> else u)"

definition round_sector :: "u32 \<Rightarrow> u32" where
  "round_sector n = (n + FLASH_SECTOR_SIZE - 1) AND NOT (FLASH_SECTOR_SIZE - 1)"

text \<open>The place for the update, or the error; \<open>SPIFFS_start\<close> is the address that the linker gives to the file system.\<close>

definition update_start :: "('h, 'c) sdk \<Rightarrow> u32 \<Rightarrow> u32 \<Rightarrow> u32 \<Rightarrow> ('h, 'c, 'g) upd \<Rightarrow> u32 option \<times> ('h, 'c, 'g) upd" where
  "update_start k SPIFFS_start sz cmd u =
     (if cmd = U_FLASH then
        (let (n, u) = getSketchSize k u;
             currentSketchSize = round_sector n;
             updateEndAddress = SPIFFS_start - 0x40200000;
             roundedSize = round_sector sz;
             updateStartAddress = (if updateEndAddress > roundedSize then updateEndAddress - roundedSize else 0)
         in if updateStartAddress < currentSketchSize then (None, setError UPDATE_ERROR_SPACE u) else (Some updateStartAddress, u))
      else if cmd = U_SPIFFS then (Some (SPIFFS_start - 0x40200000), u)
      else (None, u))"

text \<open>\<open>fresh\<close> is the content of the new array.\<close>

definition Updater_begin ::
  "('h, 'c) sdk \<Rightarrow> u32 \<Rightarrow> (nat \<Rightarrow> u8) \<Rightarrow> u32 \<Rightarrow> u32 \<Rightarrow> int \<Rightarrow> bool \<Rightarrow> ('h, 'c, 'g) upd \<Rightarrow> bool \<times> ('h, 'c, 'g) upd" where
  "Updater_begin k SPIFFS_start fresh sz cmd pin on u =
     (if upd_size u > 0 then (False, u)
      else let u = u\<lparr>ledPin := pin, ledOn := on\<rparr>;
               boot_mode = drop_bit 16 (GPI k (dev u)) AND 0xf in
      if boot_mode = 1 then (False, setError UPDATE_ERROR_BOOTSTRAP u)
      else if sz = 0 then (False, setError UPDATE_ERROR_SIZE u)
      else let (ok, u) = checkFlashConfig k False u in
      if \<not> ok then (False, setError UPDATE_ERROR_FLASH_CONFIG u)
      else let u = clearError (Updater_reset k u);
               u = u\<lparr>dev := wifi_set_sleep_none k (dev u)\<rparr> in
      case update_start k SPIFFS_start sz cmd u of
        (None, u) \<Rightarrow> (False, u)
      | (Some a, u) \<Rightarrow>
          let u = u\<lparr>startAddress := a, currentAddress := a, upd_size := sz\<rparr>;
              u = u\<lparr>bufferSize := if system_get_free_heap_size k (dev u) > 2 * FLASH_SECTOR_SIZE then FLASH_SECTOR_SIZE else 256\<rparr>;
              u = u\<lparr>buffer := map fresh [0..<unat (bufferSize u)], command := cmd\<rparr>
          in (True, if verify u = None then u\<lparr>md5 := md5_begin k\<rparr> else u))"

definition Updater_setMD5 :: "string \<Rightarrow> ('h, 'c, 'g) upd \<Rightarrow> bool \<times> ('h, 'c, 'g) upd" where
  "Updater_setMD5 expected u = (if length expected \<noteq> 32 then (False, u) else (True, u\<lparr>target_md5 := expected\<rparr>))"

section \<open>Writing\<close>

definition yield_unless_async :: "('h, 'c) sdk \<Rightarrow> ('h, 'c, 'g) upd \<Rightarrow> ('h, 'c, 'g) upd" where
  "yield_unless_async k u = (if \<not> async u then u\<lparr>dev := sdk_yield k (dev u)\<rparr> else u)"

definition FLASH_MODE_OFFSET :: nat where
  "FLASH_MODE_OFFSET = 2"

text \<open>A sector is erased when the first byte of it is to be written.\<close>

definition erase_first :: "('h, 'c) sdk \<Rightarrow> ('h, 'c, 'g) upd \<Rightarrow> bool \<times> ('h, 'c, 'g) upd" where
  "erase_first k u =
     (if currentAddress u mod FLASH_SECTOR_SIZE = 0
      then flashEraseSector k (currentAddress u div FLASH_SECTOR_SIZE) (yield_unless_async k u) else (True, u))"

text \<open>The first buffer gets the flash mode of the chip; the results are \<^verbatim>\<open>modifyFlashMode\<close> and \<^verbatim>\<open>bufferFlashMode\<close>.\<close>

definition set_flash_mode :: "('h, 'c) sdk \<Rightarrow> ('h, 'c, 'g) upd \<Rightarrow> bool \<times> u8 \<times> ('h, 'c, 'g) upd" where
  "set_flash_mode k u =
     (if currentAddress u = startAddress u then
        (let (flashMode, u) = getFlashChipMode k u;
             bufferFlashMode = magicFlashChipMode (buffer u ! FLASH_MODE_OFFSET)
         in if bufferFlashMode \<noteq> flashMode
            then (True, bufferFlashMode, u\<lparr>buffer := (buffer u)[FLASH_MODE_OFFSET := flashMode]\<rparr>)
            else (False, bufferFlashMode, u))
      else (False, FM_QIO, u))"

definition Updater_writeBuffer :: "('h, 'c) sdk \<Rightarrow> ('h, 'c, 'g) upd \<Rightarrow> bool \<times> ('h, 'c, 'g) upd" where
  "Updater_writeBuffer k u =
     (let (eraseResult, u) = erase_first k u;
          (modifyFlashMode, bufferFlashMode, u) = set_flash_mode k u
      in if \<not> eraseResult then (False, setError UPDATE_ERROR_ERASE (u\<lparr>currentAddress := startAddress u + upd_size u\<rparr>))
      else let u = yield_unless_async k u;
               (writeResult, u) = flashWrite k (currentAddress u) (take (unat (bufferLen u)) (buffer u)) u;
               u = (if modifyFlashMode then u\<lparr>buffer := (buffer u)[FLASH_MODE_OFFSET := bufferFlashMode]\<rparr> else u)
      in if \<not> writeResult then (False, setError UPDATE_ERROR_WRITE (u\<lparr>currentAddress := startAddress u + upd_size u\<rparr>))
      else let u = (if verify u = None then u\<lparr>md5 := md5_add k (take (unat (bufferLen u)) (buffer u)) (md5 u)\<rparr> else u)
      in (True, u\<lparr>currentAddress := currentAddress u + bufferLen u, bufferLen := 0\<rparr>))"

text \<open>The loop of \<^verbatim>\<open>write\<close>; \<open>data\<close> is what is left of the caller's bytes.\<close>

definition fill_buffer :: "u8 list \<Rightarrow> ('h, 'c, 'g) upd \<Rightarrow> ('h, 'c, 'g) upd" where
  "fill_buffer bs u = u\<lparr>buffer := blit (unat (bufferLen u)) bs (buffer u), bufferLen := bufferLen u + of_nat (length bs)\<rparr>"

partial_function (option) write_loop :: "('h, 'c) sdk \<Rightarrow> u8 list \<Rightarrow> ('h, 'c, 'g) upd \<Rightarrow> (bool \<times> u8 list \<times> ('h, 'c, 'g) upd) option" where
  "write_loop k data u =
     (if bufferLen u + of_nat (length data) > bufferSize u then
        (let toBuff = unat (bufferSize u - bufferLen u) in
         case Updater_writeBuffer k (fill_buffer (take toBuff data) u) of (ok, u) \<Rightarrow>
           if \<not> ok then Some (False, data, u) else write_loop k (drop toBuff data) (yield_unless_async k u))
      else Some (True, data, u))"

definition Updater_write :: "('h, 'c) sdk \<Rightarrow> u8 list \<Rightarrow> ('h, 'c, 'g) upd \<Rightarrow> (nat \<times> ('h, 'c, 'g) upd) option" where
  "Updater_write k data u =
     (if hasError u \<or> \<not> isRunning u then Some (0, u)
      else if of_nat (length data) > remaining u then Some (0, setError UPDATE_ERROR_SPACE u)
      else do {
        (ok, left, u) \<leftarrow> write_loop k data u;
        if \<not> ok then Some (length data - length left, u)
        else let u = fill_buffer left u in
          if bufferLen u = remaining u
          then (case Updater_writeBuffer k u of (ok, u) \<Rightarrow> Some (if ok then length data else length data - length left, u))
          else Some (length data, u)
      })"

section \<open>Streams\<close>

record 'h stream =
  st_peek :: "'h \<Rightarrow> int"
  st_readBytes :: "u32 \<Rightarrow> 'h \<Rightarrow> u8 list \<times> 'h"
  st_available :: "'h \<Rightarrow> u32"
  st_read :: "u32 \<Rightarrow> 'h \<Rightarrow> u8 list \<times> 'h"

definition Updater_verifyHeader :: "u8 \<Rightarrow> ('h, 'c, 'g) upd \<Rightarrow> bool \<times> ('h, 'c, 'g) upd" where
  "Updater_verifyHeader data u =
     (if command u = U_FLASH then
        if data \<noteq> 0xE9 then (False, setError UPDATE_ERROR_MAGIC_BYTE (u\<lparr>currentAddress := startAddress u + upd_size u\<rparr>)) else (True, u)
      else if command u = U_SPIFFS then (True, u)
      else (False, u))"

definition led :: "('h, 'c) sdk \<Rightarrow> bool \<Rightarrow> ('h, 'c, 'g) upd \<Rightarrow> ('h, 'c, 'g) upd" where
  "led k on u = (if ledPin u \<noteq> - 1 then u\<lparr>dev := digitalWrite k (ledPin u) (if on then ledOn u else \<not> ledOn u) (dev u)\<rparr> else u)"

definition stream_read :: "'h stream \<Rightarrow> u32 \<Rightarrow> ('h, 'c, 'g) upd \<Rightarrow> u8 list \<times> ('h, 'c, 'g) upd" where
  "stream_read st n u = (case st_readBytes st n (dev u) of (bs, h) \<Rightarrow> (bs, u\<lparr>dev := h\<rparr>))"

partial_function (option) stream_loop :: "('h, 'c) sdk \<Rightarrow> 'h stream \<Rightarrow> nat \<Rightarrow> ('h, 'c, 'g) upd \<Rightarrow> (nat \<times> ('h, 'c, 'g) upd) option" where
  "stream_loop k st written u =
     (if remaining u \<noteq> 0 then
        (let u = led k True u;
             bytesToRead = (if bufferSize u - bufferLen u > remaining u then remaining u else bufferSize u - bufferLen u);
             (bs, u) = stream_read st bytesToRead u;
             (bs, u) = (if bs = [] then stream_read st bytesToRead (u\<lparr>dev := sdk_delay k 100 (dev u)\<rparr>) else (bs, u))
         in if bs = [] then
              Some (written, Updater_reset k (setError UPDATE_ERROR_STREAM (u\<lparr>currentAddress := startAddress u + upd_size u\<rparr>)))
            else let u = fill_buffer bs (led k False u);
                     (ok, u) = (if bufferLen u = remaining u \<or> bufferLen u = bufferSize u then Updater_writeBuffer k u else (True, u))
         in if \<not> ok then Some (written, u)
            else stream_loop k st (written + length bs) (u\<lparr>dev := sdk_yield k (dev u)\<rparr>))
      else Some (written, u))"

definition Updater_writeStream :: "('h, 'c) sdk \<Rightarrow> 'h stream \<Rightarrow> ('h, 'c, 'g) upd \<Rightarrow> (nat \<times> ('h, 'c, 'g) upd) option" where
  "Updater_writeStream k st u =
     (if hasError u \<or> \<not> isRunning u then Some (0, u)
      else case Updater_verifyHeader (word_of_int (st_peek st (dev u))) u of (ok, u) \<Rightarrow>
        if \<not> ok then Some (0, Updater_reset k u)
        else stream_loop k st 0 (if ledPin u \<noteq> - 1 then u\<lparr>dev := pinMode_OUTPUT k (ledPin u) (dev u)\<rparr> else u))"

text \<open>The template \<^verbatim>\<open>write(T &data)\<close>, which takes what a source has available; the number of bytes that \<^verbatim>\<open>read\<close> returns is not
  looked at.\<close>

definition source_read :: "'h stream \<Rightarrow> u32 \<Rightarrow> ('h, 'c, 'g) upd \<Rightarrow> ('h, 'c, 'g) upd" where
  "source_read st n u =
     (case st_read st n (dev u) of (bs, h) \<Rightarrow>
        u\<lparr>dev := h, buffer := blit (unat (bufferLen u)) bs (buffer u), bufferLen := bufferLen u + n\<rparr>)"

partial_function (option) source_loop ::
  "('h, 'c) sdk \<Rightarrow> 'h stream \<Rightarrow> u32 \<Rightarrow> u32 \<Rightarrow> ('h, 'c, 'g) upd \<Rightarrow> (u32 \<times> ('h, 'c, 'g) upd) option" where
  "source_loop k st available written u =
     (if available \<noteq> 0 then
        (let available = (if bufferLen u + available > remaining u then remaining u - bufferLen u else available);
             n = (if bufferLen u + available > bufferSize u then bufferSize u - bufferLen u else available);
             full = bufferLen u + available > bufferSize u;
             u = source_read st n u;
             (ok, u) = (if full \<or> bufferLen u = remaining u then Updater_writeBuffer k u else (True, u))
         in if \<not> ok then Some (if full then written else written + n, u)
            else if remaining u = 0 then Some (written + n, u)
            else let u = u\<lparr>dev := sdk_delay k 1 (dev u)\<rparr> in source_loop k st (st_available st (dev u)) (written + n) u)
      else Some (written, u))"

definition Updater_write_source :: "('h, 'c) sdk \<Rightarrow> 'h stream \<Rightarrow> ('h, 'c, 'g) upd \<Rightarrow> (u32 \<times> ('h, 'c, 'g) upd) option" where
  "Updater_write_source k st u = (if hasError u \<or> \<not> isRunning u then Some (0, u) else source_loop k st (st_available st (dev u)) 0 u)"

section \<open>Ending\<close>

definition Updater_verifyEnd :: "('h, 'c) sdk \<Rightarrow> ('h, 'c, 'g) upd \<Rightarrow> bool \<times> ('h, 'c, 'g) upd" where
  "Updater_verifyEnd k u =
     (if command u = U_FLASH then
        (case flashRead k (startAddress u) 4 u of ((ok, bs), u) \<Rightarrow>
         let u0 = u\<lparr>currentAddress := startAddress u\<rparr> in
         if \<not> ok then (False, setError UPDATE_ERROR_READ u0)
         else if bs ! 0 \<noteq> 0xE9 then (False, setError UPDATE_ERROR_MAGIC_BYTE u0)
         else if magicFlashChipSize (drop_bit 4 (bs ! 3 AND 0xf0)) > getFlashChipRealSize k u
         then (False, setError UPDATE_ERROR_NEW_FLASH_CONFIG u0)
         else (True, u))
      else if command u = U_SPIFFS then (True, u)
      else (False, u))"

text \<open>The loop that feeds the staged image to the hash, in pieces of 128 bytes.\<close>

function hash_loop :: "('h, 'c) sdk \<Rightarrow> 'g signer \<Rightarrow> int \<Rightarrow> int \<Rightarrow> ('h, 'c, 'g) upd \<Rightarrow> ('h, 'c, 'g) upd" where
  "hash_loop k sg binSize i u =
     (if i < binSize then
        (case flashRead k (startAddress u + word_of_int i) 128 u of ((_, buff), u) \<Rightarrow>
           hash_loop k sg binSize (i + 128) (u\<lparr>hash := hash_add sg (take (nat (min 128 (binSize - i))) buff) (hash u)\<rparr>))
      else u)"
  by auto
termination by (relation "measure (\<lambda>(_, _, n, i, _). nat (n - i))") auto

definition check_signature :: "('h, 'c) sdk \<Rightarrow> 'g signer \<Rightarrow> ('h, 'c, 'g) upd \<Rightarrow> bool \<times> ('h, 'c, 'g) upd" where
  "check_signature k sg u =
     (case flashRead k (startAddress u + upd_size u - 4) 4 u of ((_, bs), u) \<Rightarrow>
      let sigLen = of_le32 bs in
      if sigLen \<noteq> sig_length sg then (False, u)
      else let binSize = upd_size u - sigLen - 4;
               u = hash_loop k sg (sint binSize) 0 (u\<lparr>hash := hash_begin sg (hash u)\<rparr>);
               u = u\<lparr>hash := hash_end sg (hash u)\<rparr> in
      if \<not> malloc k sigLen (dev u) then (False, u)
      else case flashRead k (startAddress u + binSize) sigLen u of ((_, sig), u) \<Rightarrow> (sig_verify sg (hash u) sig, u))"

text \<open>Comparison of strings without regard to case.\<close>

definition to_lower :: "char \<Rightarrow> char" where
  "to_lower c = (if CHR ''A'' \<le> c \<and> c \<le> CHR ''Z'' then char_of (of_char c + 32 :: nat) else c)"

definition strcasecmp_eq :: "string \<Rightarrow> string \<Rightarrow> bool" where
  "strcasecmp_eq a b \<longleftrightarrow> map to_lower a = map to_lower b"

text \<open>The checks before the command is left: the signature, or the digest if one is expected, and the header. A failure
  sets the error.\<close>

definition update_checks :: "('h, 'c) sdk \<Rightarrow> ('h, 'c, 'g) upd \<Rightarrow> bool \<times> ('h, 'c, 'g) upd" where
  "update_checks k u =
     (case (case verify u of
          Some sg \<Rightarrow> (case check_signature k sg u of (ok, u) \<Rightarrow> (ok, if ok then u else setError UPDATE_ERROR_SIGN u))
        | None \<Rightarrow>
            if target_md5 u \<noteq> [] then
              let u = u\<lparr>md5 := md5_calculate k (md5 u)\<rparr>; ok = strcasecmp_eq (target_md5 u) (md5_toString (md5 u))
              in (ok, if ok then u else setError UPDATE_ERROR_MD5 u)
            else (True, u)) of
        (ok, u) \<Rightarrow> if ok then Updater_verifyEnd k u else (False, u))"

text \<open>\<open>ebcmd\<close> is the uninitialised structure on the stack.\<close>

definition Updater_end :: "('h, 'c) sdk \<Rightarrow> eboot_command \<Rightarrow> bool \<Rightarrow> ('h, 'c, 'g) upd \<Rightarrow> bool \<times> ('h, 'c, 'g) upd" where
  "Updater_end k ebcmd evenIfRemaining u =
     (if upd_size u = 0 then (False, u)
      else if hasError u \<or> \<not> isFinished u \<and> \<not> evenIfRemaining then (False, Updater_reset k u)
      else let u = (if evenIfRemaining
                    then let u = (if bufferLen u > 0 then snd (Updater_writeBuffer k u) else u) in u\<lparr>upd_size := progress u\<rparr>
                    else u);
               (ok, u) = update_checks k u in
      if \<not> ok then (False, Updater_reset k u)
      else let u = (if command u = U_FLASH
                    then u\<lparr>rtc := snd (eboot_command_write
                      (ebcmd\<lparr>action := ACTION_COPY_RAW, args := (args ebcmd)[0 := startAddress u, 1 := 0, 2 := upd_size u]\<rparr>) (rtc u))\<rparr>
                    else u)
      in (True, Updater_reset k u))"

section \<open>A whole update\<close>

text \<open>\<^verbatim>\<open>EspClass::updateSketch\<close>: the result, and whether the chip is restarted.\<close>

definition updateSketch ::
  "('h, 'c) sdk \<Rightarrow> u32 \<Rightarrow> (nat \<Rightarrow> u8) \<Rightarrow> eboot_command \<Rightarrow> 'h stream \<Rightarrow> u32 \<Rightarrow> bool \<Rightarrow> bool \<Rightarrow> ('h, 'c, 'g) upd \<Rightarrow>
    (bool \<times> bool \<times> ('h, 'c, 'g) upd) option" where
  "updateSketch k SPIFFS_start fresh ebcmd st sz restartOnFail restartOnSuccess u =
     (case Updater_begin k SPIFFS_start fresh sz U_FLASH (- 1) False u of (ok, u) \<Rightarrow>
        if \<not> ok then Some (False, restartOnFail, u)
        else do {
          (n, u) \<leftarrow> Updater_writeStream k st u;
          if n \<noteq> unat sz then Some (False, restartOnFail, u)
          else case Updater_end k ebcmd False u of (ok, u) \<Rightarrow>
            Some (if ok then (True, restartOnSuccess, u) else (False, restartOnFail, u))
        })"

end
