(* ===== verification/Updater_Staging.thy ===== *)
theory Updater_Staging
  imports Updater
begin

text \<open>
  The updater with a flash chip that works: while the bytes of an update arrive, in pieces of any size, the flash
  holds what has left the buffer, at the place that was chosen for it above the running sketch.
\<close>

section \<open>The staged image\<close>

text \<open>The flash \<open>f\<close> with the bytes \<open>ds\<close> written from address \<open>a\<close> on; the rest of the last sector is erased.\<close>

definition stage :: "nat \<Rightarrow> u8 list \<Rightarrow> (nat \<Rightarrow> u8) \<Rightarrow> nat \<Rightarrow> u8" where
  "stage a ds f = (\<lambda>x. if a \<le> x \<and> x < a + length ds then ds ! (x - a)
     else if a \<le> x \<and> x < a + sectors (length ds) * 4096 then 0xFF else f x)"

lemma stage_Nil [simp]: "stage a [] f = f"
  by (rule ext) (auto simp: stage_def sectors_def)

text \<open>One buffer more: the sector is erased at its start, and then written.\<close>

definition erase_at :: "nat \<Rightarrow> (nat \<Rightarrow> u8) \<Rightarrow> nat \<Rightarrow> u8" where
  "erase_at p f = (if p mod 4096 = 0 then (\<lambda>x. if x div 4096 = p div 4096 then 0xFF else f x) else f)"

lemma sectors_step:
  assumes "B dvd 4096" "B dvd w" "0 < n" "n \<le> B"
  shows "sectors (w + n) = Suc (w div 4096)" "sectors w = (if w mod 4096 = 0 then w div 4096 else Suc (w div 4096))"
proof -
  obtain c where c: "4096 = B * c" using assms(1) by (elim dvdE)
  obtain j where j: "w = B * j" using assms(2) by (elim dvdE)
  have "0 < B" "0 < c" using c by (auto intro: Nat.gr0I)
  have wd: "w div 4096 = j div c" unfolding c j using \<open>0 < B\<close> by simp
  have r: "w mod 4096 = B * (j mod c)" unfolding c j by simp
  have "j mod c < c" using \<open>0 < c\<close> by simp
  then have "B * (j mod c) + B \<le> B * c" by (metis Suc_leI add.commute mult_Suc_right mult_le_mono2)
  then have le: "w mod 4096 + n \<le> 4096" using r c assms(4) by linarith
  have s: "sectors (w + n) = (w div 4096 * 4096 + (w mod 4096 + n + 4095)) div 4096" by (simp add: sectors_def)
  have "(w mod 4096 + n + 4095) div 4096 = 1" using le assms(3) by (simp add: div_nat_eqI)
  then show "sectors (w + n) = Suc (w div 4096)" unfolding s by (subst div_mult_self3) simp_all
  have s: "sectors w = (w div 4096 * 4096 + (w mod 4096 + 4095)) div 4096" by (simp add: sectors_def)
  have "(w mod 4096 + 4095) div 4096 = (if w mod 4096 = 0 then 0 else 1)" using le by (auto simp: div_nat_eqI)
  then show "sectors w = (if w mod 4096 = 0 then w div 4096 else Suc (w div 4096))"
    unfolding s by (subst div_mult_self3) simp_all
qed

lemma erased_stage:
  assumes "4096 dvd a" "B dvd 4096" "B dvd length ds" "0 < n" "n \<le> B"
  shows "erase_at (a + length ds) (stage a ds f) =
    (\<lambda>x. if a \<le> x \<and> x < a + length ds then ds ! (x - a) else if a + length ds \<le> x \<and> x < a + sectors (length ds + n) * 4096 then 0xFF else f x)"
proof (cases "length ds mod 4096 = 0")
  case True
  then obtain j where j: "length ds = 4096 * j" by auto
  obtain q where q: "a = 4096 * q" using assms(1) by (elim dvdE)
  have "x div 4096 = q + j \<longleftrightarrow> 4096 * q + 4096 * j \<le> x \<and> x < 4096 * q + Suc j * 4096" for x
    by (cases "x div 4096 = q + j") (simp_all, linarith+)
  then show ?thesis
    using sectors_step [OF assms(2-5)] by (intro ext) (auto simp: erase_at_def stage_def j q)
next
  case False
  then have "(a + length ds) mod 4096 \<noteq> 0" using assms(1) by (auto elim!: dvdE)
  with False show ?thesis
    using sectors_step [OF assms(2-5)] by (intro ext) (auto simp: erase_at_def stage_def)
qed

lemma stage_append:
  assumes "4096 dvd a" "B dvd 4096" "B dvd length ds" "0 < length bs" "length bs \<le> B"
  shows "(\<lambda>x. if a + length ds \<le> x \<and> x < a + length ds + length bs
      then erase_at (a + length ds) (stage a ds f) x AND bs ! (x - (a + length ds)) else erase_at (a + length ds) (stage a ds f) x)
    = stage a (ds @ bs) f"
proof -
  have "length ds + length bs \<le> sectors (length ds + length bs) * 4096" by (simp add: sectors_def)
  then show ?thesis
    unfolding erased_stage [OF assms] by (intro ext) (auto simp: stage_def nth_append and_FF)
qed

text \<open>The image as it is stored: the updater replaces the byte that holds the mode of the flash chip.\<close>

definition patched :: "u8 \<Rightarrow> u8 list \<Rightarrow> u8 list" where
  "patched mode ds = ds[FLASH_MODE_OFFSET := mode]"

lemma length_patched [simp]: "length (patched mode ds) = length ds"
  by (simp add: patched_def)

text \<open>An update in progress: of the \<open>n\<close> bytes announced, \<open>ds\<close> have arrived; \<open>w\<close> of them have been written to the flash, which held
  \<open>f\<close> before, and the others are in the buffer.\<close>

definition staging :: "('h, 'c) sdk \<Rightarrow> ('h \<Rightarrow> nat \<Rightarrow> u8) \<Rightarrow> ('h \<Rightarrow> bool) \<Rightarrow>
    (nat \<Rightarrow> u8) \<Rightarrow> nat \<Rightarrow> nat \<Rightarrow> u8 list \<Rightarrow> nat \<Rightarrow> ('h, 'c, 'g) upd \<Rightarrow> bool" where
  "staging k img up f a n ds w u \<longleftrightarrow> up (dev u) \<and> upd_error u = UPDATE_ERROR_OK \<and> unat (upd_size u) = n \<and> unat (startAddress u) = a
     \<and> command u = U_FLASH \<and> verify u = None
     \<and> unat (bufferSize u) dvd 4096 \<and> 4 dvd unat (bufferSize u) \<and> length (buffer u) = unat (bufferSize u)
     \<and> unat (currentAddress u) = a + w \<and> w \<le> length ds \<and> length ds \<le> n \<and> unat (bufferLen u) = length ds - w
     \<and> length ds - w \<le> unat (bufferSize u) \<and> take (length ds - w) (buffer u) = drop w ds
     \<and> (unat (bufferSize u) dvd w \<or> w = n)
     \<and> img (dev u) = stage a (take w (patched (magicFlashChipMode (f 2)) ds)) f
     \<and> ctx (md5 u) = MD5Update k (MD5Init k) (take w ds)"

text \<open>What writing does not change.\<close>

definition keeps :: "('h, 'c, 'g) upd \<Rightarrow> ('h, 'c, 'g) upd \<Rightarrow> bool" where
  "keeps u u' \<longleftrightarrow> rtc u' = rtc u \<and> target_md5 u' = target_md5 u \<and> bufferSize u' = bufferSize u \<and> ledPin u' = ledPin u"

lemma keeps_refl: "keeps u u"
  by (simp add: keeps_def)

lemma keeps_trans: "keeps u v \<Longrightarrow> keeps v w \<Longrightarrow> keeps u w"
  by (simp add: keeps_def)

lemma unat_round_sector:
  assumes "unat n \<le> 0x10000010"
  shows "unat (round_sector n) = sectors (unat n) * 4096"
proof -
  have "round_sector n = (n + 4095) AND NOT 4095" by (simp add: round_sector_def FLASH_SECTOR_SIZE_def add_diff_eq [symmetric])
  then have "round_sector n = of_nat (sectors (unat n) * 4096)" using round_up [of n] assms by simp
  moreover have "sectors (unat n) * 4096 < 2 ^ 32" using assms by (simp add: sectors_def div_less_iff_less_mult)
  ultimately show ?thesis by (simp add: unat_of_nat32 del: of_nat_mult)
qed

lemma sectors_ge: "n \<le> sectors n * 4096"
  by (simp add: sectors_def)

text \<open>A client that sends its data piece by piece.\<close>

fun write_chunks :: "('h, 'c) sdk \<Rightarrow> u8 list list \<Rightarrow> ('h, 'c, 'g) upd \<Rightarrow> ('h, 'c, 'g) upd option" where
  "write_chunks k [] u = Some u"
| "write_chunks k (c # cs) u = do { (_, u) \<leftarrow> Updater_write k c u; write_chunks k cs u }"

section \<open>A flash chip that works\<close>

text \<open>The functions of the vendor's library on a flash of \<open>cap\<close> bytes, which \<open>img\<close> reads off the hardware state; \<open>up\<close> says that
  the chip works. Reads and writes are by aligned words, erasing sets a sector to \<open>0xFF\<close>, writing can only
  clear bits; no other function touches the flash, and the identification of the chip is fixed. A
  digest does not depend on how the data are cut into pieces.\<close>

locale sdk_flash =
  fixes k :: "('h, 'c) sdk" and img :: "'h \<Rightarrow> nat \<Rightarrow> u8" and up :: "'h \<Rightarrow> bool" and cap :: nat and chip_id :: u32
  assumes read_law: "up h \<Longrightarrow> 4 dvd unat a \<Longrightarrow> 4 dvd unat n \<Longrightarrow> unat a + unat n \<le> cap \<Longrightarrow>
      \<exists>h'. spi_flash_read k a n h = ((0, map (img h) [unat a..<unat a + unat n]), h') \<and> up h' \<and> img h' = img h"
    and write_law: "up h \<Longrightarrow> 4 dvd unat a \<Longrightarrow> 4 dvd length bs \<Longrightarrow> unat a + length bs \<le> cap \<Longrightarrow>
      \<exists>h'. spi_flash_write k a bs h = (0, h') \<and> up h'
        \<and> img h' = (\<lambda>x. if unat a \<le> x \<and> x < unat a + length bs then img h x AND bs ! (x - unat a) else img h x)"
    and erase_law: "up h \<Longrightarrow> Suc (unat j) * 4096 \<le> cap \<Longrightarrow>
      \<exists>h'. spi_flash_erase_sector k j h = (0, h') \<and> up h' \<and> img h' = (\<lambda>x. if x div 4096 = unat j then 0xFF else img h x)"
    and id_law: "up h \<Longrightarrow> spi_flash_get_id k h = chip_id"
    and quiet_law: "up h \<Longrightarrow> up (sdk_yield k h) \<and> img (sdk_yield k h) = img h"
      "up h \<Longrightarrow> up (wifi_set_sleep_none k h) \<and> img (wifi_set_sleep_none k h) = img h"
      "up h \<Longrightarrow> up (digitalWrite k pin v h) \<and> img (digitalWrite k pin v h) = img h"
    and md5_law: "MD5Update k (MD5Update k c xs) ys = MD5Update k c (xs @ ys)" "MD5Update k c [] = c"
    and cap_law: "8192 \<le> cap" "cap \<le> 0x10000000"
begin

lemma yield_unless_async: "up (dev u) \<Longrightarrow> up (dev (yield_unless_async k u)) \<and> img (dev (yield_unless_async k u)) = img (dev u)"
  "\<exists>h. yield_unless_async k u = u\<lparr>dev := h\<rparr>"
  by (auto simp: yield_unless_async_def quiet_law intro: exI [of _ "dev u"])

lemma erase_first_law:
  assumes "up (dev u)" "Suc (unat (currentAddress u) div 4096) * 4096 \<le> cap"
  shows "\<exists>h. erase_first k u = (True, u\<lparr>dev := h\<rparr>) \<and> up h \<and> img h = erase_at (unat (currentAddress u)) (img (dev u))"
proof (cases "unat (currentAddress u) mod 4096 = 0")
  case True
  obtain h where h: "yield_unless_async k u = u\<lparr>dev := h\<rparr>" using yield_unless_async(2) by blast
  then have up: "up h" "img h = img (dev u)" using yield_unless_async(1) [OF assms(1)] by simp_all
  have "Suc j * 4096 \<le> cap \<Longrightarrow> j < 65536" for j using cap_law(2) by simp
  from this [OF assms(2)] have "unat (currentAddress u) div 4096 < 65536" .
  then have j: "unat (ucast (currentAddress u div 4096) :: u16) = unat (currentAddress u) div 4096"
    by (simp add: unsigned_ucast_eq unat_div take_bit_eq_mod)
  obtain h1 where "spi_flash_erase_sector k (ucast (currentAddress u div 4096)) h = (0, h1)" "up h1"
    "img h1 = (\<lambda>x. if x div 4096 = unat (currentAddress u) div 4096 then 0xFF else img (dev u) x)"
    using erase_law [OF up(1), of "ucast (currentAddress u div 4096)"] assms(2) unfolding j up(2) by blast
  then show ?thesis
    using True by (auto simp: erase_first_def flashEraseSector_def FLASH_SECTOR_SIZE_def h erase_at_def word_unat_eq_iff unat_mod)
next
  case False
  then show ?thesis
    using assms(1) by (auto simp: erase_first_def FLASH_SECTOR_SIZE_def erase_at_def word_unat_eq_iff unat_mod intro: exI [of _ "dev u"])
qed

lemma read_bytes:
  assumes "up h" "4 dvd unat a" "4 dvd unat n" "unat a + unat n \<le> cap"
  shows "\<exists>h' bs. spi_flash_read k a n h = ((0, bs), h') \<and> up h' \<and> img h' = img h \<and> (\<forall>i<unat n. bs ! i = img h (unat a + i))"
  using read_law [OF assms] by force

lemma set_flash_mode_law:
  assumes "up (dev u)" "currentAddress u = startAddress u" "buffer u ! FLASH_MODE_OFFSET \<le> FM_DOUT"
  shows "\<exists>md h. set_flash_mode k u = (md, buffer u ! FLASH_MODE_OFFSET,
      u\<lparr>dev := h, buffer := (buffer u)[FLASH_MODE_OFFSET := magicFlashChipMode (img (dev u) 2)]\<rparr>)
    \<and> up h \<and> img h = img (dev u) \<and> (\<not> md \<longrightarrow> magicFlashChipMode (img (dev u) 2) = buffer u ! FLASH_MODE_OFFSET)"
proof -
  obtain h bs where h: "spi_flash_read k 0 4 (dev u) = ((0, bs), h)" "up h" "img h = img (dev u)" "bs ! 2 = img (dev u) 2"
    using read_bytes [OF assms(1), of 0 4] cap_law(1) by auto
  moreover have "magicFlashChipMode (buffer u ! FLASH_MODE_OFFSET) = buffer u ! FLASH_MODE_OFFSET"
    using assms(3) by (auto simp: magicFlashChipMode_def dest: leD)
  moreover have "(buffer u)[FLASH_MODE_OFFSET := buffer u ! FLASH_MODE_OFFSET] = buffer u" by simp
  moreover have "u\<lparr>dev := h, buffer := buffer u\<rparr> = u\<lparr>dev := h\<rparr>" by (cases u) simp
  ultimately show ?thesis
    using assms(2) by (cases "buffer u ! FLASH_MODE_OFFSET = magicFlashChipMode (img (dev u) 2)")
      (auto simp: set_flash_mode_def getFlashChipMode_def Let_def intro!: exI [of _ h] simp del: list_update_id)
qed

lemma staged_mode:
  fixes f :: "nat \<Rightarrow> u8"
  assumes "up (dev u)" "img (dev u) 2 = f 2" "take (length ds - w) (buffer u) = drop w ds"
    and "currentAddress u = startAddress u \<longleftrightarrow> w = 0" "w = 0 \<or> 2 < w" "w = 0 \<Longrightarrow> 2 < length ds" "ds ! 2 \<le> FM_DOUT"
  shows "\<exists>md bm h b. set_flash_mode k u = (md, bm, u\<lparr>dev := h, buffer := b\<rparr>) \<and> up h \<and> img h = img (dev u)
    \<and> take (length ds - w) b = drop w (patched (magicFlashChipMode (f 2)) ds)
    \<and> (if md then b[FLASH_MODE_OFFSET := bm] else b) = buffer u"
proof (cases "w = 0")
  case True
  then have ds: "take (length ds) (buffer u) = ds" "2 < length ds" using assms(3,6) by simp_all
  then have b2: "buffer u ! FLASH_MODE_OFFSET = ds ! 2" by (metis FLASH_MODE_OFFSET_def nth_take)
  then obtain md h where h: "set_flash_mode k u = (md, buffer u ! FLASH_MODE_OFFSET,
      u\<lparr>dev := h, buffer := (buffer u)[FLASH_MODE_OFFSET := magicFlashChipMode (f 2)]\<rparr>)" "up h" "img h = img (dev u)"
    "\<not> md \<Longrightarrow> magicFlashChipMode (f 2) = buffer u ! FLASH_MODE_OFFSET"
    using set_flash_mode_law [OF assms(1)] assms(2,4,7) True by auto
  have "take (length ds - w) ((buffer u)[FLASH_MODE_OFFSET := magicFlashChipMode (f 2)]) = drop w (patched (magicFlashChipMode (f 2)) ds)"
    using ds(1) True by (simp add: patched_def take_update_swap)
  moreover have "(if md then (buffer u)[FLASH_MODE_OFFSET := magicFlashChipMode (f 2), FLASH_MODE_OFFSET := buffer u ! FLASH_MODE_OFFSET]
      else (buffer u)[FLASH_MODE_OFFSET := magicFlashChipMode (f 2)]) = buffer u"
    using h(4) by simp
  ultimately show ?thesis using h(1-3) by blast
next
  case False
  moreover have "u\<lparr>dev := dev u, buffer := buffer u\<rparr> = u" by simp
  moreover have "drop w (patched v ds) = drop w ds" for v
    using assms(5) False by (simp add: patched_def FLASH_MODE_OFFSET_def drop_update_cancel)
  ultimately show ?thesis
    using assms(1,3,4) by (intro exI [of _ False] exI [of _ FM_QIO] exI [of _ "dev u"] exI [of _ "buffer u"]) (simp add: set_flash_mode_def)
qed

lemma writeBuffer_run:
  assumes "erase_first k u = (True, u\<lparr>dev := h1\<rparr>)"
    and "set_flash_mode k (u\<lparr>dev := h1\<rparr>) = (md, bm, u\<lparr>dev := h2, buffer := b\<rparr>)"
    and "(if md then b[FLASH_MODE_OFFSET := bm] else b) = buffer u" "up h2"
    and "4 dvd unat (currentAddress u)" "4 dvd unat (bufferLen u)" "length (take (unat (bufferLen u)) b) = unat (bufferLen u)"
    and "unat (currentAddress u) + unat (bufferLen u) \<le> cap" "verify u = None"
  shows "\<exists>h. Updater_writeBuffer k u = (True, u\<lparr>dev := h, md5 := md5_add k (take (unat (bufferLen u)) (buffer u)) (md5 u),
        currentAddress := currentAddress u + bufferLen u, bufferLen := 0\<rparr>)
    \<and> up h \<and> img h = (\<lambda>x. if unat (currentAddress u) \<le> x \<and> x < unat (currentAddress u) + unat (bufferLen u)
        then img h2 x AND take (unat (bufferLen u)) b ! (x - unat (currentAddress u)) else img h2 x)"
proof -
  define v where "v = u\<lparr>dev := h2, buffer := b\<rparr>"
  obtain h3 where y: "yield_unless_async k v = v\<lparr>dev := h3\<rparr>" using yield_unless_async(2) by blast
  then have h3: "up h3" "img h3 = img h2" using yield_unless_async(1) [of v] assms(4) by (simp_all add: v_def)
  obtain h where w: "spi_flash_write k (currentAddress u) (take (unat (bufferLen u)) b) h3 = (0, h)" "up h"
    "img h = (\<lambda>x. if unat (currentAddress u) \<le> x \<and> x < unat (currentAddress u) + unat (bufferLen u)
        then img h2 x AND take (unat (bufferLen u)) b ! (x - unat (currentAddress u)) else img h2 x)"
    using write_law [OF h3(1) assms(5), of "take (unat (bufferLen u)) b"] assms(6-8) unfolding h3(2) assms(7) by blast
  have v: "currentAddress v = currentAddress u" "bufferLen v = bufferLen u" "buffer v = b" "verify v = None" by (simp_all add: v_def assms(9))
  define v1 where "v1 = (if md then v\<lparr>dev := h, buffer := b[FLASH_MODE_OFFSET := bm]\<rparr> else v\<lparr>dev := h\<rparr>)"
  have "v1 = u\<lparr>dev := h\<rparr>" using assms(3) by (cases md) (simp_all add: v1_def v_def)
  moreover have "Updater_writeBuffer k u = (True, v1\<lparr>md5 := md5_add k (take (unat (bufferLen v1)) (buffer v1)) (md5 v1),
      currentAddress := currentAddress v1 + bufferLen v1, bufferLen := 0\<rparr>)"
    using assms(1,2) w(1) v by (cases md) (simp_all add: Updater_writeBuffer_def v_def [symmetric] y flashWrite_def v1_def Let_def)
  ultimately show ?thesis using w(2,3) by auto
qed

lemma writeBuffer_stages:
  assumes st: "staging k img up f a n ds w u" and w: "w < length ds" and l: "length ds - w = unat (bufferSize u) \<or> length ds = n"
    and a: "4 dvd n" "4096 dvd a" "4096 \<le> a" "a + sectors n * 4096 \<le> cap" "2 < length ds \<Longrightarrow> ds ! 2 \<le> FM_DOUT"
  shows "\<exists>u'. Updater_writeBuffer k u = (True, u') \<and> staging k img up f a n ds (length ds) u' \<and> keeps u u'"
proof -
  define B where "B = unat (bufferSize u)"
  define L where "L = length ds - w"
  define P where "P = patched (magicFlashChipMode (f 2)) ds"
  have s: "up (dev u)" "unat (startAddress u) = a" "B dvd 4096" "4 dvd B" "length (buffer u) = B" "unat (currentAddress u) = a + w"
    "length ds \<le> n" "unat (bufferLen u) = L" "L \<le> B" "take L (buffer u) = drop w ds" "img (dev u) = stage a (take w P) f" "verify u = None"
    "ctx (md5 u) = MD5Update k (MD5Init k) (take w ds)" "B dvd w"
    using st w by (auto simp: staging_def B_def L_def P_def)
  have "0 < B" using s(3) by (auto intro: Nat.gr0I)
  have "4 dvd w" "4 dvd a" using s(4,14) a(2) by (auto elim!: dvdE)
  have "4 dvd L" using l s(4) a(1) \<open>4 dvd w\<close> by (auto simp: B_def L_def intro: dvd_diff_nat)
  have L: "0 < L" "length ds = w + L" using w by (simp_all add: L_def)
  note sec = sectors_step [OF s(3,14) L(1) s(9)]
  have "sectors (w + L) \<le> sectors n" using s(7) L(2) by (simp add: sectors_def div_le_mono)
  then have c: "a + Suc (w div 4096) * 4096 \<le> cap" using a(4) sec(1) by simp
  then have "Suc (unat (currentAddress u) div 4096) * 4096 \<le> cap"
    unfolding s(6) using a(2) by (auto elim!: dvdE simp: algebra_simps)
  then obtain h1 where h1: "erase_first k u = (True, u\<lparr>dev := h1\<rparr>)" "up h1" "img h1 = erase_at (a + w) (stage a (take w P) f)"
    using erase_first_law [OF s(1)] s(6,11) by auto
  have "\<not> 2 div 4096 = (a + w) div 4096" using a(3) by (simp add: div_eq_0_iff)
  then have "img h1 2 = f 2" using a(3) by (simp add: h1(3) erase_at_def stage_def)
  moreover have "currentAddress u = startAddress u \<longleftrightarrow> w = 0" by (simp add: word_unat_eq_iff s(2,6))
  moreover have "w = 0 \<or> 2 < w" "2 < length ds" using \<open>4 dvd w\<close> \<open>4 dvd L\<close> L by (auto dest: dvd_imp_le)
  ultimately obtain md bm h2 b where m: "set_flash_mode k (u\<lparr>dev := h1\<rparr>) = (md, bm, u\<lparr>dev := h2, buffer := b\<rparr>)" "up h2" "img h2 = img h1"
    "take L b = drop w P" "(if md then b[FLASH_MODE_OFFSET := bm] else b) = buffer u"
    using staged_mode [of "u\<lparr>dev := h1\<rparr>" f ds w] h1(2) s(10) a(5) by (auto simp: L_def P_def)
  have "a + w + L \<le> cap" using s(7) L(2) a(4) by (simp add: sectors_def)
  moreover have lp: "length (drop w P) = L" and lt: "length (take w P) = w" using L by (simp_all add: P_def)
  ultimately obtain h where h: "Updater_writeBuffer k u = (True, u\<lparr>dev := h, md5 := md5_add k (drop w ds) (md5 u),
        currentAddress := currentAddress u + bufferLen u, bufferLen := 0\<rparr>)" "up h"
      "img h = (\<lambda>x. if a + w \<le> x \<and> x < a + w + L then img h1 x AND drop w P ! (x - (a + w)) else img h1 x)"
    using writeBuffer_run [OF h1(1) m(1,5,2), unfolded s(6,8,10) m(3,4) lp] s(12) \<open>4 dvd a\<close> \<open>4 dvd w\<close> \<open>4 dvd L\<close> by auto
  have "img h = stage a (take w P @ drop w P) f"
    using stage_append [OF a(2) s(3), of "take w P" "drop w P" f, unfolded lt lp] s(14,9) L(1) unfolding h(3) h1(3) by simp
  moreover have "ctx (md5_add k (drop w ds) (md5 u)) = MD5Update k (MD5Init k) ds"
  proof -
    have "length (drop w ds) \<le> 4096" using s(3,9) L by (auto dest: dvd_imp_le)
    then show ?thesis by (simp add: md5_add_def s(13) md5_law)
  qed
  moreover have "unat (currentAddress u + bufferLen u) = a + length ds"
    using \<open>a + w + L \<le> cap\<close> cap_law(2) L by (subst unat_add32) (simp_all add: s(6,8))
  moreover have "B dvd length ds \<or> length ds = n"
    using l dvd_add [OF s(14) dvd_refl] L(2) by (metis B_def L_def)
  ultimately have "staging k img up f a n ds (length ds) (u\<lparr>dev := h, md5 := md5_add k (drop w ds) (md5 u),
        currentAddress := currentAddress u + bufferLen u, bufferLen := 0\<rparr>)"
    using st h(2) s(7) by (simp add: staging_def P_def B_def)
  then show ?thesis using h(1) by (simp add: keeps_def)
qed

lemma fill_buffer_stages:
  assumes st: "staging k img up f a n ds w u" and l: "length ds - w + length bs \<le> unat (bufferSize u)" "length ds + length bs \<le> n"
  shows "staging k img up f a n (ds @ bs) w (fill_buffer bs u)"
proof -
  have s: "w \<le> length ds" "unat (bufferLen u) = length ds - w" "length (buffer u) = unat (bufferSize u)"
    "take (length ds - w) (buffer u) = drop w ds" "unat (bufferSize u) dvd 4096"
    using st by (simp_all add: staging_def)
  have "unat (bufferSize u) \<le> 4096" using s(5) by (auto dest: dvd_imp_le)
  then have "unat (of_nat (length bs) :: u32) = length bs" using l by (simp add: unat_of_nat32)
  then have "unat (bufferLen u + of_nat (length bs)) = length ds - w + length bs"
    using l(1) \<open>_ \<le> 4096\<close> s(2) by (subst unat_add32) simp_all
  moreover have "take (length ds - w + length bs) (blit (length ds - w) bs (buffer u)) = drop w ds @ bs"
    using take_blit [of "length ds - w" "buffer u" bs] l(1) s(3,4) by simp
  moreover have "length (blit (length ds - w) bs (buffer u)) = unat (bufferSize u)" using l(1) s(3) by (simp add: length_blit)
  ultimately show ?thesis
    using st l s by (simp add: staging_def fill_buffer_def patched_def take_update_swap)
qed

lemma staging_yield: "staging k img up f a n ds w u \<Longrightarrow> staging k img up f a n ds w (yield_unless_async k u) \<and> keeps u (yield_unless_async k u)"
  by (auto simp: yield_unless_async_def staging_def keeps_def quiet_law)

lemma buffer_fits:
  assumes "staging k img up f a n ds w u" "length ds + length bs \<le> n" "a + sectors n * 4096 \<le> cap"
  shows "bufferLen u + of_nat (length bs) > bufferSize u \<longleftrightarrow> length ds - w + length bs > unat (bufferSize u)"
    "unat (bufferSize u - bufferLen u) = unat (bufferSize u) - (length ds - w)" "0 < unat (bufferSize u)"
proof -
  have s: "unat (bufferLen u) = length ds - w" "length ds - w \<le> unat (bufferSize u)" "unat (bufferSize u) dvd 4096"
    using assms(1) by (simp_all add: staging_def)
  show "0 < unat (bufferSize u)" using s(3) by (cases "unat (bufferSize u)") auto
  have "unat (bufferSize u) \<le> 4096" using s(3) by (auto dest: dvd_imp_le)
  moreover have "length bs \<le> 0x10000000" using assms(2,3) cap_law(2) by (simp add: sectors_def)
  ultimately have "unat (bufferLen u + of_nat (length bs)) = length ds - w + length bs"
    using s(1,2) by (subst unat_add32) (simp_all add: unat_of_nat32)
  then show "bufferLen u + of_nat (length bs) > bufferSize u \<longleftrightarrow> length ds - w + length bs > unat (bufferSize u)"
    by (simp add: word_less_nat_alt)
  show "unat (bufferSize u - bufferLen u) = unat (bufferSize u) - (length ds - w)"
    using s(1,2) by (simp add: unat_sub word_le_nat_alt)
qed

lemma write_loop_stages:
  assumes "staging k img up f a n ds w u" "length ds + length bs \<le> n"
    and a: "4 dvd n" "4096 dvd a" "4096 \<le> a" "a + sectors n * 4096 \<le> cap" and "2 < length (ds @ bs) \<Longrightarrow> (ds @ bs) ! 2 \<le> FM_DOUT"
  shows "\<exists>us left u' w'. write_loop k bs u = Some (True, left, u') \<and> bs = us @ left \<and> staging k img up f a n (ds @ us) w' u' \<and> keeps u u'
    \<and> length ds + length us - w' + length left \<le> unat (bufferSize u) \<and> (bs \<noteq> [] \<longrightarrow> w' < length ds + length bs)"
  using assms(1,2,7)
proof (induction "length ds - w + length bs" arbitrary: ds w u bs rule: less_induct)
  case less
  note fits = buffer_fits [OF less.prems(1,2) a(4)]
  have wl: "w \<le> length ds" using less.prems(1) by (simp add: staging_def)
  show ?case
  proof (cases "length ds - w + length bs > unat (bufferSize u)")
    case False
    then have "write_loop k bs u = Some (True, bs, u)" using fits by (simp add: write_loop.simps [of k bs u])
    then show ?thesis
      using less.prems(1) False wl
      by (rule_tac x = "[]" in exI, rule_tac x = bs in exI, rule_tac x = u in exI, rule_tac x = w in exI) (cases bs; simp add: keeps_refl)
  next
    case True
    define t where "t = unat (bufferSize u) - (length ds - w)"
    define es where "es = ds @ take t bs"
    have lw: "length ds - w \<le> unat (bufferSize u)" using less.prems(1) by (simp add: staging_def)
    have t: "length (take t bs) = t" "length es - w = unat (bufferSize u)" "w < length es" "t < length bs"
      using True fits(3) wl lw by (auto simp: t_def es_def)
    have "staging k img up f a n es w (fill_buffer (take t bs) u)"
      unfolding es_def using fill_buffer_stages [OF less.prems(1), of "take t bs"] t(1) lw less.prems(2) by (simp add: t_def)
    moreover have "bufferSize (fill_buffer (take t bs) u) = bufferSize u" "keeps u (fill_buffer (take t bs) u)"
      by (simp_all add: fill_buffer_def keeps_def)
    moreover have "2 < length es \<Longrightarrow> es ! 2 \<le> FM_DOUT"
      using less.prems(3) by (cases "2 < length ds") (auto simp: es_def nth_append split: if_splits)
    ultimately obtain v where v: "Updater_writeBuffer k (fill_buffer (take t bs) u) = (True, v)" "staging k img up f a n es (length es) v" "keeps u v"
      using writeBuffer_stages [OF _ t(3) _ a, of f "fill_buffer (take t bs) u"] t(2) keeps_trans by metis
    define v' where "v' = yield_unless_async k v"
    have v': "staging k img up f a n es (length es) v'" "keeps u v'"
      using staging_yield [OF v(2)] keeps_trans [OF v(3)] by (simp_all add: v'_def)
    have rest: "es @ drop t bs = ds @ bs" by (simp add: es_def)
    then have le: "length es + length (drop t bs) = length ds + length bs" by (metis length_append)
    have dec: "length es - length es + length (drop t bs) < length ds - w + length bs" using True fits(3) lw t(4) by (auto simp: t_def)
    have "drop t bs \<noteq> []" using t(4) by simp
    then obtain us left u' w' where r: "write_loop k (drop t bs) v' = Some (True, left, u')" "drop t bs = us @ left"
        "staging k img up f a n (es @ us) w' u'" "keeps v' u'" "length es + length us - w' + length left \<le> unat (bufferSize v')"
        "w' < length ds + length bs"
      using less.hyps [OF dec v'(1)] less.prems(2,3) unfolding rest le by blast
    have "write_loop k bs u = Some (True, left, u')"
      using True fits v(1) r(1) by (simp add: write_loop.simps [of k bs u] t_def [symmetric] v'_def [symmetric] Let_def)
    moreover have "bs = (take t bs @ us) @ left" using r(2) by (metis append.assoc append_take_drop_id)
    moreover have "staging k img up f a n (ds @ take t bs @ us) w' u'" using r(3) by (simp add: es_def)
    moreover have "length ds + length (take t bs @ us) - w' + length left \<le> unat (bufferSize u)"
      using r(5) v'(2) by (simp add: es_def keeps_def add.assoc)
    ultimately show ?thesis using r(6) keeps_trans [OF v'(2) r(4)] by blast
  qed
qed

lemma remaining_staging:
  assumes "staging k img up f a n ds w u"
  shows "unat (remaining u) = n - w" "unat (progress u) = w"
proof -
  have s: "unat (currentAddress u) = a + w" "unat (startAddress u) = a" "unat (upd_size u) = n" "w \<le> n"
    using assms by (simp_all add: staging_def)
  then show p: "unat (progress u) = w" by (simp add: progress_def unat_sub word_le_nat_alt)
  have "remaining u = upd_size u - progress u" by (simp add: remaining_def progress_def)
  then show "unat (remaining u) = n - w" using p s by (simp add: unat_sub word_le_nat_alt)
qed

lemma write_stages:
  assumes st: "staging k img up f a n ds w u" and bs: "bs \<noteq> []" "length ds + length bs \<le> n"
    and a: "4 dvd n" "4096 dvd a" "4096 \<le> a" "a + sectors n * 4096 \<le> cap" and m: "2 < length (ds @ bs) \<Longrightarrow> (ds @ bs) ! 2 \<le> FM_DOUT"
  shows "\<exists>u' w'. Updater_write k bs u = Some (length bs, u') \<and> staging k img up f a n (ds @ bs) w' u' \<and> keeps u u'
    \<and> (length ds + length bs = n \<longrightarrow> w' = n)"
proof -
  have "\<not> hasError u" "unat (upd_size u) = n" "w \<le> length ds" using st by (simp_all add: staging_def hasError_def)
  then have run: "\<not> hasError u" "isRunning u" using bs by (cases bs; simp add: isRunning_def word_less_nat_alt)+
  have "length bs < 2 ^ 32" using bs(2) a(4) cap_law(2) by (simp add: sectors_def)
  then have len: "\<not> of_nat (length bs) > remaining u"
    using remaining_staging(1) [OF st] bs(2) \<open>w \<le> length ds\<close> by (simp add: word_less_nat_alt unat_of_nat32)
  obtain us left v w1 where l: "write_loop k bs u = Some (True, left, v)" "bs = us @ left" "staging k img up f a n (ds @ us) w1 v" "keeps u v"
    "length ds + length us - w1 + length left \<le> unat (bufferSize u)" "w1 < length ds + length bs"
    using write_loop_stages [OF st bs(2) a m] bs(1) by blast
  define v1 where "v1 = fill_buffer left v"
  have v1: "staging k img up f a n (ds @ bs) w1 v1" "keeps u v1"
    using fill_buffer_stages [OF l(3), of left] l(2,4,5) bs(2) by (simp_all add: v1_def keeps_def fill_buffer_def)
  have "unat (bufferLen v1) = length ds + length bs - w1" using v1(1) by (simp add: staging_def)
  then have full: "bufferLen v1 = remaining v1 \<longleftrightarrow> length ds + length bs = n"
    using remaining_staging(1) [OF v1(1)] l(6) bs(2) by (auto simp: word_unat_eq_iff)
  show ?thesis
  proof (cases "length ds + length bs = n")
    case False
    then have "Updater_write k bs u = Some (length bs, v1)" using run len l(1) full by (simp add: Updater_write_def v1_def [symmetric])
    with v1 False show ?thesis by blast
  next
    case True
    obtain v2 where v2: "Updater_writeBuffer k v1 = (True, v2)" "staging k img up f a n (ds @ bs) n v2" "keeps v1 v2"
      using writeBuffer_stages [OF v1(1) _ _ a m] l(6) True by auto
    then have "Updater_write k bs u = Some (length bs, v2)" using run len l(1) full True by (simp add: Updater_write_def v1_def [symmetric])
    with v2 keeps_trans [OF v1(2)] show ?thesis by blast
  qed
qed

lemma write_chunks_stages:
  assumes "staging k img up f a n ds w u" "[] \<notin> set cs" "length ds + length (concat cs) \<le> n"
    and a: "4 dvd n" "4096 dvd a" "4096 \<le> a" "a + sectors n * 4096 \<le> cap"
    and "2 < length (ds @ concat cs) \<Longrightarrow> (ds @ concat cs) ! 2 \<le> FM_DOUT"
  shows "\<exists>u' w'. write_chunks k cs u = Some u' \<and> staging k img up f a n (ds @ concat cs) w' u' \<and> keeps u u'
    \<and> (cs \<noteq> [] \<and> length ds + length (concat cs) = n \<longrightarrow> w' = n)"
  using assms(1-3,8)
proof (induction cs arbitrary: ds w u)
  case (Cons c cs)
  have "2 < length (ds @ c) \<Longrightarrow> (ds @ c) ! 2 \<le> FM_DOUT" using Cons.prems(4) by (simp add: nth_append split: if_splits)
  then obtain v w1 where v: "Updater_write k c u = Some (length c, v)" "staging k img up f a n (ds @ c) w1 v" "keeps u v"
      "length ds + length c = n \<longrightarrow> w1 = n"
    using write_stages [OF Cons.prems(1) _ _ a, of c] Cons.prems(2,3) by auto
  show ?case
  proof (cases "cs = []")
    case True
    then show ?thesis using v by auto
  next
    case False
    then obtain u' w' where "write_chunks k cs v = Some u'" "staging k img up f a n ((ds @ c) @ concat cs) w' u'" "keeps v u'"
        "length (ds @ c) + length (concat cs) = n \<longrightarrow> w' = n"
      using Cons.IH [OF v(2)] Cons.prems(2-4) by auto
    then show ?thesis using v(1) keeps_trans [OF v(3)] by auto
  qed
qed (auto simp: keeps_refl)

lemma read_holds:
  assumes "up h" "holds (img h) (unat a) bs" "4 dvd unat a" "4 dvd length bs" "unat a + length bs \<le> cap" "n = of_nat (length bs)"
  shows "\<exists>h'. spi_flash_read k a n h = ((0, bs), h') \<and> up h' \<and> img h' = img h"
proof -
  have "unat (of_nat (length bs) :: u32) = length bs" using assms(5) cap_law(2) by (simp add: unat_of_nat32)
  then show ?thesis using read_law [OF assms(1,3), of "of_nat (length bs)"] assms by (simp add: holds_def)
qed

lemma unat_step: "unat (p :: u32) + n \<le> cap \<Longrightarrow> unat (p + of_nat n) = unat p + n"
  using cap_law(2) by (subst unat_add32) (simp_all add: unat_of_nat32)

lemma sketch_end_law:
  "up (dev s) \<Longrightarrow> holds (img (dev s)) (unat pos) (concat (map encode_section secs)) \<Longrightarrow> 4 dvd unat pos \<Longrightarrow>
   \<forall>sec \<in> set secs. 4 dvd length (snd sec) \<Longrightarrow> unat pos + length (concat (map encode_section secs)) \<le> cap \<Longrightarrow>
   \<exists>h. sketch_end k (length secs) pos s = (Some (pos + of_nat (length (concat (map encode_section secs)))), s\<lparr>dev := h\<rparr>)
     \<and> up h \<and> img h = img (dev s)"
proof (induction secs arbitrary: pos s)
  case Nil
  then show ?case by (intro exI [of _ "dev s"]) simp
next
  case (Cons sec secs)
  obtain a bs where sec: "sec = (a, bs)" by (cases sec)
  let ?n = "of_nat (length bs) :: u32"
  have hd: "holds (img (dev s)) (unat pos) (le32 a @ le32 ?n)"
    and tl: "holds (img (dev s)) (unat pos + (8 + length bs)) (concat (map encode_section secs))"
    using Cons.prems(2) by (simp_all add: sec encode_section_pair holds_append add.assoc)
  have bound: "unat pos + (8 + length bs) + length (concat (map encode_section secs)) \<le> cap"
    using Cons.prems(5) by (simp add: sec encode_section_pair)
  then have p: "unat (pos + 8 + ?n) = unat pos + (8 + length bs)"
    using unat_step [of pos "8 + length bs"] by (simp add: add.assoc)
  obtain h1 where h1: "spi_flash_read k pos 8 (dev s) = ((0, le32 a @ le32 ?n), h1)" "up h1" "img h1 = img (dev s)"
    using read_holds [OF Cons.prems(1) hd Cons.prems(3), of 8] bound by auto
  have "4 dvd unat pos + (8 + length bs)" using Cons.prems(3,4) by (simp add: sec)
  then show ?case
    using Cons.IH [of "s\<lparr>dev := h1\<rparr>" "pos + 8 + ?n", unfolded p] h1 tl Cons.prems(4) bound
    by (auto simp: section_header_of_def Let_def sec encode_section_pair add.assoc)
qed

text \<open>The size of the running sketch: at least its end, and at most 16 bytes more.\<close>

lemma sketch_size_law:
  assumes "up (dev s)" "good_image secs" "holds (img (dev s)) 4096 (encode_image mg mode freq pc secs)"
    and n: "n = 4096 + length (encode_image mg mode freq pc secs)" "n + 16 \<le> cap"
    and "sketch_size s = 0 \<or> n \<le> unat (sketch_size s) \<and> unat (sketch_size s) \<le> n + 16"
  shows "\<exists>r h z. getSketchSize k s = (r, s\<lparr>dev := h, sketch_size := z\<rparr>) \<and> up h \<and> img h = img (dev s) \<and> n \<le> unat r \<and> unat r \<le> n + 16"
proof (cases "sketch_size s = 0")
  case False
  then show ?thesis
    using assms(1,6) by (intro exI [of _ "sketch_size s"] exI [of _ "dev s"]) (auto simp: getSketchSize_def)
next
  case True
  let ?hd = "[mg, of_nat (length secs), mode, freq] @ le32 pc"
  let ?l = "length (concat (map encode_section secs))"
  have hd: "holds (img (dev s)) (unat APP_START_OFFSET) ?hd"
    and tl: "holds (img (dev s)) (unat (APP_START_OFFSET + 8)) (concat (map encode_section secs))"
    using assms(3) unfolding encode_image_def append_assoc [symmetric]
    by (simp_all only: holds_append) (simp_all add: APP_START_OFFSET_def)
  have bound: "4104 + ?l = n" using n(1) by (simp add: encode_image_def)
  obtain h1 where h1: "spi_flash_read k APP_START_OFFSET 8 (dev s) = ((0, ?hd), h1)" "up h1" "img h1 = img (dev s)"
    using read_holds [OF assms(1) hd, of 8] n(2) bound by (auto simp: APP_START_OFFSET_def)
  have "unat (of_nat (length secs) :: u8) = length secs"
    using assms(2) by (simp add: good_image_def unat_of_nat take_bit_eq_mod)
  define pos where "pos = APP_START_OFFSET + 8 + of_nat ?l"
  have pos: "unat pos = n"
    using unat_step [of "APP_START_OFFSET + 8" ?l] n(2) bound by (simp add: pos_def APP_START_OFFSET_def)
  obtain h2 where h2: "sketch_end k (length secs) (APP_START_OFFSET + 8) (s\<lparr>dev := h1\<rparr>) = (Some pos, s\<lparr>dev := h2\<rparr>)"
      "up h2" "img h2 = img (dev s)"
    using sketch_end_law [of "s\<lparr>dev := h1\<rparr>" "APP_START_OFFSET + 8" secs] h1 tl assms(2) n(2) bound
    by (auto simp: pos_def good_image_def APP_START_OFFSET_def)
  define r where "r = (pos + 16) AND NOT 15"
  have "r = push_bit 4 (drop_bit 4 (pos + 16))"
    using and_not_low [of "pos + 16" 4] by (simp add: r_def mask_eq_exp_minus_1)
  then have "r = (pos + 16) div 16 * 16" by (simp add: push_bit_eq_mult drop_bit_eq_div)
  moreover have "unat (pos + 16) = n + 16" using unat_step [of pos 16] n(2) pos by simp
  moreover have "(n + 16) div 16 * 16 < 2 ^ 32" using n(2) cap_law(2) div_times_less_eq_dividend [of "n + 16" 16] by simp
  ultimately have "unat r = (n + 16) div 16 * 16" by (simp add: unat_word_ariths unat_div)
  then have "n \<le> unat r" "unat r \<le> n + 16" by linarith+
  moreover have "getSketchSize k s = (r, s\<lparr>dev := h2, sketch_size := r\<rparr>)"
    using True h1(1) h2(1) \<open>unat (of_nat (length secs) :: u8) = length secs\<close>
    by (simp add: getSketchSize_def Let_def image_header_of_def r_def)
  ultimately show ?thesis using h2(2,3) by blast
qed

lemma reset_law:
  "up (dev u) \<Longrightarrow> up (dev (Updater_reset k u)) \<and> img (dev (Updater_reset k u)) = img (dev u)"
  by (simp add: Updater_reset_def Let_def quiet_law)

lemma config_law:
  assumes "up (dev u)"
  shows "\<exists>ok h. checkFlashConfig k e u = (ok, u\<lparr>dev := h\<rparr>) \<and> up h \<and> img h = img (dev u)"
  using read_bytes [OF assms, of 0 4] cap_law(1) by (auto simp: checkFlashConfig_def getFlashChipSize_def Let_def)

lemma start_law:
  fixes u :: "('h, 'c, 'g) upd"
  assumes "up (dev u)" "update_start k S sz U_FLASH u = (Some a, u1)" "unat (S - 0x40200000) \<le> cap" "unat sz \<le> cap"
    and "good_image secs" "holds (img (dev u)) 4096 (encode_image mg mode freq pc secs)"
    and n: "n = 4096 + length (encode_image mg mode freq pc secs)" "n + 16 \<le> cap"
    and "sketch_size u = 0 \<or> n \<le> unat (sketch_size u) \<and> unat (sketch_size u) \<le> n + 16"
  shows "unat a + sectors (unat sz) * 4096 = unat (S - 0x40200000)" "n \<le> unat a"
    "\<exists>h z. u1 = u\<lparr>dev := h, sketch_size := z\<rparr> \<and> up h \<and> img h = img (dev u)"
proof -
  obtain r h z where r: "getSketchSize k u = (r, u\<lparr>dev := h, sketch_size := z\<rparr>)" "up h" "img h = img (dev u)" "n \<le> unat r" "unat r \<le> n + 16"
    using sketch_size_law [OF assms(1,5-9)] by blast
  have "unat (round_sector r) = sectors (unat r) * 4096" "unat (round_sector sz) = sectors (unat sz) * 4096"
    using r(5) n(2) assms(4) cap_law(2) by (simp_all add: unat_round_sector)
  moreover have "n \<le> sectors (unat r) * 4096" "0 < n" using sectors_ge [of "unat r"] r(4) n(1) by simp_all
  ultimately show "unat a + sectors (unat sz) * 4096 = unat (S - 0x40200000)" "n \<le> unat a"
    "\<exists>h z. u1 = u\<lparr>dev := h, sketch_size := z\<rparr> \<and> up h \<and> img h = img (dev u)"
    using assms(2) r by (auto simp: update_start_def Let_def word_less_nat_alt unat_sub word_le_nat_alt split: if_splits)
qed

lemma begin_stages:
  assumes "up (dev u)" "verify u = None" "Updater_begin k S fresh sz U_FLASH pin on u = (True, u1)"
    and E: "4096 dvd unat (S - 0x40200000)" "unat (S - 0x40200000) \<le> cap" "unat sz \<le> cap"
    and sk: "good_image secs" "holds (img (dev u)) 4096 (encode_image mg mode freq pc secs)"
      "n = 4096 + length (encode_image mg mode freq pc secs)" "n + 16 \<le> cap"
      "sketch_size u = 0 \<or> n \<le> unat (sketch_size u) \<and> unat (sketch_size u) \<le> n + 16"
  shows "\<exists>a. staging k img up (img (dev u)) a (unat sz) [] 0 u1 \<and> a + sectors (unat sz) * 4096 = unat (S - 0x40200000)
    \<and> n \<le> a \<and> 4096 dvd a \<and> rtc u1 = rtc u \<and> target_md5 u1 = target_md5 u"
proof -
  define u0 where "u0 = u\<lparr>ledPin := pin, ledOn := on\<rparr>"
  obtain ok h where c: "checkFlashConfig k False u0 = (ok, u0\<lparr>dev := h\<rparr>)" "up h" "img h = img (dev u)"
    using config_law [of u0 False] assms(1) by (auto simp: u0_def)
  define v where "v = clearError (Updater_reset k (u0\<lparr>dev := h\<rparr>))"
  define u2 where "u2 = v\<lparr>dev := wifi_set_sleep_none k (dev v)\<rparr>"
  have "up (dev v)" "img (dev v) = img (dev u)" using reset_law [of "u0\<lparr>dev := h\<rparr>"] c by (simp_all add: v_def clearError_def)
  then have u2: "up (dev u2)" "img (dev u2) = img (dev u)" by (simp_all add: u2_def quiet_law)
  have f: "rtc u2 = rtc u" "target_md5 u2 = target_md5 u" "verify u2 = None" "bufferLen u2 = 0" "upd_error u2 = UPDATE_ERROR_OK"
    "sketch_size u2 = sketch_size u"
    using assms(2) by (simp_all add: u2_def v_def clearError_def Updater_reset_def Let_def u0_def)
  obtain a u3 where st: "update_start k S sz U_FLASH u2 = (Some a, u3)"
    and u1: "u1 = (let w = u3\<lparr>startAddress := a, currentAddress := a, upd_size := sz\<rparr>;
        w = w\<lparr>bufferSize := if system_get_free_heap_size k (dev w) > 2 * FLASH_SECTOR_SIZE then FLASH_SECTOR_SIZE else 256\<rparr>;
        w = w\<lparr>buffer := map fresh [0..<unat (bufferSize w)], command := U_FLASH\<rparr>
      in if verify w = None then w\<lparr>md5 := md5_begin k\<rparr> else w)"
    using assms(3) unfolding Updater_begin_def u0_def [symmetric]
    by (auto simp: Let_def c(1) v_def [symmetric] u2_def [symmetric] split: if_splits prod.splits option.splits)
  note s = start_law [OF u2(1) st E(2,3) sk(1) sk(2) [folded u2(2)] sk(3,4) sk(5) [folded f(6)]]
  obtain h3 z where u3: "u3 = u2\<lparr>dev := h3, sketch_size := z\<rparr>" "up h3" "img h3 = img (dev u)" using s(3) u2(2) by auto
  have "4096 dvd unat a"
  proof -
    have "unat a = unat (S - 0x40200000) - sectors (unat sz) * 4096" using s(1) by simp
    then show ?thesis using E(1) by (auto intro: dvd_diff_nat)
  qed
  moreover have "staging k img up (img (dev u)) (unat a) (unat sz) [] 0 u1"
    unfolding u1 u3(1) using u3(2,3) f by (simp add: staging_def Let_def md5_begin_def md5_law FLASH_SECTOR_SIZE_def)
  moreover have "rtc u1 = rtc u" "target_md5 u1 = target_md5 u" unfolding u1 u3(1) using f by (simp_all add: Let_def)
  ultimately show ?thesis using s(1,2) by blast
qed

end

end
