(* ===== verification/Ota.thy ===== *)
theory Ota
  imports Updater_Staging
begin

text \<open>
  Updates over the air: which images the updater accepts and what it leaves for the boot loader, the whole way
  from the first byte of an update to the jump into the new application, and what an update that fails
  at any point leaves untouched, with any flash chip.
\<close>

section \<open>Acceptance\<close>

definition md5_digest :: "('h, 'c) sdk \<Rightarrow> u8 list \<Rightarrow> string" where
  "md5_digest k ds = md5_toString \<lparr>ctx = MD5Init k, md5_buf = MD5Final k (MD5Update k (MD5Init k) ds)\<rparr>"

text \<open>An image is accepted if its digest is the expected one, if there is an expected one, and its header starts with the magic
  number and does not ask for a bigger flash chip than the one with the identification \<open>i\<close>.\<close>

definition acceptable :: "('h, 'c) sdk \<Rightarrow> u32 \<Rightarrow> string \<Rightarrow> u8 list \<Rightarrow> bool" where
  "acceptable k i expected ds \<longleftrightarrow> (expected = [] \<or> strcasecmp_eq expected (md5_digest k ds)) \<and> ds ! 0 = 0xE9
     \<and> magicFlashChipSize (drop_bit 4 (ds ! 3 AND 0xf0)) \<le> push_bit (unat (drop_bit 16 i AND 0xFF)) 1"

text \<open>The command that an accepted update leaves.\<close>

definition copy_request :: "eboot_command \<Rightarrow> nat \<Rightarrow> nat \<Rightarrow> eboot_command" where
  "copy_request ebcmd a n = ebcmd\<lparr>action := ACTION_COPY_RAW, args := (args ebcmd)[0 := of_nat a, 1 := 0, 2 := of_nat n]\<rparr>"

text \<open>The flash holds a sketch that ends at \<open>n\<close>, and the size kept by the core, if there is one, is that of the sketch.\<close>

definition running_sketch :: "(nat \<Rightarrow> u8) \<Rightarrow> u32 \<Rightarrow> nat \<Rightarrow> nat \<Rightarrow> bool" where
  "running_sketch f cached cap n \<longleftrightarrow>
     (\<exists>mg mode freq pc secs. good_image secs \<and> holds f 4096 (encode_image mg mode freq pc secs) \<and> n = 4096 + length (encode_image mg mode freq pc secs))
     \<and> n + 16 \<le> cap \<and> (cached = 0 \<or> n \<le> unat cached \<and> unat cached \<le> n + 16)"

context sdk_flash
begin

lemma checks_law:
  assumes st: "staging k img up f a n ds n u" and n: "length ds = n" "4 dvd n" "0 < n" "4 dvd a" "a + n \<le> cap"
  shows "\<exists>u'. update_checks k u = (acceptable k chip_id (target_md5 u) ds, u') \<and> up (dev u') \<and> img (dev u') = img (dev u) \<and> rtc u' = rtc u
    \<and> (acceptable k chip_id (target_md5 u) ds \<longrightarrow> command u' = U_FLASH \<and> unat (startAddress u') = a \<and> unat (upd_size u') = n)"
proof -
  define ok where "ok \<longleftrightarrow> target_md5 u = [] \<or> strcasecmp_eq (target_md5 u) (md5_digest k ds)"
  define v where "v = (if target_md5 u \<noteq> [] then u\<lparr>md5 := md5_calculate k (md5 u)\<rparr> else u)"
  have s: "up (dev u)" "verify u = None" "command u = U_FLASH" "unat (startAddress u) = a" "unat (upd_size u) = n"
    "img (dev u) = stage a (patched (magicFlashChipMode (f 2)) ds) f" "ctx (md5 u) = MD5Update k (MD5Init k) ds"
    using st n(1) by (simp_all add: staging_def)
  have v: "dev v = dev u" "command v = U_FLASH" "startAddress v = startAddress u" "upd_size v = upd_size u" "rtc v = rtc u"
    by (simp_all add: v_def s(3))
  have "md5_toString (md5_calculate k (md5 u)) = md5_digest k ds" by (simp add: md5_toString_def md5_calculate_def md5_digest_def s(7))
  then have c: "update_checks k u = (if ok then Updater_verifyEnd k v else (False, setError UPDATE_ERROR_MD5 v))"
    by (simp add: update_checks_def s(2) ok_def v_def Let_def)
  have "4 \<le> n" using n(2,3) by (auto dest: dvd_imp_le)
  obtain h bs where h: "spi_flash_read k (startAddress v) 4 (dev v) = ((0, bs), h)" "up h" "img h = img (dev u)"
    "\<forall>i<4. bs ! i = img (dev u) (a + i)"
    using read_bytes [of "dev v" "startAddress v" 4] s(1,4) v n(4,5) \<open>4 \<le> n\<close> by auto
  have "bs ! 0 = ds ! 0" "bs ! 3 = ds ! 3"
    using h(4) n(1) \<open>4 \<le> n\<close> by (simp_all add: s(6) stage_def patched_def FLASH_MODE_OFFSET_def)
  then show ?thesis
    using h s id_law [OF h(2)] v
    by (auto simp: c ok_def [symmetric] acceptable_def Updater_verifyEnd_def flashRead_def Let_def getFlashChipRealSize_def setError_def not_less)
qed

lemma end_law:
  assumes st: "staging k img up f a n ds n u" and n: "length ds = n" "4 dvd n" "0 < n" "4 dvd a" "a + n \<le> cap"
  shows "\<exists>u'. Updater_end k ebcmd False u = (acceptable k chip_id (target_md5 u) ds, u') \<and> up (dev u') \<and> img (dev u') = img (dev u)
    \<and> rtc u' = (if acceptable k chip_id (target_md5 u) ds then snd (eboot_command_write (copy_request ebcmd a n) (rtc u)) else rtc u)"
proof -
  have s: "unat (upd_size u) = n" "\<not> hasError u" "unat (startAddress u) = a" "unat (currentAddress u) = a + n"
    using st by (simp_all add: staging_def hasError_def)
  have "unat (startAddress u + upd_size u) = a + n" using n(5) cap_law(2) s by (subst unat_add32) simp_all
  then have "upd_size u \<noteq> 0" "isFinished u" using s n(3) by (auto simp: isFinished_def word_unat_eq_iff)
  moreover obtain v where v: "update_checks k u = (acceptable k chip_id (target_md5 u) ds, v)" "up (dev v)" "img (dev v) = img (dev u)"
    "rtc v = rtc u" "acceptable k chip_id (target_md5 u) ds \<Longrightarrow> command v = U_FLASH \<and> unat (startAddress v) = a \<and> unat (upd_size v) = n"
    using checks_law [OF assms] by blast
  moreover have "w = of_nat (unat w)" for w :: u32 by (metis of_nat_unat ucast_id)
  ultimately show ?thesis
    using s(2) reset_law [of v] by (auto simp: Updater_end_def Let_def copy_request_def Updater_reset_def quiet_law)
qed

text \<open>The bytes of an update in the flash, and the image for the boot loader among them.\<close>

lemma stage_nth: "i < length ds \<Longrightarrow> stage a ds f (a + i) = ds ! i"
  by (simp add: stage_def)

lemma stage_holds:
  assumes "ds = eb @ im @ pad" "length eb = 4096"
  shows "holds (stage a (patched mode ds) f) (a + 4096) im"
  unfolding holds_def
proof (rule nth_equalityI)
  fix i assume "i < length (map (stage a (patched mode ds) f) [a + 4096..<a + 4096 + length im])"
  then have i: "i < length im" by simp
  have "stage a (patched mode ds) f (a + (4096 + i)) = patched mode ds ! (4096 + i)" using i assms by (intro stage_nth) simp
  also have "\<dots> = im ! i" using i assms by (simp add: patched_def FLASH_MODE_OFFSET_def nth_append)
  finally show "map (stage a (patched mode ds) f) [a + 4096..<a + 4096 + length im] ! i = im ! i" using i by (simp add: add.assoc)
qed simp

lemma update_staged:
  assumes "up (dev u)" "verify u = None" "Updater_begin k S fresh sz U_FLASH pin on u = (True, u1)"
    and E: "4096 dvd unat (S - 0x40200000)" "unat (S - 0x40200000) \<le> cap" "unat sz \<le> cap"
    and sk: "running_sketch (img (dev u)) (sketch_size u) cap n"
    and cs: "[] \<notin> set cs" "length (concat cs) = unat sz" "4 dvd unat sz" "0 < unat sz" "concat cs ! 2 \<le> FM_DOUT"
    and acc: "acc \<longleftrightarrow> acceptable k chip_id (target_md5 u) (concat cs)"
  shows "\<exists>a u2 u3. write_chunks k cs u1 = Some u2 \<and> Updater_end k ebcmd False u2 = (acc, u3) \<and> up (dev u3)
    \<and> img (dev u3) = stage a (patched (magicFlashChipMode (img (dev u) 2)) (concat cs)) (img (dev u))
    \<and> rtc u3 = (if acc then snd (eboot_command_write (copy_request ebcmd a (unat sz)) (rtc u)) else rtc u)
    \<and> a + sectors (unat sz) * 4096 = unat (S - 0x40200000) \<and> n \<le> a \<and> 4096 dvd a"
proof -
  obtain a where a: "staging k img up (img (dev u)) a (unat sz) [] 0 u1" "a + sectors (unat sz) * 4096 = unat (S - 0x40200000)"
    "n \<le> a" "4096 dvd a" "rtc u1 = rtc u" "target_md5 u1 = target_md5 u"
    using begin_stages [OF assms(1-3) E] sk unfolding running_sketch_def by blast
  have "4096 \<le> a" using a(3) sk by (auto simp: running_sketch_def)
  have "cs \<noteq> []" using cs(2,4) by auto
  then obtain u2 where u2: "write_chunks k cs u1 = Some u2" "staging k img up (img (dev u)) a (unat sz) (concat cs) (unat sz) u2" "keeps u1 u2"
    using write_chunks_stages [OF a(1) cs(1) _ cs(3) a(4) \<open>4096 \<le> a\<close>] a(2) E(2) cs(2,5) by auto
  have "4 dvd a" "a + unat sz \<le> cap" using a(2,4) E(2) sectors_ge [of "unat sz"] by (auto elim!: dvdE)
  then obtain u3 where u3: "Updater_end k ebcmd False u2 = (acc, u3)" "up (dev u3)" "img (dev u3) = img (dev u2)"
    "rtc u3 = (if acc then snd (eboot_command_write (copy_request ebcmd a (unat sz)) (rtc u)) else rtc u)"
    using end_law [OF u2(2) cs(2-4), of ebcmd] u2(3) a(5,6) by (auto simp: keeps_def acc)
  moreover have "img (dev u2) = stage a (patched (magicFlashChipMode (img (dev u) 2)) (concat cs)) (img (dev u))"
    using u2(2) cs(2) by (simp add: staging_def)
  ultimately show ?thesis using u2(1) a(2-4) by auto
qed

end

section \<open>From the first byte to the new sketch\<close>

text \<open>A staged image and its command after a reset.\<close>

lemma staged_boots:
  assumes "sdk_flash k img up cap i" "nor_flash m img up cap" "up (dev u)" "img (dev u) = stage a (patched md ds) f"
    and "rtc u = snd (eboot_command_write (copy_request ebcmd a (length ds)) rtc0)" "length (args ebcmd) = 29"
    and "a + sectors (length ds) * 4096 \<le> cap" "0 < a" "4096 dvd a"
    and "ds = eb @ encode_image mg mode freq pc secs @ pad" "length eb = 4096" "good_image secs"
  shows "\<exists>t. eboot_main m \<lparr>RTC_MEM = rtc u, ram = r, chip = dev u\<rparr> = Some (Jump pc, t) \<and> ram t = fold load_section secs r
    \<and> map (img (chip t)) [0..<length ds] = patched md ds"
proof -
  have "cap < 2 ^ 32" using sdk_flash.cap_law(2) [OF assms(1)] by simp
  then have a: "unat (of_nat a :: u32) = a" and sz: "unat (of_nat (length ds) :: u32) = length ds"
    using assms(7) sectors_ge [of "length ds"] by (simp_all add: unat_of_nat32)
  obtain x y z rest where "args ebcmd = x # y # z # rest" "length rest = 26"
    using assms(6) by (auto simp: length_Suc_conv eval_nat_numeral)
  then have req: "copy_request ebcmd a (length ds) =
      \<lparr>magic = magic ebcmd, action = ACTION_COPY_RAW, args = of_nat a # 0 # of_nat (length ds) # rest, crc32 = crc32 ebcmd\<rparr>"
    by (simp add: copy_request_def numeral_2_eq_2)
  obtain cmd' rtc' where w: "eboot_command_write (copy_request ebcmd a (length ds)) rtc0 = (cmd', rtc')" by fastforce
  have hold: "holds (img (dev u)) (a + 4096) (encode_image mg mode freq pc secs)"
    unfolding assms(4) using assms(10,11) by (rule sdk_flash.stage_holds [OF assms(1)])
  define s where "s = \<lparr>RTC_MEM = rtc0, ram = r, chip = dev u\<rparr>"
  have "\<exists>t. eboot_main m (s\<lparr>RTC_MEM := rtc'\<rparr>) = Some (Jump pc, t) \<and> ram t = fold load_section secs (ram s)
    \<and> img (chip t) = copied (unat (of_nat a :: u32)) (unat (0 :: u32)) (sectors (length ds) * 4096) (img (chip s)) \<and> RTC_MEM t = eboot_command_clear rtc'"
  proof (rule nor_flash.eboot_main_installs [OF assms(2) _ \<open>length rest = 26\<close>, of _ "magic ebcmd" "of_nat a" 0 "of_nat (length ds)" "crc32 ebcmd" cmd'])
    show "4096 + length (encode_image mg mode freq pc secs) \<le> sectors (length ds) * 4096"
      using sectors_ge [of "length ds"] assms(10,11) by simp
  qed (use assms(3,7-9,12) w [unfolded req] hold in \<open>simp_all add: a sz s_def\<close>)
  then obtain t where t: "eboot_main m \<lparr>RTC_MEM = rtc u, ram = r, chip = dev u\<rparr> = Some (Jump pc, t)" "ram t = fold load_section secs r"
    "img (chip t) = copied a 0 (sectors (length ds) * 4096) (stage a (patched md ds) f)"
    using assms(4,5) w by (auto simp: a s_def)
  have "map (img (chip t)) [0..<length ds] = patched md ds"
  proof (rule nth_equalityI)
    fix j assume "j < length (map (img (chip t)) [0..<length ds])"
    then show "map (img (chip t)) [0..<length ds] ! j = patched md ds ! j"
      using sectors_ge [of "length ds"] by (simp add: t(3) copied_def stage_def)
  qed simp
  with t(1,2) show ?thesis by blast
qed

text \<open>(C2) An update over the air, end to end: the updater has been started for a number of bytes on a board that runs a
  sketch; the pieces of an acceptable image arrive, in any cut; the updater is ended and the chip reset. The
  updater returns success, and the boot loader jumps to the entry point of the new sketch with its sections
  in memory; the flash begins with the image, in which only the byte for the flash mode was adapted.\<close>

theorem ota_update_installs:
  assumes "sdk_flash k img up cap i" "nor_flash m img up cap" "up (dev u)" "verify u = None"
    and "Updater_begin k S fresh sz U_FLASH pin on u = (True, u1)"
    and "4096 dvd unat (S - 0x40200000)" "unat (S - 0x40200000) \<le> cap" "unat sz \<le> cap"
    and "running_sketch (img (dev u)) (sketch_size u) cap n"
    and "[] \<notin> set cs" "concat cs = eb @ encode_image mg mode freq pc secs @ pad" "length eb = 4096" "length (concat cs) = unat sz"
    and "4 dvd unat sz" "good_image secs" "concat cs ! 2 \<le> FM_DOUT" "acceptable k i (target_md5 u) (concat cs)" "length (args ebcmd) = 29"
  shows "\<exists>u2 u3 t. write_chunks k cs u1 = Some u2 \<and> Updater_end k ebcmd False u2 = (True, u3)
    \<and> eboot_main m \<lparr>RTC_MEM = rtc u3, ram = r, chip = dev u3\<rparr> = Some (Jump pc, t) \<and> ram t = fold load_section secs r
    \<and> map (img (chip t)) [0..<unat sz] = patched (magicFlashChipMode (img (dev u) 2)) (concat cs)"
proof -
  have "0 < unat sz" using assms(11-13) by auto
  then obtain a u2 u3 where u: "write_chunks k cs u1 = Some u2" "Updater_end k ebcmd False u2 = (True, u3)" "up (dev u3)"
    "img (dev u3) = stage a (patched (magicFlashChipMode (img (dev u) 2)) (concat cs)) (img (dev u))"
    "rtc u3 = snd (eboot_command_write (copy_request ebcmd a (length (concat cs))) (rtc u))"
    "a + sectors (length (concat cs)) * 4096 \<le> cap" "n \<le> a" "4096 dvd a"
    using sdk_flash.update_staged [OF assms(1,3-10,13,14) _ assms(16), where acc = True and ebcmd = ebcmd] assms(7,13,17) by auto
  moreover have "0 < a" using u(7) assms(9) by (auto simp: running_sketch_def)
  ultimately show ?thesis
    using staged_boots [OF assms(1,2) u(3-5) assms(18) u(6) _ u(8) assms(11,12,15)] assms(13) by auto
qed

text \<open>(C4) The decision at the end of an update without signature check, for an image whose length is a multiple of four and
  whose flash mode byte is one of the four modes: the updater returns success exactly for an acceptable image,
  which it has staged above the running sketch. For any other such image it returns failure, and the command
  memory is as it was; the old sketch is untouched in both cases.\<close>

theorem update_acceptance:
  assumes "sdk_flash k img up cap i" "up (dev u)" "verify u = None"
    and "Updater_begin k S fresh sz U_FLASH pin on u = (True, u1)"
    and "4096 dvd unat (S - 0x40200000)" "unat (S - 0x40200000) \<le> cap" "unat sz \<le> cap"
    and "running_sketch (img (dev u)) (sketch_size u) cap n"
    and "[] \<notin> set cs" "length (concat cs) = unat sz" "4 dvd unat sz" "0 < unat sz" "concat cs ! 2 \<le> FM_DOUT"
  shows "\<exists>u2 u3. write_chunks k cs u1 = Some u2 \<and> Updater_end k ebcmd False u2 = (acceptable k i (target_md5 u) (concat cs), u3)
    \<and> (\<forall>x<n. img (dev u3) x = img (dev u) x) \<and> (acceptable k i (target_md5 u) (concat cs) \<or> rtc u3 = rtc u)"
proof -
  obtain a u2 u3 where "write_chunks k cs u1 = Some u2" "Updater_end k ebcmd False u2 = (acceptable k i (target_md5 u) (concat cs), u3)"
    "img (dev u3) = stage a (patched (magicFlashChipMode (img (dev u) 2)) (concat cs)) (img (dev u))" "n \<le> a"
    "rtc u3 = (if acceptable k i (target_md5 u) (concat cs) then snd (eboot_command_write (copy_request ebcmd a (unat sz)) (rtc u)) else rtc u)"
    using sdk_flash.update_staged [OF assms refl] by metis
  then show ?thesis by (auto simp: stage_def)
qed

section \<open>Any flash chip\<close>

text \<open>The updater writes from \<open>a\<close> on and, with \<open>n\<close> bytes more, not beyond \<open>b\<close>; or it has stopped.\<close>

definition going :: "nat \<Rightarrow> nat \<Rightarrow> nat \<Rightarrow> ('h, 'c, 'g) upd \<Rightarrow> bool" where
  "going a b n u \<longleftrightarrow> \<not> hasError u \<and> 0 < unat (bufferSize u) \<and> unat (bufferSize u) \<le> 4096 \<and> unat (bufferLen u) \<le> unat (bufferSize u)
     \<and> a \<le> unat (currentAddress u) \<and> unat (currentAddress u) + unat (bufferLen u) + n \<le> b"

definition safe :: "nat \<Rightarrow> nat \<Rightarrow> ('h, 'c, 'g) upd \<Rightarrow> bool" where
  "safe a b u \<longleftrightarrow> upd_size u = 0 \<or> hasError u \<or> going a b 0 u"

text \<open>The flash below \<open>a\<close> and the command memory are as before.\<close>

definition untouched :: "('h \<Rightarrow> nat \<Rightarrow> 'b) \<Rightarrow> nat \<Rightarrow> ('h, 'c, 'g) upd \<Rightarrow> ('h, 'c, 'g) upd \<Rightarrow> bool" where
  "untouched img a u u' \<longleftrightarrow> (\<forall>x<a. img (dev u') x = img (dev u) x) \<and> rtc u' = rtc u"

text \<open>What a client may do: write bytes and end the update, in any order.\<close>

datatype upd_event = Write "u8 list" | End eboot_command bool

fun upd_run :: "('h, 'c) sdk \<Rightarrow> upd_event list \<Rightarrow> ('h, 'c, 'g) upd \<Rightarrow> (bool list \<times> ('h, 'c, 'g) upd) option" where
  "upd_run k [] u = Some ([], u)"
| "upd_run k (Write ds # es) u = do { (_, u) \<leftarrow> Updater_write k ds u; upd_run k es u }"
| "upd_run k (End ebcmd e # es) u =
     (case Updater_end k ebcmd e u of (ok, u) \<Rightarrow> do { (oks, u) \<leftarrow> upd_run k es u; Some (ok # oks, u) })"

fun upd_bytes :: "upd_event list \<Rightarrow> nat" where
  "upd_bytes [] = 0"
| "upd_bytes (Write ds # es) = length ds + upd_bytes es"
| "upd_bytes (End _ _ # es) = upd_bytes es"

text \<open>What even a broken flash chip does: an access changes nothing outside the sector or the bytes that it is for. Whether it
  succeeds, and what is then in the place, is open.\<close>

locale sdk_frame =
  fixes k :: "('h, 'c) sdk" and img :: "'h \<Rightarrow> nat \<Rightarrow> 'b"
  assumes erase_frame: "x div 4096 \<noteq> unat j \<Longrightarrow> img (snd (spi_flash_erase_sector k j h)) x = img h x"
    and write_frame: "x < unat a \<Longrightarrow> img (snd (spi_flash_write k a bs h)) x = img h x"
    and read_frame: "img (snd (spi_flash_read k a n h)) = img h"
    and quiet_frame: "img (sdk_yield k h) = img h" "img (wifi_set_sleep_none k h) = img h" "img (digitalWrite k pin v h) = img h"
begin

lemma erase_first_dev: "\<exists>ok h. erase_first k u = (ok, u\<lparr>dev := h\<rparr>)"
  by (auto simp: erase_first_def flashEraseSector_def yield_unless_async_def case_prod_unfold intro: exI [of _ "dev u"])

lemma erase_first_frame:
  assumes "x < unat (currentAddress u)" "unat (currentAddress u) < 0x10000000"
  shows "img (dev (snd (erase_first k u))) x = img (dev u) x"
proof -
  have j: "unat (ucast (currentAddress u div 4096) :: u16) = unat (currentAddress u) div 4096"
    using assms(2) by (simp add: unsigned_ucast_eq unat_div take_bit_eq_mod div_less_iff_less_mult)
  have m: "currentAddress u mod 4096 = 0 \<longleftrightarrow> unat (currentAddress u) mod 4096 = 0" by (simp add: word_unat_eq_iff unat_mod)
  have "x div 4096 \<noteq> unat (currentAddress u) div 4096" if "unat (currentAddress u) mod 4096 = 0"
    using that assms(1) by (metis div_mult_mod_eq add_0_right div_less_iff_less_mult less_irrefl zero_less_numeral)
  then show "img (dev (snd (erase_first k u))) x = img (dev u) x"
    using erase_frame [of x "ucast (currentAddress u div 4096)"] m
    by (simp add: erase_first_def flashEraseSector_def FLASH_SECTOR_SIZE_def yield_unless_async_def case_prod_unfold j quiet_frame)
qed

lemma yield_dev: "\<exists>h. yield_unless_async k u = u\<lparr>dev := h\<rparr> \<and> img h = img (dev u)"
  by (auto simp: yield_unless_async_def quiet_frame intro: exI [of _ "dev u"])

lemma set_flash_mode_frame:
  "\<exists>md bm h b. set_flash_mode k u = (md, bm, u\<lparr>dev := h, buffer := b\<rparr>) \<and> img h = img (dev u)"
proof (cases "currentAddress u = startAddress u")
  case True
  obtain fm h where g: "getFlashChipMode k u = (fm, u\<lparr>dev := h\<rparr>)" "img h = img (dev u)"
    using read_frame [of 0 4 "dev u"] by (auto simp: getFlashChipMode_def case_prod_unfold)
  define bm where "bm = magicFlashChipMode (buffer u ! FLASH_MODE_OFFSET)"
  have "set_flash_mode k u = (bm \<noteq> fm, bm, u\<lparr>dev := h, buffer := if bm \<noteq> fm then (buffer u)[FLASH_MODE_OFFSET := fm] else buffer u\<rparr>)"
    using True g(1) by (simp add: set_flash_mode_def bm_def)
  then show ?thesis using g(2) by blast
next
  case False
  then have "set_flash_mode k u = (False, FM_QIO, u\<lparr>dev := dev u, buffer := buffer u\<rparr>)" by (simp add: set_flash_mode_def)
  then show ?thesis by blast
qed

lemma writeBuffer_frame:
  assumes "Updater_writeBuffer k u = (ok, u')" "unat (currentAddress u) < 0x10000000"
  shows "x < unat (currentAddress u) \<Longrightarrow> img (dev u') x = img (dev u) x"
    "rtc u' = rtc u" "upd_size u' = upd_size u" "startAddress u' = startAddress u" "bufferSize u' = bufferSize u" "command u' = command u"
    "ok \<Longrightarrow> currentAddress u' = currentAddress u + bufferLen u \<and> bufferLen u' = 0 \<and> upd_error u' = upd_error u" "\<not> ok \<Longrightarrow> hasError u'"
proof -
  obtain e h1 where e: "erase_first k u = (e, u\<lparr>dev := h1\<rparr>)" "x < unat (currentAddress u) \<Longrightarrow> img h1 x = img (dev u) x"
    using erase_first_frame [OF _ assms(2)] erase_first_dev [of u] by fastforce
  obtain md bm h2 b where m: "set_flash_mode k (u\<lparr>dev := h1\<rparr>) = (md, bm, u\<lparr>dev := h2, buffer := b\<rparr>)" "img h2 = img h1"
    using set_flash_mode_frame [of "u\<lparr>dev := h1\<rparr>"] by auto
  define v where "v = u\<lparr>dev := h2, buffer := b\<rparr>"
  obtain h3 where y: "yield_unless_async k v = v\<lparr>dev := h3\<rparr>" "img h3 = img h1"
    using yield_dev [of v] m(2) by (auto simp: v_def)
  obtain rc h4 where w: "spi_flash_write k (currentAddress u) (take (unat (bufferLen u)) b) h3 = (rc, h4)"
    "x < unat (currentAddress u) \<Longrightarrow> img h4 x = img h1 x"
    using write_frame [of x "currentAddress u" _ h3] y(2) by (metis prod.collapse)
  define w1 where "w1 = (if md then v\<lparr>dev := h4, buffer := b[FLASH_MODE_OFFSET := bm]\<rparr> else v\<lparr>dev := h4\<rparr>)"
  have vf: "dev v = h2" "buffer v = b" "currentAddress v = currentAddress u" "bufferLen v = bufferLen u" by (simp_all add: v_def)
  have r: "Updater_writeBuffer k u = (if \<not> e then (False, setError UPDATE_ERROR_ERASE (v\<lparr>currentAddress := startAddress v + upd_size v\<rparr>))
      else if rc \<noteq> 0 then (False, setError UPDATE_ERROR_WRITE (w1\<lparr>currentAddress := startAddress w1 + upd_size w1\<rparr>))
      else let w2 = (if verify w1 = None then w1\<lparr>md5 := md5_add k (take (unat (bufferLen w1)) (buffer w1)) (md5 w1)\<rparr> else w1)
        in (True, w2\<lparr>currentAddress := currentAddress w2 + bufferLen w2, bufferLen := 0\<rparr>))"
    using vf w(1) by (cases md) (simp_all add: Updater_writeBuffer_def e(1) m(1) [folded v_def] y(1) flashWrite_def w1_def Let_def)
  have wf: "dev w1 = h4" "rtc w1 = rtc u" "upd_size w1 = upd_size u" "startAddress w1 = startAddress u" "bufferSize w1 = bufferSize u"
    "command w1 = command u" "currentAddress w1 = currentAddress u" "bufferLen w1 = bufferLen u" "upd_error w1 = upd_error u"
    by (simp_all add: w1_def v_def)
  have er: "dev v = h2" "rtc v = rtc u" "upd_size v = upd_size u" "startAddress v = startAddress u" "bufferSize v = bufferSize u" "command v = command u"
    by (simp_all add: v_def)
  show "x < unat (currentAddress u) \<Longrightarrow> img (dev u') x = img (dev u) x"
    using r assms(1) e(2) m(2) w(2) wf er by (auto simp: setError_def Let_def split: if_splits)
  show "rtc u' = rtc u" "upd_size u' = upd_size u" "startAddress u' = startAddress u" "bufferSize u' = bufferSize u" "command u' = command u"
    "ok \<Longrightarrow> currentAddress u' = currentAddress u + bufferLen u \<and> bufferLen u' = 0 \<and> upd_error u' = upd_error u" "\<not> ok \<Longrightarrow> hasError u'"
    using r assms(1) wf er by (auto simp: setError_def hasError_def update_errors Let_def split: if_splits)
qed

lemma untouched_trans: "untouched img a u v \<Longrightarrow> untouched img a v w \<Longrightarrow> untouched img a u w"
  by (simp add: untouched_def)

lemma writeBuffer_going:
  assumes "going a b n u" "b < 0x10000000" "Updater_writeBuffer k u = (ok, u')"
  shows "untouched img a u u'" "ok \<Longrightarrow> going a b n u' \<and> bufferLen u' = 0" "\<not> ok \<Longrightarrow> hasError u'" "bufferSize u' = bufferSize u"
proof -
  have g: "a \<le> unat (currentAddress u)" "unat (currentAddress u) + unat (bufferLen u) + n \<le> b" using assms(1) by (simp_all add: going_def)
  then have c: "unat (currentAddress u) < 0x10000000" using assms(2) by simp
  note f = writeBuffer_frame [OF assms(3) c]
  show "untouched img a u u'" unfolding untouched_def using f(1,2) g(1) less_le_trans by blast
  show "\<not> ok \<Longrightarrow> hasError u'" "bufferSize u' = bufferSize u" by (fact f(8), fact f(5))
  have "unat (currentAddress u + bufferLen u) = unat (currentAddress u) + unat (bufferLen u)"
    using g(2) assms(2) by (subst unat_add32) simp_all
  then show "ok \<Longrightarrow> going a b n u' \<and> bufferLen u' = 0"
    using assms(1) f(5,7) by (auto simp: going_def hasError_def)
qed

lemma fill_going:
  assumes "going a b n u" "length bs \<le> n" "unat (bufferLen u) + length bs \<le> unat (bufferSize u)"
  shows "going a b (n - length bs) (fill_buffer bs u)" "untouched img a u (fill_buffer bs u)" "bufferSize (fill_buffer bs u) = bufferSize u"
    "unat (bufferLen (fill_buffer bs u)) = unat (bufferLen u) + length bs"
proof -
  have "unat (bufferSize u) \<le> 4096" using assms(1) by (simp add: going_def)
  then show l: "unat (bufferLen (fill_buffer bs u)) = unat (bufferLen u) + length bs"
    using assms(3) by (simp add: fill_buffer_def unat_add32 unat_of_nat32)
  show "untouched img a u (fill_buffer bs u)" "bufferSize (fill_buffer bs u) = bufferSize u" by (simp_all add: untouched_def fill_buffer_def)
  show "going a b (n - length bs) (fill_buffer bs u)"
    using assms l by (simp add: going_def hasError_def) (simp add: fill_buffer_def)
qed

lemma yield_going: "going a b n u \<Longrightarrow> going a b n (yield_unless_async k u) \<and> untouched img a u (yield_unless_async k u)"
  by (auto simp: yield_unless_async_def going_def untouched_def hasError_def quiet_frame)

lemma write_loop_going:
  assumes "b < 0x10000000" "going a b (length ds) u"
  shows "\<exists>ok left u'. write_loop k ds u = Some (ok, left, u') \<and> untouched img a u u'
    \<and> (if ok then going a b (length left) u' \<and> unat (bufferLen u') + length left \<le> unat (bufferSize u') else hasError u')"
  using assms(2)
proof (induction "unat (bufferLen u) + length ds" arbitrary: ds u rule: less_induct)
  case less
  have g: "unat (bufferLen u) \<le> unat (bufferSize u)" "0 < unat (bufferSize u)" "unat (bufferSize u) \<le> 4096" "length ds \<le> b"
    using less.prems by (simp_all add: going_def)
  then have t: "bufferLen u + of_nat (length ds) > bufferSize u \<longleftrightarrow> unat (bufferLen u) + length ds > unat (bufferSize u)"
    using assms(1) by (simp add: word_less_nat_alt unat_add32 unat_of_nat32)
  show ?case
  proof (cases "unat (bufferLen u) + length ds > unat (bufferSize u)")
    case False
    then show ?thesis
      using less.prems t by (intro exI [of _ True] exI [of _ ds] exI [of _ u]) (simp add: write_loop.simps [of k ds u] untouched_def)
  next
    case True
    define n where "n = unat (bufferSize u - bufferLen u)"
    have n: "n = unat (bufferSize u) - unat (bufferLen u)" using g(1) by (simp add: n_def unat_sub word_le_nat_alt)
    then have ln: "length (take n ds) = n" using True g(1) by simp
    obtain ok v where v: "Updater_writeBuffer k (fill_buffer (take n ds) u) = (ok, v)" by fastforce
    have fl: "going a b (length (drop n ds)) (fill_buffer (take n ds) u)" "untouched img a u (fill_buffer (take n ds) u)"
      using fill_going [OF less.prems, of "take n ds"] ln n g(1) by simp_all
    note w = writeBuffer_going [OF fl(1) assms(1) v]
    show ?thesis
    proof (cases ok)
      case False
      then show ?thesis
        using True t v w(1,3) untouched_trans [OF fl(2) w(1)]
        by (intro exI [of _ False] exI [of _ ds] exI [of _ v]) (simp add: write_loop.simps [of k ds u] n_def [symmetric] Let_def)
    next
      case ok: True
      define v' where "v' = yield_unless_async k v"
      have v': "going a b (length (drop n ds)) v'" "untouched img a u v'" "bufferLen v' = 0"
        using w(2) ok yield_going [of a b "length (drop n ds)" v] untouched_trans [OF untouched_trans [OF fl(2) w(1)]]
        by (simp_all add: v'_def) (simp add: yield_unless_async_def)
      have "unat (bufferLen v') + length (drop n ds) < unat (bufferLen u) + length ds"
        using True g(1,2) n v'(3) by simp
      from less.hyps [OF this v'(1)] obtain ok' left u' where r: "write_loop k (drop n ds) v' = Some (ok', left, u')" "untouched img a v' u'"
        "if ok' then going a b (length left) u' \<and> unat (bufferLen u') + length left \<le> unat (bufferSize u') else hasError u'" by blast
      have "write_loop k ds u = Some (ok', left, u')"
        using True t v ok r(1) by (simp add: write_loop.simps [of k ds u] n_def [symmetric] v'_def [symmetric] Let_def)
      then show ?thesis using r(3) untouched_trans [OF v'(2) r(2)] by blast
    qed
  qed
qed

lemma write_safe:
  assumes "safe a b u" "b + length ds < 0x10000000"
  shows "\<exists>n u'. Updater_write k ds u = Some (n, u') \<and> untouched img a u u' \<and> safe a (b + length ds) u'"
proof (cases "hasError u \<or> \<not> isRunning u \<or> of_nat (length ds) > remaining u")
  case True
  then show ?thesis
    using assms(1) by (auto simp: Updater_write_def untouched_def safe_def isRunning_def going_def setError_def hasError_def update_errors)
next
  case False
  then have "going a b 0 u" using assms(1) by (auto simp: safe_def isRunning_def)
  then have g: "going a (b + length ds) (length ds) u" by (simp add: going_def)
  obtain ok left v where l: "write_loop k ds u = Some (ok, left, v)" "untouched img a u v"
    "if ok then going a (b + length ds) (length left) v \<and> unat (bufferLen v) + length left \<le> unat (bufferSize v) else hasError v"
    using write_loop_going [OF assms(2) g] by blast
  show ?thesis
  proof (cases ok)
    case False
    with l \<open>\<not> (hasError u \<or> _)\<close> show ?thesis by (simp add: Updater_write_def safe_def)
  next
    case True
    define v1 where "v1 = fill_buffer left v"
    have v1: "going a (b + length ds) 0 v1" "untouched img a u v1"
      using fill_going [of a "b + length ds" "length left" v left] l(3) True untouched_trans [OF l(2)] by (simp_all add: v1_def)
    obtain ok' v2 where v2: "Updater_writeBuffer k v1 = (ok', v2)" by fastforce
    note w = writeBuffer_going [OF v1(1) assms(2) v2]
    have "Updater_write k ds u = Some (if bufferLen v1 = remaining v1 then (if ok' then length ds else length ds - length left, v2) else (length ds, v1))"
      using l(1) True v2 \<open>\<not> (hasError u \<or> _)\<close> by (simp add: Updater_write_def v1_def [symmetric])
    moreover have "safe a (b + length ds) v1" "safe a (b + length ds) v2" using v1(1) w(2,3) by (auto simp: safe_def)
    ultimately show ?thesis using v1(2) untouched_trans [OF v1(2) w(1)] by auto
  qed
qed

lemma flashRead_frame: "flashRead k p n u = (r, u') \<Longrightarrow> \<exists>h. u' = u\<lparr>dev := h\<rparr> \<and> img h = img (dev u)"
  using read_frame [of p n "dev u"] by (auto simp: flashRead_def case_prod_unfold)

lemma hash_loop_frame: "img (dev (hash_loop k sg n j u)) = img (dev u) \<and> rtc (hash_loop k sg n j u) = rtc u"
proof (induction "nat (n - j)" arbitrary: j u rule: less_induct)
  case less
  obtain r v where v: "flashRead k (startAddress u + word_of_int j) 128 u = (r, v)" by fastforce
  obtain h where h: "v = u\<lparr>dev := h\<rparr>" "img h = img (dev u)" using flashRead_frame [OF v] by blast
  show ?case
  proof (cases "j < n")
    case True
    then show ?thesis using less.hyps [of "j + 128"] v h by (simp add: hash_loop.simps [of k sg n j u] case_prod_unfold del: hash_loop.simps)
  qed (simp add: hash_loop.simps [of k sg n j u] del: hash_loop.simps)
qed

lemma signature_frame:
  assumes "check_signature k sg u = (ok, u')"
  shows "img (dev u') = img (dev u) \<and> rtc u' = rtc u"
proof -
  obtain r1 v where v: "flashRead k (startAddress u + upd_size u - 4) 4 u = (r1, v)" by fastforce
  define n where "n = upd_size v - of_le32 (snd r1) - 4"
  define w where "w = hash_loop k sg (sint n) 0 (v\<lparr>hash := hash_begin sg (hash v)\<rparr>)"
  define x where "x = w\<lparr>hash := hash_end sg (hash w)\<rparr>"
  obtain r2 y where y: "flashRead k (startAddress x + n) (of_le32 (snd r1)) x = (r2, y)" by fastforce
  have "u' = v \<or> u' = x \<or> u' = y"
    using assms v y by (auto simp: check_signature_def Let_def case_prod_unfold n_def w_def x_def simp del: hash_loop.simps split: if_splits)
  moreover have "img (dev v) = img (dev u) \<and> rtc v = rtc u" using flashRead_frame [OF v] by auto
  moreover have "img (dev x) = img (dev v) \<and> rtc x = rtc v"
    using hash_loop_frame [of sg "sint n" 0 "v\<lparr>hash := hash_begin sg (hash v)\<rparr>"] by (simp add: x_def w_def del: hash_loop.simps)
  moreover have "img (dev y) = img (dev x) \<and> rtc y = rtc x" using flashRead_frame [OF y] by auto
  ultimately show ?thesis by auto
qed

lemma verifyEnd_frame:
  assumes "Updater_verifyEnd k u = (ok, u')"
  shows "img (dev u') = img (dev u) \<and> rtc u' = rtc u"
proof -
  obtain r v where v: "flashRead k (startAddress u) 4 u = (r, v)" by fastforce
  show ?thesis
    using assms flashRead_frame [OF v] v by (auto simp: Updater_verifyEnd_def case_prod_unfold Let_def setError_def split: if_splits)
qed

lemma checks_frame:
  assumes "update_checks k u = (ok, u')"
  shows "img (dev u') = img (dev u) \<and> rtc u' = rtc u"
proof (cases "verify u")
  case (Some sg)
  obtain ok1 v where v: "check_signature k sg u = (ok1, v)" by fastforce
  obtain ok2 w where w: "Updater_verifyEnd k v = (ok2, w)" by fastforce
  show ?thesis
    using assms Some v w signature_frame [OF v] verifyEnd_frame [OF w] by (auto simp: update_checks_def setError_def split: if_splits)
next
  case None
  define v where "v = (if target_md5 u \<noteq> [] then u\<lparr>md5 := md5_calculate k (md5 u)\<rparr> else u)"
  obtain ok2 w where w: "Updater_verifyEnd k v = (ok2, w)" by fastforce
  have "dev v = dev u" "rtc v = rtc u" by (simp_all add: v_def)
  then show ?thesis
    using assms None w verifyEnd_frame [OF w] by (auto simp: update_checks_def setError_def v_def Let_def split: if_splits)
qed

lemma reset_frame: "img (dev (Updater_reset k u)) = img (dev u)" "rtc (Updater_reset k u) = rtc u" "upd_size (Updater_reset k u) = 0"
  by (simp_all add: Updater_reset_def Let_def quiet_frame)

lemma end_safe:
  assumes "safe a b u" "b < 0x10000000" "Updater_end k ebcmd e u = (ok, u')"
  shows "\<forall>x<a. img (dev u') x = img (dev u) x" "\<not> ok \<Longrightarrow> rtc u' = rtc u" "upd_size u' = 0"
proof -
  define v where "v = (if e then let v = (if bufferLen u > 0 then snd (Updater_writeBuffer k u) else u) in v\<lparr>upd_size := progress v\<rparr> else u)"
  obtain ok1 w where w: "update_checks k v = (ok1, w)" by fastforce
  have r: "Updater_end k ebcmd e u = (if upd_size u = 0 then (False, u) else if hasError u \<or> \<not> isFinished u \<and> \<not> e then (False, Updater_reset k u)
     else case update_checks k v of (ok, w) \<Rightarrow> if \<not> ok then (False, Updater_reset k w)
     else (True, Updater_reset k (if command w = U_FLASH then w\<lparr>rtc := snd (eboot_command_write
         (ebcmd\<lparr>action := ACTION_COPY_RAW, args := (args ebcmd)[0 := startAddress w, 1 := 0, 2 := upd_size w]\<rparr>) (rtc w))\<rparr> else w)))"
    unfolding Updater_end_def v_def Let_def by (rule refl)
  have "untouched img a u v" if "going a b 0 u"
    using writeBuffer_going(1) [OF that assms(2)] by (auto simp: v_def untouched_def Let_def case_prod_unfold) (metis prod.collapse)+
  then have "untouched img a u w" if "going a b 0 u"
    using checks_frame [OF w] that by (simp add: untouched_def)
  moreover have "going a b 0 u" if "upd_size u \<noteq> 0" "\<not> hasError u" using assms(1) that by (auto simp: safe_def)
  ultimately show "\<forall>x<a. img (dev u') x = img (dev u) x" "\<not> ok \<Longrightarrow> rtc u' = rtc u" "upd_size u' = 0"
    using assms(3) unfolding r w by (auto simp: untouched_def reset_frame split: if_splits)
qed

lemma run_safe:
  assumes "safe a b u" "b + upd_bytes es < 0x10000000"
  shows "\<exists>oks u'. upd_run k es u = Some (oks, u') \<and> (\<forall>x<a. img (dev u') x = img (dev u) x) \<and> (True \<in> set oks \<or> rtc u' = rtc u)"
  using assms
proof (induction es arbitrary: b u rule: upd_bytes.induct)
  case (2 ds es)
  obtain n v where v: "Updater_write k ds u = Some (n, v)" "untouched img a u v" "safe a (b + length ds) v"
    using write_safe [OF "2.prems"(1), of ds] "2.prems"(2) by auto
  then show ?case using "2.IH" [OF v(3)] "2.prems"(2) by (auto simp: untouched_def)
next
  case (3 ebcmd e es)
  obtain ok v where v: "Updater_end k ebcmd e u = (ok, v)" by fastforce
  have b: "b < 0x10000000" using "3.prems"(2) by simp
  note s = end_safe [OF "3.prems"(1) b v]
  have "safe a b v" using s(3) by (simp add: safe_def)
  from "3.IH" [OF this] show ?case using "3.prems"(2) v s(1,2) by (cases ok) auto
qed auto

lemma sketch_end_frame: "\<exists>r h. sketch_end k n pos s = (r, s\<lparr>dev := h\<rparr>) \<and> img h = img (dev s)"
proof (induction n arbitrary: pos s)
  case (Suc n)
  obtain rc bs h where h: "spi_flash_read k pos 8 (dev s) = ((rc, bs), h)" by (metis prod.exhaust)
  then have "img h = img (dev s)" using read_frame [of pos 8 "dev s"] by simp
  then show ?case using h Suc [of "pos + 8 + sec_size (section_header_of bs)" "s\<lparr>dev := h\<rparr>"] by (cases "rc = 0") (auto simp: Let_def)
qed (simp, metis esp.surjective esp.update_convs(1))

lemma sketch_size_frame: "\<exists>r h z. getSketchSize k s = (r, s\<lparr>dev := h, sketch_size := z\<rparr>) \<and> img h = img (dev s)"
proof (cases "sketch_size s = 0")
  case False
  then have "getSketchSize k s = (sketch_size s, s\<lparr>dev := dev s, sketch_size := sketch_size s\<rparr>)" by (simp add: getSketchSize_def)
  then show ?thesis by blast
next
  case True
  obtain rc bs h where h: "spi_flash_read k APP_START_OFFSET 8 (dev s) = ((rc, bs), h)" by (metis prod.exhaust)
  then have i: "img h = img (dev s)" using read_frame [of APP_START_OFFSET 8 "dev s"] by simp
  obtain r h1 where e: "sketch_end k (unat (num_segments (image_header_of bs))) (APP_START_OFFSET + 8) (s\<lparr>dev := h\<rparr>) = (r, s\<lparr>dev := h1\<rparr>)"
    "img h1 = img (dev s)"
    using sketch_end_frame [of "unat (num_segments (image_header_of bs))" "APP_START_OFFSET + 8" "s\<lparr>dev := h\<rparr>"] i by auto
  define p where "p = (the r + 16) AND NOT 15"
  have "getSketchSize k s = (if rc \<noteq> 0 \<or> r = None then 0 else p,
      s\<lparr>dev := if rc \<noteq> 0 then h else h1, sketch_size := if rc \<noteq> 0 \<or> r = None then sketch_size s else p\<rparr>)"
    using True h e(1) by (cases r) (simp_all add: getSketchSize_def Let_def p_def)
  moreover have "img (if rc \<noteq> 0 then h else h1) = img (dev s)" using i e(2) by simp
  ultimately show ?thesis by blast
qed

lemma start_frame:
  assumes "update_start k S sz cmd u = (Some a, u1)"
  shows "\<exists>h z. u1 = u\<lparr>dev := h, sketch_size := z\<rparr> \<and> img h = img (dev u)"
proof -
  obtain r h z where g: "getSketchSize k u = (r, u\<lparr>dev := h, sketch_size := z\<rparr>)" "img h = img (dev u)" using sketch_size_frame by blast
  have "u1 = u\<lparr>dev := h, sketch_size := z\<rparr> \<or> u1 = u\<lparr>dev := dev u, sketch_size := sketch_size u\<rparr>"
    using assms g(1) by (auto simp: update_start_def Let_def split: if_splits)
  then show ?thesis using g(2) by blast
qed

lemma begin_safe:
  assumes "Updater_begin k S fresh sz cmd pin on u = (True, u1)"
  shows "img (dev u1) = img (dev u)" "rtc u1 = rtc u" "ledPin u1 = pin" "safe (unat (startAddress u1)) (unat (startAddress u1)) u1"
proof -
  define u0 where "u0 = u\<lparr>ledPin := pin, ledOn := on\<rparr>"
  obtain ok h where c: "checkFlashConfig k False u0 = (ok, u0\<lparr>dev := h\<rparr>)" "img h = img (dev u)"
    using read_frame [of 0 4 "dev u0"]
    by (auto simp: checkFlashConfig_def getFlashChipSize_def Let_def case_prod_unfold u0_def)
  define v where "v = clearError (Updater_reset k (u0\<lparr>dev := h\<rparr>))"
  define u2 where "u2 = v\<lparr>dev := wifi_set_sleep_none k (dev v)\<rparr>"
  have f: "img (dev u2) = img (dev u)" "rtc u2 = rtc u" "bufferLen u2 = 0" "upd_error u2 = UPDATE_ERROR_OK" "ledPin u2 = pin"
    using c(2) by (simp_all add: u2_def v_def clearError_def Updater_reset_def Let_def u0_def quiet_frame)
  obtain a u3 where st: "update_start k S sz cmd u2 = (Some a, u3)"
    and u1: "u1 = (let w = u3\<lparr>startAddress := a, currentAddress := a, upd_size := sz\<rparr>;
        w = w\<lparr>bufferSize := if system_get_free_heap_size k (dev w) > 2 * FLASH_SECTOR_SIZE then FLASH_SECTOR_SIZE else 256\<rparr>;
        w = w\<lparr>buffer := map fresh [0..<unat (bufferSize w)], command := cmd\<rparr>
      in if verify w = None then w\<lparr>md5 := md5_begin k\<rparr> else w)"
    using assms unfolding Updater_begin_def u0_def [symmetric]
    by (auto simp: Let_def c(1) v_def [symmetric] u2_def [symmetric] split: if_splits prod.splits option.splits)
  obtain h3 z where u3: "u3 = u2\<lparr>dev := h3, sketch_size := z\<rparr>" "img h3 = img (dev u2)" using start_frame [OF st] by blast
  show "img (dev u1) = img (dev u)" "rtc u1 = rtc u" "ledPin u1 = pin" "safe (unat (startAddress u1)) (unat (startAddress u1)) u1"
    unfolding u1 u3(1) using f u3(2) by (simp_all add: Let_def safe_def going_def hasError_def FLASH_SECTOR_SIZE_def)
qed

end

text \<open>(C3) An update that is not completed does no harm: whatever the client writes after the start of an update, however
  often and with whatever results of the flash chip, and however it ends, every call returns, the flash
  below the place of the update, where the running sketch is, has not changed, and unless ending reported
  success the command memory is as it was before the update was started, so that a boot loader that would have
  found no command finds none. (A command that was there before stays: the start of an update does not clear it.)\<close>

theorem failed_update_harmless:
  assumes "sdk_frame k img" "Updater_begin k S fresh sz cmd pin on u = (True, u1)" "unat (startAddress u1) + upd_bytes es < 0x10000000"
  shows "\<exists>oks u2. upd_run k es u1 = Some (oks, u2) \<and> (\<forall>x<unat (startAddress u1). img (dev u2) x = img (dev u) x)
    \<and> (True \<in> set oks \<or> rtc u2 = rtc u \<and> fst (eboot_command_read (rtc u2)) = fst (eboot_command_read (rtc u)))"
  using sdk_frame.run_safe [OF assms(1) sdk_frame.begin_safe(4) [OF assms(1,2)] assms(3)] sdk_frame.begin_safe(1,2) [OF assms(1,2)] by fastforce

section \<open>A board with four megabytes\<close>

definition nor_sdk :: "(nat \<Rightarrow> u8, u8 list) sdk" where
  "nor_sdk = \<lparr>spi_flash_read = (\<lambda>a n h. ((0, map h [unat a..<unat a + unat n]), h)),
     spi_flash_write = (\<lambda>a bs h. (0, \<lambda>x. if unat a \<le> x \<and> x < unat a + length bs then h x AND bs ! (x - unat a) else h x)),
     spi_flash_erase_sector = (\<lambda>j h. (0, \<lambda>x. if x div 4096 = unat j then 0xFF else h x)), spi_flash_get_id = (\<lambda>_. 0x164020),
     system_get_free_heap_size = (\<lambda>_. 40000), wifi_set_sleep_none = (\<lambda>h. h), sdk_yield = (\<lambda>h. h), sdk_delay = (\<lambda>_ h. h),
     malloc = (\<lambda>_ _. True), GPI = (\<lambda>_. 0x30000), pinMode_OUTPUT = (\<lambda>_ h. h), digitalWrite = (\<lambda>_ _ h. h),
     MD5Init = [], MD5Update = (\<lambda>c bs. c @ bs), MD5Final = take 16\<rparr>"

text \<open>The same board when the flash chip has stopped to accept writes.\<close>

definition worn_sdk :: "(nat \<Rightarrow> u8, u8 list) sdk" where
  "worn_sdk = nor_sdk\<lparr>spi_flash_write := \<lambda>_ _ h. (1, h)\<rparr>"

interpretation ns: sdk_flash nor_sdk "\<lambda>h. h" "\<lambda>_. True" "0x400000" "0x164020"
  by unfold_locales (simp_all add: nor_sdk_def)

interpretation nf: sdk_frame nor_sdk "\<lambda>h. h"
  by unfold_locales (simp_all add: nor_sdk_def)

interpretation wf: sdk_frame worn_sdk "\<lambda>h. h"
  by unfold_locales (simp_all add: nor_sdk_def worn_sdk_def)

text \<open>A small sketch runs from the flash \<open>old_flash\<close>, and the updater is idle; the update is a boot loader and an application of one
  section.\<close>

definition old_flash :: "nat \<Rightarrow> u8" where
  "old_flash = (\<lambda>x. if 0x1000 \<le> x \<and> x < 0x1000 + length (encode_image 0xE9 0 0 0 []) then encode_image 0xE9 0 0 0 [] ! (x - 0x1000) else 0xFF)"

definition idle_on :: "'h \<Rightarrow> ('h, u8 list, unit) upd" where
  "idle_on h = Updater_runAsync True (Updater_new [] () h (\<lambda>_. 0) 0x1010)"

definition idle_upd :: "(nat \<Rightarrow> u8, u8 list, unit) upd" where
  "idle_upd = idle_on old_flash"

definition new_loader :: "u8 list" where
  "new_loader = 0xE9 # replicate 4095 0"

definition new_app :: "u8 list" where
  "new_app = encode_image 0xE9 0 0 0x40100000 [(0x40100000, [1, 2, 3, 4])]"

lemma old_runs: "running_sketch old_flash 0x1010 0x400000 4104"
proof -
  have "holds old_flash 4096 (encode_image 0xE9 0 0 0 [])" unfolding old_flash_def using holds_flash [of 4096] by simp
  then show ?thesis
    unfolding running_sketch_def by (intro conjI exI [of _ "0xE9"] exI [of _ 0] exI [of _ "[]"]) (simp_all add: good_image_def encode_image_def)
qed

lemma nor_config:
  "k = nor_sdk \<or> k = worn_sdk \<Longrightarrow> u = idle_upd\<lparr>ledPin := - 1, ledOn := False\<rparr> \<Longrightarrow> checkFlashConfig k False u = (True, u)"
  by (auto simp: checkFlashConfig_def getFlashChipSize_def getFlashChipRealSize_def nor_sdk_def worn_sdk_def idle_upd_def idle_on_def Updater_new_def Updater_runAsync_def old_flash_def
      magicFlashChipSize_def simp del: upt_rec_numeral)

lemma idle_begins:
  assumes "k = nor_sdk \<or> k = worn_sdk"
  shows "\<exists>u1. Updater_begin k 0x40500000 (\<lambda>_. 0) 4116 U_FLASH (- 1) False idle_upd = (True, u1) \<and> startAddress u1 = 0x2FE000"
proof -
  have g: "boot = drop_bit 16 (GPI k h) AND 0xf \<Longrightarrow> boot \<noteq> 1" for boot h using assms by (auto simp: nor_sdk_def worn_sdk_def)
  have q: "wifi_set_sleep_none k h = h" "system_get_free_heap_size k h = 40000" for h using assms by (auto simp: nor_sdk_def worn_sdk_def)
  show ?thesis
    unfolding Updater_begin_def Let_def nor_config [OF assms refl] using g [OF refl]
    by (simp add: idle_upd_def idle_on_def Updater_new_def Updater_runAsync_def update_start_def getSketchSize_def Updater_reset_def setError_def clearError_def round_sector_def
      FLASH_SECTOR_SIZE_def Let_def q del: upt_rec_numeral)
qed

lemma new_image: "length new_loader = 4096" "length new_app = 20" "(new_loader @ new_app) ! 2 = 0" "acceptable nor_sdk 0x164020 [] (new_loader @ new_app)"
proof -
  show l: "length new_loader = 4096" "length new_app = 20" by (simp_all add: new_loader_def new_app_def encode_image_def encode_section_def)
  have n: "(new_loader @ new_app) ! 0 = 0xE9" "(new_loader @ new_app) ! 2 = 0" "(new_loader @ new_app) ! 3 = 0"
    using l by (simp_all add: nth_append new_loader_def)
  then show "(new_loader @ new_app) ! 2 = 0" by simp
  show "acceptable nor_sdk 0x164020 [] (new_loader @ new_app)" using n by (simp add: acceptable_def magicFlashChipSize_def)
qed

theorem ota_update_installs_witness:
  "\<exists>u1 u2 u3 t. Updater_begin nor_sdk 0x40500000 (\<lambda>_. 0) 4116 U_FLASH (- 1) False idle_upd = (True, u1)
    \<and> write_chunks nor_sdk [new_loader, new_app] u1 = Some u2
    \<and> Updater_end nor_sdk \<lparr>magic = 0, action = 0, args = replicate 29 0, crc32 = 0\<rparr> False u2 = (True, u3)
    \<and> eboot_main nor_rom \<lparr>RTC_MEM = rtc u3, ram = \<lambda>_. 0, chip = dev u3\<rparr> = Some (Jump 0x40100000, t)
    \<and> ram t = poke 0x40100000 [1, 2, 3, 4] (\<lambda>_. 0)"
proof -
  obtain u1 where u1: "Updater_begin nor_sdk 0x40500000 (\<lambda>_. 0) 4116 U_FLASH (- 1) False idle_upd = (True, u1)" using idle_begins [of nor_sdk] by blast
  have "\<exists>u2 u3 t. write_chunks nor_sdk [new_loader, new_app] u1 = Some u2
    \<and> Updater_end nor_sdk \<lparr>magic = 0, action = 0, args = replicate 29 0, crc32 = 0\<rparr> False u2 = (True, u3)
    \<and> eboot_main nor_rom \<lparr>RTC_MEM = rtc u3, ram = \<lambda>_. 0, chip = dev u3\<rparr> = Some (Jump 0x40100000, t)
    \<and> ram t = fold load_section [(0x40100000, [1, 2, 3, 4])] (\<lambda>_. 0)
    \<and> map (chip t) [0..<unat (4116 :: u32)] = patched (magicFlashChipMode (dev idle_upd 2)) (concat [new_loader, new_app])"
  proof (rule ota_update_installs [OF ns.sdk_flash_axioms nor.nor_flash_axioms _ _ u1, where eb = new_loader and pad = "[]" and n = 4104
        and mg = "0xE9" and mode = 0 and freq = 0])
    show "running_sketch (dev idle_upd) (sketch_size idle_upd) 0x400000 4104" using old_runs by (simp add: idle_upd_def idle_on_def Updater_new_def Updater_runAsync_def)
    show "acceptable nor_sdk 0x164020 (target_md5 idle_upd) (concat [new_loader, new_app])" using new_image(4) by (simp add: idle_upd_def idle_on_def Updater_new_def Updater_runAsync_def)
    show "concat [new_loader, new_app] ! 2 \<le> FM_DOUT" using new_image(3) by simp
    show "good_image [(0x40100000, [1, 2, 3, 4 :: u8])]" by (simp add: good_image_def) (simp add: eval_nat_numeral)
    show "[] \<notin> set [new_loader, new_app]" by (simp add: new_loader_def new_app_def encode_image_def)
  qed (use new_image in \<open>simp_all add: idle_upd_def idle_on_def Updater_new_def Updater_runAsync_def new_app_def\<close>)
  with u1 show ?thesis by (auto simp: load_section_def loadable_def)
qed

theorem update_acceptance_witness:
  "\<exists>u1 u2 u3. Updater_begin nor_sdk 0x40500000 (\<lambda>_. 0) 4116 U_FLASH (- 1) False idle_upd = (True, u1)
    \<and> write_chunks nor_sdk [replicate 4116 0] u1 = Some u2
    \<and> Updater_end nor_sdk \<lparr>magic = 0, action = 0, args = replicate 29 0, crc32 = 0\<rparr> False u2 = (False, u3)
    \<and> dev u3 4096 = 0xE9 \<and> rtc u3 = rtc idle_upd"
proof -
  obtain u1 where u1: "Updater_begin nor_sdk 0x40500000 (\<lambda>_. 0) 4116 U_FLASH (- 1) False idle_upd = (True, u1)" using idle_begins [of nor_sdk] by blast
  have no: "\<not> acceptable nor_sdk 0x164020 [] (concat [replicate 4116 0])" by (simp add: acceptable_def)
  have "\<exists>u2 u3. write_chunks nor_sdk [replicate 4116 0] u1 = Some u2
    \<and> Updater_end nor_sdk \<lparr>magic = 0, action = 0, args = replicate 29 0, crc32 = 0\<rparr> False u2
      = (acceptable nor_sdk 0x164020 (target_md5 idle_upd) (concat [replicate 4116 0]), u3)
    \<and> (\<forall>x<4104. dev u3 x = dev idle_upd x)
    \<and> (acceptable nor_sdk 0x164020 (target_md5 idle_upd) (concat [replicate 4116 0]) \<or> rtc u3 = rtc idle_upd)"
  proof (rule update_acceptance [OF ns.sdk_flash_axioms _ _ u1])
    show "running_sketch (dev idle_upd) (sketch_size idle_upd) 0x400000 4104" using old_runs by (simp add: idle_upd_def idle_on_def Updater_new_def Updater_runAsync_def)
  qed (simp_all add: idle_upd_def idle_on_def Updater_new_def Updater_runAsync_def)
  moreover have "dev idle_upd 4096 = 0xE9" "target_md5 idle_upd = []" by (simp_all add: idle_upd_def idle_on_def Updater_new_def Updater_runAsync_def old_flash_def encode_image_def)
  ultimately show ?thesis using u1 no by auto
qed

theorem failed_update_harmless_witness:
  "\<exists>u1 oks u2. Updater_begin worn_sdk 0x40500000 (\<lambda>_. 0) 4116 U_FLASH (- 1) False idle_upd = (True, u1)
    \<and> upd_run worn_sdk [Write (replicate 5000 0), End \<lparr>magic = 0, action = 0, args = replicate 29 0, crc32 = 0\<rparr> True] u1 = Some (oks, u2)
    \<and> dev u2 4096 = 0xE9"
proof -
  obtain u1 where u1: "Updater_begin worn_sdk 0x40500000 (\<lambda>_. 0) 4116 U_FLASH (- 1) False idle_upd = (True, u1)" "startAddress u1 = 0x2FE000"
    using idle_begins [of worn_sdk] by blast
  have "dev idle_upd 4096 = 0xE9" by (simp add: idle_upd_def idle_on_def Updater_new_def Updater_runAsync_def old_flash_def encode_image_def)
  then show ?thesis
    using failed_update_harmless [OF wf.sdk_frame_axioms u1(1),
        of "[Write (replicate 5000 0), End \<lparr>magic = 0, action = 0, args = replicate 29 0, crc32 = 0\<rparr> True]"] u1 by auto
qed

section \<open>Slips of the updater\<close>

text \<open>Near the end of the address range rounding the size up to sectors wraps around: an update of four gigabytes needs no
  room at all, and is accepted with its start at the file system.\<close>

lemma huge_size_fits: "round_sector 0xFFFFFFFF = 0"
  by (simp add: round_sector_def FLASH_SECTOR_SIZE_def)

text \<open>An updater in the middle of its work, with the first sector of an image in the flash.\<close>

definition busy_upd :: "u32 \<Rightarrow> u32 \<Rightarrow> u32 \<Rightarrow> (nat \<Rightarrow> u8, u8 list, unit) upd" where
  "busy_upd sz cur len = idle_upd\<lparr>dev := \<lambda>x. if x = 0x101000 then 0xE9 else 0, buffer := replicate 4096 0, bufferLen := len, bufferSize := 4096,
     upd_size := sz, startAddress := 0x101000, currentAddress := cur\<rparr>"

text \<open>The room that is left is compared with the new bytes alone, not with those in the buffer too: with 60 of 100 bytes in
  the buffer another 60 are taken.\<close>

lemma too_many_bytes_taken: "\<exists>u. Updater_write nor_sdk (replicate 60 7) (busy_upd 100 0x101000 60) = Some (60, u) \<and> bufferLen u = 120"
  by (simp add: Updater_write_def busy_upd_def idle_upd_def idle_on_def Updater_new_def Updater_runAsync_def hasError_def isRunning_def remaining_def write_loop.simps fill_buffer_def update_errors)

text \<open>When an update that fills its last sector is complete, writing no byte erases the sector behind it.\<close>

lemma empty_write_erases: "\<exists>u. Updater_write nor_sdk [] (busy_upd 0x1000 0x102000 0) = Some (0, u) \<and> dev u 0x102000 = 0xFF"
  by (simp add: Updater_write_def busy_upd_def idle_upd_def idle_on_def Updater_new_def Updater_runAsync_def hasError_def isRunning_def remaining_def write_loop.simps fill_buffer_def update_errors
      Updater_writeBuffer_def erase_first_def set_flash_mode_def flashEraseSector_def flashWrite_def yield_unless_async_def FLASH_SECTOR_SIZE_def
      nor_sdk_def Let_def)

text \<open>An unknown flash mode is not restored before the digest is taken: of the bytes 0, 0, 7, 0 the third is hashed as \<open>0xFF\<close>,
  so that an update with such an image and the right digest is refused.\<close>

lemma unknown_mode_lost:
  "\<exists>u. Updater_writeBuffer nor_sdk ((busy_upd 0x1000 0x101000 4)\<lparr>buffer := (replicate 4096 0)[2 := 7]\<rparr>) = (True, u)
    \<and> md5 u = md5_add nor_sdk [0, 0, 0xFF, 0] (md5 (busy_upd 0x1000 0x101000 4))"
proof -
  have "replicate 4096 (0 :: u8) = 0 # 0 # 0 # 0 # replicate 4092 0" by (simp add: numeral_eq_Suc)
  then show ?thesis
    by (simp add: Updater_writeBuffer_def erase_first_def set_flash_mode_def flashEraseSector_def flashWrite_def yield_unless_async_def
      getFlashChipMode_def flashRead_def FLASH_SECTOR_SIZE_def FLASH_MODE_OFFSET_def magicFlashChipMode_def FM_DOUT_def FM_UNKNOWN_def nor_sdk_def busy_upd_def idle_upd_def idle_on_def
      Updater_new_def Updater_runAsync_def Let_def)
qed

text \<open>The result of writing the rest of the buffer is ignored when an update is ended early: the chip has refused the last
  bytes, and success is reported.\<close>

lemma failed_write_accepted: "fst (Updater_end worn_sdk ebcmd True (busy_upd 0x2000 0x102000 4))"
proof -
  let ?h = "\<lambda>x. if x div 4096 = 0x102 then 0xFF else if x = 0x101000 then 0xE9 else (0 :: u8)"
  let ?v = "setError UPDATE_ERROR_WRITE ((busy_upd 0x2000 0x102000 4)\<lparr>dev := ?h, currentAddress := 0x103000\<rparr>)"
  have w: "Updater_writeBuffer worn_sdk (busy_upd 0x2000 0x102000 4) = (False, ?v)"
    by (simp add: Updater_writeBuffer_def erase_first_def set_flash_mode_def flashEraseSector_def flashWrite_def yield_unless_async_def
        FLASH_SECTOR_SIZE_def worn_sdk_def nor_sdk_def busy_upd_def idle_upd_def idle_on_def Updater_new_def Updater_runAsync_def Let_def)
  have "fst (update_checks worn_sdk (?v\<lparr>upd_size := 0x2000\<rparr>))"
    by (simp add: update_checks_def Updater_verifyEnd_def flashRead_def getFlashChipRealSize_def magicFlashChipSize_def worn_sdk_def nor_sdk_def
        busy_upd_def idle_upd_def idle_on_def Updater_new_def Updater_runAsync_def setError_def Let_def del: upt_rec_numeral)
  then show ?thesis
    using w by (simp add: Updater_end_def hasError_def update_errors progress_def setError_def Let_def case_prod_unfold busy_upd_def idle_upd_def idle_on_def Updater_new_def Updater_runAsync_def)
qed

end
