(* ===== verification/Update_Sketch.thy ===== *)
theory Update_Sketch
  imports Ota
begin

text \<open>
  Updates read from a stream, \<^verbatim>\<open>EspClass::updateSketch\<close>: the updater reads from the stream into its buffer, and a stream that
  delivers exactly the bytes of an acceptable image, in portions of any size, installs it.
\<close>

section \<open>Streams\<close>

text \<open>A stream on a working board: \<open>pend\<close> are the bytes that it will deliver. A read returns at least one of them, if there is one; no
  other function takes any.\<close>

locale sdk_stream = sdk_flash k img up cap chip_id
  for k :: "('h, 'c) sdk" and img :: "'h \<Rightarrow> nat \<Rightarrow> u8" and up :: "'h \<Rightarrow> bool" and cap :: nat and chip_id :: u32 +
  fixes st :: "'h stream" and pend :: "'h \<Rightarrow> u8 list"
  assumes peek_law: "up h \<Longrightarrow> pend h \<noteq> [] \<Longrightarrow> st_peek st h = uint (hd (pend h))"
    and stream_law: "up h \<Longrightarrow> pend h \<noteq> [] \<Longrightarrow> 0 < unat n \<Longrightarrow>
      \<exists>c h'. st_readBytes st n h = (take c (pend h), h') \<and> 0 < c \<and> c \<le> unat n \<and> pend h' = drop c (pend h) \<and> up h' \<and> img h' = img h"
    and pend_law: "pend (snd (spi_flash_read k a n h)) = pend h" "pend (snd (spi_flash_write k a bs h)) = pend h"
      "pend (snd (spi_flash_erase_sector k j h)) = pend h" "pend (sdk_yield k h) = pend h" "pend (wifi_set_sleep_none k h) = pend h"
      "pend (digitalWrite k pin v h) = pend h"
begin

text \<open>For the stream the whole flash is out of sight: what it will deliver is not changed anywhere.\<close>

sublocale pf: sdk_frame k "\<lambda>h _. pend h"
  by unfold_locales (simp_all add: pend_law)

lemma writeBuffer_streams:
  assumes "staging k img up f a n ds w u" "w < length ds" "length ds - w = unat (bufferSize u) \<or> length ds = n"
    and a: "4 dvd n" "4096 dvd a" "4096 \<le> a" "a + sectors n * 4096 \<le> cap" and "2 < length ds \<Longrightarrow> ds ! 2 \<le> FM_DOUT"
  shows "\<exists>v. Updater_writeBuffer k u = (True, v) \<and> staging k img up f a n ds (length ds) v \<and> keeps u v \<and> pend (dev v) = pend (dev u)"
proof -
  obtain v where v: "Updater_writeBuffer k u = (True, v)" "staging k img up f a n ds (length ds) v" "keeps u v"
    using writeBuffer_stages [OF assms] by blast
  moreover have "unat (currentAddress u) < 0x10000000" "0 < unat (currentAddress u)"
    using assms(1,2) a(3,4) cap_law(2) sectors_ge [of n] by (simp_all add: staging_def)
  ultimately show ?thesis using pf.writeBuffer_frame(1) by blast
qed

lemma stream_loop_stages:
  assumes "staging k img up f a n ds w u" "pend (dev u) = bs" "length ds + length bs = n" "length ds = n \<longrightarrow> w = n" "ledPin u = - 1"
    and "length ds - w < unat (bufferSize u)" and a: "4 dvd n" "4096 dvd a" "4096 \<le> a" "a + sectors n * 4096 \<le> cap"
    and "2 < length (ds @ bs) \<Longrightarrow> (ds @ bs) ! 2 \<le> FM_DOUT"
  shows "\<exists>u'. stream_loop k st wr u = Some (wr + length bs, u') \<and> staging k img up f a n (ds @ bs) n u' \<and> keeps u u'"
  using assms(1-6,11)
proof (induction "length bs" arbitrary: ds w u bs wr rule: less_induct)
  case less
  have s: "w \<le> length ds" "up (dev u)" "unat (bufferLen u) = length ds - w" using less.prems(1) by (simp_all add: staging_def)
  note rem = remaining_staging(1) [OF less.prems(1)]
  show ?case
  proof (cases "bs = []")
    case True
    then have "remaining u = 0" using rem less.prems(3,4) by (simp add: word_unat_eq_iff)
    then have "stream_loop k st wr u = Some (wr, u)" by (subst stream_loop.simps) simp
    then show ?thesis using True less.prems(1,3,4) by (auto simp: keeps_refl)
  next
    case False
    define m where "m = (if bufferSize u - bufferLen u > remaining u then remaining u else bufferSize u - bufferLen u)"
    have bl: "unat (bufferSize u - bufferLen u) = unat (bufferSize u) - (length ds - w)"
      using s(3) less.prems(6) by (simp add: unat_sub word_le_nat_alt)
    have wn: "w < n" "0 < unat (remaining u)" using False s(1) less.prems(3) rem by (cases bs; simp)+
    then have m: "0 < unat m" "unat m \<le> unat (bufferSize u) - (length ds - w)"
      using bl less.prems(6) by (auto simp: m_def word_less_nat_alt)
    obtain c h where r: "st_readBytes st m (dev u) = (take c bs, h)" "0 < c" "c \<le> unat m" "pend h = drop c bs" "up h" "img h = img (dev u)"
      using stream_law [OF s(2), of m] m(1) False less.prems(2) by auto
    define cs where "cs = take c bs"
    have cs: "cs \<noteq> []" "length cs \<le> unat m" "bs = cs @ drop c bs" "length (drop c bs) < length bs" using False r(2,3) by (simp_all add: cs_def)
    define u1 where "u1 = fill_buffer cs (u\<lparr>dev := h\<rparr>)"
    have st0: "staging k img up f a n ds w (u\<lparr>dev := h\<rparr>)" using less.prems(1) r(5,6) by (simp add: staging_def)
    have len: "length ds + length cs + length (drop c bs) = n" using less.prems(3) cs(3) by (metis add.assoc length_append)
    have st1: "staging k img up f a n (ds @ cs) w u1"
      unfolding u1_def using fill_buffer_stages [OF st0, of cs] cs(2) m(2) len less.prems(6) by simp
    have u1: "keeps u u1" "bufferSize u1 = bufferSize u" "pend (dev u1) = drop c bs" by (simp_all add: u1_def fill_buffer_def keeps_def r(4))
    have "unat (bufferLen u1) = length (ds @ cs) - w" using st1 by (simp add: staging_def)
    then have full: "bufferLen u1 = remaining u1 \<longleftrightarrow> length (ds @ cs) = n" "bufferLen u1 = bufferSize u1 \<longleftrightarrow> length (ds @ cs) - w = unat (bufferSize u)"
      using remaining_staging(1) [OF st1] wn(1) s(1) u1(2) by (auto simp: word_unat_eq_iff)
    have md: "2 < length (ds @ cs) \<Longrightarrow> (ds @ cs) ! 2 \<le> FM_DOUT"
      using less.prems(7) cs(3) by (metis append.assoc length_append nth_append trans_less_add1)
    obtain v w' where v: "(if bufferLen u1 = remaining u1 \<or> bufferLen u1 = bufferSize u1 then Updater_writeBuffer k u1 else (True, u1)) = (True, v)"
      "staging k img up f a n (ds @ cs) w' v" "keeps u v" "pend (dev v) = drop c bs" "length (ds @ cs) = n \<longrightarrow> w' = n"
      "length (ds @ cs) - w' < unat (bufferSize u)"
    proof (cases "length (ds @ cs) = n \<or> length (ds @ cs) - w = unat (bufferSize u)")
      case True
      have "w < length (ds @ cs)" using s(1) cs(1) by (cases cs) simp_all
      then obtain v where v: "Updater_writeBuffer k u1 = (True, v)" "staging k img up f a n (ds @ cs) (length (ds @ cs)) v" "keeps u1 v"
          "pend (dev v) = pend (dev u1)"
        using writeBuffer_streams [OF st1 _ _ a md] True u1(2) by auto
      then show ?thesis using that [of v "length (ds @ cs)"] True full keeps_trans [OF u1(1)] u1(3) less.prems(6) by auto
    next
      case False
      then show ?thesis using that [of u1 w] st1 u1 full less.prems(6) by (auto simp: staging_def)
    qed
    define v' where "v' = v\<lparr>dev := sdk_yield k (dev v)\<rparr>"
    have v': "staging k img up f a n (ds @ cs) w' v'" "keeps u v'" "pend (dev v') = drop c bs"
      using v(2-4) by (auto simp: v'_def staging_def keeps_def quiet_law pend_law)
    then have "ledPin v' = - 1" "bufferSize v' = bufferSize u" using less.prems(5) by (simp_all add: keeps_def)
    then obtain u' where u': "stream_loop k st (wr + length cs) v' = Some (wr + length cs + length (drop c bs), u')"
        "staging k img up f a n ((ds @ cs) @ drop c bs) n u'" "keeps v' u'"
      using less.hyps [OF cs(4) v'(1,3) _ v(5), of "wr + length cs"] len v(6) less.prems(7) cs(3) by auto
    have "stream_loop k st wr u = stream_loop k st (wr + length cs) v'"
      using wn(2) less.prems(5) r(1) cs(1) v(1)
      by (subst stream_loop.simps, cases "bufferLen u1 = remaining u1 \<or> bufferLen u1 = bufferSize u1")
        (auto simp: led_def stream_read_def m_def [symmetric] cs_def [symmetric] u1_def [symmetric] v'_def Let_def)
    moreover have "wr + length cs + length (drop c bs) = wr + length bs" "(ds @ cs) @ drop c bs = ds @ bs"
      using cs(3) by (metis add.assoc length_append, metis append.assoc)
    ultimately show ?thesis using u' keeps_trans [OF v'(2)] by auto
  qed
qed

lemma updateSketch_stages:
  assumes "up (dev u)" "verify u = None" "Updater_begin k S fresh sz U_FLASH (- 1) False u = (True, u1)"
    and E: "4096 dvd unat (S - 0x40200000)" "unat (S - 0x40200000) \<le> cap" "unat sz \<le> cap"
    and sk: "running_sketch (img (dev u)) (sketch_size u) cap n"
    and ds: "pend (dev u) = ds" "length ds = unat sz" "4 dvd unat sz" "0 < unat sz" "ds ! 2 \<le> FM_DOUT"
    and acc: "acceptable k chip_id (target_md5 u) ds"
  shows "\<exists>a u3. updateSketch k S fresh ebcmd st sz rf rs u = Some (True, rs, u3) \<and> up (dev u3)
    \<and> img (dev u3) = stage a (patched (magicFlashChipMode (img (dev u) 2)) ds) (img (dev u))
    \<and> rtc u3 = snd (eboot_command_write (copy_request ebcmd a (length ds)) (rtc u))
    \<and> a + sectors (length ds) * 4096 \<le> cap \<and> n \<le> a \<and> 4096 dvd a"
proof -
  obtain a where a: "staging k img up (img (dev u)) a (unat sz) [] 0 u1" "a + sectors (unat sz) * 4096 = unat (S - 0x40200000)"
    "n \<le> a" "4096 dvd a" "rtc u1 = rtc u" "target_md5 u1 = target_md5 u"
    using begin_stages [OF assms(1-3) E] sk unfolding running_sketch_def by blast
  have u1: "pend (dev u1) = ds" "ledPin u1 = - 1" using fun_cong [OF pf.begin_safe(1) [OF assms(3)]] pf.begin_safe(3) [OF assms(3)] ds(1) by auto
  have "4096 \<le> a" using a(3) sk by (auto simp: running_sketch_def)
  have b: "0 < unat (bufferSize u1)" using buffer_fits(3) [OF a(1), of "[]"] a(2) E(2) by simp
  obtain u2 where u2: "stream_loop k st 0 u1 = Some (unat sz, u2)" "staging k img up (img (dev u)) a (unat sz) ds (unat sz) u2" "keeps u1 u2"
    using stream_loop_stages [OF a(1) u1(1) _ _ u1(2) _ ds(3) a(4) \<open>4096 \<le> a\<close>, of 0] a(2) E(2) b ds(2,4,5) by auto
  have up1: "up (dev u1)" "\<not> hasError u1" "isRunning u1" "command u1 = U_FLASH" "ds \<noteq> []"
    using a(1) ds(2,4) by (auto simp: staging_def hasError_def isRunning_def word_less_nat_alt)
  moreover have "hd ds = 0xE9" using up1(5) acc by (simp add: acceptable_def hd_conv_nth)
  ultimately have "Updater_writeStream k st u1 = Some (unat sz, u2)"
    using peek_law [OF up1(1)] u1 u2(1) by (simp add: Updater_writeStream_def Updater_verifyHeader_def)
  moreover have "4 dvd a" "a + unat sz \<le> cap" using a(2,4) E(2) sectors_ge [of "unat sz"] by (auto elim!: dvdE)
  then obtain u3 where u3: "Updater_end k ebcmd False u2 = (True, u3)" "up (dev u3)" "img (dev u3) = img (dev u2)"
    "rtc u3 = snd (eboot_command_write (copy_request ebcmd a (unat sz)) (rtc u))"
    using end_law [OF u2(2) ds(2-4), of ebcmd] u2(3) a(5,6) acc by (auto simp: keeps_def)
  ultimately have "updateSketch k S fresh ebcmd st sz rf rs u = Some (True, rs, u3)" by (simp add: updateSketch_def assms(3))
  moreover have "img (dev u2) = stage a (patched (magicFlashChipMode (img (dev u) 2)) ds) (img (dev u))"
    using u2(2) ds(2) by (simp add: staging_def)
  ultimately show ?thesis using u3(2-4) a(2-4) E(2) ds(2) by auto
qed

end

section \<open>The whole update\<close>

text \<open>(C5) \<^verbatim>\<open>updateSketch\<close> with a stream that delivers exactly the bytes of an acceptable image, in portions of any size: it reports
  success and restarts the chip if asked to, and after the restart the boot loader jumps to the entry
  point of the new sketch with its sections in memory and the image at the start of the flash.\<close>

theorem updateSketch_installs:
  assumes "sdk_stream k img up cap i st pend" "nor_flash m img up cap" "up (dev u)" "verify u = None"
    and "Updater_begin k S fresh sz U_FLASH (- 1) False u = (True, u1)"
    and "4096 dvd unat (S - 0x40200000)" "unat (S - 0x40200000) \<le> cap" "unat sz \<le> cap"
    and "running_sketch (img (dev u)) (sketch_size u) cap n"
    and "pend (dev u) = ds" "ds = eb @ encode_image mg mode freq pc secs @ pad" "length eb = 4096" "length ds = unat sz"
    and "4 dvd unat sz" "good_image secs" "ds ! 2 \<le> FM_DOUT" "acceptable k i (target_md5 u) ds" "length (args ebcmd) = 29"
  shows "\<exists>u3 t. updateSketch k S fresh ebcmd st sz rf rs u = Some (True, rs, u3)
    \<and> eboot_main m \<lparr>RTC_MEM = rtc u3, ram = r, chip = dev u3\<rparr> = Some (Jump pc, t) \<and> ram t = fold load_section secs r
    \<and> map (img (chip t)) [0..<unat sz] = patched (magicFlashChipMode (img (dev u) 2)) ds"
proof -
  have "0 < unat sz" using assms(11-13) by auto
  then obtain a u3 where u: "updateSketch k S fresh ebcmd st sz rf rs u = Some (True, rs, u3)" "up (dev u3)"
    "img (dev u3) = stage a (patched (magicFlashChipMode (img (dev u) 2)) ds) (img (dev u))"
    "rtc u3 = snd (eboot_command_write (copy_request ebcmd a (length ds)) (rtc u))"
    "a + sectors (length ds) * 4096 \<le> cap" "n \<le> a" "4096 dvd a"
    using sdk_stream.updateSketch_stages [OF assms(1,3-10,13,14) _ assms(16,17), of ebcmd rf rs] by auto
  have "sdk_flash k img up cap i" using assms(1) by (simp add: sdk_stream_def)
  moreover have "0 < a" using u(6) assms(9) by (auto simp: running_sketch_def)
  ultimately show ?thesis
    using staged_boots [OF _ assms(2) u(2-4) assms(18) u(5) _ u(7) assms(11,12,15)] u(1) assms(13) by auto
qed

section \<open>A board with a network\<close>

text \<open>The flash and the bytes still to come; a read gets at most 1000 of them.\<close>

type_synonym net_board = "(nat \<Rightarrow> u8) \<times> u8 list"

definition on_flash :: "((nat \<Rightarrow> u8) \<Rightarrow> 'r \<times> (nat \<Rightarrow> u8)) \<Rightarrow> net_board \<Rightarrow> 'r \<times> net_board" where
  "on_flash f h = (fst (f (fst h)), snd (f (fst h)), snd h)"

definition net_sdk :: "(net_board, u8 list) sdk" where
  "net_sdk = \<lparr>spi_flash_read = (\<lambda>a n. on_flash (spi_flash_read nor_sdk a n)), spi_flash_write = (\<lambda>a bs. on_flash (spi_flash_write nor_sdk a bs)),
     spi_flash_erase_sector = (\<lambda>j. on_flash (spi_flash_erase_sector nor_sdk j)), spi_flash_get_id = (\<lambda>_. 0x164020),
     system_get_free_heap_size = (\<lambda>_. 40000), wifi_set_sleep_none = (\<lambda>h. h), sdk_yield = (\<lambda>h. h), sdk_delay = (\<lambda>_ h. h),
     malloc = (\<lambda>_ _. True), GPI = (\<lambda>_. 0x30000), pinMode_OUTPUT = (\<lambda>_ h. h), digitalWrite = (\<lambda>_ _ h. h),
     MD5Init = [], MD5Update = (\<lambda>c bs. c @ bs), MD5Final = take 16\<rparr>"

definition net_rom :: "net_board rom" where
  "net_rom = \<lparr>SPIRead = (\<lambda>a n. on_flash (SPIRead nor_rom a n)), SPIWrite = (\<lambda>a bs. on_flash (SPIWrite nor_rom a bs)),
     SPIEraseSector = (\<lambda>j. on_flash (SPIEraseSector nor_rom j)), SPIEraseBlock = (\<lambda>j. on_flash (SPIEraseBlock nor_rom j)),
     ets_putc = (\<lambda>_ h. h), ets_printf = (\<lambda>_ _ h. h), ets_wdt_enable = (\<lambda>h. h), ets_wdt_disable = (\<lambda>h. h)\<rparr>"

definition net_stream :: "net_board stream" where
  "net_stream = \<lparr>st_peek = (\<lambda>h. case snd h of [] \<Rightarrow> - 1 | b # _ \<Rightarrow> uint b),
     st_readBytes = (\<lambda>n h. (take (min 1000 (unat n)) (snd h), fst h, drop (min 1000 (unat n)) (snd h))),
     st_available = (\<lambda>h. of_nat (length (snd h))), st_read = (\<lambda>n h. (take (unat n) (snd h), fst h, drop (unat n) (snd h)))\<rparr>"

interpretation net: nor_flash net_rom fst "\<lambda>_. True" "0x400000"
  by unfold_locales (simp_all add: net_rom_def nor_rom_def on_flash_def)

interpretation ws: sdk_stream net_sdk fst "\<lambda>_. True" "0x400000" "0x164020" net_stream snd
proof
  fix h :: net_board and n :: u32
  show "snd h \<noteq> [] \<Longrightarrow> st_peek net_stream h = uint (hd (snd h))" by (cases "snd h") (simp_all add: net_stream_def)
  show "0 < unat n \<Longrightarrow> \<exists>c h'. st_readBytes net_stream n h = (take c (snd h), h') \<and> 0 < c \<and> c \<le> unat n \<and> snd h' = drop c (snd h) \<and> True \<and> fst h' = fst h"
    by (intro exI [of _ "min 1000 (unat n)"]) (simp add: net_stream_def)
qed (simp_all add: net_sdk_def nor_sdk_def on_flash_def)

lemma net_begins: "\<exists>u1. Updater_begin net_sdk 0x40500000 (\<lambda>_. 0) 4116 U_FLASH (- 1) False (idle_on (old_flash, ds)) = (True, u1)"
proof -
  have c: "u = (idle_on (old_flash, ds))\<lparr>ledPin := - 1, ledOn := False\<rparr> \<Longrightarrow> checkFlashConfig net_sdk False u = (True, u)" for u
    by (simp add: checkFlashConfig_def getFlashChipSize_def getFlashChipRealSize_def net_sdk_def nor_sdk_def on_flash_def idle_on_def Updater_new_def Updater_runAsync_def old_flash_def
        magicFlashChipSize_def del: upt_rec_numeral)
  show ?thesis
    unfolding Updater_begin_def Let_def c [OF refl]
    by (simp add: idle_on_def Updater_new_def Updater_runAsync_def update_start_def getSketchSize_def Updater_reset_def setError_def clearError_def round_sector_def
      FLASH_SECTOR_SIZE_def Let_def net_sdk_def del: upt_rec_numeral)
qed

lemma net_image:
  "running_sketch (fst (dev (idle_on (old_flash, ds)))) (sketch_size (idle_on (old_flash, ds))) 0x400000 4104"
  "acceptable net_sdk 0x164020 (target_md5 (idle_on (old_flash, ds))) (new_loader @ new_app)" "(new_loader @ new_app) ! 2 \<le> FM_DOUT"
  "good_image [(0x40100000, [1, 2, 3, 4 :: u8])]" "verify (idle_on h) = None" "snd (dev (idle_on (old_flash, ds))) = ds"
  "length new_loader = 4096" "length new_app = 20" "new_app = encode_image 0xE9 0 0 0x40100000 [(0x40100000, [1, 2, 3, 4])]"
proof -
  show "running_sketch (fst (dev (idle_on (old_flash, ds)))) (sketch_size (idle_on (old_flash, ds))) 0x400000 4104"
    using old_runs by (simp add: idle_on_def Updater_new_def Updater_runAsync_def)
  show "acceptable net_sdk 0x164020 (target_md5 (idle_on (old_flash, ds))) (new_loader @ new_app)"
    using new_image(4) by (simp add: idle_on_def Updater_new_def Updater_runAsync_def acceptable_def)
  show "good_image [(0x40100000, [1, 2, 3, 4 :: u8])]" by (simp add: good_image_def) (simp add: eval_nat_numeral)
qed (use new_image in \<open>simp_all add: idle_on_def Updater_new_def Updater_runAsync_def new_app_def\<close>)

theorem updateSketch_installs_witness:
  "\<exists>u3 t. updateSketch net_sdk 0x40500000 (\<lambda>_. 0) \<lparr>magic = 0, action = 0, args = replicate 29 0, crc32 = 0\<rparr> net_stream 4116 False True
      (idle_on (old_flash, new_loader @ new_app)) = Some (True, True, u3)
    \<and> eboot_main net_rom \<lparr>RTC_MEM = rtc u3, ram = \<lambda>_. 0, chip = dev u3\<rparr> = Some (Jump 0x40100000, t)
    \<and> ram t = poke 0x40100000 [1, 2, 3, 4] (\<lambda>_. 0)"
proof -
  let ?ds = "new_loader @ new_app" and ?u = "idle_on (old_flash, new_loader @ new_app)"
  obtain u1 where u1: "Updater_begin net_sdk 0x40500000 (\<lambda>_. 0) 4116 U_FLASH (- 1) False ?u = (True, u1)" using net_begins by blast
  have "\<exists>u3 t. updateSketch net_sdk 0x40500000 (\<lambda>_. 0) \<lparr>magic = 0, action = 0, args = replicate 29 0, crc32 = 0\<rparr> net_stream 4116 False True ?u
      = Some (True, True, u3)
    \<and> eboot_main net_rom \<lparr>RTC_MEM = rtc u3, ram = \<lambda>_. 0, chip = dev u3\<rparr> = Some (Jump 0x40100000, t)
    \<and> ram t = fold load_section [(0x40100000, [1, 2, 3, 4])] (\<lambda>_. 0)
    \<and> map (fst (chip t)) [0..<unat (4116 :: u32)] = patched (magicFlashChipMode (fst (dev ?u) 2)) ?ds"
    by (rule updateSketch_installs [OF ws.sdk_stream_axioms net.nor_flash_axioms _ _ u1, where eb = new_loader and pad = "[]" and n = 4104
        and mg = "0xE9" and mode = 0 and freq = 0]) (use net_image in simp_all)
  then show ?thesis by (auto simp: load_section_def loadable_def)
qed

end
