(* ===== verification/Update_Source.thy ===== *)
theory Update_Source
  imports Update_Sketch
begin

text \<open>
  Updates from a source that knows how much it has, the template \<^verbatim>\<open>write(T &data)\<close> of \<^verbatim>\<open>Updater.h\<close>: it takes all that is available,
  and the update is staged as if the bytes had been written one block after the other.
\<close>

section \<open>Sources\<close>

text \<open>A source with \<open>available\<close> and \<open>read\<close>, such as a file: a read of at most what is available is complete. Waiting changes nothing.\<close>

locale sdk_source = sdk_stream k img up cap chip_id st pend
  for k :: "('h, 'c) sdk" and img :: "'h \<Rightarrow> nat \<Rightarrow> u8" and up :: "'h \<Rightarrow> bool" and cap :: nat and chip_id :: u32
    and st :: "'h stream" and pend :: "'h \<Rightarrow> u8 list" +
  assumes available_law: "up h \<Longrightarrow> st_available st h = of_nat (length (pend h))"
    and source_law: "up h \<Longrightarrow> unat n \<le> length (pend h) \<Longrightarrow>
      \<exists>h'. st_read st n h = (take (unat n) (pend h), h') \<and> pend h' = drop (unat n) (pend h) \<and> up h' \<and> img h' = img h"
    and delay_law: "up h \<Longrightarrow> up (sdk_delay k ms h) \<and> img (sdk_delay k ms h) = img h \<and> pend (sdk_delay k ms h) = pend h"
begin

lemma source_read_stages:
  assumes "staging k img up f a n ds w u" "unat t \<le> length (pend (dev u))" "length ds - w + unat t \<le> unat (bufferSize u)" "length ds + unat t \<le> n"
  shows "\<exists>u'. source_read st t u = u' \<and> staging k img up f a n (ds @ take (unat t) (pend (dev u))) w u' \<and> keeps u u'
    \<and> pend (dev u') = drop (unat t) (pend (dev u))"
proof -
  let ?bs = "take (unat t) (pend (dev u))"
  have "up (dev u)" using assms(1) by (simp add: staging_def)
  then obtain h where h: "st_read st t (dev u) = (?bs, h)" "pend h = drop (unat t) (pend (dev u))" "up h" "img h = img (dev u)"
    using source_law assms(2) by blast
  have "of_nat (length ?bs) = t" using assms(2) by simp
  then have "source_read st t u = fill_buffer ?bs (u\<lparr>dev := h\<rparr>)" using h(1) by (simp add: source_read_def fill_buffer_def)
  moreover have "staging k img up f a n ds w (u\<lparr>dev := h\<rparr>)" using assms(1) h(3,4) by (simp add: staging_def)
  then have "staging k img up f a n (ds @ ?bs) w (fill_buffer ?bs (u\<lparr>dev := h\<rparr>))"
    using fill_buffer_stages [of f a n ds w "u\<lparr>dev := h\<rparr>" ?bs] assms(2-4) by simp
  ultimately show ?thesis using h(2) by (simp add: keeps_def fill_buffer_def)
qed

lemma delay_stages:
  "staging k img up f a n ds w u \<Longrightarrow> staging k img up f a n ds w (u\<lparr>dev := sdk_delay k ms (dev u)\<rparr>)
    \<and> keeps u (u\<lparr>dev := sdk_delay k ms (dev u)\<rparr>) \<and> pend (sdk_delay k ms (dev u)) = pend (dev u)"
  using delay_law [of "dev u" ms] by (auto simp: staging_def keeps_def)

text \<open>One turn of the loop that fills the buffer, and the turn that takes the rest.\<close>

lemma source_numbers:
  assumes "staging k img up f a n ds w u" "length ds + length bs \<le> n" "a + sectors n * 4096 \<le> cap"
  shows "unat (of_nat (length bs) :: u32) = length bs" "\<not> bufferLen u + of_nat (length bs) > remaining u"
proof -
  have s: "w \<le> length ds" "unat (bufferLen u) = length ds - w" "length ds - w \<le> unat (bufferSize u)" "unat (bufferSize u) dvd 4096"
    using assms(1) by (simp_all add: staging_def)
  have "length bs \<le> 0x10000000" "unat (bufferSize u) \<le> 4096"
    using assms(2,3) cap_law(2) sectors_ge [of n] s(4) by (auto dest: dvd_imp_le)
  then have av: "unat (of_nat (length bs) :: u32) = length bs" "unat (bufferLen u + of_nat (length bs)) = length ds - w + length bs"
    using s(2,3) by (simp_all add: unat_of_nat32 unat_add32)
  then show "unat (of_nat (length bs) :: u32) = length bs" by simp
  show "\<not> bufferLen u + of_nat (length bs) > remaining u"
    using remaining_staging(1) [OF assms(1)] av(2) assms(2) s(1) by (simp add: word_less_nat_alt)
qed

lemma source_full:
  assumes "staging k img up f a n ds w u" "pend (dev u) = bs" "length ds + length bs \<le> n" "length ds - w + length bs > unat (bufferSize u)"
    and a: "4 dvd n" "4096 dvd a" "4096 \<le> a" "a + sectors n * 4096 \<le> cap" and m: "2 < length (ds @ bs) \<Longrightarrow> (ds @ bs) ! 2 \<le> FM_DOUT"
  shows "\<exists>cs rs y. bs = cs @ rs \<and> rs \<noteq> [] \<and> length ds - w + length cs = unat (bufferSize u)
    \<and> source_loop k st (of_nat (length bs)) wr u = source_loop k st (of_nat (length rs)) (wr + of_nat (length cs)) y
    \<and> staging k img up f a n (ds @ cs) (length (ds @ cs)) y \<and> keeps u y \<and> pend (dev y) = rs"
proof -
  define t where "t = bufferSize u - bufferLen u"
  define cs rs where "cs = take (unat t) bs" and "rs = drop (unat t) bs"
  note fits = buffer_fits [OF assms(1,3) a(4)] and num = source_numbers [OF assms(1,3) a(4)]
  have s: "w \<le> length ds" "length ds - w \<le> unat (bufferSize u)" using assms(1) by (simp_all add: staging_def)
  have t: "unat t = unat (bufferSize u) - (length ds - w)" "unat t < length bs" "length cs = unat t" "bs = cs @ rs" "rs \<noteq> []"
    using fits(2) assms(4) s(2) by (auto simp: t_def cs_def rs_def)
  obtain v where v: "source_read st t u = v" "staging k img up f a n (ds @ cs) w v" "keeps u v" "pend (dev v) = rs"
    using source_read_stages [OF assms(1), of t] assms(2,3) t(1-3) s(2) by (auto simp: cs_def rs_def)
  have "length (ds @ cs) - w = unat (bufferSize v)" "w < length (ds @ cs)" using t(1,3) s fits(3) v(3) by (auto simp: keeps_def)
  moreover have "2 < length (ds @ cs) \<Longrightarrow> (ds @ cs) ! 2 \<le> FM_DOUT" using m by (auto simp: cs_def nth_append split: if_splits)
  ultimately obtain x where x: "Updater_writeBuffer k v = (True, x)" "staging k img up f a n (ds @ cs) (length (ds @ cs)) x" "keeps v x"
      "pend (dev x) = rs"
    using writeBuffer_streams [OF v(2) _ _ a] v(4) by auto
  define y where "y = x\<lparr>dev := sdk_delay k 1 (dev x)\<rparr>"
  have y: "staging k img up f a n (ds @ cs) (length (ds @ cs)) y" "keeps u y" "pend (dev y) = rs"
    using delay_stages [OF x(2), of 1] x(4) keeps_trans [OF v(3) x(3)] keeps_trans by (auto simp: y_def)
  have "length (ds @ cs) < n" using assms(3) t(2,3) by simp
  then have more: "remaining x \<noteq> 0" using remaining_staging(1) [OF x(2)] by (metis diff_is_0_eq not_le unat_0)
  have "up (dev y)" using y(1) by (simp add: staging_def)
  then have "st_available st (dev y) = of_nat (length rs)" using available_law y(3) by simp
  moreover have "of_nat (length bs) \<noteq> (0 :: u32)" using num(1) t(2) by (metis less_nat_zero_code unat_0)
  ultimately have "source_loop k st (of_nat (length bs)) wr u = source_loop k st (of_nat (length rs)) (wr + t) y"
    using num(2) assms(4) fits(1) v(1) x(1) more by (subst source_loop.simps) (simp add: Let_def t_def [symmetric] y_def)
  moreover have "t = of_nat (length cs)" unfolding t(3) by simp
  moreover have "length ds - w + length cs = unat (bufferSize u)" using t(1,3) s(2) by simp
  ultimately show ?thesis using t(4,5) y by auto
qed

lemma source_last:
  assumes "staging k img up f a n ds w u" "pend (dev u) = bs" "length ds + length bs \<le> n" "length ds - w + length bs \<le> unat (bufferSize u)" "bs \<noteq> []"
    and a: "4 dvd n" "4096 dvd a" "4096 \<le> a" "a + sectors n * 4096 \<le> cap" and m: "2 < length (ds @ bs) \<Longrightarrow> (ds @ bs) ! 2 \<le> FM_DOUT"
  shows "\<exists>u' w'. source_loop k st (of_nat (length bs)) wr u = Some (wr + of_nat (length bs), u') \<and> staging k img up f a n (ds @ bs) w' u'
    \<and> keeps u u' \<and> (length ds + length bs = n \<longrightarrow> w' = n)"
proof -
  let ?av = "of_nat (length bs) :: u32"
  note fits = buffer_fits [OF assms(1,3) a(4)] and num = source_numbers [OF assms(1,3) a(4)]
  have nz: "?av \<noteq> 0" using num(1) assms(5) by (metis length_0_conv unat_0)
  obtain v where v: "source_read st ?av u = v" "staging k img up f a n (ds @ bs) w v" "keeps u v" "pend (dev v) = []"
    using source_read_stages [OF assms(1), of ?av] assms(2-4) num(1) by auto
  have "w \<le> length ds" using assms(1) by (simp add: staging_def)
  then have wn: "w < length (ds @ bs)" using assms(5) by (cases bs) auto
  have "unat (bufferLen v) = length (ds @ bs) - w" using v(2) by (simp add: staging_def)
  then have full: "bufferLen v = remaining v \<longleftrightarrow> length (ds @ bs) = n" "unat (remaining v) \<noteq> 0"
    using remaining_staging(1) [OF v(2)] wn assms(3) by (auto simp: word_unat_eq_iff)
  show ?thesis
  proof (cases "length (ds @ bs) = n")
    case True
    obtain x where x: "Updater_writeBuffer k v = (True, x)" "staging k img up f a n (ds @ bs) n x" "keeps v x"
      using writeBuffer_streams [OF v(2) wn _ a m] True by auto
    moreover have "remaining x = 0" using remaining_staging(1) [OF x(2)] by (simp add: word_unat_eq_iff)
    ultimately have "source_loop k st ?av wr u = Some (wr + ?av, x)"
      using nz num(2) assms(4) fits(1) v(1) full True by (subst source_loop.simps) (simp add: Let_def)
    then show ?thesis using x keeps_trans [OF v(3)] by blast
  next
    case False
    define y where "y = v\<lparr>dev := sdk_delay k 1 (dev v)\<rparr>"
    have y: "staging k img up f a n (ds @ bs) w y" "keeps u y" "pend (dev y) = []"
      using delay_stages [OF v(2), of 1] v(4) keeps_trans [OF v(3)] by (auto simp: y_def)
    then have "st_available st (dev y) = 0" using available_law [of "dev y"] by (simp add: staging_def)
    then have "source_loop k st ?av wr u = source_loop k st 0 (wr + ?av) y"
      using nz num(2) assms(4) fits(1) v(1) full False by (subst source_loop.simps) (auto simp: Let_def y_def)
    moreover have "source_loop k st 0 (wr + ?av) y = Some (wr + ?av, y)" by (subst source_loop.simps) simp
    ultimately show ?thesis using y(1,2) False by auto
  qed
qed

lemma source_loop_stages:
  assumes "staging k img up f a n ds w u" "pend (dev u) = bs" "length ds + length bs \<le> n" "length ds = n \<longrightarrow> w = n"
    and a: "4 dvd n" "4096 dvd a" "4096 \<le> a" "a + sectors n * 4096 \<le> cap" and "2 < length (ds @ bs) \<Longrightarrow> (ds @ bs) ! 2 \<le> FM_DOUT"
  shows "\<exists>u' w'. source_loop k st (of_nat (length bs)) wr u = Some (wr + of_nat (length bs), u') \<and> staging k img up f a n (ds @ bs) w' u'
    \<and> keeps u u' \<and> (length ds + length bs = n \<longrightarrow> w' = n)"
  using assms(1-4,9)
proof (induction "length bs + (length ds - w)" arbitrary: ds w u bs wr rule: less_induct)
  case less
  consider "bs = []" | "bs \<noteq> []" "length ds - w + length bs \<le> unat (bufferSize u)" | "length ds - w + length bs > unat (bufferSize u)" by linarith
  then show ?case
  proof cases
    case 1
    then have "source_loop k st (of_nat (length bs)) wr u = Some (wr, u)" by (subst source_loop.simps) simp
    then show ?thesis using 1 less.prems(1,4) by (auto simp: keeps_refl)
  next
    case 2
    then show ?thesis using source_last [OF less.prems(1-3) _ _ a less.prems(5)] by blast
  next
    case 3
    obtain cs rs y where y: "bs = cs @ rs" "rs \<noteq> []" "length ds - w + length cs = unat (bufferSize u)"
      "source_loop k st (of_nat (length bs)) wr u = source_loop k st (of_nat (length rs)) (wr + of_nat (length cs)) y"
      "staging k img up f a n (ds @ cs) (length (ds @ cs)) y" "keeps u y" "pend (dev y) = rs"
      using source_full [OF less.prems(1-3) 3 a less.prems(5), of wr] by blast
    have dec: "length rs + (length (ds @ cs) - length (ds @ cs)) < length bs + (length ds - w)"
      using y(1,3) buffer_fits(3) [OF less.prems(1,3) a(4)] by auto
    have "length (ds @ cs) + length rs \<le> n" "length (ds @ cs) = n \<longrightarrow> length (ds @ cs) = n" using less.prems(3) y(1) by simp_all
    from less.hyps [OF dec y(5,7) this, of "wr + of_nat (length cs)"] less.prems(5) obtain u' w' where
      "source_loop k st (of_nat (length rs)) (wr + of_nat (length cs)) y = Some (wr + of_nat (length bs), u')"
      "staging k img up f a n (ds @ bs) w' u'" "keeps y u'" "length ds + length bs = n \<longrightarrow> w' = n"
      by (auto simp: y(1) add.assoc)
    then show ?thesis using y(4) keeps_trans [OF y(6)] by auto
  qed
qed

lemma write_source_stages:
  assumes "up (dev u)" "verify u = None" "Updater_begin k S fresh sz U_FLASH pin on u = (True, u1)"
    and E: "4096 dvd unat (S - 0x40200000)" "unat (S - 0x40200000) \<le> cap" "unat sz \<le> cap"
    and sk: "running_sketch (img (dev u)) (sketch_size u) cap n"
    and ds: "pend (dev u) = ds" "length ds = unat sz" "4 dvd unat sz" "0 < unat sz" "ds ! 2 \<le> FM_DOUT"
    and acc: "acceptable k chip_id (target_md5 u) ds"
  shows "\<exists>a u2 u3. Updater_write_source k st u1 = Some (sz, u2) \<and> Updater_end k ebcmd False u2 = (True, u3) \<and> up (dev u3)
    \<and> img (dev u3) = stage a (patched (magicFlashChipMode (img (dev u) 2)) ds) (img (dev u))
    \<and> rtc u3 = snd (eboot_command_write (copy_request ebcmd a (length ds)) (rtc u))
    \<and> a + sectors (length ds) * 4096 \<le> cap \<and> n \<le> a \<and> 4096 dvd a"
proof -
  obtain a where a: "staging k img up (img (dev u)) a (unat sz) [] 0 u1" "a + sectors (unat sz) * 4096 = unat (S - 0x40200000)"
    "n \<le> a" "4096 dvd a" "rtc u1 = rtc u" "target_md5 u1 = target_md5 u"
    using begin_stages [OF assms(1-3) E] sk unfolding running_sketch_def by blast
  have u1: "pend (dev u1) = ds" using fun_cong [OF pf.begin_safe(1) [OF assms(3)]] ds(1) by auto
  have "4096 \<le> a" using a(3) sk by (auto simp: running_sketch_def)
  then obtain u2 where u2: "source_loop k st sz 0 u1 = Some (sz, u2)" "staging k img up (img (dev u)) a (unat sz) ds (unat sz) u2" "keeps u1 u2"
    using source_loop_stages [OF a(1) u1 _ _ ds(3) a(4), of 0] a(2) E(2) ds(2,4,5) by auto
  have up1: "up (dev u1)" "\<not> hasError u1" "isRunning u1"
    using a(1) ds(4) by (auto simp: staging_def hasError_def isRunning_def word_less_nat_alt)
  moreover have "st_available st (dev u1) = sz" using available_law [OF up1(1)] u1 ds(2) by simp
  ultimately have "Updater_write_source k st u1 = Some (sz, u2)" using u2(1) by (simp add: Updater_write_source_def)
  moreover have "4 dvd a" "a + unat sz \<le> cap" using a(2,4) E(2) sectors_ge [of "unat sz"] by (auto elim!: dvdE)
  then obtain u3 where u3: "Updater_end k ebcmd False u2 = (True, u3)" "up (dev u3)" "img (dev u3) = img (dev u2)"
    "rtc u3 = snd (eboot_command_write (copy_request ebcmd a (unat sz)) (rtc u))"
    using end_law [OF u2(2) ds(2-4), of ebcmd] u2(3) a(5,6) acc by (auto simp: keeps_def)
  moreover have "img (dev u2) = stage a (patched (magicFlashChipMode (img (dev u) 2)) ds) (img (dev u))"
    using u2(2) ds(2) by (simp add: staging_def)
  ultimately show ?thesis using u3 a(2-4) E(2) ds(2) by auto
qed

end

section \<open>The whole update\<close>

text \<open>(C7) An update from a source that holds exactly the bytes of an acceptable image: one call of the template \<^verbatim>\<open>write\<close> takes them all
  and reports their number, ending the update succeeds, and after a reset the boot loader jumps to the entry
  point of the new sketch with its sections in memory and the image at the start of the flash.\<close>

theorem source_update_installs:
  assumes "sdk_source k img up cap i st pend" "nor_flash m img up cap" "up (dev u)" "verify u = None"
    and "Updater_begin k S fresh sz U_FLASH pin on u = (True, u1)"
    and "4096 dvd unat (S - 0x40200000)" "unat (S - 0x40200000) \<le> cap" "unat sz \<le> cap"
    and "running_sketch (img (dev u)) (sketch_size u) cap n"
    and "pend (dev u) = ds" "ds = eb @ encode_image mg mode freq pc secs @ pad" "length eb = 4096" "length ds = unat sz"
    and "4 dvd unat sz" "good_image secs" "ds ! 2 \<le> FM_DOUT" "acceptable k i (target_md5 u) ds" "length (args ebcmd) = 29"
  shows "\<exists>u2 u3 t. Updater_write_source k st u1 = Some (sz, u2) \<and> Updater_end k ebcmd False u2 = (True, u3)
    \<and> eboot_main m \<lparr>RTC_MEM = rtc u3, ram = r, chip = dev u3\<rparr> = Some (Jump pc, t) \<and> ram t = fold load_section secs r
    \<and> map (img (chip t)) [0..<unat sz] = patched (magicFlashChipMode (img (dev u) 2)) ds"
proof -
  have "0 < unat sz" using assms(11-13) by auto
  then obtain a u2 u3 where u: "Updater_write_source k st u1 = Some (sz, u2)" "Updater_end k ebcmd False u2 = (True, u3)" "up (dev u3)"
    "img (dev u3) = stage a (patched (magicFlashChipMode (img (dev u) 2)) ds) (img (dev u))"
    "rtc u3 = snd (eboot_command_write (copy_request ebcmd a (length ds)) (rtc u))"
    "a + sectors (length ds) * 4096 \<le> cap" "n \<le> a" "4096 dvd a"
    using sdk_source.write_source_stages [OF assms(1,3-10,13,14) _ assms(16,17), of ebcmd] by auto
  have "sdk_flash k img up cap i" using assms(1) by (simp add: sdk_source_def sdk_stream_def)
  moreover have "0 < a" using u(7) assms(9) by (auto simp: running_sketch_def)
  ultimately show ?thesis
    using staged_boots [OF _ assms(2) u(3-5) assms(18) u(6) _ u(8) assms(11,12,15)] u(1,2) assms(13) by auto
qed

interpretation fs: sdk_source net_sdk fst "\<lambda>_. True" "0x400000" "0x164020" net_stream snd
  by unfold_locales (simp_all add: net_sdk_def net_stream_def)

theorem source_update_installs_witness:
  "\<exists>u1 u2 u3 t. Updater_begin net_sdk 0x40500000 (\<lambda>_. 0) 4116 U_FLASH (- 1) False (idle_on (old_flash, new_loader @ new_app)) = (True, u1)
    \<and> Updater_write_source net_sdk net_stream u1 = Some (4116, u2)
    \<and> Updater_end net_sdk \<lparr>magic = 0, action = 0, args = replicate 29 0, crc32 = 0\<rparr> False u2 = (True, u3)
    \<and> eboot_main net_rom \<lparr>RTC_MEM = rtc u3, ram = \<lambda>_. 0, chip = dev u3\<rparr> = Some (Jump 0x40100000, t)
    \<and> ram t = poke 0x40100000 [1, 2, 3, 4] (\<lambda>_. 0)"
proof -
  let ?ds = "new_loader @ new_app" and ?u = "idle_on (old_flash, new_loader @ new_app)"
  obtain u1 where u1: "Updater_begin net_sdk 0x40500000 (\<lambda>_. 0) 4116 U_FLASH (- 1) False ?u = (True, u1)" using net_begins by blast
  have "\<exists>u2 u3 t. Updater_write_source net_sdk net_stream u1 = Some (4116, u2)
    \<and> Updater_end net_sdk \<lparr>magic = 0, action = 0, args = replicate 29 0, crc32 = 0\<rparr> False u2 = (True, u3)
    \<and> eboot_main net_rom \<lparr>RTC_MEM = rtc u3, ram = \<lambda>_. 0, chip = dev u3\<rparr> = Some (Jump 0x40100000, t)
    \<and> ram t = fold load_section [(0x40100000, [1, 2, 3, 4])] (\<lambda>_. 0)
    \<and> map (fst (chip t)) [0..<unat (4116 :: u32)] = patched (magicFlashChipMode (fst (dev ?u) 2)) ?ds"
    by (rule source_update_installs [OF fs.sdk_source_axioms net.nor_flash_axioms _ _ u1, where eb = new_loader and pad = "[]" and n = 4104
        and mg = "0xE9" and mode = 0 and freq = 0]) (use net_image in simp_all)
  then show ?thesis using u1 by (auto simp: load_section_def loadable_def)
qed

end
