(* ===== verification/Md5_Builder.thy ===== *)
theory Md5_Builder
  imports Update_Source
begin

text \<open>
  The rest of the class \<^verbatim>\<open>MD5Builder\<close>: digesting data given as hexadecimal digits and data from a stream. A digest
  that was printed is read back, and a stream is digested as if its bytes had been given at once.
\<close>

section \<open>Hexadecimal digits\<close>

definition hex_char_to_byte :: "u8 \<Rightarrow> u8" where
  "hex_char_to_byte c =
     (if c \<ge> of_char (CHR ''a'') \<and> c \<le> of_char (CHR ''f'') then c - (of_char (CHR ''a'') - 0xa)
      else if c \<ge> of_char (CHR ''A'') \<and> c \<le> of_char (CHR ''F'') then c - (of_char (CHR ''A'') - 0xA)
      else if c \<ge> of_char (CHR ''0'') \<and> c \<le> of_char (CHR ''9'') then c - of_char (CHR ''0'')
      else 0)"

definition hex_pair :: "char \<Rightarrow> char \<Rightarrow> u8" where
  "hex_pair a b = push_bit 4 (hex_char_to_byte (of_char a) AND 0x0F) OR (hex_char_to_byte (of_char b) AND 0x0F)"

text \<open>For an odd number of digits the loop writes one byte behind the allocated ones: \<open>None\<close>.\<close>

definition md5_addHexString :: "('h, 'c) sdk \<Rightarrow> string \<Rightarrow> 'h \<Rightarrow> 'c md5_builder \<Rightarrow> 'c md5_builder option" where
  "md5_addHexString k data h b =
     (let len = length data mod 65536 in
      if \<not> malloc k (of_nat (len div 2)) h then Some b
      else if odd len then None
      else Some (md5_add k (map (\<lambda>i. hex_pair (data ! (2 * i)) (data ! (2 * i + 1))) [0..<len div 2]) b))"

definition md5_getBytes :: "'c md5_builder \<Rightarrow> u8 list" where
  "md5_getBytes b = md5_buf b"

section \<open>Streams\<close>

partial_function (option) md5_stream_loop ::
  "('h, 'c) sdk \<Rightarrow> 'h stream \<Rightarrow> int \<Rightarrow> int \<Rightarrow> 'h \<Rightarrow> 'c md5_builder \<Rightarrow> (bool \<times> 'h \<times> 'c md5_builder) option" where
  "md5_stream_loop k st bytesAvailable maxLengthLeft h b =
     (if bytesAvailable > 0 \<and> maxLengthLeft > 0 then
        (let readBytes = (if bytesAvailable > maxLengthLeft then maxLengthLeft else bytesAvailable);
             readBytes = (if readBytes > 512 then 512 else readBytes);
             (bs, h) = st_readBytes st (word_of_int readBytes) h
         in if bs = [] then Some (False, h, b)
            else let b = b\<lparr>ctx := MD5Update k (ctx b) bs\<rparr>; h = sdk_yield k h
                 in md5_stream_loop k st (sint (st_available st h)) (maxLengthLeft - int (length bs)) h b)
      else Some (True, h, b))"

definition md5_addStream :: "('h, 'c) sdk \<Rightarrow> 'h stream \<Rightarrow> u32 \<Rightarrow> 'h \<Rightarrow> 'c md5_builder \<Rightarrow> (bool \<times> 'h \<times> 'c md5_builder) option" where
  "md5_addStream k st maxLen h b =
     (if \<not> malloc k 512 h then Some (False, h, b) else md5_stream_loop k st (sint (st_available st h)) (sint maxLen) h b)"

section \<open>Printing and reading\<close>

lemma hex_digit_value: "n < 16 \<Longrightarrow> hex_char_to_byte (of_char (hex_digit n)) = of_nat n"
proof -
  have "\<forall>n \<in> set [0..<16]. hex_char_to_byte (of_char (hex_digit n)) = of_nat n"
    by (simp add: upt_rec hex_char_to_byte_def hex_digit_def)
  then show "n < 16 \<Longrightarrow> hex_char_to_byte (of_char (hex_digit n)) = of_nat n" by simp
qed

lemma hex_pair_digits: "hex_pair (hex_digit (unat x div 16)) (hex_digit (unat x mod 16)) = x"
proof -
  have "unat x div 16 < 16" using unsigned_less [of x, where ?'a = nat] by (simp add: div_less_iff_less_mult)
  then have "hex_pair (hex_digit (unat x div 16)) (hex_digit (unat x mod 16)) = push_bit 4 (of_nat (unat x div 16) AND mask 4) OR (of_nat (unat x mod 16) AND mask 4)"
    by (simp add: hex_pair_def hex_digit_value mask_eq_exp_minus_1)
  also have "of_nat (unat x div 16) = drop_bit 4 x" using \<open>_ < 16\<close> by (simp add: word_unat_eq_iff unat_div drop_bit_eq_div unat_of_nat)
  also have "of_nat (unat x mod 16) = take_bit 4 x" by (simp add: word_unat_eq_iff unat_mod take_bit_eq_mod unat_of_nat)
  also have "push_bit 4 (drop_bit 4 x AND mask 4) OR (take_bit 4 x AND mask 4) = x"
    by (rule bit_word_eqI) (auto simp: bit_simps)
  finally show ?thesis .
qed

lemma nth_pairs:
  "i < length xs \<Longrightarrow> concat (map (\<lambda>x. [f x, g x]) xs) ! (2 * i) = f (xs ! i) \<and> concat (map (\<lambda>x. [f x, g x]) xs) ! (2 * i + 1) = g (xs ! i)"
proof (induction xs arbitrary: i)
  case (Cons x xs)
  then show ?case by (cases i) auto
qed simp

text \<open>A digest that was printed and given as digits is taken as the bytes of the digest.\<close>

lemma addHexString_toString:
  assumes "length (md5_buf b) = 16" "malloc k 16 h"
  shows "md5_addHexString k (md5_toString b) h c = Some (md5_add k (md5_getBytes b) c)"
proof -
  have len: "length (md5_toString b) = 32" using assms(1) by (simp add: md5_toString_def length_concat o_def sum_list_triv)
  have "map (\<lambda>i. hex_pair (md5_toString b ! (2 * i)) (md5_toString b ! (2 * i + 1))) [0..<16] = md5_buf b"
    by (rule nth_equalityI) (simp_all add: assms(1) md5_toString_def nth_pairs [where xs = "md5_buf b", unfolded assms(1), simplified] hex_pair_digits)
  then show ?thesis using assms(2) by (simp add: md5_addHexString_def len md5_getBytes_def Let_def del: upt_rec_numeral)
qed

section \<open>Digesting a stream\<close>

lemma sint_of_nat32: "n < 2 ^ 31 \<Longrightarrow> sint (of_nat n :: u32) = int n"
  by (simp add: signed_of_nat signed_take_bit_int_eq_self)

context sdk_source
begin

lemma md5_stream_loop_digests:
  "up h \<Longrightarrow> pend h = bs \<Longrightarrow> length bs < 2 ^ 31 \<Longrightarrow> m < 2 ^ 31 \<Longrightarrow>
   \<exists>h'. md5_stream_loop k st (int (length bs)) (int m) h b = Some (True, h', b\<lparr>ctx := MD5Update k (ctx b) (take m bs)\<rparr>)
     \<and> pend h' = drop m bs \<and> up h' \<and> img h' = img h"
proof (induction "length bs" arbitrary: h bs m b rule: less_induct)
  case less
  show ?case
  proof (cases "bs = [] \<or> m = 0")
    case True
    then have "md5_stream_loop k st (int (length bs)) (int m) h b = Some (True, h, b)" by (subst md5_stream_loop.simps) auto
    then show ?thesis using True less.prems by (auto simp: md5_law)
  next
    case False
    define r where "r = min 512 (min m (length bs))"
    have r: "0 < r" "r \<le> m" "r \<le> length bs" "r \<le> 512" using False by (auto simp: r_def)
    then have "unat (of_nat r :: u32) = r" by (simp add: unat_of_nat32)
    then obtain c h1 where c: "st_readBytes st (of_nat r) h = (take c bs, h1)" "0 < c" "c \<le> r" "pend h1 = drop c bs" "up h1" "img h1 = img h"
      using stream_law [OF less.prems(1), of "of_nat r"] less.prems(2) False r(1) by auto
    define h2 where "h2 = sdk_yield k h1"
    have h2: "up h2" "img h2 = img h" "pend h2 = drop c bs" using c(4-6) by (simp_all add: h2_def quiet_law pend_law)
    have av: "sint (st_available st h2) = int (length (drop c bs))"
      using available_law [OF h2(1)] h2(3) less.prems(3) by (simp add: sint_of_nat32)
    have p: "length (drop c bs) < length bs" "length (drop c bs) < 2 ^ 31" "m - c < 2 ^ 31" using c(2,3) r less.prems(3,4) by simp_all
    obtain h' where h': "md5_stream_loop k st (int (length (drop c bs))) (int (m - c)) h2 (b\<lparr>ctx := MD5Update k (ctx b) (take c bs)\<rparr>)
        = Some (True, h', b\<lparr>ctx := MD5Update k (MD5Update k (ctx b) (take c bs)) (take (m - c) (drop c bs))\<rparr>)"
      "pend h' = drop (m - c) (drop c bs)" "up h'" "img h' = img h2"
      using less.hyps [OF p(1) h2(1,3) p(2,3), of "b\<lparr>ctx := MD5Update k (ctx b) (take c bs)\<rparr>"] by auto
    have lim: "(if 512 < (if int m < int (length bs) then int m else int (length bs)) then 512 else (if int m < int (length bs) then int m else int (length bs))) = int r"
      by (simp add: r_def min_def)
    have "md5_stream_loop k st (int (length bs)) (int m) h b =
        md5_stream_loop k st (int (length (drop c bs))) (int (m - c)) h2 (b\<lparr>ctx := MD5Update k (ctx b) (take c bs)\<rparr>)"
      using False c r av by (subst md5_stream_loop.simps, simp only: Let_def lim) (simp add: h2_def [symmetric] of_nat_diff)
    moreover have "take c bs @ take (m - c) (drop c bs) = take m bs" "drop (m - c) (drop c bs) = drop m bs"
      using c(3) r(2) take_add [of c "m - c" bs] by (simp_all add: add.commute)
    ultimately show ?thesis using h' h2 by (simp add: md5_law)
  qed
qed

text \<open>\<^verbatim>\<open>addStream\<close> digests the next bytes of the stream, as many as asked for or as there are.\<close>

lemma md5_addStream_digests:
  assumes "up h" "length (pend h) < 2 ^ 31" "unat maxLen < 2 ^ 31" "malloc k 512 h"
  shows "\<exists>h'. md5_addStream k st maxLen h b = Some (True, h', b\<lparr>ctx := MD5Update k (ctx b) (take (unat maxLen) (pend h))\<rparr>)
    \<and> pend h' = drop (unat maxLen) (pend h) \<and> up h' \<and> img h' = img h"
proof -
  have "sint (st_available st h) = int (length (pend h))" using available_law [OF assms(1)] assms(2) by (simp add: sint_of_nat32)
  moreover have "sint maxLen = int (unat maxLen)" using sint_of_nat32 [OF assms(3)] by simp
  ultimately show ?thesis
    using md5_stream_loop_digests [OF assms(1) refl assms(2,3), of b] assms(4) by (simp add: md5_addStream_def)
qed

end

lemma net_addStream:
  "length p < 2 ^ 31 \<Longrightarrow> \<exists>h'. md5_addStream net_sdk net_stream 1500 (f, p) b = Some (True, h', b\<lparr>ctx := ctx b @ take 1500 p\<rparr>) \<and> snd h' = drop 1500 p"
  using fs.md5_addStream_digests [of "(f, p)" 1500 b] by (auto simp: net_sdk_def)

end
