(* ===== verification/Eeprom.thy ===== *)
theory Eeprom
  imports Ota
begin

text \<open>
  The EEPROM library for the ESP8266, \<^verbatim>\<open>EEPROM.cpp\<close> and \<^verbatim>\<open>EEPROM.h\<close>: a sector of the flash is kept as a copy in memory, which is
  written back when it was changed. The library is a non-volatile store: what was committed survives a restart,
  what was not is lost.
\<close>

section \<open>The class\<close>

record eeprom =
  e_sector :: u32
  e_data :: "u8 list option"
  e_size :: u32
  e_dirty :: bool

definition EEPROM_new :: "u32 \<Rightarrow> eeprom" where
  "EEPROM_new sector = \<lparr>e_sector = sector, e_data = None, e_size = 0, e_dirty = False\<rparr>"

text \<open>\<open>SPIFFS_end\<close> is the address that the linker gives to the end of the file system.\<close>

definition EEPROM_default :: "u32 \<Rightarrow> eeprom" where
  "EEPROM_default SPIFFS_end = EEPROM_new ((SPIFFS_end - 0x40200000) div 4096)"

definition EEPROM_round :: "u32 \<Rightarrow> u32" where
  "EEPROM_round sz = ((if sz > 4096 then 4096 else sz) + 3) AND NOT 3"

text \<open>\<open>fresh\<close> is the content of a new array.\<close>

definition EEPROM_begin :: "('h, 'c) sdk \<Rightarrow> (nat \<Rightarrow> u8) \<Rightarrow> u32 \<Rightarrow> eeprom \<Rightarrow> 'h \<Rightarrow> eeprom \<times> 'h" where
  "EEPROM_begin k fresh sz e h =
     (if sz = 0 then (e, h)
      else let sz = EEPROM_round sz;
               arr = (case e_data e of
                   Some d \<Rightarrow> if sz \<noteq> e_size e then map fresh [0..<unat sz] else d
                 | None \<Rightarrow> map fresh [0..<unat sz]);
               ((_, bs), h) = spi_flash_read k (e_sector e * 4096) sz h
           in (e\<lparr>e_data := Some (blit 0 bs arr), e_size := sz, e_dirty := False\<rparr>, h))"

definition EEPROM_read :: "int \<Rightarrow> eeprom \<Rightarrow> u8" where
  "EEPROM_read adr e =
     (if adr < 0 \<or> word_of_int adr \<ge> e_size e then 0
      else case e_data e of None \<Rightarrow> 0 | Some d \<Rightarrow> d ! nat adr)"

definition EEPROM_write :: "int \<Rightarrow> u8 \<Rightarrow> eeprom \<Rightarrow> eeprom" where
  "EEPROM_write adr v e =
     (if adr < 0 \<or> word_of_int adr \<ge> e_size e then e
      else case e_data e of
          None \<Rightarrow> e
        | Some d \<Rightarrow> if d ! nat adr \<noteq> v then e\<lparr>e_data := Some (d[nat adr := v]), e_dirty := True\<rparr> else e)"

definition EEPROM_commit :: "('h, 'c) sdk \<Rightarrow> eeprom \<Rightarrow> 'h \<Rightarrow> bool \<times> eeprom \<times> 'h" where
  "EEPROM_commit k e h =
     (if e_size e = 0 then (False, e, h)
      else if \<not> e_dirty e then (True, e, h)
      else case e_data e of
          None \<Rightarrow> (False, e, h)
        | Some d \<Rightarrow>
            (let (rc, h) = spi_flash_erase_sector k (ucast (e_sector e)) h in
             if rc \<noteq> 0 then (False, e, h)
             else let (rc, h) = spi_flash_write k (e_sector e * 4096) d h in
             if rc \<noteq> 0 then (False, e, h) else (True, e\<lparr>e_dirty := False\<rparr>, h)))"

definition EEPROM_end :: "('h, 'c) sdk \<Rightarrow> eeprom \<Rightarrow> 'h \<Rightarrow> eeprom \<times> 'h" where
  "EEPROM_end k e h =
     (if e_size e = 0 then (e, h)
      else case EEPROM_commit k e h of (_, e, h) \<Rightarrow> (e\<lparr>e_data := None, e_size := 0, e_dirty := False\<rparr>, h))"

text \<open>The templates for a value of a type that is stored in the bytes \<open>t\<close>, respectively in \<open>n\<close> bytes; \<open>None\<close> if the value is left as it was.\<close>

definition EEPROM_get :: "int \<Rightarrow> nat \<Rightarrow> eeprom \<Rightarrow> u8 list option" where
  "EEPROM_get adr n e =
     (if adr < 0 \<or> word_of_int adr + of_nat n > e_size e then None
      else map_option (\<lambda>d. take n (drop (nat adr) d)) (e_data e))"

definition EEPROM_put :: "int \<Rightarrow> u8 list \<Rightarrow> eeprom \<Rightarrow> eeprom" where
  "EEPROM_put adr t e =
     (if adr < 0 \<or> word_of_int adr + of_nat (length t) > e_size e then e
      else case e_data e of
          None \<Rightarrow> e
        | Some d \<Rightarrow>
            if take (length t) (drop (nat adr) d) \<noteq> t then e\<lparr>e_dirty := True, e_data := Some (blit (nat adr) t d)\<rparr> else e)"

definition EEPROM_length :: "eeprom \<Rightarrow> u32" where
  "EEPROM_length e = e_size e"

text \<open>Assignment through \<^verbatim>\<open>operator[]\<close>, which does not check the address: \<open>None\<close> for an address outside of the array.\<close>

definition EEPROM_assign :: "int \<Rightarrow> u8 \<Rightarrow> eeprom \<Rightarrow> eeprom option" where
  "EEPROM_assign adr v e =
     (case e_data e of
        None \<Rightarrow> None
      | Some d \<Rightarrow> if 0 \<le> adr \<and> nat adr < length d then Some (e\<lparr>e_dirty := True, e_data := Some (d[nat adr := v])\<rparr>) else None)"

section \<open>The invariant\<close>

text \<open>The array exists exactly if the size is not 0, and has that size, which is a number of words within a sector.\<close>

definition eeprom_ok :: "eeprom \<Rightarrow> bool" where
  "eeprom_ok e \<longleftrightarrow> unat (e_size e) \<le> 4096 \<and> 4 dvd unat (e_size e)
     \<and> (case e_data e of None \<Rightarrow> e_size e = 0 \<and> \<not> e_dirty e | Some d \<Rightarrow> length d = unat (e_size e) \<and> 0 < unat (e_size e))"

lemma unat_EEPROM_round:
  "unat (EEPROM_round sz) = (min 4096 (unat sz) + 3) div 4 * 4" "unat (EEPROM_round sz) \<le> 4096" "4 dvd unat (EEPROM_round sz)"
  "sz \<noteq> 0 \<Longrightarrow> 0 < unat (EEPROM_round sz)"
proof -
  let ?m = "if sz > 4096 then 4096 else sz"
  have m: "unat ?m = min 4096 (unat sz)" by (simp add: word_less_nat_alt min_def)
  then have "unat (?m + 3) = min 4096 (unat sz) + 3" by (subst unat_add32) simp_all
  moreover have "unat (x AND NOT 3) = unat x div 4 * 4" for x :: u32
  proof -
    have "x AND NOT 3 = push_bit 2 (drop_bit 2 x)" using and_not_low [of x 2] by (simp add: mask_eq_exp_minus_1)
    moreover have "unat (push_bit 2 (drop_bit 2 x)) = unat (drop_bit 2 x) * 4"
      using unsigned_less [of x, where ?'a = nat] by (simp add: push_bit_eq_mult unat_word_ariths drop_bit_eq_div unat_div)
    ultimately show ?thesis by (simp add: drop_bit_eq_div unat_div)
  qed
  ultimately show r: "unat (EEPROM_round sz) = (min 4096 (unat sz) + 3) div 4 * 4" by (simp add: EEPROM_round_def)
  show "unat (EEPROM_round sz) \<le> 4096" "4 dvd unat (EEPROM_round sz)" unfolding r by simp_all
  show "sz \<noteq> 0 \<Longrightarrow> 0 < unat (EEPROM_round sz)" unfolding r by (simp add: word_unat_eq_iff)
qed

text \<open>Every operation keeps the invariant, whatever the flash chip answers.\<close>

lemma eeprom_ok_new: "eeprom_ok (EEPROM_new sector)"
  by (simp add: eeprom_ok_def EEPROM_new_def)

lemma eeprom_ok_write: "eeprom_ok e \<Longrightarrow> eeprom_ok (EEPROM_write adr v e)"
  by (auto simp: eeprom_ok_def EEPROM_write_def split: option.splits)

lemma eeprom_ok_commit: "eeprom_ok e \<Longrightarrow> eeprom_ok (fst (snd (EEPROM_commit k e h)))"
  by (auto simp: eeprom_ok_def EEPROM_commit_def case_prod_unfold Let_def split: option.splits)

lemma eeprom_ok_end: "eeprom_ok e \<Longrightarrow> eeprom_ok (fst (EEPROM_end k e h))"
  by (cases "e_size e = 0") (simp_all add: EEPROM_end_def eeprom_ok_def case_prod_unfold)

section \<open>The abstract store\<close>

text \<open>What the library promises: a volatile copy and a stored one. A restart is a power failure, or any reset, followed by
  \<^verbatim>\<open>begin\<close>.\<close>

datatype eep_event = Rd int | Wr int u8 | Put int "u8 list" | Commit | Restart

datatype eep_out = Byte u8 | Result bool | Silent

fun store_step :: "eep_event \<Rightarrow> u8 list \<times> u8 list \<Rightarrow> eep_out \<times> u8 list \<times> u8 list" where
  "store_step (Rd a) (v, s) = (Byte (if 0 \<le> a \<and> nat a < length v then v ! nat a else 0), v, s)"
| "store_step (Wr a x) (v, s) = (Silent, if 0 \<le> a \<and> nat a < length v then v[nat a := x] else v, s)"
| "store_step (Put a t) (v, s) = (Silent, if 0 \<le> a \<and> nat a + length t \<le> length v then blit (nat a) t v else v, s)"
| "store_step Commit (v, s) = (Result True, v, v)"
| "store_step Restart (v, s) = (Silent, s, s)"

fun store_run :: "eep_event list \<Rightarrow> u8 list \<times> u8 list \<Rightarrow> eep_out list \<times> u8 list \<times> u8 list" where
  "store_run [] c = ([], c)"
| "store_run (ev # evs) c = (let (r, c) = store_step ev c; (rs, c) = store_run evs c in (r # rs, c))"

fun eep_step :: "('h, 'c) sdk \<Rightarrow> (nat \<Rightarrow> u8) \<Rightarrow> u32 \<Rightarrow> eep_event \<Rightarrow> eeprom \<times> 'h \<Rightarrow> eep_out \<times> eeprom \<times> 'h" where
  "eep_step k fresh sz (Rd a) (e, h) = (Byte (EEPROM_read a e), e, h)"
| "eep_step k fresh sz (Wr a x) (e, h) = (Silent, EEPROM_write a x e, h)"
| "eep_step k fresh sz (Put a t) (e, h) = (Silent, EEPROM_put a t e, h)"
| "eep_step k fresh sz Commit (e, h) = (let (ok, e, h) = EEPROM_commit k e h in (Result ok, e, h))"
| "eep_step k fresh sz Restart (e, h) = (Silent, EEPROM_begin k fresh sz (EEPROM_new (e_sector e)) h)"

fun eep_run :: "('h, 'c) sdk \<Rightarrow> (nat \<Rightarrow> u8) \<Rightarrow> u32 \<Rightarrow> eep_event list \<Rightarrow> eeprom \<times> 'h \<Rightarrow> eep_out list \<times> eeprom \<times> 'h" where
  "eep_run k fresh sz [] c = ([], c)"
| "eep_run k fresh sz (ev # evs) c = (let (r, c) = eep_step k fresh sz ev c; (rs, c) = eep_run k fresh sz evs c in (r # rs, c))"

text \<open>An address is an \<^verbatim>\<open>int\<close> of 32 bits, and so is the size of a value.\<close>

fun event_ok :: "eep_event \<Rightarrow> bool" where
  "event_ok (Rd a) \<longleftrightarrow> a < 2 ^ 31"
| "event_ok (Wr a x) \<longleftrightarrow> a < 2 ^ 31"
| "event_ok (Put a t) \<longleftrightarrow> a < 2 ^ 31 \<and> length t < 2 ^ 31"
| "event_ok Commit \<longleftrightarrow> True"
| "event_ok Restart \<longleftrightarrow> True"

text \<open>The copy is open, holds \<open>v\<close>, and the flash holds \<open>s\<close>; without the mark for a change both are the same.\<close>

definition eep_sim :: "('h \<Rightarrow> nat \<Rightarrow> u8) \<Rightarrow> ('h \<Rightarrow> bool) \<Rightarrow> u32 \<Rightarrow> nat \<Rightarrow> eeprom \<times> 'h \<Rightarrow> u8 list \<times> u8 list \<Rightarrow> bool" where
  "eep_sim img up sector n c t \<longleftrightarrow> (case (c, t) of ((e, h), v, s) \<Rightarrow>
     eeprom_ok e \<and> e_sector e = sector \<and> e_data e = Some v \<and> unat (e_size e) = n \<and> length v = n \<and> up h
     \<and> s = map (img h) [unat sector * 4096..<unat sector * 4096 + n] \<and> (\<not> e_dirty e \<longrightarrow> v = s))"

lemma in_range: "0 \<le> a \<Longrightarrow> a < 2 ^ 31 \<Longrightarrow> (word_of_int a :: u32) \<ge> n \<longleftrightarrow> \<not> nat a < unat n"
  by (simp add: word_le_nat_alt unsigned_of_int take_bit_int_eq_self not_less)

lemma put_range:
  assumes "0 \<le> a" "a < 2 ^ 31" "m < 2 ^ 31"
  shows "(word_of_int a :: u32) + of_nat m > n \<longleftrightarrow> \<not> nat a + m \<le> unat n"
proof -
  have "unat (word_of_int a :: u32) = nat a" using assms(1,2) by (simp add: unsigned_of_int take_bit_int_eq_self)
  then have "unat ((word_of_int a :: u32) + of_nat m) = nat a + m" using assms by (subst unat_add32) (simp_all add: unat_of_nat32)
  then show ?thesis by (simp add: word_less_nat_alt not_le)
qed

lemma blit_same: "take (length t) (drop a d) = t \<Longrightarrow> blit a t d = d"
  by (metis append_take_drop_id blit_def drop_drop add.commute)

text \<open>Writing replaces the data; the mark is set if that changes anything.\<close>

lemma write_data:
  "e_data e = Some v \<Longrightarrow> 0 \<le> a \<Longrightarrow> a < 2 ^ 31 \<Longrightarrow> nat a < unat (e_size e) \<Longrightarrow>
   EEPROM_write a x e = e\<lparr>e_data := Some (v[nat a := x]), e_dirty := e_dirty e \<or> v[nat a := x] \<noteq> v\<rparr> \<or>
   EEPROM_write a x e = e\<lparr>e_data := Some (v[nat a := x]), e_dirty := True\<rparr>"
  using in_range [of a "e_size e"] by (cases e) (auto simp: EEPROM_write_def)

lemma put_data:
  "e_data e = Some v \<Longrightarrow> 0 \<le> a \<Longrightarrow> a < 2 ^ 31 \<Longrightarrow> length t < 2 ^ 31 \<Longrightarrow> nat a + length t \<le> unat (e_size e) \<Longrightarrow>
   EEPROM_put a t e = e\<lparr>e_data := Some (blit (nat a) t v), e_dirty := e_dirty e \<or> blit (nat a) t v \<noteq> v\<rparr> \<or>
   EEPROM_put a t e = e\<lparr>e_data := Some (blit (nat a) t v), e_dirty := True\<rparr>"
  using put_range [of a "length t" "e_size e"] blit_same [of t "nat a" v] by (cases e) (auto simp: EEPROM_put_def)

lemma sim_change:
  assumes "eep_sim img up sector n (e, h) (v, s)" "length w = n"
    and "e' = e\<lparr>e_data := Some w, e_dirty := e_dirty e \<or> w \<noteq> v\<rparr> \<or> e' = e\<lparr>e_data := Some w, e_dirty := True\<rparr>"
  shows "eep_sim img up sector n (e', h) (w, s)"
  using assms by (auto simp: eep_sim_def eeprom_ok_def)

context sdk_flash
begin

lemma sector_base: "Suc (unat sector) * 4096 \<le> cap \<Longrightarrow> unat (sector * 4096 :: u32) = unat sector * 4096"
  using cap_law(2) by (simp add: unat_word_ariths)

lemma begin_sim:
  assumes "up h" "Suc (unat sector) * 4096 \<le> cap" "sz \<noteq> 0" "n = unat (EEPROM_round sz)"
  shows "\<exists>e h'. EEPROM_begin k fresh sz (EEPROM_new sector) h = (e, h') \<and> img h' = img h
    \<and> eep_sim img up sector n (e, h')
      (map (img h) [unat sector * 4096..<unat sector * 4096 + n], map (img h) [unat sector * 4096..<unat sector * 4096 + n])"
proof -
  note rd = unat_EEPROM_round(2-4) [of sz] and base = sector_base [OF assms(2)]
  have "4 dvd unat (sector * 4096)" unfolding base by simp
  then obtain h' where "spi_flash_read k (sector * 4096) (EEPROM_round sz) h =
      ((0, map (img h) [unat sector * 4096..<unat sector * 4096 + n]), h')" "up h'" "img h' = img h"
    using read_law [OF assms(1), of "sector * 4096" "EEPROM_round sz", unfolded base] rd(1,2) assms(2,4) by auto
  then show ?thesis
    using assms(3,4) rd by (simp add: EEPROM_begin_def EEPROM_new_def eep_sim_def eeprom_ok_def Let_def blit_def)
qed

lemma commit_sim:
  assumes "eep_sim img up sector n (e, h) (v, s)" "Suc (unat sector) * 4096 \<le> cap"
  shows "\<exists>e' h'. EEPROM_commit k e h = (True, e', h') \<and> eep_sim img up sector n (e', h') (v, v)
    \<and> (\<forall>x. x div 4096 \<noteq> unat sector \<longrightarrow> img h' x = img h x)"
proof -
  have e: "eeprom_ok e" "e_sector e = sector" "e_data e = Some v" "unat (e_size e) = n" "length v = n" "up h" "\<not> e_dirty e \<longrightarrow> v = s"
    using assms(1) by (simp_all add: eep_sim_def)
  then have n: "0 < n" "n \<le> 4096" "4 dvd n" "e_size e \<noteq> 0" by (auto simp: eeprom_ok_def)
  show ?thesis
  proof (cases "e_dirty e")
    case False
    then show ?thesis using assms(1) e(7) n(4) by (auto simp: EEPROM_commit_def eep_sim_def)
  next
    case True
    note base = sector_base [OF assms(2)]
    have "unat sector < 65536" using assms(2) cap_law(2) by simp
    then have j: "unat (ucast sector :: u16) = unat sector" by (simp add: unsigned_ucast_eq take_bit_nat_eq_self)
    obtain h1 where h1: "spi_flash_erase_sector k (ucast sector) h = (0, h1)" "up h1"
        "img h1 = (\<lambda>x. if x div 4096 = unat sector then 0xFF else img h x)"
      using erase_law [OF e(6), of "ucast sector"] assms(2) unfolding j by auto
    obtain h2 where h2: "spi_flash_write k (sector * 4096) v h1 = (0, h2)" "up h2"
        "img h2 = (\<lambda>x. if unat sector * 4096 \<le> x \<and> x < unat sector * 4096 + n then img h1 x AND v ! (x - unat sector * 4096) else img h1 x)"
      using write_law [OF h1(2), of "sector * 4096" v] e(5) n(2,3) assms(2) unfolding base by auto
    have "EEPROM_commit k e h = (True, e\<lparr>e_dirty := False\<rparr>, h2)" using True e(2,3) n(4) h1(1) h2(1) by (simp add: EEPROM_commit_def)
    moreover have "map (img h2) [unat sector * 4096..<unat sector * 4096 + n] = v"
    proof (rule nth_equalityI)
      fix i assume "i < length (map (img h2) [unat sector * 4096..<unat sector * 4096 + n])"
      then have "(unat sector * 4096 + i) div 4096 = unat sector" "i < n" using n(2) by simp_all
      then show "map (img h2) [unat sector * 4096..<unat sector * 4096 + n] ! i = v ! i" by (simp add: h2(3) h1(3) and_FF)
    qed (simp add: e(5))
    moreover have "img h2 x = img h x" if "x div 4096 \<noteq> unat sector" for x
    proof -
      have "\<not> (unat sector * 4096 \<le> x \<and> x < unat sector * 4096 + n)" using that n(2) by (auto simp: div_nat_eqI)
      then show ?thesis using that by (auto simp: h2(3) h1(3))
    qed
    ultimately show ?thesis using e h2(2) by (auto simp: eep_sim_def eeprom_ok_def)
  qed
qed

lemma step_sim:
  assumes "eep_sim img up sector n (e, h) (v, s)" "Suc (unat sector) * 4096 \<le> cap" "sz \<noteq> 0" "n = unat (EEPROM_round sz)" "event_ok ev"
  shows "\<exists>r e' h' c'. eep_step k fresh sz ev (e, h) = (r, e', h') \<and> store_step ev (v, s) = (r, c') \<and> eep_sim img up sector n (e', h') c'
    \<and> (\<forall>x. x div 4096 \<noteq> unat sector \<longrightarrow> img h' x = img h x)"
proof -
  have e: "eeprom_ok e" "e_sector e = sector" "e_data e = Some v" "unat (e_size e) = n" "length v = n" "up h" "n \<le> 4096"
    "s = map (img h) [unat sector * 4096..<unat sector * 4096 + n]"
    using assms(1) by (auto simp: eep_sim_def eeprom_ok_def)
  show ?thesis
  proof (cases ev)
    case (Rd a)
    then show ?thesis using assms(1,5) e in_range [of a "e_size e"] by (auto simp: EEPROM_read_def not_le)
  next
    case (Wr a x)
    show ?thesis
    proof (cases "0 \<le> a \<and> nat a < n")
      case True
      then show ?thesis using Wr assms(5) e sim_change [OF assms(1), of "v[nat a := x]"] write_data [of e v a x] by simp
    next
      case False
      then have "EEPROM_write a x e = e" using Wr assms(5) e in_range [of a "e_size e"] by (auto simp: EEPROM_write_def)
      then show ?thesis using Wr assms(1) e False by auto
    qed
  next
    case (Put a t)
    show ?thesis
    proof (cases "0 \<le> a \<and> nat a + length t \<le> n")
      case True
      then show ?thesis using Put assms(5) e sim_change [OF assms(1), of "blit (nat a) t v"] put_data [of e v a t] by (simp add: length_blit)
    next
      case False
      then have "EEPROM_put a t e = e" using Put assms(5) e put_range [of a "length t" "e_size e"] by (auto simp: EEPROM_put_def)
      then show ?thesis using Put assms(1) e False by auto
    qed
  next
    case Commit
    then show ?thesis using commit_sim [OF assms(1,2)] by auto
  next
    case Restart
    then show ?thesis using begin_sim [OF e(6) assms(2-4), of fresh] e(2,8) by auto
  qed
qed

lemma run_sim:
  assumes "Suc (unat sector) * 4096 \<le> cap" "sz \<noteq> 0" "n = unat (EEPROM_round sz)"
  shows "eep_sim img up sector n (e, h) c \<Longrightarrow> \<forall>ev \<in> set evs. event_ok ev \<Longrightarrow>
    \<exists>rs e' h' c'. eep_run k fresh sz evs (e, h) = (rs, e', h') \<and> store_run evs c = (rs, c') \<and> eep_sim img up sector n (e', h') c'
      \<and> (\<forall>x. x div 4096 \<noteq> unat sector \<longrightarrow> img h' x = img h x)"
proof (induction evs arbitrary: e h c)
  case (Cons ev evs)
  obtain v s where c: "c = (v, s)" by (cases c)
  obtain r e1 h1 c1 where 1: "eep_step k fresh sz ev (e, h) = (r, e1, h1)" "store_step ev c = (r, c1)" "eep_sim img up sector n (e1, h1) c1"
      "\<forall>x. x div 4096 \<noteq> unat sector \<longrightarrow> img h1 x = img h x"
    using step_sim [OF Cons.prems(1) [unfolded c] assms, of ev fresh] Cons.prems(2) unfolding c by auto
  obtain rs e2 h2 c2 where "eep_run k fresh sz evs (e1, h1) = (rs, e2, h2)" "store_run evs c1 = (rs, c2)" "eep_sim img up sector n (e2, h2) c2"
      "\<forall>x. x div 4096 \<noteq> unat sector \<longrightarrow> img h2 x = img h1 x"
    using Cons.IH [OF 1(3)] Cons.prems(2) by auto
  with 1 show ?case by simp
qed simp

end

section \<open>The library is a non-volatile store\<close>

text \<open>(C8) For every sequence of reads, writes, stored values, commits and restarts, the library answers as the abstract store does, in
  which a restart brings back what was committed last; the flash holds the committed bytes, and no other
  sector is touched.\<close>

theorem eeprom_refines_store:
  assumes "sdk_flash k img up cap i" "up h" "Suc (unat sector) * 4096 \<le> cap" "sz \<noteq> 0" "\<forall>ev \<in> set evs. event_ok ev"
    and "n = unat (EEPROM_round sz)" "s = map (img h) [unat sector * 4096..<unat sector * 4096 + n]"
  shows "\<exists>c rs e' h' v s'. EEPROM_begin k fresh sz (EEPROM_new sector) h = c \<and> eep_run k fresh sz evs c = (rs, e', h')
    \<and> store_run evs (s, s) = (rs, v, s') \<and> map (img h') [unat sector * 4096..<unat sector * 4096 + n] = s'
    \<and> (\<forall>x. x div 4096 \<noteq> unat sector \<longrightarrow> img h' x = img h x)"
proof -
  obtain e1 h1 where b: "EEPROM_begin k fresh sz (EEPROM_new sector) h = (e1, h1)" "img h1 = img h" "eep_sim img up sector n (e1, h1) (s, s)"
    using sdk_flash.begin_sim [OF assms(1-4,6), of fresh] assms(7) by blast
  then obtain rs e' h' c' where "eep_run k fresh sz evs (e1, h1) = (rs, e', h')" "store_run evs (s, s) = (rs, c')"
    "eep_sim img up sector n (e', h') c'" "\<forall>x. x div 4096 \<noteq> unat sector \<longrightarrow> img h' x = img h x"
    using sdk_flash.run_sim [OF assms(1,3,4,6) b(3) assms(5), of fresh] by auto
  with b(1) show ?thesis by (cases c') (auto simp: eep_sim_def)
qed

theorem eeprom_refines_store_witness:
  "\<exists>e' h'. eep_run nor_sdk (\<lambda>_. 0) 10 [Wr 3 7, Commit, Wr 3 9, Restart, Rd 3, Rd 100]
      (EEPROM_begin nor_sdk (\<lambda>_. 0) 10 (EEPROM_new 0x3FB) old_flash) = ([Silent, Result True, Silent, Silent, Byte 7, Byte 0], e', h')"
proof -
  have n: "unat (EEPROM_round 10) = 12" by (simp add: unat_EEPROM_round)
  define s where "s = map old_flash [unat (0x3FB :: u32) * 4096..<unat (0x3FB :: u32) * 4096 + 12]"
  define evs where "evs = [Wr 3 7, Commit, Wr 3 9, Restart, Rd 3, Rd 100]"
  have ok: "\<forall>ev \<in> set evs. event_ok ev" by (simp add: evs_def)
  obtain rs e' h' v s' where w: "eep_run nor_sdk (\<lambda>_. 0) 10 evs (EEPROM_begin nor_sdk (\<lambda>_. 0) 10 (EEPROM_new 0x3FB) old_flash) = (rs, e', h')"
      "store_run evs (s, s) = (rs, v, s')"
    using eeprom_refines_store [OF ns.sdk_flash_axioms _ _ _ ok n [symmetric], where h = old_flash and sector = "0x3FB" and fresh = "\<lambda>_. 0" and s = s]
    by (auto simp: s_def)
  have "length s = 12" by (simp add: s_def)
  then have "rs = [Silent, Result True, Silent, Silent, Byte 7, Byte 0]" using w(2) by (auto simp: evs_def)
  with w(1) show ?thesis unfolding evs_def by blast
qed

section \<open>Limits\<close>

text \<open>A chip that erases but does not write: the result says so, and the change stays marked, so that a later commit tries again.\<close>

lemma failed_commit:
  assumes "e = \<lparr>e_sector = 0, e_data = Some [1, 2, 3, 4], e_size = 4, e_dirty = True\<rparr>"
  shows "\<exists>h'. EEPROM_commit worn_sdk e h = (False, e, h')"
  by (simp add: EEPROM_commit_def worn_sdk_def nor_sdk_def assms)

text \<open>A store that is opened with a smaller size: a commit erases what lies behind it in the sector.\<close>

lemma commit_erases_rest:
  "\<exists>e h. EEPROM_commit nor_sdk \<lparr>e_sector = 1, e_data = Some [1, 2, 3, 4], e_size = 4, e_dirty = True\<rparr> f = (True, e, h) \<and> h 4100 = 0xFF"
  by (simp add: EEPROM_commit_def nor_sdk_def)

end
