(* ===== verification/Base64.thy ===== *)
theory Base64
  imports Prelude
begin

text \<open>
  The base64 codec of the ESP8266 core: the encoder \<^verbatim>\<open>libb64/cencode.c\<close>, the decoder \<^verbatim>\<open>libb64/cdecode.c\<close> and the
  wrapper \<^verbatim>\<open>base64.cpp\<close>. Both routines are coroutines, a \<^verbatim>\<open>switch\<close> into the middle of a loop, that take up their
  work where the last block ended; here the body of the loop is a function of one character and the
  position in the loop is part of the state. Characters are bytes.
\<close>

section \<open>Encoder\<close>

datatype base64_encodestep = step_A | step_B | step_C

record base64_encodestate =
  enc_step :: base64_encodestep
  result :: u8
  stepcount :: int
  stepsnewline :: int

definition BASE64_CHARS_PER_LINE :: int where
  "BASE64_CHARS_PER_LINE = 72"

definition base64_init_encodestate :: base64_encodestate where
  "base64_init_encodestate = \<lparr>enc_step = step_A, result = 0, stepcount = 0, stepsnewline = BASE64_CHARS_PER_LINE\<rparr>"

definition base64_init_encodestate_nonewlines :: base64_encodestate where
  "base64_init_encodestate_nonewlines = base64_init_encodestate\<lparr>stepsnewline := - 1\<rparr>"

definition encoding :: "u8 list" where
  "encoding = map of_char ''ABCDEFGHIJKLMNOPQRSTUVWXYZabcdefghijklmnopqrstuvwxyz0123456789+/''"

definition equals_sign :: u8 where
  "equals_sign = of_char (CHR ''='')"

definition base64_encode_value :: "u8 \<Rightarrow> u8" where
  "base64_encode_value value_in = (if value_in > 63 then equals_sign else encoding ! unat value_in)"

text \<open>The loop body for one character; the result is what is appended to the output.\<close>

fun base64_encode_char :: "u8 \<Rightarrow> base64_encodestate \<Rightarrow> u8 list \<times> base64_encodestate" where
  "base64_encode_char fragment s =
     (case enc_step s of
        step_A \<Rightarrow> ([base64_encode_value (drop_bit 2 (fragment AND 0xfc))],
          s\<lparr>result := push_bit 4 (fragment AND 0x03), enc_step := step_B\<rparr>)
      | step_B \<Rightarrow> ([base64_encode_value (result s OR drop_bit 4 (fragment AND 0xf0))],
          s\<lparr>result := push_bit 2 (fragment AND 0x0f), enc_step := step_C\<rparr>)
      | step_C \<Rightarrow>
          (let code = [base64_encode_value (result s OR drop_bit 6 (fragment AND 0xc0)), base64_encode_value (fragment AND 0x3f)];
               s = s\<lparr>result := fragment AND 0x3f, stepcount := stepcount s + 1, enc_step := step_A\<rparr>
           in if stepcount s = BASE64_CHARS_PER_LINE div 4 \<and> stepsnewline s > 0
              then (code @ [10], s\<lparr>stepcount := 0\<rparr>) else (code, s)))"

primrec base64_encode_block :: "u8 list \<Rightarrow> base64_encodestate \<Rightarrow> u8 list \<times> base64_encodestate" where
  "base64_encode_block [] s = ([], s)"
| "base64_encode_block (c # cs) s =
     (case base64_encode_char c s of (code, s) \<Rightarrow> case base64_encode_block cs s of (codes, s) \<Rightarrow> (code @ codes, s))"

definition base64_encode_blockend :: "base64_encodestate \<Rightarrow> u8 list" where
  "base64_encode_blockend s =
     (case enc_step s of
        step_B \<Rightarrow> [base64_encode_value (result s), equals_sign, equals_sign]
      | step_C \<Rightarrow> [base64_encode_value (result s), equals_sign]
      | step_A \<Rightarrow> [])"

definition base64_encode_chars :: "u8 list \<Rightarrow> u8 list" where
  "base64_encode_chars plaintext =
     (case base64_encode_block plaintext base64_init_encodestate of (code, s) \<Rightarrow> code @ base64_encode_blockend s)"

text \<open>The macros for the size of the code, for an argument of type \<^verbatim>\<open>size_t\<close>: the arithmetic is modulo \<open>2 ^ 32\<close>.\<close>

definition base64_encode_expected_len_nonewlines :: "u32 \<Rightarrow> u32" where
  "base64_encode_expected_len_nonewlines n = ((4 * n) div 3 + 3) AND NOT 3"

definition base64_encode_expected_len :: "u32 \<Rightarrow> u32" where
  "base64_encode_expected_len n =
     base64_encode_expected_len_nonewlines n + (n div of_int ((BASE64_CHARS_PER_LINE * 3) div 4) + 1)"

text \<open>The wrapper; \<open>alloc\<close> says whether \<^verbatim>\<open>malloc\<close> finds the memory. The string ends at the first NUL.\<close>

definition encode :: "bool \<Rightarrow> u8 list \<Rightarrow> bool \<Rightarrow> u8 list" where
  "encode alloc data doNewLines =
     (if alloc then
        (let s = (if doNewLines then base64_init_encodestate else base64_init_encodestate_nonewlines);
             (code, s) = base64_encode_block data s
         in takeWhile (\<lambda>c. c \<noteq> 0) (code @ base64_encode_blockend s @ [0]))
      else map of_char ''-FAIL-'')"

section \<open>Decoder\<close>

datatype base64_decodestep = step_a | step_b | step_c | step_d

record base64_decodestate =
  dec_step :: base64_decodestep
  plainchar :: u8

definition base64_init_decodestate :: base64_decodestate where
  "base64_init_decodestate = \<lparr>dec_step = step_a, plainchar = 0\<rparr>"

definition decoding :: "int list" where
  "decoding = [62,-1,-1,-1,63,52,53,54,55,56,57,58,59,60,61,-1,-1,-1,-2,-1,-1,-1,0,1,2,3,4,5,6,7,8,9,10,11,12,13,14,15,16,17,18,
     19,20,21,22,23,24,25,-1,-1,-1,-1,-1,-1,26,27,28,29,30,31,32,33,34,35,36,37,38,39,40,41,42,43,44,45,46,47,48,49,50,51]"

text \<open>The test against the size of the table lets one index through that is not in it, 80 for the character \<open>{\<close>; \<open>beyond\<close> is
  the byte that happens to follow the table in memory.\<close>

definition base64_decode_value_signed :: "int \<Rightarrow> u8 \<Rightarrow> int" where
  "base64_decode_value_signed beyond value_in =
     (let v = sint (value_in - 43) in
      if v < 0 \<or> v > 80 then - 1 else if v = 80 then beyond else decoding ! nat v)"

text \<open>The position in the caller's buffer, and the buffer.\<close>

type_synonym dec_out = "nat \<times> (nat \<Rightarrow> u8)"

definition base64_decode_char ::
  "int \<Rightarrow> u8 \<Rightarrow> base64_decodestep \<times> dec_out \<Rightarrow> base64_decodestep \<times> dec_out" where
  "base64_decode_char beyond c s =
     (case s of (st, n, buf) \<Rightarrow>
      let v = base64_decode_value_signed beyond c; fragment = word_of_int v :: u8 in
      if v < 0 then s
      else case st of
        step_a \<Rightarrow> (step_b, n, buf(n := push_bit 2 (fragment AND 0x3f)))
      | step_b \<Rightarrow> (step_c, n + 1, buf(n := buf n OR drop_bit 4 (fragment AND 0x30), n + 1 := push_bit 4 (fragment AND 0x0f)))
      | step_c \<Rightarrow> (step_d, n + 1, buf(n := buf n OR drop_bit 2 (fragment AND 0x3c), n + 1 := push_bit 6 (fragment AND 0x03)))
      | step_d \<Rightarrow> (step_a, n + 1, buf(n := buf n OR (fragment AND 0x3f))))"

definition base64_decode_block_signed ::
  "int \<Rightarrow> u8 list \<Rightarrow> (nat \<Rightarrow> u8) \<Rightarrow> base64_decodestate \<Rightarrow> dec_out \<times> base64_decodestate" where
  "base64_decode_block_signed beyond code buf s =
     (case fold (base64_decode_char beyond) code (dec_step s, 0, buf(0 := plainchar s)) of
        (st, n, buf) \<Rightarrow> ((n, buf), \<lparr>dec_step = st, plainchar = buf n\<rparr>))"

definition base64_decode_chars_signed :: "int \<Rightarrow> u8 list \<Rightarrow> (nat \<Rightarrow> u8) \<Rightarrow> dec_out" where
  "base64_decode_chars_signed beyond code buf =
     (case base64_decode_block_signed beyond code buf base64_init_decodestate of
        ((len, buf), _) \<Rightarrow> (len, if len > 0 then buf(len := 0) else buf))"

definition base64_decode_chars :: "int \<Rightarrow> u8 list \<Rightarrow> (nat \<Rightarrow> u8) \<Rightarrow> dec_out" where
  "base64_decode_chars beyond code buf = base64_decode_chars_signed beyond code buf"

section \<open>One character\<close>

text \<open>The two tables are inverse to each other.\<close>

lemma decoding_encoding: "map (base64_decode_value_signed x) encoding = [0..63]"
  by (simp add: base64_decode_value_signed_def encoding_def decoding_def upto_rec1 [of 0] upto_rec1 [of 1])

lemma length_encoding: "length encoding = 64"
  by (simp add: encoding_def)

lemma decode_encode:
  assumes "unat v < 64"
  shows "base64_decode_value_signed x (base64_encode_value v) = int (unat v)"
proof -
  have "base64_encode_value v = encoding ! unat v"
    using assms by (simp add: base64_encode_value_def word_less_nat_alt)
  moreover have "map (base64_decode_value_signed x) encoding ! unat v = int (unat v)"
    unfolding decoding_encoding using assms nth_upto [of 0 "unat v" 63] by linarith
  ultimately show ?thesis using assms by (simp add: length_encoding)
qed

section \<open>Bits\<close>

text \<open>The masks of the code, that every index into the alphabet is below 64, and that the decoder reassembles
  the bytes the encoder took apart.\<close>

lemma mask_range: "bit (push_bit k (mask n) :: u8) i \<longleftrightarrow> k \<le> i \<and> i < k + n \<and> i < 8"
  by (auto simp: bit_push_bit_iff bit_mask_iff)

lemma masks_eq: "(0xfc :: u8) = push_bit 2 (mask 6)" "(0x3f :: u8) = push_bit 0 (mask 6)" "(0x03 :: u8) = push_bit 0 (mask 2)" 
  "(0x0f :: u8) = push_bit 0 (mask 4)" "(0xf0 :: u8) = push_bit 4 (mask 4)" "(0xc0 :: u8) = push_bit 6 (mask 2)"
  "(0x30 :: u8) = push_bit 4 (mask 2)" "(0x3c :: u8) = push_bit 2 (mask 4)"
  by (simp_all add: mask_eq_exp_minus_1)

lemma masks: "bit (0xfc :: u8) i \<longleftrightarrow> 2 \<le> i \<and> i < 8" "bit (0x3f :: u8) i \<longleftrightarrow> i < 6" "bit (0x03 :: u8) i \<longleftrightarrow> i < 2"
  "bit (0x0f :: u8) i \<longleftrightarrow> i < 4" "bit (0xf0 :: u8) i \<longleftrightarrow> 4 \<le> i \<and> i < 8" "bit (0xc0 :: u8) i \<longleftrightarrow> 6 \<le> i \<and> i < 8"
  "bit (0x30 :: u8) i \<longleftrightarrow> 4 \<le> i \<and> i < 6" "bit (0x3c :: u8) i \<longleftrightarrow> 2 \<le> i \<and> i < 6"
  unfolding masks_eq mask_range by auto

lemma small: "(\<And>n. 6 \<le> n \<Longrightarrow> \<not> bit v n) \<Longrightarrow> unat (v :: u8) < 64"
proof -
  assume *: "\<And>n. 6 \<le> n \<Longrightarrow> \<not> bit v n"
  have "v = take_bit 6 v" by (rule bit_word_eqI) (use * in \<open>force simp: bit_take_bit_iff not_le\<close>)
  then have "unat v = unat (take_bit 6 v)" by simp
  then show ?thesis by (simp add: take_bit_eq_mod unat_mod)
qed

lemmas sextet_bits = bit_and_iff bit_or_iff bit_push_bit_iff bit_drop_bit_eq o_def masks possible_bit_word

lemma asm_a: "push_bit 2 (drop_bit 2 (f AND 0xfc) AND 0x3f) = (f AND 0xfc :: u8)"
  by (rule bit_word_eqI) (unfold sextet_bits, auto simp del: add_2_eq_Suc add_2_eq_Suc')

lemma asm_b: "(g AND 0xfc) OR drop_bit 4 ((push_bit 4 (g AND 0x03) OR drop_bit 4 (f AND 0xf0)) AND 0x30) = (g :: u8)"
  by (rule bit_word_eqI) (unfold sextet_bits, auto simp del: add_2_eq_Suc add_2_eq_Suc')

lemma asm_b': "push_bit 4 ((push_bit 4 (g AND 0x03) OR drop_bit 4 (f AND 0xf0)) AND 0x0f) = (f AND 0xf0 :: u8)"
  by (rule bit_word_eqI) (unfold sextet_bits, auto simp del: add_2_eq_Suc add_2_eq_Suc')

lemma asm_c: "(g AND 0xf0) OR drop_bit 2 ((push_bit 2 (g AND 0x0f) OR drop_bit 6 (f AND 0xc0)) AND 0x3c) = (g :: u8)"
  by (rule bit_word_eqI) (unfold sextet_bits, auto simp del: add_2_eq_Suc add_2_eq_Suc')

lemma asm_c': "push_bit 6 ((push_bit 2 (g AND 0x0f) OR drop_bit 6 (f AND 0xc0)) AND 0x03) = (f AND 0xc0 :: u8)"
  by (rule bit_word_eqI) (unfold sextet_bits, auto simp del: add_2_eq_Suc add_2_eq_Suc')

lemma asm_d: "(f AND 0xc0) OR (f AND 0x3f) = (f :: u8)"
  by (rule bit_word_eqI) (unfold sextet_bits, auto simp del: add_2_eq_Suc add_2_eq_Suc')

lemma end_b: "(g AND 0xfc) OR drop_bit 4 (push_bit 4 (g AND 0x03) AND 0x30) = (g :: u8)"
  by (rule bit_word_eqI) (unfold sextet_bits, auto simp del: add_2_eq_Suc add_2_eq_Suc')

lemma end_c: "(g AND 0xf0) OR drop_bit 2 (push_bit 2 (g AND 0x0f) AND 0x3c) = (g :: u8)"
  by (rule bit_word_eqI) (unfold sextet_bits, auto simp del: add_2_eq_Suc add_2_eq_Suc')

lemma sextets:
  "unat (drop_bit 2 (f AND 0xfc) :: u8) < 64" "unat (f AND 0x3f :: u8) < 64"
  "unat (push_bit 4 (g AND 0x03) OR drop_bit 4 (f AND 0xf0) :: u8) < 64" "unat (push_bit 4 (g AND 0x03) :: u8) < 64"
  "unat (push_bit 2 (g AND 0x0f) OR drop_bit 6 (f AND 0xc0) :: u8) < 64" "unat (push_bit 2 (g AND 0x0f) :: u8) < 64"
  by (rule small, unfold sextet_bits, auto)+

section \<open>Encoder and decoder in step\<close>

declare drop_bit_and [simp del] push_bit_and [simp del] drop_bit_or [simp del] push_bit_or [simp del]

lemma decode_char_value:
  assumes "unat v < 64"
  shows "base64_decode_char x (base64_encode_value v) (st, n, buf) =
    (case st of
        step_a \<Rightarrow> (step_b, n, buf(n := push_bit 2 (v AND 0x3f)))
      | step_b \<Rightarrow> (step_c, n + 1, buf(n := buf n OR drop_bit 4 (v AND 0x30), n + 1 := push_bit 4 (v AND 0x0f)))
      | step_c \<Rightarrow> (step_d, n + 1, buf(n := buf n OR drop_bit 2 (v AND 0x3c), n + 1 := push_bit 6 (v AND 0x03)))
      | step_d \<Rightarrow> (step_a, n + 1, buf(n := buf n OR (v AND 0x3f))))"
  by (cases st) (simp_all add: base64_decode_char_def decode_encode [OF assms])

lemma decode_char_skip:
  "base64_decode_char x 10 d = d" "base64_decode_char x equals_sign d = d"
  by (simp_all add: base64_decode_char_def base64_decode_value_signed_def equals_sign_def decoding_def case_prod_unfold)

text \<open>The bytes encoded so far, the state of the encoder, and the state of a decoder that has seen its output. The cells
  of the buffer behind the last byte keep the contents \<open>old\<close>.\<close>

definition linked :: "(nat \<Rightarrow> u8) \<Rightarrow> u8 list \<Rightarrow> base64_encodestate \<Rightarrow> base64_decodestep \<times> dec_out \<Rightarrow> bool" where
  "linked old xs e d \<longleftrightarrow> (case d of (st, n, buf) \<Rightarrow>
     (\<forall>i. i < n \<longrightarrow> buf i = xs ! i) \<and> (\<forall>i. i > length xs \<longrightarrow> buf i = old i) \<and>
     (case enc_step e of
        step_A \<Rightarrow> st = step_a \<and> n = length xs
      | step_B \<Rightarrow> st = step_b \<and> Suc n = length xs \<and> result e = push_bit 4 (xs ! n AND 0x03) \<and> buf n = xs ! n AND 0xfc
      | step_C \<Rightarrow> st = step_c \<and> Suc n = length xs \<and> result e = push_bit 2 (xs ! n AND 0x0f) \<and> buf n = xs ! n AND 0xf0))"

lemma linked_char:
  assumes "linked old xs e d" "base64_encode_char c e = (code, e')"
  shows "linked old (xs @ [c]) e' (fold (base64_decode_char x) code d)"
proof (cases "enc_step e")
  case step_A
  with assms show ?thesis
    by (auto simp: linked_def decode_char_value sextets asm_a nth_append split: prod.splits)
next
  case step_B
  with assms show ?thesis
    by (auto simp: linked_def decode_char_value sextets asm_b asm_b' nth_append less_Suc_eq split: prod.splits)
next
  case step_C
  with assms show ?thesis
    by (auto simp: linked_def decode_char_value decode_char_skip sextets asm_c asm_c' asm_d nth_append less_Suc_eq Let_def
        split: prod.splits if_splits)
qed

lemma linked_block:
  "linked old xs e d \<Longrightarrow> base64_encode_block ys e = (code, e') \<Longrightarrow> linked old (xs @ ys) e' (fold (base64_decode_char x) code d)"
proof (induction ys arbitrary: xs e d code)
  case (Cons c ys)
  obtain c1 e1 where c: "base64_encode_char c e = (c1, e1)" by fastforce
  obtain c2 where b: "base64_encode_block ys e1 = (c2, e')" and code: "code = c1 @ c2"
    using Cons.prems(2) c by (auto split: prod.splits)
  show ?case using Cons.IH [OF linked_char [OF Cons.prems(1) c] b] by (simp add: code)
qed simp

lemma linked_end:
  assumes "linked old xs e d" "fold (base64_decode_char x) (base64_encode_blockend e) d = (st, n, buf)"
  shows "n = length xs \<and> (\<forall>i. i < length xs \<longrightarrow> buf i = xs ! i) \<and> (\<forall>i. i > length xs \<longrightarrow> buf i = old i)"
proof (cases "enc_step e")
  case step_A
  with assms show ?thesis by (auto simp: linked_def base64_encode_blockend_def)
next
  case step_B
  with assms show ?thesis
    by (auto simp: linked_def base64_encode_blockend_def decode_char_value decode_char_skip sextets end_b less_Suc_eq
        split: prod.splits)
next
  case step_C
  with assms show ?thesis
    by (auto simp: linked_def base64_encode_blockend_def decode_char_value decode_char_skip sextets end_c less_Suc_eq
        split: prod.splits)
qed

section \<open>Round trip\<close>

lemma encode_value_nonzero: "base64_encode_value v \<noteq> 0"
proof (cases "v > 63")
  case False
  then have "unat v < length encoding" by (simp add: length_encoding word_less_nat_alt)
  then have "base64_encode_value v \<in> set encoding" using False by (simp add: base64_encode_value_def)
  moreover have "0 \<notin> set encoding" by (simp add: encoding_def)
  ultimately show ?thesis by metis
qed (simp add: base64_encode_value_def equals_sign_def)

lemma encode_block_nonzero: "base64_encode_block xs e = (code, e') \<Longrightarrow> 0 \<notin> set code"
proof (induction xs arbitrary: e code)
  case (Cons c xs)
  have "0 \<notin> set (fst (base64_encode_char c e))"
    by (auto simp: encode_value_nonzero encode_value_nonzero [symmetric] Let_def split: base64_encodestep.splits)
  with Cons show ?case by (auto split: prod.splits)
qed simp

lemma encode_blockend_nonzero: "0 \<notin> set (base64_encode_blockend e)"
  by (auto simp: base64_encode_blockend_def encode_value_nonzero [symmetric] equals_sign_def split: base64_encodestep.splits)

lemma takeWhile_nul: "0 \<notin> set cs \<Longrightarrow> takeWhile (\<lambda>c. c \<noteq> 0) (cs @ [0]) = (cs :: u8 list)"
  by (induction cs) auto

text \<open>The wrapper delivers the whole code, and with line breaks it is what \<^verbatim>\<open>base64_encode_chars\<close> delivers.\<close>

lemma encode_eq:
  assumes "base64_encode_block data (if nl then base64_init_encodestate else base64_init_encodestate_nonewlines) = (code, e)"
  shows "encode True data nl = code @ base64_encode_blockend e"
  using takeWhile_nul [of "code @ base64_encode_blockend e"] encode_block_nonzero [OF assms] encode_blockend_nonzero [of e] assms
  by (simp add: encode_def)

text \<open>(C12) Decoding what has been encoded gives back the data, for any bytes, with and without line breaks: the decoder
  returns their number, has put them at the start of the caller's buffer with a NUL behind them, and
  has not touched the buffer beyond. What follows the decoder's table in memory does not matter.\<close>

theorem base64_roundtrip:
  "case base64_decode_chars beyond (encode True xs nl) buf of (n, buf') \<Rightarrow>
     n = length xs \<and> map buf' [0..<n] = xs \<and> (xs \<noteq> [] \<longrightarrow> buf' n = 0) \<and> (\<forall>i. i > length xs \<longrightarrow> buf' i = buf i)"
proof -
  let ?e = "if nl then base64_init_encodestate else base64_init_encodestate_nonewlines"
  obtain code e where c: "base64_encode_block xs ?e = (code, e)" by fastforce
  have "linked buf [] ?e (step_a, 0, buf(0 := 0))"
    by (simp add: linked_def base64_init_encodestate_def base64_init_encodestate_nonewlines_def)
  note l = linked_block [OF this c, where x = beyond, simplified]
  obtain st n buf' where d: "fold (base64_decode_char beyond) (encode True xs nl) (step_a, 0, buf(0 := 0)) = (st, n, buf')"
    by (metis prod_cases3)
  then have n: "n = length xs" "\<forall>i. i < length xs \<longrightarrow> buf' i = xs ! i" "\<forall>i. i > length xs \<longrightarrow> buf' i = buf i"
    using linked_end [OF l, of beyond st n buf'] by (simp_all add: encode_eq [OF c])
  moreover have "map buf' [0..<length xs] = xs" by (rule nth_equalityI) (use n in auto)
  moreover have "map (buf'(length xs := 0)) [0..<length xs] = map buf' [0..<length xs]" by simp
  ultimately show ?thesis
    using d by (simp add: base64_decode_chars_def base64_decode_chars_signed_def base64_decode_block_signed_def
        base64_init_decodestate_def)
qed

theorem base64_roundtrip_witness:
  "case base64_decode_chars 7 (encode True [0x4D, 0xFF] True) (\<lambda>_. 9) of (n, buf) \<Rightarrow> n = 2 \<and> buf 2 = 0 \<and> buf 3 = 9"
  using base64_roundtrip [where beyond = 7 and xs = "[0x4D, 0xFF]" and nl = True and buf = "\<lambda>_. 9"] by (auto simp: numeral_2_eq_2 split: prod.splits)

section \<open>Length\<close>

text \<open>The number of characters for \<open>n\<close> bytes before the end, and the state of the encoder then.\<close>

definition code_length :: "nat \<Rightarrow> nat" where
  "code_length n = 4 * (n div 3) + n mod 3 + n div 3 div 18"

definition counted :: "nat \<Rightarrow> base64_encodestate \<Rightarrow> bool" where
  "counted n e \<longleftrightarrow> stepsnewline e > 0 \<and> stepcount e = int (n div 3 mod 18) \<and>
     enc_step e = (if n mod 3 = 0 then step_A else if n mod 3 = 1 then step_B else step_C)"

lemma counted_char:
  assumes "counted n e" "base64_encode_char c e = (code, e')"
  shows "counted (Suc n) e' \<and> code_length (Suc n) = code_length n + length code"
proof -
  have "n mod 3 < 3" by simp
  then consider "n mod 3 = 0" | "n mod 3 = 1" | "n mod 3 = 2" by linarith
  then show ?thesis
    by cases (use assms in \<open>auto simp: counted_def code_length_def BASE64_CHARS_PER_LINE_def Let_def mod_Suc div_Suc
        split: if_splits\<close>)
qed

lemma counted_block:
  "counted n e \<Longrightarrow> base64_encode_block xs e = (code, e') \<Longrightarrow>
   counted (n + length xs) e' \<and> code_length (n + length xs) = code_length n + length code"
proof (induction xs arbitrary: n e code)
  case (Cons c xs)
  obtain c1 e1 where c: "base64_encode_char c e = (c1, e1)" by fastforce
  obtain c2 where b: "base64_encode_block xs e1 = (c2, e')" and code: "code = c1 @ c2"
    using Cons.prems(2) c by (auto split: prod.splits)
  show ?case
    using counted_char [OF Cons.prems(1) c] Cons.IH [OF _ b, of "Suc n"] by (simp add: code)
qed simp

lemma and_not_3: "x AND NOT 3 = x - x mod (4 :: int)"
proof -
  have "x AND NOT (mask 2) = push_bit 2 (drop_bit 2 x)"
    by (rule bit_eqI) (auto simp: bit_and_iff bit_not_iff bit_mask_iff bit_push_bit_iff bit_drop_bit_eq simp del: add_2_eq_Suc add_2_eq_Suc')
  also have "\<dots> = x - x mod 4" by (simp add: push_bit_eq_mult drop_bit_eq_div minus_mod_eq_mult_div mult.commute)
  finally show ?thesis by (simp add: mask_eq_exp_minus_1)
qed

lemma quantum:
  "int (4 * (n div 3) + (if n mod 3 = 0 then 0 else 4)) = ((4 * int n) div 3 + 3) - ((4 * int n) div 3 + 3) mod 4"
proof -
  define q r where "q = n div 3" and "r = n mod 3"
  have "4 * int n = 4 * int r + 3 * (4 * int q)" by (simp add: q_def r_def zmod_int zdiv_int) presburger
  then have d: "(4 * int n) div 3 = 4 * int q + (4 * int r) div 3" by simp
  have "r < 3" by (simp add: r_def)
  then consider "r = 0" | "r = 1" | "r = 2" by linarith
  then show ?thesis
    unfolding d q_def [symmetric] r_def [symmetric] by cases (simp_all add: add.assoc)
qed

lemma word_and_not_3: "uint ((w :: u32) AND NOT 3) = uint w - uint w mod 4"
proof -
  have "take_bit 32 (uint w) = uint w" using uint_lt2p [of w] by (simp add: take_bit_eq_mod)
  then have "uint (w AND NOT 3) = take_bit 32 (uint w AND NOT 3)"
    by (simp add: unsigned_and_eq unsigned_not_eq take_bit_and)
  also have "\<dots> = uint w - uint w mod 4"
  proof -
    have "0 \<le> uint w - uint w mod 4" "uint w - uint w mod 4 < 2 ^ 32"
      using uint_lt2p [of w] pos_mod_sign [of 4 "uint w"] by (simp_all add: zmod_le_nonneg_dividend)
    then show ?thesis unfolding and_not_3 take_bit_eq_mod by simp
  qed
  finally show ?thesis .
qed

lemma expected_len_nonewlines:
  assumes "n < 2 ^ 30"
  shows "unat (base64_encode_expected_len_nonewlines (of_nat n)) = 4 * (n div 3) + (if n mod 3 = 0 then 0 else 4)"
proof -
  have four: "unat (4 * of_nat n :: u32) = 4 * n" using assms by (simp add: unat_word_ariths unat_of_nat)
  then have "unat ((4 * of_nat n :: u32) div 3) = 4 * n div 3" by (simp add: unat_div_distrib)
  then have "unat ((4 * of_nat n :: u32) div 3 + 3) = 4 * n div 3 + 3" using assms by (simp add: unat_word_ariths)
  then have "uint ((4 * of_nat n :: u32) div 3 + 3) = (4 * int n) div 3 + 3"
    by (simp add: uint_nat zdiv_int)
  then have "uint (base64_encode_expected_len_nonewlines (of_nat n)) = int (4 * (n div 3) + (if n mod 3 = 0 then 0 else 4))"
    unfolding base64_encode_expected_len_nonewlines_def word_and_not_3 by (simp only: quantum)
  then show ?thesis by (simp only: uint_nat of_nat_eq_iff)
qed

lemma expected_len:
  assumes "n < 2 ^ 30"
  shows "unat (base64_encode_expected_len (of_nat n)) = 4 * (n div 3) + (if n mod 3 = 0 then 0 else 4) + n div 54 + 1"
proof -
  have "unat (of_nat n div 54 :: u32) = n div 54" using assms by (simp add: unat_div_distrib unat_of_nat)
  then show ?thesis using expected_len_nonewlines [OF assms] assms
    by (simp add: base64_encode_expected_len_def BASE64_CHARS_PER_LINE_def unat_word_ariths)
qed

text \<open>(C24) The size computed by the macro for the caller's buffer is exactly what the code, with its line breaks, and its
  terminating NUL need, for every input of less than \<open>2 ^ 30\<close> bytes; from there on the 32 bit arithmetic of the
  macro overflows.\<close>

theorem base64_expected_len_exact:
  assumes "length xs < 2 ^ 30"
  shows "length (base64_encode_chars xs) + 1 = unat (base64_encode_expected_len (of_nat (length xs)))"
proof -
  obtain code e where c: "base64_encode_block xs base64_init_encodestate = (code, e)" by fastforce
  have "counted 0 base64_init_encodestate"
    by (simp add: counted_def base64_init_encodestate_def BASE64_CHARS_PER_LINE_def)
  from counted_block [OF this c] have e: "counted (length xs) e" and l: "length code = code_length (length xs)"
    by (simp_all add: code_length_def)
  define n where "n = length xs"
  have "n div 3 div 18 = n div 54" by (simp add: div_mult2_eq [symmetric])
  moreover have "length (base64_encode_blockend e) + n mod 3 = (if n mod 3 = 0 then 0 else 4)"
    using e by (auto simp: counted_def base64_encode_blockend_def n_def)
  ultimately show ?thesis
    using c l expected_len [OF assms] by (simp add: base64_encode_chars_def code_length_def flip: n_def)
qed

theorem base64_expected_len_exact_witness:
  "length (base64_encode_chars (map of_char ''any carnal pleas'')) + 1 = 25
    \<and> unat (base64_encode_expected_len 16) = 25"
proof -
  have "length (map of_char ''any carnal pleas'' :: u8 list) = 16" "unat (base64_encode_expected_len 16) = 25"
    using expected_len [of 16] by simp_all
  with base64_expected_len_exact [of "map of_char ''any carnal pleas''"] show ?thesis by simp
qed

text \<open>The bound is sharp: for a GiB the macro announces 19884108 bytes.\<close>

lemma expected_len_overflows: "base64_encode_expected_len (2 ^ 30) < 2 ^ 30"
  by (simp add: base64_encode_expected_len_def base64_encode_expected_len_nonewlines_def BASE64_CHARS_PER_LINE_def)

section \<open>The end of the decoder's table\<close>

text \<open>For the character \<open>{\<close> the decoder reads the byte behind its table.\<close>

lemma brace_reads_beyond: "base64_decode_value_signed beyond (of_char (CHR ''{'')) = beyond"
  by (simp add: base64_decode_value_signed_def)

end
