(* ===== verification/Cbuf.thy ===== *)
theory Cbuf
  imports Bounded_Queue
begin

text \<open>
  The circular buffer of the ESP8266 core, \<^verbatim>\<open>cbuf.cpp\<close> and \<^verbatim>\<open>cbuf.h\<close>. The pointers \<^verbatim>\<open>_begin\<close>, \<^verbatim>\<open>_end\<close> and \<^verbatim>\<open>_bufend\<close> into the
  allocated array are offsets from \<^verbatim>\<open>_buf\<close>; \<^verbatim>\<open>_bufend\<close> is the size. Sizes are \<^verbatim>\<open>size_t\<close>, 32 bits wide: the one
  subtraction that can wrap, in \<^verbatim>\<open>room\<close>, is written out. Buffers filled by \<^verbatim>\<open>memcpy\<close> are the lists returned.
\<close>

section \<open>State and operations\<close>

record cbuf =
  buf_size :: nat
  buf :: "u8 list"
  buf_begin :: nat
  buf_end :: nat

text \<open>The constructor; the contents of the fresh array are arbitrary.\<close>

definition cbuf_new :: "u8 list \<Rightarrow> cbuf" where
  "cbuf_new fresh = \<lparr>buf_size = length fresh, buf = fresh, buf_begin = 0, buf_end = 0\<rparr>"

definition wrap_if_bufend :: "cbuf \<Rightarrow> nat \<Rightarrow> nat" where
  "wrap_if_bufend c p = (if p = buf_size c then 0 else p)"

definition cbuf_empty :: "cbuf \<Rightarrow> bool" where
  "cbuf_empty c \<longleftrightarrow> buf_begin c = buf_end c"

definition cbuf_full :: "cbuf \<Rightarrow> bool" where
  "cbuf_full c \<longleftrightarrow> wrap_if_bufend c (buf_end c + 1) = buf_begin c"

definition cbuf_available :: "cbuf \<Rightarrow> nat" where
  "cbuf_available c = (if buf_end c \<ge> buf_begin c then buf_end c - buf_begin c else buf_size c - (buf_begin c - buf_end c))"

definition cbuf_room :: "cbuf \<Rightarrow> nat" where
  "cbuf_room c = (if buf_end c \<ge> buf_begin c then (buf_size c + 2 ^ 32 - (buf_end c - buf_begin c) - 1) mod 2 ^ 32
     else buf_begin c - buf_end c - 1)"

definition cbuf_peek :: "cbuf \<Rightarrow> int" where
  "cbuf_peek c = (if cbuf_empty c then - 1 else int (unat (buf c ! buf_begin c)))"

definition cbuf_peek_block :: "cbuf \<Rightarrow> nat \<Rightarrow> u8 list" where
  "cbuf_peek_block c sz =
     (let n = (if sz < cbuf_available c then sz else cbuf_available c) in
      if buf_end c < buf_begin c \<and> n > buf_size c - buf_begin c then
        (let top_size = buf_size c - buf_begin c
         in take top_size (drop (buf_begin c) (buf c)) @ take (n - top_size) (buf c))
      else take n (drop (buf_begin c) (buf c)))"

definition cbuf_read :: "cbuf \<Rightarrow> int \<times> cbuf" where
  "cbuf_read c = (if cbuf_empty c then (- 1, c)
     else (int (unat (buf c ! buf_begin c)), c\<lparr>buf_begin := wrap_if_bufend c (buf_begin c + 1)\<rparr>))"

definition cbuf_read_block :: "cbuf \<Rightarrow> nat \<Rightarrow> u8 list \<times> cbuf" where
  "cbuf_read_block c sz =
     (let n = (if sz < cbuf_available c then sz else cbuf_available c) in
      if buf_end c < buf_begin c \<and> n > buf_size c - buf_begin c then
        (let top_size = buf_size c - buf_begin c
         in (take top_size (drop (buf_begin c) (buf c)) @ take (n - top_size) (buf c),
             c\<lparr>buf_begin := wrap_if_bufend c (n - top_size)\<rparr>))
      else (take n (drop (buf_begin c) (buf c)), c\<lparr>buf_begin := wrap_if_bufend c (buf_begin c + n)\<rparr>))"

definition cbuf_write :: "cbuf \<Rightarrow> u8 \<Rightarrow> nat \<times> cbuf" where
  "cbuf_write c ch = (if cbuf_full c then (0, c)
     else (1, c\<lparr>buf := (buf c)[buf_end c := ch], buf_end := wrap_if_bufend c (buf_end c + 1)\<rparr>))"

definition cbuf_write_block :: "cbuf \<Rightarrow> u8 list \<Rightarrow> nat \<times> cbuf" where
  "cbuf_write_block c src =
     (let n = (if length src < cbuf_room c then length src else cbuf_room c) in
      if buf_end c \<ge> buf_begin c \<and> n > buf_size c - buf_end c then
        (let top_size = buf_size c - buf_end c;
             b = blit (buf_end c) (take top_size src) (buf c);
             b = blit 0 (take (n - top_size) (drop top_size src)) b
         in (n, c\<lparr>buf := b, buf_end := wrap_if_bufend c (n - top_size)\<rparr>))
      else (n, c\<lparr>buf := blit (buf_end c) (take n src) (buf c), buf_end := wrap_if_bufend c (buf_end c + n)\<rparr>))"

definition cbuf_flush :: "cbuf \<Rightarrow> cbuf" where
  "cbuf_flush c = c\<lparr>buf_begin := 0, buf_end := 0\<rparr>"

definition cbuf_remove :: "cbuf \<Rightarrow> nat \<Rightarrow> nat \<times> cbuf" where
  "cbuf_remove c sz =
     (let bytes_available = cbuf_available c in
      if sz \<ge> bytes_available then (0, cbuf_flush c)
      else let n = (if sz < bytes_available then sz else bytes_available);
               c = (if buf_end c < buf_begin c \<and> n > buf_size c - buf_begin c
                    then c\<lparr>buf_begin := wrap_if_bufend c (n - (buf_size c - buf_begin c))\<rparr>
                    else c\<lparr>buf_begin := wrap_if_bufend c (buf_begin c + n)\<rparr>)
           in (cbuf_available c, c))"

text \<open>\<open>alloc\<close> says whether the new array could be allocated.\<close>

definition cbuf_resize :: "bool \<Rightarrow> cbuf \<Rightarrow> nat \<Rightarrow> nat \<times> cbuf" where
  "cbuf_resize alloc c newSize =
     (let bytes_available = cbuf_available c in
      if newSize \<le> bytes_available \<or> newSize = buf_size c then (buf_size c, c)
      else if \<not> alloc then (buf_size c, c)
      else (newSize, \<lparr>buf_size = newSize, buf = fst (cbuf_read_block c bytes_available) @ replicate (newSize - bytes_available) 0,
              buf_begin = 0, buf_end = bytes_available\<rparr>))"

definition cbuf_resizeAdd :: "bool \<Rightarrow> cbuf \<Rightarrow> nat \<Rightarrow> nat \<times> cbuf" where
  "cbuf_resizeAdd alloc c addSize = cbuf_resize alloc c (buf_size c + addSize)"

section \<open>The contents\<close>

definition cbuf_inv :: "nat \<Rightarrow> cbuf \<Rightarrow> bool" where
  "cbuf_inv n c \<longleftrightarrow> buf_size c = n \<and> length (buf c) = n \<and> 0 < n \<and> n < 2 ^ 32 \<and> buf_begin c < n \<and> buf_end c < n"

definition contents :: "cbuf \<Rightarrow> u8 list" where
  "contents c = circ (buf c) (buf_begin c) (cbuf_available c)"

lemma length_contents [simp]: "length (contents c) = cbuf_available c"
  by (simp add: contents_def)

lemma available_mod: "cbuf_inv n c \<Longrightarrow> cbuf_available c = (buf_end c + n - buf_begin c) mod n"
  by (auto simp: cbuf_inv_def cbuf_available_def mod_if)

lemma available_less: "cbuf_inv n c \<Longrightarrow> cbuf_available c < n"
  by (simp add: available_mod) (simp add: cbuf_inv_def)

lemma end_pos: "cbuf_inv n c \<Longrightarrow> buf_end c = (buf_begin c + cbuf_available c) mod n"
  by (auto simp: cbuf_inv_def cbuf_available_def mod_if)

lemma available_unique:
  assumes "cbuf_inv n c" "a < n" "buf_end c = (buf_begin c + a) mod n"
  shows "cbuf_available c = a"
  using mod_neq [of a "cbuf_available c" n "buf_begin c"] mod_neq [of "cbuf_available c" a n "buf_begin c"]
    assms available_less [OF assms(1)] end_pos [OF assms(1)]
  by (cases a "cbuf_available c" rule: linorder_cases) auto

lemma wrapped_difference: "d < n \<Longrightarrow> n < 2 ^ 32 \<Longrightarrow> (n + 2 ^ 32 - d - 1) mod 2 ^ 32 = n - 1 - (d :: nat)"
proof -
  assume "d < n" "n < 2 ^ 32"
  then have "n + 2 ^ 32 - d - 1 = (n - 1 - d) + 2 ^ 32" "n - 1 - d < 2 ^ 32" by simp_all
  then show ?thesis by (simp only: mod_add_self2 mod_less)
qed

lemma room_eq:
  assumes "cbuf_inv n c"
  shows "cbuf_room c = n - 1 - cbuf_available c"
proof (cases "buf_end c \<ge> buf_begin c")
  case True
  have "buf_size c = n" "n < 2 ^ 32" "buf_end c - buf_begin c < n" using assms by (auto simp: cbuf_inv_def)
  with True show ?thesis by (simp only: cbuf_room_def cbuf_available_def if_True wrapped_difference)
qed (use assms in \<open>auto simp: cbuf_inv_def cbuf_room_def cbuf_available_def\<close>)

lemma wrap_eq: "cbuf_inv n c \<Longrightarrow> p \<le> n \<Longrightarrow> wrap_if_bufend c p = p mod n"
  by (auto simp: cbuf_inv_def wrap_if_bufend_def)

lemma empty_eq: "cbuf_inv n c \<Longrightarrow> cbuf_empty c \<longleftrightarrow> contents c = []"
  using length_contents [of c] unfolding length_0_conv [symmetric] by (auto simp: cbuf_empty_def cbuf_available_def cbuf_inv_def)

lemma full_eq: "cbuf_inv n c \<Longrightarrow> cbuf_full c \<longleftrightarrow> cbuf_available c = n - 1"
  by (auto simp: cbuf_inv_def cbuf_full_def wrap_if_bufend_def cbuf_available_def)

text \<open>Moving the begin forward drops items, whatever the way it is computed.\<close>

lemma begin_forward:
  assumes "cbuf_inv n c" "k \<le> cbuf_available c" "b = (buf_begin c + k) mod n"
  shows "cbuf_inv n (c\<lparr>buf_begin := b\<rparr>)" "cbuf_available (c\<lparr>buf_begin := b\<rparr>) = cbuf_available c - k"
    "contents (c\<lparr>buf_begin := b\<rparr>) = drop k (contents c)"
proof -
  show inv: "cbuf_inv n (c\<lparr>buf_begin := b\<rparr>)" using assms by (simp add: cbuf_inv_def)
  have "(b + (cbuf_available c - k)) mod n = (buf_begin c + k + (cbuf_available c - k)) mod n"
    unfolding assms(3) by (rule mod_add_left_eq)
  then show av: "cbuf_available (c\<lparr>buf_begin := b\<rparr>) = cbuf_available c - k"
    using assms(2) available_less [OF assms(1)] end_pos [OF assms(1)]
    by (intro available_unique [OF inv]) (simp_all del: mod_add_left_eq)
  show "contents (c\<lparr>buf_begin := b\<rparr>) = drop k (contents c)"
    using assms(1) circ_drop [OF assms(2), of "buf c" "buf_begin c"]
    by (simp add: contents_def av assms(3) [symmetric] cbuf_inv_def)
qed

text \<open>A fresh buffer is empty, unless it has no array at all: then it claims to have room for four gigabytes.\<close>

lemma cbuf_new_inv: "0 < length fresh \<Longrightarrow> length fresh < 2 ^ 32 \<Longrightarrow> cbuf_inv (length fresh) (cbuf_new fresh) \<and> contents (cbuf_new fresh) = []"
  by (simp add: cbuf_inv_def cbuf_new_def contents_def cbuf_available_def)

lemma cbuf_new_zero: "cbuf_room (cbuf_new []) = 2 ^ 32 - 1 \<and> \<not> cbuf_full (cbuf_new [])"
  by (simp add: cbuf_new_def cbuf_room_def cbuf_full_def wrap_if_bufend_def)

section \<open>Reading\<close>

text \<open>The two pieces that the block operations copy are the first items of the contents.\<close>

lemma pieces:
  assumes "cbuf_inv n c" "k \<le> cbuf_available c"
  shows "take k (contents c) = (if buf_end c < buf_begin c \<and> k > n - buf_begin c
    then take (n - buf_begin c) (drop (buf_begin c) (buf c)) @ take (k - (n - buf_begin c)) (buf c)
    else take k (drop (buf_begin c) (buf c)))"
proof (cases "buf_begin c + k \<le> n")
  case True
  then show ?thesis
    using assms circ_straight [of "buf_begin c" k "buf c"]
    by (auto simp: contents_def circ_take cbuf_inv_def)
next
  case False
  define j where "j = n - buf_begin c"
  have j: "k = j + (k - j)" "buf_begin c + j = n" "k - j \<le> n" and w: "buf_end c < buf_begin c"
    using False assms available_less [OF assms(1)] by (auto simp: j_def cbuf_inv_def cbuf_available_def split: if_splits)
  have "circ (buf c) (buf_begin c) k = circ (buf c) (buf_begin c) j @ circ (buf c) 0 (k - j)"
    using circ_split [of "buf c" "buf_begin c" j "k - j"] j assms(1) by (simp add: cbuf_inv_def)
  then show ?thesis
    using False w j assms circ_straight [of "buf_begin c" j "buf c"] circ_straight [of 0 "k - j" "buf c"]
    by (simp add: contents_def circ_take cbuf_inv_def j_def [symmetric])
qed

lemma new_begin:
  assumes "cbuf_inv n c" "k \<le> cbuf_available c"
  shows "wrap_if_bufend c (if buf_end c < buf_begin c \<and> k > n - buf_begin c then k - (n - buf_begin c) else buf_begin c + k)
    = (buf_begin c + k) mod n"
proof -
  have n: "buf_begin c < n" "cbuf_available c < n" using assms(1) available_less [OF assms(1)] by (simp_all add: cbuf_inv_def)
  show ?thesis
  proof (cases "buf_end c < buf_begin c \<and> k > n - buf_begin c")
    case True
    then show ?thesis
      using n assms(2) wrap_eq [OF assms(1), of "k - (n - buf_begin c)"] le_mod_geq [of n "buf_begin c + k"]
      by (auto simp: add.commute)
  next
    case False
    then have "buf_begin c + k \<le> n"
      using assms by (auto simp: cbuf_available_def cbuf_inv_def split: if_splits)
    then show ?thesis unfolding if_not_P [OF False] by (rule wrap_eq [OF assms(1)])
  qed
qed

lemma peek_block_eq: "cbuf_inv n c \<Longrightarrow> cbuf_peek_block c sz = take sz (contents c)"
  using pieces [of n c "min sz (cbuf_available c)"] length_contents [of c]
  by (auto simp: cbuf_peek_block_def Let_def cbuf_inv_def min_def)

lemma read_block_eq:
  assumes "cbuf_inv n c" "cbuf_read_block c sz = (bs, c')"
  shows "bs = take sz (contents c)" "contents c' = drop sz (contents c)" "cbuf_inv n c'"
proof -
  define k where "k = (if sz < cbuf_available c then sz else cbuf_available c)"
  have k: "k \<le> cbuf_available c" "take k (contents c) = take sz (contents c)" "drop k (contents c) = drop sz (contents c)"
    by (auto simp: k_def)
  have sz: "buf_size c = n" "buf_begin c < n" using assms(1) by (simp_all add: cbuf_inv_def)
  show "bs = take sz (contents c)"
    using pieces [OF assms(1) k(1)] assms(2) by (auto simp: cbuf_read_block_def Let_def k_def [symmetric] k(2) sz split: if_splits)
  have "c' = c\<lparr>buf_begin := (buf_begin c + k) mod n\<rparr>"
    using assms(2) new_begin [OF assms(1) k(1)] by (auto simp: cbuf_read_block_def Let_def k_def [symmetric] sz split: if_splits)
  then show "contents c' = drop sz (contents c)" "cbuf_inv n c'"
    using begin_forward [OF assms(1) k(1)] k(3) by simp_all
qed

lemma read_eq:
  assumes "cbuf_inv n c"
  shows "contents c = [] \<Longrightarrow> cbuf_read c = (- 1, c)"
    "contents c \<noteq> [] \<Longrightarrow> fst (cbuf_read c) = int (unat (hd (contents c)))"
    "contents c \<noteq> [] \<Longrightarrow> contents (snd (cbuf_read c)) = tl (contents c) \<and> cbuf_inv n (snd (cbuf_read c))"
proof -
  show "contents c = [] \<Longrightarrow> cbuf_read c = (- 1, c)"
    using empty_eq [OF assms] by (simp add: cbuf_read_def)
  assume ne: "contents c \<noteq> []"
  then obtain k where k: "cbuf_available c = Suc k" using length_contents [of c] by (metis Suc_pred length_greater_0_conv)
  then have "contents c = buf c ! buf_begin c # circ (buf c) (Suc (buf_begin c) mod length (buf c)) k"
    using assms circ_get [of "buf c" "buf_begin c" k] by (simp add: contents_def cbuf_inv_def)
  then show "fst (cbuf_read c) = int (unat (hd (contents c)))"
    using ne empty_eq [OF assms] by (simp add: cbuf_read_def)
  have "wrap_if_bufend c (buf_begin c + 1) = (buf_begin c + 1) mod n"
    using assms by (intro wrap_eq) (auto simp: cbuf_inv_def)
  then show "contents (snd (cbuf_read c)) = tl (contents c) \<and> cbuf_inv n (snd (cbuf_read c))"
    using begin_forward [OF assms, of 1] ne k empty_eq [OF assms] by (simp add: cbuf_read_def drop_Suc)
qed

section \<open>Writing\<close>

text \<open>What a write of \<open>k\<close> items has to do to the array and the end pointer.\<close>

lemma end_forward:
  assumes "cbuf_inv n c" "k \<le> n - 1 - cbuf_available c" "k \<le> length src" "length b = n"
    and b: "\<And>i. i < n \<Longrightarrow> b ! ((buf_end c + i) mod n) = (if i < k then src ! i else buf c ! ((buf_end c + i) mod n))"
    and e: "e = (buf_end c + k) mod n"
  shows "contents (c\<lparr>buf := b, buf_end := e\<rparr>) = contents c @ take k src \<and> cbuf_inv n (c\<lparr>buf := b, buf_end := e\<rparr>)"
proof -
  let ?c = "c\<lparr>buf := b, buf_end := e\<rparr>"
  have n: "length (buf c) = n" "0 < n" and av: "cbuf_available c < n"
    using assms(1) available_less [OF assms(1)] by (simp_all add: cbuf_inv_def)
  have inv: "cbuf_inv n ?c" using assms(1,4) e by (simp add: cbuf_inv_def)
  have "e = (buf_begin c + (cbuf_available c + k)) mod n"
    unfolding e end_pos [OF assms(1)] by (simp add: mod_add_left_eq add.assoc)
  then have "cbuf_available ?c = cbuf_available c + k"
    using assms(2) av by (intro available_unique [OF inv]) simp_all
  moreover have "circ b (buf_begin c) (cbuf_available c + k) = circ (buf c) (buf_begin c) (cbuf_available c) @ take k src"
    by (rule circ_append) (use assms(2-4) n av b end_pos [OF assms(1)] in \<open>auto simp: mod_add_left_eq\<close>)
  ultimately show ?thesis using inv by (simp add: contents_def)
qed

lemma write_eq:
  assumes "cbuf_inv n c"
  shows "contents (snd (cbuf_write c x)) = list_put (n - 1) x (contents c) \<and> cbuf_inv n (snd (cbuf_write c x))"
    "fst (cbuf_write c x) = (if cbuf_available c < n - 1 then 1 else 0)"
proof -
  have av: "cbuf_available c < n" and n: "length (buf c) = n" "buf_end c < n"
    using assms available_less [OF assms] by (simp_all add: cbuf_inv_def)
  then show "fst (cbuf_write c x) = (if cbuf_available c < n - 1 then 1 else 0)"
    using full_eq [OF assms] by (auto simp: cbuf_write_def)
  show "contents (snd (cbuf_write c x)) = list_put (n - 1) x (contents c) \<and> cbuf_inv n (snd (cbuf_write c x))"
  proof (cases "cbuf_full c")
    case False
    have "(buf c)[buf_end c := x] ! ((buf_end c + i) mod n) = (if i < 1 then [x] ! i else buf c ! ((buf_end c + i) mod n))"
      if "i < n" for i
      using mod_neq [of 0 i n "buf_end c"] that n by (cases i) auto
    moreover have "wrap_if_bufend c (buf_end c + 1) = (buf_end c + 1) mod n" using n by (intro wrap_eq [OF assms]) simp
    ultimately show ?thesis
      using end_forward [OF assms, of 1 "[x]" "(buf c)[buf_end c := x]" "(buf_end c + 1) mod n"] False full_eq [OF assms] av n
      by (auto simp: cbuf_write_def list_put_def)
  qed (use assms full_eq [OF assms] in \<open>simp add: cbuf_write_def list_put_def\<close>)
qed

lemma write_block_eq:
  assumes "cbuf_inv n c" "cbuf_write_block c src = (r, c')"
  shows "r = min (length src) (cbuf_room c)" "contents c' = contents c @ take r src" "cbuf_inv n c'"
proof -
  define k where "k = (if length src < cbuf_room c then length src else cbuf_room c)"
  have r: "r = k" using assms(2) by (auto simp: cbuf_write_block_def k_def Let_def split: if_splits)
  then show "r = min (length src) (cbuf_room c)" by (auto simp: k_def)
  have k: "k \<le> n - 1 - cbuf_available c" "k \<le> length src" by (auto simp: k_def room_eq [OF assms(1)])
  have n: "buf_size c = n" "length (buf c) = n" "buf_end c < n" "buf_begin c < n" and av: "cbuf_available c < n"
    using assms(1) available_less [OF assms(1)] by (simp_all add: cbuf_inv_def)
  have "contents c' = contents c @ take k src \<and> cbuf_inv n c'"
  proof (cases "buf_end c \<ge> buf_begin c \<and> k > n - buf_end c")
    case True
    define t where "t = n - buf_end c"
    define b where "b = blit 0 (take (k - t) (drop t src)) (blit (buf_end c) (take t src) (buf c))"
    have t: "t < k" "buf_end c + t = n" "t \<le> length src" "k - t \<le> buf_end c"
      using True k n av by (auto simp: t_def cbuf_available_def)
    have len: "length b = n" using t k n by (simp add: b_def length_blit)
    have "b ! ((buf_end c + i) mod n) = (if i < k then src ! i else buf c ! ((buf_end c + i) mod n))" if "i < n" for i
    proof (cases "buf_end c + i < n")
      case True
      then show ?thesis using t k n by (simp add: b_def nth_blit length_blit)
    next
      case False
      then have "(buf_end c + i) mod n = i - t" "t \<le> i" "i - t < buf_end c"
        using t that by (auto simp: mod_if)
      then show ?thesis using t k n that by (auto simp: b_def nth_blit length_blit)
    qed
    moreover have "wrap_if_bufend c (k - t) = (buf_end c + k) mod n"
      using t k wrap_eq [OF assms(1), of "k - t"] le_mod_geq [of n "buf_end c + k"] by auto
    moreover have "c' = c\<lparr>buf := b, buf_end := wrap_if_bufend c (k - t)\<rparr>"
      using True assms(2) by (auto simp: cbuf_write_block_def k_def [symmetric] Let_def n t_def [symmetric] b_def)
    ultimately show ?thesis using end_forward [OF assms(1) k len] by simp
  next
    case False
    then have s: "buf_end c + k \<le> n"
      using k n av by (auto simp: cbuf_available_def split: if_splits)
    define b where "b = blit (buf_end c) (take k src) (buf c)"
    have len: "length b = n" using s k n by (simp add: b_def length_blit)
    have "b ! ((buf_end c + i) mod n) = (if i < k then src ! i else buf c ! ((buf_end c + i) mod n))" if "i < n" for i
      using s k n that by (cases "buf_end c + i < n") (auto simp: b_def nth_blit mod_if)
    moreover have "wrap_if_bufend c (buf_end c + k) = (buf_end c + k) mod n" using s by (rule wrap_eq [OF assms(1)])
    moreover have "c' = c\<lparr>buf := b, buf_end := wrap_if_bufend c (buf_end c + k)\<rparr>"
      using False assms(2) by (auto simp: cbuf_write_block_def k_def [symmetric] Let_def n b_def)
    ultimately show ?thesis using end_forward [OF assms(1) k len] by simp
  qed
  then show "contents c' = contents c @ take r src" "cbuf_inv n c'" by (simp_all add: r)
qed

section \<open>Removing and resizing\<close>

lemma flush_eq: "cbuf_inv n c \<Longrightarrow> contents (cbuf_flush c) = [] \<and> cbuf_inv n (cbuf_flush c)"
  by (auto simp: cbuf_flush_def cbuf_inv_def contents_def cbuf_available_def)

lemma remove_eq:
  assumes "cbuf_inv n c" "cbuf_remove c sz = (r, c')"
  shows "contents c' = drop sz (contents c) \<and> cbuf_inv n c' \<and> r = length (contents c')"
proof -
  have sz: "buf_size c = n" using assms(1) by (simp add: cbuf_inv_def)
  show ?thesis
  proof (cases "sz \<ge> cbuf_available c")
    case True
    then show ?thesis using assms(2) flush_eq [OF assms(1)] by (auto simp: cbuf_remove_def Let_def)
  next
    case False
    then have "c' = c\<lparr>buf_begin := (buf_begin c + sz) mod n\<rparr>" "r = cbuf_available c'"
      using assms(2) new_begin [OF assms(1), of sz] by (auto simp: cbuf_remove_def Let_def sz split: if_splits)
    then show ?thesis using begin_forward [OF assms(1), of sz] False by simp
  qed
qed

lemma resize_eq:
  assumes "cbuf_inv n c" "newSize < 2 ^ 32" "cbuf_resize alloc c newSize = (r, c')"
  shows "contents c' = contents c \<and> cbuf_inv r c' \<and> r = (if alloc \<and> newSize > cbuf_available c then newSize else n)"
proof (cases "alloc \<and> newSize > cbuf_available c \<and> newSize \<noteq> n")
  case True
  obtain bs c1 where rb: "cbuf_read_block c (cbuf_available c) = (bs, c1)" by fastforce
  have bs: "bs = contents c" using read_block_eq(1) [OF assms(1) rb] by simp
  have c': "c' = \<lparr>buf_size = newSize, buf = bs @ replicate (newSize - cbuf_available c) 0, buf_begin = 0, buf_end = cbuf_available c\<rparr>"
    "r = newSize"
    using True assms by (auto simp: cbuf_resize_def rb cbuf_inv_def Let_def split: if_splits)
  have "circ (bs @ replicate (newSize - cbuf_available c) 0) 0 (cbuf_available c) = bs"
    using True by (subst circ_straight) (simp_all add: bs)
  then show ?thesis using True assms(2) by (auto simp: c' cbuf_inv_def contents_def cbuf_available_def bs)
qed (use assms in \<open>auto simp: cbuf_resize_def cbuf_inv_def Let_def split: if_splits\<close>)

section \<open>The buffer as a queue\<close>

definition cbuf_put :: "u8 \<Rightarrow> cbuf \<Rightarrow> cbuf" where
  "cbuf_put x c = snd (cbuf_write c x)"

definition cbuf_get :: "cbuf \<Rightarrow> u8 \<times> cbuf" where
  "cbuf_get c = (word_of_int (fst (cbuf_read c)), snd (cbuf_read c))"

interpretation cb: bounded_queue cbuf_put "\<lambda>c. \<not> cbuf_empty c" cbuf_get contents "cbuf_inv n" "n - 1" for n
  by unfold_locales (simp_all add: cbuf_put_def cbuf_get_def write_eq read_eq empty_eq)

text \<open>(C14) Block operations are single operations repeated: for every block size and every position of the two pointers,
  a block write leaves the contents that writing its bytes one by one leaves, dropping what does not fit,
  and reports how many fitted; a block read returns what single reads return and leaves what they leave;
  removing drops as many from the front; and growing or shrinking the buffer keeps the contents.\<close>

theorem cbuf_blocks_equal_bytes:
  assumes "cbuf_inv n c" "newSize < 2 ^ 32"
  shows "contents (snd (cbuf_write_block c src)) = contents (snd (queue_run cbuf_put (\<lambda>c. \<not> cbuf_empty c) cbuf_get (map Arrive src) c))
    \<and> fst (cbuf_write_block c src) = min (length src) (n - 1 - length (contents c))
    \<and> fst (cbuf_read_block c k) = fst (queue_run cbuf_put (\<lambda>c. \<not> cbuf_empty c) cbuf_get (replicate k Take) c)
    \<and> contents (snd (cbuf_read_block c k)) = contents (snd (queue_run cbuf_put (\<lambda>c. \<not> cbuf_empty c) cbuf_get (replicate k Take) c))
    \<and> contents (snd (cbuf_remove c k)) = drop k (contents c)
    \<and> contents (snd (cbuf_resize alloc c newSize)) = contents c"
proof -
  obtain r c1 where w: "cbuf_write_block c src = (r, c1)" by fastforce
  obtain bs c2 where rd: "cbuf_read_block c k = (bs, c2)" by fastforce
  obtain q c3 where rm: "cbuf_remove c k = (q, c3)" by fastforce
  obtain s c4 where rs: "cbuf_resize alloc c newSize = (s, c4)" by fastforce
  show ?thesis
    using write_block_eq [OF assms(1) w] read_block_eq [OF assms(1) rd] remove_eq [OF assms(1) rm] resize_eq [OF assms rs]
      cb.run_refines [OF assms(1), of "map Arrive src"] cb.run_refines [OF assms(1), of "replicate k Take"]
    by (simp add: w rd rm rs list_run_takes list_run_arrivals room_eq [OF assms(1)] min_def)
qed

theorem cbuf_blocks_equal_bytes_witness:
  "contents (snd (cbuf_write_block \<lparr>buf_size = 4, buf = [7, 0, 0, 6], buf_begin = 3, buf_end = 1\<rparr> [1, 2])) = [6, 7, 1]"
proof -
  let ?c = "\<lparr>buf_size = 4, buf = [7, 0, 0, 6], buf_begin = 3, buf_end = 1\<rparr>"
  have inv: "cbuf_inv 4 ?c" by (simp add: cbuf_inv_def)
  have "contents ?c = [6, 7]" by (simp add: contents_def cbuf_available_def circ_def upt_rec)
  then show ?thesis
    using cbuf_blocks_equal_bytes [OF inv, of 0 "[1, 2]"] cb.run_refines [OF inv, of "map Arrive [1, 2]"]
    by (simp add: list_run_arrivals list_put_def)
qed

end
