(* ===== verification/Ring_Buffer.thy ===== *)
theory Ring_Buffer
  imports Bounded_Queue
begin

text \<open>
  LUFA's ring buffer, \<^verbatim>\<open>Drivers/Misc/RingBuffer.h\<close>, and its use in the project \<^verbatim>\<open>USBtoSerial\<close>. The structure holds
  pointers into a data array that belongs to the caller: pointers are 16 bit addresses and the memory is
  part of the state, as is the global interrupt flag that the functions save, clear and restore.
\<close>

section \<open>State and operations\<close>

record RingBuffer_t =
  rb_In :: u16
  rb_Out :: u16
  rb_Start :: u16
  rb_End :: u16
  rb_Size :: u8
  rb_Count :: u16

record rb_state =
  ring :: RingBuffer_t
  mem :: "u16 \<Rightarrow> u8"
  irq_on :: bool

text \<open>A change of the structure with interrupts off.\<close>

definition locked :: "(RingBuffer_t \<Rightarrow> RingBuffer_t) \<Rightarrow> rb_state \<Rightarrow> rb_state" where
  "locked f s = (let CurrentGlobalInt = irq_on s; s = s\<lparr>irq_on := False\<rparr>; s = s\<lparr>ring := f (ring s)\<rparr>
     in s\<lparr>irq_on := CurrentGlobalInt\<rparr>)"

definition RingBuffer_InitBuffer :: "u16 \<Rightarrow> u16 \<Rightarrow> rb_state \<Rightarrow> rb_state" where
  "RingBuffer_InitBuffer DataPtr Sz =
     locked (\<lambda>_. \<lparr>rb_In = DataPtr, rb_Out = DataPtr, rb_Start = DataPtr, rb_End = DataPtr + Sz, rb_Size = ucast Sz, rb_Count = 0\<rparr>)"

definition RingBuffer_GetCount :: "rb_state \<Rightarrow> u16" where
  "RingBuffer_GetCount s = rb_Count (ring s)"

text \<open>Both operands are promoted to \<^verbatim>\<open>unsigned int\<close>, which has 16 bits here.\<close>

definition RingBuffer_GetFreeCount :: "rb_state \<Rightarrow> u16" where
  "RingBuffer_GetFreeCount s = ucast (rb_Size (ring s)) - RingBuffer_GetCount s"

definition RingBuffer_IsEmpty :: "rb_state \<Rightarrow> bool" where
  "RingBuffer_IsEmpty s \<longleftrightarrow> RingBuffer_GetCount s = 0"

definition RingBuffer_IsFull :: "rb_state \<Rightarrow> bool" where
  "RingBuffer_IsFull s \<longleftrightarrow> RingBuffer_GetCount s = ucast (rb_Size (ring s))"

definition advance :: "RingBuffer_t \<Rightarrow> u16 \<Rightarrow> u16" where
  "advance r p = (if p + 1 = rb_End r then rb_Start r else p + 1)"

definition RingBuffer_Insert :: "u8 \<Rightarrow> rb_state \<Rightarrow> rb_state" where
  "RingBuffer_Insert d s =
     (let s = s\<lparr>mem := (mem s)(rb_In (ring s) := d)\<rparr>;
          s = s\<lparr>ring := (ring s)\<lparr>rb_In := advance (ring s) (rb_In (ring s))\<rparr>\<rparr>
      in locked (\<lambda>r. r\<lparr>rb_Count := rb_Count r + 1\<rparr>) s)"

definition RingBuffer_Remove :: "rb_state \<Rightarrow> u8 \<times> rb_state" where
  "RingBuffer_Remove s =
     (let d = mem s (rb_Out (ring s));
          s = s\<lparr>ring := (ring s)\<lparr>rb_Out := advance (ring s) (rb_Out (ring s))\<rparr>\<rparr>
      in (d, locked (\<lambda>r. r\<lparr>rb_Count := rb_Count r - 1\<rparr>) s))"

definition RingBuffer_Peek :: "rb_state \<Rightarrow> u8" where
  "RingBuffer_Peek s = mem s (rb_Out (ring s))"

text \<open>The USB side of the main loop of \<^verbatim>\<open>USBtoSerial\<close>: a byte is asked for, and stored, only if the buffer is not full;
  \<open>ReceivedByte\<close> is what \<^verbatim>\<open>CDC_Device_ReceiveByte\<close> returns then, negative for no byte. The handler of the UART
  interrupt stores its byte without the test.\<close>

definition usb_to_usart :: "int \<Rightarrow> rb_state \<Rightarrow> rb_state" where
  "usb_to_usart ReceivedByte s =
     (if \<not> RingBuffer_IsFull s then if \<not> ReceivedByte < 0 then RingBuffer_Insert (word_of_int ReceivedByte) s else s else s)"

definition USBtoSerial_RX_isr :: "bool \<Rightarrow> u8 \<Rightarrow> rb_state \<Rightarrow> rb_state" where
  "USBtoSerial_RX_isr configured b s = (if configured then RingBuffer_Insert b s else s)"

section \<open>The contents\<close>

definition rb_data :: "nat \<Rightarrow> rb_state \<Rightarrow> u8 list" where
  "rb_data cap s = map (\<lambda>i. mem s (rb_Start (ring s) + of_nat i)) [0..<cap]"

definition offset :: "rb_state \<Rightarrow> nat" where
  "offset s = unat (rb_Out (ring s) - rb_Start (ring s))"

definition rb_inv :: "nat \<Rightarrow> rb_state \<Rightarrow> bool" where
  "rb_inv cap s \<longleftrightarrow> 0 < cap \<and> cap < 256 \<and> rb_End (ring s) = rb_Start (ring s) + of_nat cap
     \<and> rb_Size (ring s) = of_nat cap \<and> unat (rb_Count (ring s)) \<le> cap \<and> offset s < cap
     \<and> rb_In (ring s) = rb_Start (ring s) + of_nat ((offset s + unat (rb_Count (ring s))) mod cap)"

definition rb_list :: "nat \<Rightarrow> rb_state \<Rightarrow> u8 list" where
  "rb_list cap s = circ (rb_data cap s) (offset s) (unat (rb_Count (ring s)))"

lemma length_rb_data [simp]: "length (rb_data cap s) = cap"
  by (simp add: rb_data_def)

lemma length_rb_list [simp]: "length (rb_list cap s) = unat (rb_Count (ring s))"
  by (simp add: rb_list_def)

lemma of_nat16_inj: "i < 256 \<Longrightarrow> j < 256 \<Longrightarrow> (of_nat i :: u16) = of_nat j \<longleftrightarrow> i = j"
  by (simp add: of_nat_eq_iff word_unat_eq_iff unat_of_nat take_bit_eq_mod)

lemma unat16: "i < 65536 \<Longrightarrow> unat (of_nat i :: u16) = i"
  by (simp add: unat_of_nat take_bit_eq_mod)

lemma out_pos: "rb_Out (ring s) = rb_Start (ring s) + of_nat (offset s)"
  by (simp add: offset_def)

lemma advance_eq:
  assumes "rb_inv cap s" "o' < cap"
  shows "advance (ring s) (rb_Start (ring s) + of_nat o') = rb_Start (ring s) + of_nat (Suc o' mod cap)"
proof -
  have "rb_Start (ring s) + of_nat o' + 1 = rb_End (ring s) \<longleftrightarrow> (of_nat (Suc o') :: u16) = of_nat cap"
    using assms(1) by (auto simp: rb_inv_def algebra_simps)
  also have "\<dots> \<longleftrightarrow> Suc o' = cap" using assms by (intro of_nat16_inj) (auto simp: rb_inv_def)
  finally show ?thesis using assms(2) by (auto simp: advance_def algebra_simps)
qed

lemma rb_full_eq: "rb_inv cap s \<Longrightarrow> RingBuffer_IsFull s \<longleftrightarrow> length (rb_list cap s) = cap"
  by (auto simp: RingBuffer_IsFull_def RingBuffer_GetCount_def rb_inv_def word_unat_eq_iff unat_of_nat take_bit_eq_mod
      unsigned_ucast_eq)

lemma insert_eq:
  assumes "rb_inv cap s" "unat (rb_Count (ring s)) < cap"
  shows "rb_inv cap (RingBuffer_Insert x s) \<and> rb_list cap (RingBuffer_Insert x s) = rb_list cap s @ [x]"
proof -
  define k where "k = unat (rb_Count (ring s))"
  define p where "p = (offset s + k) mod cap"
  have cap: "0 < cap" "cap < 256" "k < cap" "p < cap" and inp: "rb_In (ring s) = rb_Start (ring s) + of_nat p"
    using assms by (simp_all add: rb_inv_def k_def p_def)
  let ?t = "RingBuffer_Insert x s"
  have t: "rb_Start (ring ?t) = rb_Start (ring s)" "rb_End (ring ?t) = rb_End (ring s)" "rb_Size (ring ?t) = rb_Size (ring s)"
    "rb_Out (ring ?t) = rb_Out (ring s)" "rb_Count (ring ?t) = rb_Count (ring s) + 1" "mem ?t = (mem s)(rb_In (ring s) := x)"
    "rb_In (ring ?t) = advance (ring s) (rb_In (ring s))"
    by (simp_all add: RingBuffer_Insert_def locked_def Let_def)
  have n: "unat (rb_Count (ring s) + 1) = Suc k"
    using cap unat_word_ariths(1) [of "rb_Count (ring s)" 1] by (simp add: k_def [symmetric])
  have off: "offset ?t = offset s" by (simp add: offset_def t)
  have "rb_data cap ?t = (rb_data cap s)[p := x]"
  proof (rule nth_equalityI)
    fix i assume "i < length (rb_data cap ?t)"
    then show "rb_data cap ?t ! i = (rb_data cap s)[p := x] ! i"
      using cap of_nat16_inj [of i p] by (auto simp: rb_data_def t inp nth_list_update)
  qed simp
  then have l: "rb_list cap ?t = rb_list cap s @ [x]"
    using circ_put [of k "rb_data cap s" "offset s" x] cap by (simp add: rb_list_def t n off p_def k_def [symmetric])
  have "rb_In (ring ?t) = rb_Start (ring s) + of_nat ((offset s + Suc k) mod cap)"
    unfolding t(7) inp advance_eq [OF assms(1) cap(4)] by (simp add: p_def mod_Suc_eq)
  then have "rb_inv cap ?t"
    using assms(1) cap by (simp add: rb_inv_def t n off)
  with l show ?thesis by simp
qed

lemma rb_remove_eq:
  assumes "rb_inv cap s" "rb_list cap s \<noteq> []"
  shows "fst (RingBuffer_Remove s) = hd (rb_list cap s)" "RingBuffer_Peek s = hd (rb_list cap s)"
    "rb_inv cap (snd (RingBuffer_Remove s)) \<and> rb_list cap (snd (RingBuffer_Remove s)) = tl (rb_list cap s)"
proof -
  obtain k where k: "unat (rb_Count (ring s)) = Suc k"
    using assms(2) by (metis Suc_pred length_greater_0_conv length_rb_list)
  have cap: "0 < cap" "cap < 256" "Suc k \<le> cap" "offset s < cap"
    using assms(1) k by (simp_all add: rb_inv_def)
  let ?t = "snd (RingBuffer_Remove s)"
  have t: "rb_Start (ring ?t) = rb_Start (ring s)" "rb_End (ring ?t) = rb_End (ring s)" "rb_Size (ring ?t) = rb_Size (ring s)"
    "rb_Out (ring ?t) = advance (ring s) (rb_Out (ring s))" "rb_Count (ring ?t) = rb_Count (ring s) - 1" "mem ?t = mem s"
    "rb_In (ring ?t) = rb_In (ring s)"
    by (simp_all add: RingBuffer_Remove_def locked_def Let_def)
  have out: "rb_Out (ring ?t) = rb_Start (ring s) + of_nat (Suc (offset s) mod cap)"
    unfolding t(4) out_pos [of s] using advance_eq [OF assms(1) cap(4)] .
  have "Suc (offset s) mod cap < 65536"
    using cap mod_less_divisor [OF cap(1), of "Suc (offset s)"] by linarith
  then have off: "offset ?t = Suc (offset s) mod cap"
    unfolding offset_def [of ?t] out t(1) by (simp add: unat16)
  have "rb_Count (ring s) \<noteq> 0" using k by auto
  then have n: "unat (rb_Count (ring s) - 1) = k" using k by (simp add: unat_minus_one)
  have dat: "rb_data cap ?t = rb_data cap s" by (simp add: rb_data_def t)
  have l: "rb_list cap s = rb_data cap s ! offset s # circ (rb_data cap s) (Suc (offset s) mod cap) k"
    using circ_get [of "rb_data cap s" "offset s" k] cap by (simp add: rb_list_def k)
  have "mem s (rb_Out (ring s)) = rb_data cap s ! offset s" using cap by (simp add: rb_data_def out_pos)
  then show "fst (RingBuffer_Remove s) = hd (rb_list cap s)" "RingBuffer_Peek s = hd (rb_list cap s)"
    by (simp_all add: l RingBuffer_Remove_def RingBuffer_Peek_def Let_def)
  have "(Suc (offset s) mod cap + k) mod cap = (offset s + Suc k) mod cap" by (simp add: mod_add_left_eq)
  then have "rb_inv cap ?t" using assms(1) cap by (simp add: rb_inv_def t(1-3,5-7) n off k del: mod_add_left_eq)
  then show "rb_inv cap ?t \<and> rb_list cap ?t = tl (rb_list cap s)" by (simp add: l) (simp add: rb_list_def t n off dat)
qed

text \<open>A byte offered to the main loop.\<close>

abbreviation (input) rb_offer :: "u8 \<Rightarrow> rb_state \<Rightarrow> rb_state" where
  "rb_offer b \<equiv> usb_to_usart (uint b)"

interpretation lufa: bounded_queue rb_offer "\<lambda>s. \<not> RingBuffer_IsEmpty s" RingBuffer_Remove "rb_list cap" "rb_inv cap" cap for cap
proof
  fix s x assume inv: "rb_inv cap s"
  have "unat (rb_Count (ring s)) \<le> cap" using inv by (simp add: rb_inv_def)
  then show "rb_list cap (rb_offer x s) = list_put cap x (rb_list cap s)" "rb_inv cap (rb_offer x s)"
    using inv insert_eq [OF inv, of x] rb_full_eq [OF inv] by (auto simp: usb_to_usart_def list_put_def)
  show "\<not> RingBuffer_IsEmpty s \<longleftrightarrow> rb_list cap s \<noteq> []"
    using length_rb_list [of cap s] unfolding length_0_conv [symmetric]
    by (simp add: RingBuffer_IsEmpty_def RingBuffer_GetCount_def unat_eq_0)
qed (simp_all add: rb_remove_eq)

lemma rb_counts:
  assumes "rb_inv cap s"
  shows "unat (RingBuffer_GetCount s) = length (rb_list cap s)" "unat (RingBuffer_GetFreeCount s) = cap - length (rb_list cap s)"
proof -
  have "unat (ucast (rb_Size (ring s)) :: u16) = cap" "unat (rb_Count (ring s)) \<le> cap"
    using assms by (auto simp: rb_inv_def unsigned_ucast_eq unat_of_nat take_bit_eq_mod)
  then show "unat (RingBuffer_GetCount s) = length (rb_list cap s)" "unat (RingBuffer_GetFreeCount s) = cap - length (rb_list cap s)"
    by (simp_all add: RingBuffer_GetCount_def RingBuffer_GetFreeCount_def unat_sub word_le_nat_alt)
qed

lemma init_inv:
  assumes "0 < n" "n < 256"
  shows "rb_inv n (RingBuffer_InitBuffer p (of_nat n) s)" "rb_list n (RingBuffer_InitBuffer p (of_nat n) s) = []"
proof -
  have "ucast (of_nat n :: u16) = (of_nat n :: u8)"
    using assms by (simp add: word_unat_eq_iff unsigned_ucast_eq unsigned_take_bit_eq unat_of_nat take_bit_eq_mod)
  then show "rb_inv n (RingBuffer_InitBuffer p (of_nat n) s)" "rb_list n (RingBuffer_InitBuffer p (of_nat n) s) = []"
    using assms by (simp_all add: RingBuffer_InitBuffer_def locked_def rb_inv_def rb_list_def offset_def Let_def)
qed

text \<open>(C23) LUFA's ring buffer, initialised for \<open>n\<close> bytes with \<open>n\<close> below 256 and used as its header asks (bytes are inserted
  only if it is not full, removed only if it is not empty), is a queue of \<open>n\<close> bytes, for every position of
  the array and every interleaving of insertions and removals, and its counts are those of the queue.\<close>

theorem ring_buffer_refines_queue:
  assumes "0 < n" "n < 256"
    and "queue_run rb_offer (\<lambda>s. \<not> RingBuffer_IsEmpty s) RingBuffer_Remove es (RingBuffer_InitBuffer p (of_nat n) s) = (taken, t)"
    and "list_run n es [] = (taken', q)"
  shows "taken = taken' \<and> unat (RingBuffer_GetCount t) = length q \<and> unat (RingBuffer_GetFreeCount t) = n - length q
    \<and> (q \<noteq> [] \<longrightarrow> RingBuffer_Peek t = hd q)"
proof -
  have r: "taken = taken'" "rb_list n t = q" "rb_inv n t"
    using lufa.run_refines [OF init_inv(1) [OF assms(1,2)], of es p s] assms(3,4) by (simp_all add: init_inv(2) [OF assms(1,2)])
  then show ?thesis using rb_counts [OF r(3)] rb_remove_eq(2) [OF r(3)] by simp
qed

theorem ring_buffer_refines_queue_witness:
  "let s = \<lparr>ring = \<lparr>rb_In = 0, rb_Out = 0, rb_Start = 0, rb_End = 0, rb_Size = 0, rb_Count = 0\<rparr>, mem = \<lambda>_. 0, irq_on = True\<rparr>;
       r = queue_run rb_offer (\<lambda>s. \<not> RingBuffer_IsEmpty s) RingBuffer_Remove [Arrive 5, Arrive 6, Arrive 7, Take]
             (RingBuffer_InitBuffer 0x100 (of_nat 2) s)
   in fst r = [5] \<and> unat (RingBuffer_GetCount (snd r)) = 1 \<and> unat (RingBuffer_GetFreeCount (snd r)) = 1 \<and> RingBuffer_Peek (snd r) = 6"
  using ring_buffer_refines_queue [where n = 2 and es = "[Arrive 5, Arrive 6, Arrive 7, Take]" and taken' = "[5]" and q = "[6]",
      OF _ _ prod.collapse [symmetric]]
  by (simp add: list_put_def Let_def)

section \<open>Misuse\<close>

text \<open>The size is stored in a byte although it is passed in two: a buffer of 256 bytes is full from the start.\<close>

lemma size_truncated: "RingBuffer_IsFull (RingBuffer_InitBuffer p 256 s) \<and> RingBuffer_IsEmpty (RingBuffer_InitBuffer p 256 s)"
  by (simp add: RingBuffer_InitBuffer_def locked_def RingBuffer_IsFull_def RingBuffer_IsEmpty_def RingBuffer_GetCount_def Let_def)

text \<open>A byte that the interrupt handler of \<^verbatim>\<open>USBtoSerial\<close> stores into a full buffer replaces the oldest byte and is the
  next to be removed, before all the bytes that arrived earlier.\<close>

lemma overrun:
  assumes "rb_inv cap s" "length (rb_list cap s) = cap"
  shows "fst (RingBuffer_Remove (USBtoSerial_RX_isr True x s)) = x"
proof -
  have "rb_In (ring s) = rb_Out (ring s)"
    using assms by (simp add: rb_inv_def out_pos)
  then show ?thesis by (simp add: USBtoSerial_RX_isr_def RingBuffer_Remove_def RingBuffer_Insert_def locked_def Let_def)
qed

end
