(* ===== verification/Spec2Isabelle.thy ===== *)
theory Spec2Isabelle
  imports Sim_Mcu Cdc_Touch Stream_Parse Md5_Builder Eeprom Base64 Cbuf Ring_Buffer
begin

text \<open>
  Verification of the programs of the Adelino board.

  \<^bold>\<open>The system.\<close> The board joins an ATmega32U4 and an ESP8266. The boot loader of the ATmega, \<^verbatim>\<open>Firmware/adelino\<close>, is a USB device built on the
  library LUFA, \<^verbatim>\<open>Firmware/lufa-LUFA-111009\<close>: it programs the flash of its own chip with the AVR109 protocol, passes bytes
  between the host and the serial line of the ESP8266, resets the ESP8266, and starts the sketch. A sketch on the ATmega
  uses the Arduino core \<^verbatim>\<open>Platforms/Arduino/AVR/cores/arduino\<close>; closing its USB port at 1200 baud leads back to the boot loader.
  The ESP8266 runs sketches on the core \<^verbatim>\<open>Platforms/Arduino/ESP/cores/esp8266\<close>, whose updater stages an image in the flash and
  leaves a command for the boot loader \<^verbatim>\<open>Platforms/Arduino/ESP/bootloaders/eboot\<close>, which copies the image and starts it.

  \<^bold>\<open>Conventions.\<close> Machine integers are words of their width, \<open>u8\<close>, \<open>u16\<close> and \<open>u32\<close> of \<^verbatim>\<open>Prelude\<close>. The state of a program is a record
  that holds its variables and the state \<open>'h\<close> of its hardware; the hardware itself is a record of functions that is an argument of
  every definition (\<open>mcu\<close>, \<open>wdt\<close>, \<open>uart\<close>, \<open>timer0\<close> on the ATmega, \<open>rom\<close> and \<open>sdk\<close> on the ESP8266). What the theorems need of it are the
  assumptions of a locale, and each of these locales is interpreted on a concrete instance. A function that contains a loop
  without a bound returns an option, defined by \<open>partial_function\<close>, where \<open>None\<close> means that it does not return; no fuel is
  used, and the theorems that say that a call returns give the value \<open>Some\<close>. Reads of uninitialised memory are an
  argument \<open>fresh\<close>. An interrupt may come wherever the program looks at a volatile variable or waits.

  \<^bold>\<open>The boot loader of the ATmega.\<close>
  \<^item> \<^verbatim>\<open>Mcu\<close>, \<^verbatim>\<open>Fw_State\<close>: registers, interrupts and flash programming as parameters; the variables of the image as one record.
  \<^item> \<^verbatim>\<open>Usb_Types\<close>, \<^verbatim>\<open>Descriptors\<close>: the structures of the USB standard and \<^verbatim>\<open>Descriptors.c\<close>. Every answer to a descriptor
    request has the size announced and splits into whole descriptors, the identifiers are taken from the sketch.
  \<^item> \<^verbatim>\<open>Lufa_Endpoint\<close>, \<^verbatim>\<open>Lufa_Controller\<close>, \<^verbatim>\<open>Lufa_Control\<close>: the AVR8 part of LUFA in device mode, with termination of the
    interrupt handler. \<^verbatim>\<open>Control_Stream\<close> and \<^verbatim>\<open>Control_Requests\<close> show what a host is given on the control
    endpoint, under the locale \<open>ctl_link\<close>, which follows a transfer from the SETUP packet to the status stage. \<^verbatim>\<open>Usb_Interlock\<close>:
    the invariant of the interrupt enables, over every run of interrupts, polls with their control requests, and
    uses of the byte port.
  \<^item> \<^verbatim>\<open>Bounded_Queue\<close>: the contract of the byte queues, interpreted by the ring buffer of \<^verbatim>\<open>Interrupts\<close>, the buffers \<^verbatim>\<open>Ring_Buffer\<close> and
    \<^verbatim>\<open>Cbuf\<close>, and the receive buffer of \<^verbatim>\<open>Hardware_Serial\<close>.
  \<^item> \<^verbatim>\<open>Usb_Port\<close>, \<^verbatim>\<open>Flash_Block\<close>, \<^verbatim>\<open>Avr109\<close>: the byte port, \<^verbatim>\<open>ReadWriteMemoryBlock\<close> and \<^verbatim>\<open>AVR109_programmer\<close>, over the locales \<open>cdc_link\<close> (the
    queues of the host and the bytes the UART has still to hand over) and \<open>spm_link\<close> (self-programming of the pages below the
    boot loader, which is all that the chip promises). The loop of the programmer is followed turn by turn, \<open>avr109_turns\<close>: a
    page that is programmed is stored and can be read back; a host that goes silent inside a block is waited for without end.
  \<^item> \<^verbatim>\<open>Esp_Link\<close>, \<^verbatim>\<open>Boot\<close>: the ESP8266 programmer, \<^verbatim>\<open>CDC_Task\<close>, \<^verbatim>\<open>main\<close>. \<^verbatim>\<open>Frames\<close> and \<^verbatim>\<open>Boot_Safety\<close> hold for any hardware: what each part leaves
    alone, when the loader is skipped, in which state the sketch starts. \<^verbatim>\<open>Bridge\<close> shows that the bridge keeps the bytes, in
    order, and loses none unless its ring buffer is full.
  \<^item> \<^verbatim>\<open>Sim_Mcu\<close>: executable hardware that follows the data sheet, on which the locales are interpreted and the theorems applied.

  \<^bold>\<open>The Arduino core of the ATmega.\<close>
  \<^item> \<^verbatim>\<open>Cdc_Touch\<close>: the class requests of \<^verbatim>\<open>CDC.cpp\<close> and the transfers of \<^verbatim>\<open>USBCore.cpp\<close> below them; composed with \<^verbatim>\<open>Boot\<close>, the touch at 1200 baud
    is shown to end in the boot loader, and nothing else to do so.
  \<^item> \<^verbatim>\<open>Hardware_Serial\<close>: \<^verbatim>\<open>HardwareSerial.cpp\<close>. Under the locale \<open>serial_line\<close>, where the data register takes a byte only when it
    is empty, output keeps the order for every interleaving of writes and interrupts, and \<^verbatim>\<open>flush\<close> returns when all has been sent.
  \<^item> \<^verbatim>\<open>Wiring\<close>: time, \<^verbatim>\<open>wiring.c\<close>. The milliseconds are exact; under the locale \<open>timer_runs\<close>, \<^verbatim>\<open>delay\<close> returns and is never too short.
  \<^item> \<^verbatim>\<open>Arduino_Print\<close>: \<^verbatim>\<open>Print.cpp\<close> and \<^verbatim>\<open>IPAddress.cpp\<close> over the locale \<open>print_sink\<close>, which every \<open>serial_line\<close> gives. Printed addresses are read back.
  \<^item> \<^verbatim>\<open>Stream_Parse\<close>: \<^verbatim>\<open>Stream.cpp\<close> over the locale \<open>text_source\<close>, which the serial port and every \<open>timer_runs\<close> give. The search finds the first
    occurrence, printed numbers are read back. Its functions see what the port has received when they are called; bytes that
    arrive during a call are not modelled there.

  \<^bold>\<open>The ESP8266.\<close>
  \<^item> \<^verbatim>\<open>Eboot_Command\<close>: the command block in memory that survives a reset. Hand-over, and detection of any change of one word.
  \<^item> \<^verbatim>\<open>Eboot\<close>, \<^verbatim>\<open>Eboot_Update\<close>: the boot loader, and with a chip that works (locale \<open>nor_flash\<close>) the way from a command to the running image.
  \<^item> \<^verbatim>\<open>Esp_Flash\<close>, \<^verbatim>\<open>Md5_Builder\<close>, \<^verbatim>\<open>Updater\<close>: \<^verbatim>\<open>Esp.cpp\<close>, \<^verbatim>\<open>MD5Builder.cpp\<close> and \<^verbatim>\<open>Updater.cpp\<close>. \<^verbatim>\<open>Updater_Staging\<close>, \<^verbatim>\<open>Ota\<close>, \<^verbatim>\<open>Update_Sketch\<close> and \<^verbatim>\<open>Update_Source\<close> (locales
    \<open>sdk_flash\<close>, \<open>sdk_frame\<close>, \<open>sdk_stream\<close>, \<open>sdk_source\<close>): an update in pieces, from a stream or from a source is installed; what is accepted; that a
    failing update leaves the running sketch and the command block alone. The signature check is a parameter of the model; what
    is accepted is shown for the build without one.
  \<^item> \<^verbatim>\<open>Eeprom\<close>: the EEPROM library is a store whose content is what was committed last.
  \<^item> \<^verbatim>\<open>Base64\<close>, \<^verbatim>\<open>Cbuf\<close>: the codec and the circular buffer of the core.

  \<^bold>\<open>Bounds.\<close> The size \<open>cap\<close> of a flash chip is below 4 GB for the boot loader of the ESP8266 and at most 256 MB for its updater, more than any chip
  it drives, so that addresses do not wrap; the flash of the ATmega has 32 KB, of which the last 4 KB hold the boot loader; the macro for the size
  of a base64 code is exact below 2 to the 30 bytes, where its 32 bit arithmetic does not wrap; \<^verbatim>\<open>MD5Builder::addStream\<close> is shown correct for fewer than
  2 to the 31 bytes, the range of its counters; a time-out is below 2 to the 32 minus 1 milliseconds, since with the largest value
  the test of \<^verbatim>\<open>timedRead\<close> could miss the end.

  \<^bold>\<open>Not modelled.\<close> Host mode, the class drivers, the demos and the other projects of LUFA, which are not part of the image; enumeration and sending of
  \<^verbatim>\<open>USBCore.cpp\<close>; pins, tones, analog input and floating point numbers of the AVR core; the drivers and network libraries of the
  ESP8266, which are wrappers around the closed SDK; the SDK itself and the ROM, which are parameters; the firmwares of other
  boards; the factory sketches, which print and toggle pins.
\<close>

end
